(* ===== verification/Prelude.thy ===== *)
theory Prelude
  imports Main "HOL-Library.Monad_Syntax"
begin

text \<open>
  What the components share: C arrays with checked accesses, the loops of C in the option
  monad, and the rules that prove a loop returns a result that satisfies a postcondition.

  A C function is modelled as a function into an option: \<open>None\<close> is an access outside an
  array, an \<open>ABORT\<close>, or a loop that never ends. So a theorem of the form
  \<open>returns (f x) P\<close> says that \<open>f x\<close> is memory safe, ends, and yields a result that
  satisfies \<open>P\<close>.
\<close>

named_theorems arr \<open>reading, writing and the lengths of arrays\<close>
named_theorems wp \<open>postconditions of the statements of the option monad\<close>

section \<open>Results\<close>

definition returns :: "'a option \<Rightarrow> ('a \<Rightarrow> bool) \<Rightarrow> bool" where
  "returns m P = (case m of None \<Rightarrow> False | Some x \<Rightarrow> P x)"

lemma returns_Some [simp, wp]: "returns (Some x) P = P x"
  by (simp add: returns_def)

lemma returns_None [simp, wp]: "returns None P = False"
  by (simp add: returns_def)

lemma returns_iff: "returns m P \<longleftrightarrow> (\<exists>x. m = Some x \<and> P x)"
  by (cases m) auto

lemma returns_bind [simp, wp]: "returns (Option.bind m f) P = returns m (\<lambda>x. returns (f x) P)"
  by (cases m) auto

lemma returns_if [wp]:
  "returns (if b then x else y) P = ((b \<longrightarrow> returns x P) \<and> (\<not> b \<longrightarrow> returns y P))"
  by auto

lemma returns_mono: "returns m P \<Longrightarrow> (\<And>x. P x \<Longrightarrow> Q x) \<Longrightarrow> returns m Q"
  by (cases m) auto

lemma returns_bindI:
  "returns m P \<Longrightarrow> (\<And>x. P x \<Longrightarrow> returns (f x) Q) \<Longrightarrow> returns (Option.bind m f) Q"
  by (cases m) auto

lemma returns_conj: "returns m P \<Longrightarrow> returns m Q \<Longrightarrow> returns m (\<lambda>x. P x \<and> Q x)"
  by (cases m) auto

lemma returns_SomeD: "returns m P \<Longrightarrow> m = Some x \<Longrightarrow> P x"
  by simp

lemma returnsE:
  assumes "returns m P"
  obtains x where "m = Some x" and "P x"
  using assms by (cases m) auto

lemma returns_pairE:
  assumes "returns m (\<lambda>(a, b). P a b)"
  obtains a b where "m = Some (a, b)" and "P a b"
  using assms by (cases m) auto

section \<open>Arrays\<close>

text \<open>
  An array is a list, an index an \<open>int\<close> (the code uses \<open>-1\<close> and the length as
  sentinels). \<open>rd\<close> and \<open>wr\<close> are the accesses of the code and fail out of bounds;
  \<open>ix\<close> and \<open>up\<close> are the same without the check, for specifications.
\<close>

definition alen :: "'a list \<Rightarrow> int" where
  "alen a = int (length a)"

definition ix :: "'a list \<Rightarrow> int \<Rightarrow> 'a" where
  "ix a i = (if 0 \<le> i then a ! nat i else undefined)"

definition up :: "'a list \<Rightarrow> int \<Rightarrow> 'a \<Rightarrow> 'a list" where
  "up a i v = a[nat i := v]"

definition inb :: "'a list \<Rightarrow> int \<Rightarrow> bool" where
  "inb a i \<longleftrightarrow> 0 \<le> i \<and> i < alen a"

definition rd :: "'a list \<Rightarrow> int \<Rightarrow> 'a option" where
  "rd a i = (if inb a i then Some (ix a i) else None)"

definition wr :: "'a list \<Rightarrow> int \<Rightarrow> 'a \<Rightarrow> 'a list option" where
  "wr a i v = (if inb a i then Some (up a i v) else None)"

definition fill :: "int \<Rightarrow> 'a \<Rightarrow> 'a list" where
  "fill n v = replicate (nat n) v"

lemma alen_up [simp, arr]: "alen (up a i v) = alen a"
  by (simp add: alen_def up_def)

lemma alen_nonneg [simp]: "0 \<le> alen a"
  by (simp add: alen_def)

lemma inb_up [simp, arr]: "inb (up a i v) j = inb a j"
  by (simp add: inb_def)

lemma inbI: "0 \<le> i \<Longrightarrow> i < alen a \<Longrightarrow> inb a i"
  by (simp add: inb_def)

lemma alen_fill [simp, arr]: "alen (fill n v) = (if 0 \<le> n then n else 0)"
  by (simp add: alen_def fill_def)

lemma ix_fill [simp, arr]: "0 \<le> i \<Longrightarrow> i < n \<Longrightarrow> ix (fill n v) i = v"
  by (simp add: ix_def fill_def nat_less_eq_zless)

lemma ix_up: "inb a i \<Longrightarrow> ix (up a i v) = (ix a)(i := v)"
  by (auto simp: ix_def up_def inb_def alen_def nth_list_update nat_eq_iff fun_eq_iff)

lemma ix_up_app [arr]: "inb a i \<Longrightarrow> ix (up a i v) j = (if j = i then v else ix a j)"
  by (simp add: ix_up)

lemma ix_up_same [simp]: "inb a i \<Longrightarrow> ix (up a i v) i = v"
  by (simp add: ix_up)

lemma up_same [simp]: "inb a i \<Longrightarrow> up a i (ix a i) = a"
  by (simp add: up_def ix_def inb_def)

lemma returns_prod [wp]:
  "returns (case x of (a, b) \<Rightarrow> f a b) P = (case x of (a, b) \<Rightarrow> returns (f a b) P)"
  by (cases x) simp

lemma returns_rd [wp]: "returns (rd a i) P = (inb a i \<and> P (ix a i))"
  by (simp add: rd_def)

lemma returns_wr [wp]: "returns (wr a i v) P = (inb a i \<and> P (up a i v))"
  by (simp add: wr_def)

lemma rd_Some [simp]: "inb a i \<Longrightarrow> rd a i = Some (ix a i)"
  by (simp add: rd_def)

lemma wr_Some [simp]: "inb a i \<Longrightarrow> wr a i v = Some (up a i v)"
  by (simp add: wr_def)

lemma array_eqI:
  assumes "alen a = alen b" and "\<And>i. 0 \<le> i \<Longrightarrow> i < alen a \<Longrightarrow> ix a i = ix b i"
  shows "a = b"
proof (rule nth_equalityI)
  show "length a = length b" using assms(1) by (simp add: alen_def)
  fix k assume "k < length a"
  then show "a ! k = b ! k" using assms(2)[of "int k"] by (simp add: alen_def ix_def)
qed

section \<open>Loops\<close>

text \<open>\<open>for (i = lo; i < hi; i++) body\<close>, for a body that does not assign \<open>i\<close>.\<close>

function for_up :: "int \<Rightarrow> int \<Rightarrow> (int \<Rightarrow> 's \<Rightarrow> 's option) \<Rightarrow> 's \<Rightarrow> 's option" where
  "for_up lo hi body s =
     (if lo < hi then Option.bind (body lo s) (for_up (lo + 1) hi body) else Some s)"
  by pat_completeness auto
termination
  by (relation "measure (\<lambda>(lo, hi, _, _). nat (hi - lo))") auto

declare for_up.simps [simp del]

text \<open>\<open>for (i = hi; i >= lo; i--) body\<close>.\<close>

function for_down :: "int \<Rightarrow> int \<Rightarrow> (int \<Rightarrow> 's \<Rightarrow> 's option) \<Rightarrow> 's \<Rightarrow> 's option" where
  "for_down hi lo body s =
     (if lo \<le> hi then Option.bind (body hi s) (for_down (hi - 1) lo body) else Some s)"
  by pat_completeness auto
termination
  by (relation "measure (\<lambda>(hi, lo, _, _). nat (hi - lo + 1))") auto

declare for_down.simps [simp del]

text \<open>
  \<open>while (c) b\<close>. The condition may read arrays, so it may fail. A loop that does not
  end is \<open>None\<close>.
\<close>

partial_function (option) while_do ::
  "('s \<Rightarrow> bool option) \<Rightarrow> ('s \<Rightarrow> 's option) \<Rightarrow> 's \<Rightarrow> 's option" where
  "while_do c b s =
     Option.bind (c s) (\<lambda>t. if t then Option.bind (b s) (while_do c b) else Some s)"

lemma for_up_done [simp]: "hi \<le> lo \<Longrightarrow> for_up lo hi body s = Some s"
  by (simp add: for_up.simps)

lemma for_up_step: "lo < hi \<Longrightarrow>
    for_up lo hi body s = Option.bind (body lo s) (for_up (lo + 1) hi body)"
  by (simp add: for_up.simps)

lemma for_up_wp:
  assumes "I lo s"
    and "\<And>i s. lo \<le> i \<Longrightarrow> i < hi \<Longrightarrow> I i s \<Longrightarrow> returns (body i s) (I (i + 1))"
    and "\<And>s. I (max lo hi) s \<Longrightarrow> Q s"
  shows "returns (for_up lo hi body s) Q"
  using assms
proof (induction lo hi body s rule: for_up.induct)
  case (1 lo hi body s)
  show ?case
  proof (cases "lo < hi")
    case True
    from "1.prems"(1) "1.prems"(2)[of lo s] True obtain s' where
      s': "body lo s = Some s'" "I (lo + 1) s'" by (auto elim: returnsE)
    have "returns (for_up (lo + 1) hi body s') Q"
      by (rule "1.IH"[OF True s']) (use True "1.prems" in auto)
    with True s' show ?thesis by (simp add: for_up_step)
  next
    case False
    with "1.prems" show ?thesis by (simp add: max_def split: if_splits)
  qed
qed

lemma for_down_wp:
  assumes "I hi s" and "lo - 1 \<le> hi"
    and "\<And>i s. lo \<le> i \<Longrightarrow> i \<le> hi \<Longrightarrow> I i s \<Longrightarrow> returns (body i s) (I (i - 1))"
    and "\<And>s. I (lo - 1) s \<Longrightarrow> Q s"
  shows "returns (for_down hi lo body s) Q"
  using assms
proof (induction hi lo body s rule: for_down.induct)
  case (1 hi lo body s)
  show ?case
  proof (cases "lo \<le> hi")
    case True
    from "1.prems"(1) "1.prems"(3)[of hi s] True obtain s' where
      s': "body hi s = Some s'" "I (hi - 1) s'" by (auto elim: returnsE)
    have "returns (for_down (hi - 1) lo body s') Q"
      by (rule "1.IH"[OF True s']) (use True "1.prems" in auto)
    with True s' show ?thesis by (simp add: for_down.simps)
  next
    case False
    with "1.prems" have "hi = lo - 1" by simp
    with False "1.prems" show ?thesis by (simp add: for_down.simps)
  qed
qed

text \<open>
  The total correctness rule of \<open>while\<close>: the invariant makes the condition and the body
  return, the body keeps the invariant and decreases the measure.
\<close>

lemma while_do_wp:
  fixes m :: "'s \<Rightarrow> nat"
  assumes "I s"
    and "\<And>s. I s \<Longrightarrow> returns (c s)
      (\<lambda>t. if t then returns (b s) (\<lambda>s'. I s' \<and> m s' < m s) else Q s)"
  shows "returns (while_do c b s) Q"
  using assms(1)
proof (induction "m s" arbitrary: s rule: less_induct)
  case less
  from assms(2)[OF less.prems] obtain t where
    t: "c s = Some t" "if t then returns (b s) (\<lambda>s'. I s' \<and> m s' < m s) else Q s"
    by (auto elim: returnsE)
  show ?case
  proof (cases t)
    case True
    with t obtain s' where s': "b s = Some s'" "I s'" "m s' < m s" by (auto elim: returnsE)
    from less.hyps[OF s'(3,2)] t True s'(1) show ?thesis by (simp add: while_do.simps)
  next
    case False
    with t show ?thesis by (simp add: while_do.simps)
  qed
qed

section \<open>Memory from the allocator\<close>

text \<open>
  \<open>malloc n\<close> is a block of \<open>n\<close> integers with unknown contents, or \<open>None\<close> when there is
  no memory; the code then aborts. \<open>malloc_ok\<close> is the documented behaviour of an allocator
  that does not run out.
\<close>

type_synonym allocator = "int \<Rightarrow> int list option"

definition malloc_ok :: "allocator \<Rightarrow> bool" where
  "malloc_ok malloc \<longleftrightarrow> (\<forall>n\<ge>0. returns (malloc n) (\<lambda>a. alen a = n))"

lemma malloc_okD: "malloc_ok malloc \<Longrightarrow> 0 \<le> n \<Longrightarrow> returns (malloc n) (\<lambda>a. alen a = n)"
  by (simp add: malloc_ok_def)

lemma malloc_ok_fill: "malloc_ok (\<lambda>n. Some (fill n x))"
  by (simp add: malloc_ok_def)

section \<open>Scattering through an index array\<close>

text \<open>\<open>d'\<close> is \<open>d\<close> after \<open>d[p i] = g i\<close> for \<open>i < m\<close>, the \<open>p i\<close> distinct.\<close>

definition scattered :: "int \<Rightarrow> (int \<Rightarrow> int) \<Rightarrow> (int \<Rightarrow> 'a) \<Rightarrow> 'a list \<Rightarrow> 'a list \<Rightarrow> bool" where
  "scattered m p g d d' \<longleftrightarrow> alen d' = alen d \<and> (\<forall>i\<in>{0..<m}. ix d' (p i) = g i) \<and>
     (\<forall>j. j \<notin> p ` {0..<m} \<longrightarrow> ix d' j = ix d j)"

lemma scattered_0 [simp]: "scattered 0 p g d d"
  by (simp add: scattered_def)

lemma scattered_step:
  assumes "scattered i p g d d'" and "inj_on p {0..<n}" and "0 \<le> i" "i < n" and "inb d (p i)"
  shows "scattered (i + 1) p g d (up d' (p i) (g i))"
proof -
  have ne: "p k \<noteq> p i" if "k \<in> {0..<i}" for k
    using that assms(2-4) by (auto dest!: inj_onD)
  have "{0..<i + 1} = insert i {0..<i}" using assms(3) by auto
  moreover have "inb d' (p i)" using assms(1,5) by (simp add: scattered_def inb_def)
  ultimately show ?thesis using assms(1) ne by (auto simp: scattered_def ix_up)
qed

lemma scatteredD: "scattered m p g d d' \<Longrightarrow> i \<in> {0..<m} \<Longrightarrow> ix d' (p i) = g i"
  by (simp add: scattered_def)

lemma scattered_alen: "scattered m p g d d' \<Longrightarrow> alen d' = alen d"
  by (simp add: scattered_def)

end
