(* ===== verification/MemMessages.thy ===== *)
theory MemMessages
  imports Prelude
begin

text \<open>
  The messages of the memory system (\<^verbatim>\<open>MemSys/Messages/*.h\<close>, \<^verbatim>\<open>MemSys/MSTypes.h\<close>) that the
  devices exchange, the part of \<^verbatim>\<open>MemSys/EventManager.cpp\<close> a device sees (the clock, message
  numbers, what it sends and disposes of), and assertions (\<^verbatim>\<open>MemSys/Debug.h\<close>).

  Addresses, tags and ticks are natural numbers: an address is only divided by the line size and
  a tag only multiplied by it, which gives an address not above the first one.
\<close>

text \<open>\<open>None\<close> is a failed \<open>DebugAssert\<close> or a \<open>DebugFail\<close>.\<close>

definition DebugAssert :: "bool \<Rightarrow> unit option" where
  "DebugAssert b = (if b then Some () else None)"

lemma returns_DebugAssert [simp, wp]: "returns (DebugAssert b) P = (b \<and> P ())"
  by (simp add: DebugAssert_def)

datatype connection = LocalConnection | RemoteConnection | NoConnection

text \<open>\<open>onCompleted\<close>: the message carries a callback.\<close>

datatype msg =
    ReadMsg (msgID: nat) (generatingPC: nat) (addr: nat) (msize: nat)
      (requestingExclusive: bool) (alreadyHasBlock: bool) (directoryLookup: bool) (onCompleted: bool)
  | WriteMsg (msgID: nat) (generatingPC: nat) (addr: nat) (msize: nat) (onCompleted: bool)
  | InvalidateMsg (msgID: nat) (generatingPC: nat) (addr: nat) (msize: nat)
  | EvictionMsg (msgID: nat) (generatingPC: nat) (addr: nat) (msize: nat) (blockAttached: bool)
  | ReadResponseMsg (msgID: nat) (generatingPC: nat) (addr: nat) (msize: nat)
      (satisfied: bool) (blockAttached: bool) (directoryLookup: bool) (exclusiveOwnership: bool) (isDirty: bool)
      (solicitingMessage: nat)
  | WriteResponseMsg (msgID: nat) (generatingPC: nat) (addr: nat) (msize: nat) (solicitingMessage: nat)
  | InvalidateResponseMsg (msgID: nat) (generatingPC: nat) (addr: nat) (msize: nat)
      (blockAttached: bool) (solicitingMessage: nat)
  | EvictionResponseMsg (msgID: nat) (generatingPC: nat) (addr: nat) (msize: nat) (solicitingMessage: nat)
  | DirectoryNakMsg (msgID: nat) (generatingPC: nat) (addr: nat) (msize: nat)
      (isInvalidateResponse: bool) (isReadResponse: bool) (solicitingMessage: nat)
  | NetworkMsg (msgID: nat) (generatingPC: nat) (sourceNode: int) (destinationNode: int) (isOverrideSource: bool)
      (payloadMsg: msg)

fun is_read :: "msg \<Rightarrow> bool" where
  "is_read (ReadMsg _ _ _ _ _ _ _ _) = True"
| "is_read _ = False"

fun is_write :: "msg \<Rightarrow> bool" where
  "is_write (WriteMsg _ _ _ _ _) = True"
| "is_write _ = False"

fun is_invalidate :: "msg \<Rightarrow> bool" where
  "is_invalidate (InvalidateMsg _ _ _ _) = True"
| "is_invalidate _ = False"

fun is_read_response :: "msg \<Rightarrow> bool" where
  "is_read_response (ReadResponseMsg _ _ _ _ _ _ _ _ _ _) = True"
| "is_read_response _ = False"

fun is_write_response :: "msg \<Rightarrow> bool" where
  "is_write_response (WriteResponseMsg _ _ _ _ _) = True"
| "is_write_response _ = False"

fun is_eviction :: "msg \<Rightarrow> bool" where
  "is_eviction (EvictionMsg _ _ _ _ _) = True"
| "is_eviction _ = False"

fun is_eviction_response :: "msg \<Rightarrow> bool" where
  "is_eviction_response (EvictionResponseMsg _ _ _ _ _) = True"
| "is_eviction_response _ = False"

fun is_network :: "msg \<Rightarrow> bool" where
  "is_network (NetworkMsg _ _ _ _ _ _) = True"
| "is_network _ = False"

text \<open>The messages of the protocol between caches, as against those of directories and networks.\<close>

fun is_protocol :: "msg \<Rightarrow> bool" where
  "is_protocol (NetworkMsg _ _ _ _ _ _) = False"
| "is_protocol (DirectoryNakMsg _ _ _ _ _ _ _) = False"
| "is_protocol _ = True"

text \<open>\<open>IsResponse\<close> and \<open>MsgSize\<close>; an address has four bytes.\<close>

fun IsResponse :: "msg \<Rightarrow> bool" where
  "IsResponse (ReadResponseMsg _ _ _ _ _ _ _ _ _ _) = True"
| "IsResponse (WriteResponseMsg _ _ _ _ _) = True"
| "IsResponse (InvalidateResponseMsg _ _ _ _ _ _) = True"
| "IsResponse (EvictionResponseMsg _ _ _ _ _) = True"
| "IsResponse (NetworkMsg _ _ _ _ _ p) = IsResponse p"
| "IsResponse _ = False"

fun MsgSize :: "msg \<Rightarrow> nat" where
  "MsgSize (ReadMsg _ _ _ _ _ _ _ _) = 5"
| "MsgSize (WriteMsg _ _ _ sz _) = 6 + sz"
| "MsgSize (InvalidateMsg _ _ _ _) = 5"
| "MsgSize (EvictionMsg _ _ _ sz att) = 5 + (if att then sz else 0)"
| "MsgSize (ReadResponseMsg _ _ _ sz _ att _ _ _ _) = 5 + (if att then sz else 0)"
| "MsgSize (WriteResponseMsg _ _ _ _ _) = 5"
| "MsgSize (InvalidateResponseMsg _ _ _ sz att _) = 5 + (if att then sz else 0)"
| "MsgSize (EvictionResponseMsg _ _ _ _ _) = 5"
| "MsgSize (DirectoryNakMsg _ _ _ _ _ _ _) = 5"
| "MsgSize (NetworkMsg _ _ _ _ _ p) = MsgSize p + 4"

text \<open>
  Calls that a device asks the event manager to make later (\<open>ScheduleEvent\<close>), and what it does to
  the outside, in order. Connections are named by the device.
\<close>

datatype callback = CB_AttemptTransfer | CB_OnDirectoryBlockRequest msg int | CB_OnRemoteDirectoryNak msg int | CB_DeliverMsg msg

datatype 'k event = Sent 'k msg nat | Scheduled callback nat | Completed nat | Disposed nat

record 'k event_manager =
  currentTick :: nat
  currentMsgStamp :: nat
  events :: "'k event list"

text \<open>\<open>SendMsg\<close> of a message that exists, after a delay, and \<open>Create...Msg\<close>, which numbers a message.\<close>

definition SendMsg :: "'k \<Rightarrow> msg \<Rightarrow> nat \<Rightarrow> ('k, 'a) event_manager_scheme \<Rightarrow> ('k, 'a) event_manager_scheme" where
  "SendMsg k m delay s = s\<lparr>events := events s @ [Sent k m delay]\<rparr>"

definition CreateMsg :: "(nat \<Rightarrow> msg) \<Rightarrow> ('k, 'a) event_manager_scheme \<Rightarrow> msg \<times> ('k, 'a) event_manager_scheme" where
  "CreateMsg mk s = (mk (currentMsgStamp s), s\<lparr>currentMsgStamp := currentMsgStamp s + 1\<rparr>)"

definition send :: "'k \<Rightarrow> (nat \<Rightarrow> msg) \<Rightarrow> nat \<Rightarrow> ('k, 'a) event_manager_scheme \<Rightarrow> ('k, 'a) event_manager_scheme" where
  "send k mk delay s = s\<lparr>currentMsgStamp := currentMsgStamp s + 1,
     events := events s @ [Sent k (mk (currentMsgStamp s)) delay]\<rparr>"

text \<open>\<open>ReplicateMsg\<close> takes a number and then copies the whole message, number included.\<close>

definition send_replica :: "'k \<Rightarrow> msg \<Rightarrow> nat \<Rightarrow> ('k, 'a) event_manager_scheme \<Rightarrow> ('k, 'a) event_manager_scheme" where
  "send_replica k m delay s = send k (\<lambda>_. m) delay s"

definition ScheduleEvent :: "callback \<Rightarrow> nat \<Rightarrow> ('k, 'a) event_manager_scheme \<Rightarrow> ('k, 'a) event_manager_scheme" where
  "ScheduleEvent f delay s = s\<lparr>events := events s @ [Scheduled f delay]\<rparr>"

definition DisposeMsg :: "msg \<Rightarrow> ('k, 'a) event_manager_scheme \<Rightarrow> ('k, 'a) event_manager_scheme" where
  "DisposeMsg m s = s\<lparr>events := events s @ [Disposed (msgID m)]\<rparr>"

definition SignalComplete :: "msg \<Rightarrow> ('k, 'a) event_manager_scheme \<Rightarrow> ('k, 'a) event_manager_scheme" where
  "SignalComplete m s = (if onCompleted m then s\<lparr>events := events s @ [Completed (msgID m)]\<rparr> else s)"

text \<open>
  Stored calls (\<^verbatim>\<open>MemSys/StoredFunctionCall.h\<close>) of the methods that a cache defers, and the
  composition of two.
\<close>

datatype stored = CB_PerformRead msg | CB_PerformRemoteRead msg | CB_PerformWrite msg
  | CB_RetryMsg msg connection | Composit stored stored

text \<open>A deferred call is appended to those already waiting.\<close>

fun wait_after :: "stored option \<Rightarrow> stored \<Rightarrow> stored" where
  "wait_after None f = f"
| "wait_after (Some g) f = Composit g f"

section \<open>Devices\<close>

text \<open>
  The states a device can be in: it starts, time passes, and it receives the messages that the
  protocol allows in its state.
\<close>

inductive device_reach :: "('s \<Rightarrow> bool) \<Rightarrow> ('s \<Rightarrow> 's \<Rightarrow> bool) \<Rightarrow> (msg \<Rightarrow> 'k \<Rightarrow> 's \<Rightarrow> bool) \<Rightarrow>
    (msg \<Rightarrow> 'k \<Rightarrow> 's \<Rightarrow> 's option) \<Rightarrow> 's \<Rightarrow> bool" for init tick legal recv where
  device_init: "init s \<Longrightarrow> device_reach init tick legal recv s"
| device_tick: "device_reach init tick legal recv s \<Longrightarrow> tick s s' \<Longrightarrow> device_reach init tick legal recv s'"
| device_recv: "device_reach init tick legal recv s \<Longrightarrow> legal m k s \<Longrightarrow> recv m k s = Some s' \<Longrightarrow>
    device_reach init tick legal recv s'"

text \<open>What the event manager expects of a device: an invariant under which every legal message is handled.\<close>

locale device =
  fixes init :: "'s \<Rightarrow> bool" and tick :: "'s \<Rightarrow> 's \<Rightarrow> bool"
    and legal :: "msg \<Rightarrow> 'k \<Rightarrow> 's \<Rightarrow> bool" and recv :: "msg \<Rightarrow> 'k \<Rightarrow> 's \<Rightarrow> 's option"
    and inv :: "'s \<Rightarrow> bool"
  assumes init_inv: "init s \<Longrightarrow> inv s"
    and tick_inv: "inv s \<Longrightarrow> tick s s' \<Longrightarrow> inv s'"
    and recv_inv: "inv s \<Longrightarrow> legal m k s \<Longrightarrow> returns (recv m k s) inv"
begin

lemma reach_inv: "device_reach init tick legal recv s \<Longrightarrow> inv s"
proof (induction rule: device_reach.induct)
  case (device_recv s m k s')
  with recv_inv[of s m k] show ?case by simp
qed (auto intro: init_inv tick_inv)

lemma never_fails:
  assumes "device_reach init tick legal recv s" and "legal m k s"
  shows "recv m k s \<noteq> None"
  using recv_inv[OF reach_inv[OF assms(1)] assms(2)] by (cases "recv m k s") auto

end

end
