(* ===== verification/Cache.thy ===== *)
theory Cache
  imports MemMessages
begin

text \<open>
  The caches of \<^verbatim>\<open>MemSys/Devices\<close> (\<^verbatim>\<open>MSICache.cpp\<close>, \<^verbatim>\<open>MESICache.cpp\<close>, \<^verbatim>\<open>MOESICache.cpp\<close> and
  \<^verbatim>\<open>BIPMOESICache.cpp\<close>): one set-associative level that answers the processor side
  (\<open>LocalConnection\<close>) and talks to the next level (\<open>RemoteConnection\<close>). The four files hold the same
  methods; where they differ the definitions below ask a \<open>protocol\<close>, and the theory of each class
  gives its own. A handler runs to its end on the state of the cache; \<open>None\<close> is a failed assertion.
\<close>

section \<open>The coherence protocols\<close>

text \<open>
  The four classes differ in the states of a block (\<open>'st\<close>) and in what they do with them. A
  protocol collects these differences, with the places of the code where they show:
  \<open>read_only\<close>, the states other than the invalid one in which a write, or a read that asks for
  ownership, misses; \<open>exclusive\<close>, those whose read response grants ownership; \<open>granted\<close>, the state
  after a response that grants it; \<open>downgrade\<close>, the state after a remote read that does not
  ask for ownership, and \<open>marks_dirty\<close>, whether its answer is marked dirty; \<open>absorb\<close>, the state
  after data have come back from the local side, and \<open>expects_data\<close>, what is asserted before that;
  \<open>dirty\<close>, the states whose data go along with an answer or an eviction; \<open>returns_stale\<close>, whether a
  response that nobody waits for is sent back as an eviction.
\<close>

record 'st protocol =
  modified :: 'st
  shared :: 'st
  invalid :: 'st
  read_only :: "'st \<Rightarrow> bool"
  exclusive :: "'st \<Rightarrow> bool"
  granted :: 'st
  downgrade :: "'st \<Rightarrow> 'st"
  marks_dirty :: "'st \<Rightarrow> bool"
  absorb :: "'st \<Rightarrow> 'st"
  expects_data :: "'st \<Rightarrow> bool"
  dirty :: "'st \<Rightarrow> bool"
  returns_stale :: bool

section \<open>State\<close>

record 'st BlockState =
  lastRead :: nat
  lastWrite :: nat
  locked :: bool
  valid :: bool
  tag :: nat
  state :: 'st

datatype EvictionPolicy = RandomEvictionPolicy | LRUEvictionPolicy

text \<open>
  The fields that \<open>Initialize\<close> sets once. \<open>rnd k\<close> is the result of the \<open>k\<close>-th call of
  \<open>rand()\<close>.
\<close>

record config =
  hitTime :: nat
  missTime :: nat
  evictionTime :: nat
  invalidateTime :: nat
  satisfyRequestTime :: nat
  evictionPolicy :: EvictionPolicy
  rnd :: "nat \<Rightarrow> nat"
  associativity :: nat
  setCount :: nat
  lineSize :: nat
  topCache :: bool

record 'st cache = "connection event_manager" +
  cacheContents :: "'st BlockState list"
  waitingOnBlockUnlock :: "nat \<Rightarrow> stored option"
  waitingOnSetUnlock :: "stored option list"
  waitingOnRemoteReads :: "nat \<Rightarrow> stored option"
  pendingEviction :: "nat \<Rightarrow> 'st BlockState option"
  pendingInvalidate :: "nat \<Rightarrow> msg option"
  canceledBlockEviction :: "nat set"
  messagesReceived :: nat
  exclusiveReadHits :: nat
  sharedReadHits :: nat
  exclusiveReadMisses :: nat
  sharedReadMisses :: nat
  writeHits :: nat
  writeMisses :: nat
  randCalls :: nat

definition empty_block :: "'st BlockState \<Rightarrow> 'st BlockState" where
  "empty_block b = b\<lparr>valid := False, tag := 0, lastRead := 0, lastWrite := 0, locked := False\<rparr>"

text \<open>
  The state after \<open>Initialize\<close>; the \<open>state\<close> of the blocks keeps whatever value the vector
  gave it (\<open>raw\<close>).
\<close>

definition Initialize :: "config \<Rightarrow> 'st BlockState list \<Rightarrow> connection event_manager \<Rightarrow> 'st cache" where
  "Initialize c raw em =
     \<lparr>currentTick = currentTick em, currentMsgStamp = currentMsgStamp em, events = events em,
      cacheContents = map empty_block (take (setCount c * associativity c) raw),
      waitingOnBlockUnlock = (\<lambda>_. None),
      waitingOnSetUnlock = replicate (setCount c) None,
      waitingOnRemoteReads = (\<lambda>_. None),
      pendingEviction = (\<lambda>_. None),
      pendingInvalidate = (\<lambda>_. None),
      canceledBlockEviction = {},
      messagesReceived = 0, exclusiveReadHits = 0, sharedReadHits = 0, exclusiveReadMisses = 0,
      sharedReadMisses = 0, writeHits = 0, writeMisses = 0, randCalls = 0\<rparr>"

section \<open>Eviction policies\<close>

text \<open>\<open>None\<close> is a failed assertion; \<open>Some None\<close> is \<open>InvalidBlock\<close>.\<close>

definition evictable :: "'st protocol \<Rightarrow> 'st BlockState \<Rightarrow> bool" where
  "evictable \<pi> b \<longleftrightarrow> valid b \<and> state b \<noteq> invalid \<pi> \<and> \<not> locked b"

fun pick_from :: "'st protocol \<Rightarrow> nat \<Rightarrow> nat \<Rightarrow> 'st BlockState list \<Rightarrow> nat option" where
  "pick_from \<pi> i index [] = None"
| "pick_from \<pi> i index (b # bs) =
     (if evictable \<pi> b then if index = 0 then Some i else pick_from \<pi> (i + 1) (index - 1) bs
      else pick_from \<pi> (i + 1) index bs)"

definition random_Evict :: "'st protocol \<Rightarrow> nat \<Rightarrow> 'st BlockState list \<Rightarrow> nat option option" where
  "random_Evict \<pi> r blocks = do {
     DebugAssert (length blocks > 0);
     if length (filter (evictable \<pi>) blocks) = 0 then Some None
     else do { i \<leftarrow> pick_from \<pi> 0 (r mod length blocks) blocks; Some (Some i) } }"

definition max_tick :: nat where
  "max_tick = 2 ^ 64 - 1"

fun lru_from :: "'st protocol \<Rightarrow> nat \<Rightarrow> nat \<Rightarrow> nat option \<Rightarrow> 'st BlockState list \<Rightarrow> nat option" where
  "lru_from \<pi> i useTime index [] = index"
| "lru_from \<pi> i useTime index (b # bs) =
     (if evictable \<pi> b \<and> useTime > max (lastWrite b) (lastRead b)
      then lru_from \<pi> (i + 1) (max (lastWrite b) (lastRead b)) (Some i) bs
      else lru_from \<pi> (i + 1) useTime index bs)"

definition lru_Evict :: "'st protocol \<Rightarrow> 'st BlockState list \<Rightarrow> nat option option" where
  "lru_Evict \<pi> blocks = do {
     DebugAssert (length blocks > 0);
     let index = lru_from \<pi> 0 max_tick None blocks;
     if length (filter (evictable \<pi>) blocks) = 0 then Some None
     else do { DebugAssert (index \<noteq> None); Some index } }"

section \<open>Addresses, sets and blocks\<close>

definition CalcTag :: "config \<Rightarrow> nat \<Rightarrow> nat" where
  "CalcTag c a = a div lineSize c"

definition CalcAddr :: "config \<Rightarrow> nat \<Rightarrow> nat" where
  "CalcAddr c t = t * lineSize c"

definition CalcSetFromTag :: "config \<Rightarrow> nat \<Rightarrow> nat" where
  "CalcSetFromTag c t = t mod setCount c"

text \<open>\<open>GetSet\<close> gives the index of the first block of a set.\<close>

definition GetSet :: "config \<Rightarrow> nat \<Rightarrow> nat option" where
  "GetSet c i = do { DebugAssert (i < setCount c); Some (i * associativity c) }"

definition blk :: "'st cache \<Rightarrow> nat \<Rightarrow> 'st BlockState" where
  "blk s i = cacheContents s ! i"

definition upd_blk :: "nat \<Rightarrow> ('st BlockState \<Rightarrow> 'st BlockState) \<Rightarrow> 'st cache \<Rightarrow> 'st cache" where
  "upd_blk i f s = s\<lparr>cacheContents := (cacheContents s)[i := f (cacheContents s ! i)]\<rparr>"

text \<open>\<open>Lookup\<close> gives the index of the block, \<open>None\<close> for \<open>NULL\<close>.\<close>

definition Lookup :: "config \<Rightarrow> nat \<Rightarrow> 'st cache \<Rightarrow> nat option option" where
  "Lookup c t s = do {
     base \<leftarrow> GetSet c (CalcSetFromTag c t);
     Some (find (\<lambda>i. valid (blk s i) \<and> tag (blk s i) = t) [base..<base + associativity c]) }"

definition InvalidateBlock :: "'st protocol \<Rightarrow> nat \<Rightarrow> 'st cache \<Rightarrow> 'st cache option" where
  "InvalidateBlock \<pi> i s = do {
     DebugAssert (waitingOnBlockUnlock s (tag (blk s i)) = None);
     Some (upd_blk i (\<lambda>b. b\<lparr>tag := 0, lastRead := 0, lastWrite := 0, state := invalid \<pi>,
       valid := False, locked := False\<rparr>) s) }"

definition LockBlock :: "config \<Rightarrow> nat \<Rightarrow> 'st cache \<Rightarrow> 'st cache option" where
  "LockBlock c t s = do {
     l \<leftarrow> Lookup c t s;
     i \<leftarrow> l;
     DebugAssert (valid (blk s i));
     DebugAssert (\<not> locked (blk s i));
     DebugAssert (waitingOnBlockUnlock s t = None);
     Some (upd_blk i (\<lambda>b. b\<lparr>locked := True\<rparr>) s) }"

definition WaitOnBlockUnlock :: "nat \<Rightarrow> stored \<Rightarrow> 'st cache \<Rightarrow> 'st cache" where
  "WaitOnBlockUnlock t f s = s\<lparr>waitingOnBlockUnlock := (waitingOnBlockUnlock s)
     (t := Some (wait_after (waitingOnBlockUnlock s t) f))\<rparr>"

definition WaitOnRemoteReadResponse :: "nat \<Rightarrow> stored \<Rightarrow> 'st cache \<Rightarrow> 'st cache" where
  "WaitOnRemoteReadResponse t f s = s\<lparr>waitingOnRemoteReads := (waitingOnRemoteReads s)
     (t := Some (wait_after (waitingOnRemoteReads s t) f))\<rparr>"

definition WaitOnSetUnlock :: "nat \<Rightarrow> stored \<Rightarrow> 'st cache \<Rightarrow> 'st cache" where
  "WaitOnSetUnlock k f s = s\<lparr>waitingOnSetUnlock := (waitingOnSetUnlock s)
     [k := Some (wait_after (waitingOnSetUnlock s ! k) f)]\<rparr>"

section \<open>Allocation\<close>

definition PrepareFreshBlock :: "'st protocol \<Rightarrow> config \<Rightarrow> nat \<Rightarrow> nat \<Rightarrow> nat \<Rightarrow> 'st cache \<Rightarrow> 'st cache option" where
  "PrepareFreshBlock \<pi> c setNumber index t s = do {
     base \<leftarrow> GetSet c setNumber;
     let i = base + index;
     DebugAssert (\<not> locked (blk s i));
     s \<leftarrow> (case pendingEviction s t of
        None \<Rightarrow> Some (upd_blk i (\<lambda>b. b\<lparr>valid := True, tag := t, lastWrite := 0, lastRead := 0, state := invalid \<pi>\<rparr>) s)
      | Some p \<Rightarrow> do {
          let s = upd_blk i (\<lambda>_. p) (s\<lparr>canceledBlockEviction := insert t (canceledBlockEviction s)\<rparr>);
          let s = s\<lparr>pendingEviction := (pendingEviction s)(t := None)\<rparr>;
          DebugAssert (state (blk s i) \<noteq> invalid \<pi>);
          Some s });
     DebugAssert (\<not> locked (blk s i));
     Some s }"

definition EvictBlock :: "'st protocol \<Rightarrow> config \<Rightarrow> nat \<Rightarrow> 'st cache \<Rightarrow> 'st cache option" where
  "EvictBlock \<pi> c t s = do {
     l \<leftarrow> Lookup c t s;
     i \<leftarrow> l;
     DebugAssert (pendingEviction s t = None);
     DebugAssert (valid (blk s i));
     DebugAssert (\<not> locked (blk s i));
     DebugAssert (state (blk s i) \<noteq> invalid \<pi>);
     Some (send RemoteConnection (\<lambda>n. EvictionMsg n 0 (CalcAddr c (tag (blk s i))) (lineSize c)
       (lastWrite (blk s i) \<noteq> 0)) (evictionTime c) s) }"

definition Evict :: "'st protocol \<Rightarrow> config \<Rightarrow> 'st BlockState list \<Rightarrow> 'st cache \<Rightarrow> (nat option \<times> 'st cache) option" where
  "Evict \<pi> c blocks s = (case evictionPolicy c of
     RandomEvictionPolicy \<Rightarrow> do {
       e \<leftarrow> random_Evict \<pi> (rnd c (randCalls s)) blocks;
       Some (e, if filter (evictable \<pi>) blocks = [] then s else s\<lparr>randCalls := randCalls s + 1\<rparr>) }
   | LRUEvictionPolicy \<Rightarrow> do { e \<leftarrow> lru_Evict \<pi> blocks; Some (e, s) })"

definition AllocateBlock :: "'st protocol \<Rightarrow> config \<Rightarrow> nat \<Rightarrow> 'st cache \<Rightarrow> (bool \<times> 'st cache) option" where
  "AllocateBlock \<pi> c t s = do {
     base \<leftarrow> GetSet c (CalcSetFromTag c t);
     case find (\<lambda>i. \<not> valid (blk s (base + i))) [0..<associativity c] of
       Some i \<Rightarrow> do { s \<leftarrow> PrepareFreshBlock \<pi> c (CalcSetFromTag c t) i t s; Some (True, s) }
     | None \<Rightarrow> do {
         (eviction, s) \<leftarrow> Evict \<pi> c (take (associativity c) (drop base (cacheContents s))) s;
         case eviction of
           None \<Rightarrow> Some (False, s)
         | Some e \<Rightarrow>
             if topCache c then do {
               s \<leftarrow> EvictBlock \<pi> c (tag (blk s (base + e))) s;
               s \<leftarrow> PrepareFreshBlock \<pi> c (CalcSetFromTag c t) e t s;
               Some (True, s) }
             else do {
               let v = blk s (base + e);
               DebugAssert (pendingEviction s (tag v) = None);
               let s = s\<lparr>pendingEviction := (pendingEviction s)(tag v := Some v)\<rparr>;
               let s = (if pendingInvalidate s t = None
                        then send LocalConnection (\<lambda>n. InvalidateMsg n 0 (CalcAddr c (tag v)) (lineSize c)) (invalidateTime c) s
                        else s);
               s \<leftarrow> PrepareFreshBlock \<pi> c (CalcSetFromTag c t) e t s;
               Some (True, s) } } }"

section \<open>Serving requests\<close>

definition PerformRead :: "'st protocol \<Rightarrow> config \<Rightarrow> msg \<Rightarrow> 'st cache \<Rightarrow> 'st cache option" where
  "PerformRead \<pi> c m s = do {
     let t = CalcTag c (addr m);
     l \<leftarrow> Lookup c t s;
     i \<leftarrow> l;
     let b = blk s i;
     s \<leftarrow> (if state b = invalid \<pi> \<or> (requestingExclusive m \<and> read_only \<pi> (state b)) then do {
         s \<leftarrow> (if \<not> locked b then do {
             s \<leftarrow> LockBlock c t s;
             let s = (if requestingExclusive m then s\<lparr>exclusiveReadMisses := exclusiveReadMisses s + 1\<rparr>
                      else s\<lparr>sharedReadMisses := sharedReadMisses s + 1\<rparr>);
             Some (send RemoteConnection (\<lambda>n. ReadMsg n (generatingPC m) (CalcAddr c t) (lineSize c)
               (requestingExclusive m) (state b \<noteq> invalid \<pi>) False False) (missTime c) s) }
           else Some s);
         Some (WaitOnBlockUnlock t (CB_PerformRead m) s) }
       else do {
         let s = (if requestingExclusive m then s\<lparr>exclusiveReadHits := exclusiveReadHits s + 1\<rparr>
                  else s\<lparr>sharedReadHits := sharedReadHits s + 1\<rparr>);
         let s = SignalComplete m s;
         let s = send LocalConnection (\<lambda>n. ReadResponseMsg n (generatingPC m) (addr m) (msize m)
           True (\<not> alreadyHasBlock m) False (exclusive \<pi> (state b)) False (msgID m)) (hitTime c) s;
         Some (DisposeMsg m s) });
     Some (upd_blk i (\<lambda>b. b\<lparr>lastRead := currentTick s\<rparr>) s) }"

definition PerformRemoteRead :: "'st protocol \<Rightarrow> config \<Rightarrow> msg \<Rightarrow> 'st cache \<Rightarrow> 'st cache option" where
  "PerformRemoteRead \<pi> c m s = do {
     let t = CalcTag c (addr m);
     l \<leftarrow> Lookup c t s;
     let s = SignalComplete m s;
     (excl, sat, att, drt, s) \<leftarrow> (case l of
        None \<Rightarrow> Some (False, False, False, False, s)
      | Some i \<Rightarrow>
          if state (blk s i) = invalid \<pi> then Some (False, False, False, False, s)
          else if requestingExclusive m then
            if waitingOnBlockUnlock s t \<noteq> None then do {
              DebugAssert (locked (blk s i));
              Some (True, True, \<not> alreadyHasBlock m, False, upd_blk i (\<lambda>b. b\<lparr>state := invalid \<pi>\<rparr>) s) }
            else do {
              DebugAssert (\<not> locked (blk s i));
              s \<leftarrow> InvalidateBlock \<pi> i s;
              Some (True, True, \<not> alreadyHasBlock m, False, s) }
          else Some (False, True, True, marks_dirty \<pi> (state (blk s i)),
            upd_blk i (\<lambda>b. b\<lparr>state := downgrade \<pi> (state b)\<rparr>) s));
     let s = send RemoteConnection (\<lambda>n. ReadResponseMsg n (generatingPC m) (addr m) (msize m)
       sat att False excl drt (msgID m)) (hitTime c) s;
     Some (DisposeMsg m s) }"

definition PerformWrite :: "'st protocol \<Rightarrow> config \<Rightarrow> msg \<Rightarrow> 'st cache \<Rightarrow> 'st cache option" where
  "PerformWrite \<pi> c m s = do {
     let t = CalcTag c (addr m);
     l \<leftarrow> Lookup c t s;
     i \<leftarrow> l;
     let b = blk s i;
     s \<leftarrow> (if state b = invalid \<pi> \<or> read_only \<pi> (state b) then do {
         s \<leftarrow> (if \<not> locked b then do {
             s \<leftarrow> LockBlock c t s;
             let s = s\<lparr>writeMisses := writeMisses s + 1\<rparr>;
             Some (send RemoteConnection (\<lambda>n. ReadMsg n (generatingPC m) (CalcAddr c t) (lineSize c)
               True (state b \<noteq> invalid \<pi>) False False) (missTime c) s) }
           else Some s);
         Some (WaitOnBlockUnlock t (CB_PerformWrite m) s) }
       else do {
         let s = upd_blk i (\<lambda>b. b\<lparr>state := modified \<pi>\<rparr>) (s\<lparr>writeHits := writeHits s + 1\<rparr>);
         let s = SignalComplete m s;
         let s = send LocalConnection (\<lambda>n. WriteResponseMsg n (generatingPC m) (addr m) (msize m) (msgID m)) (hitTime c) s;
         Some (DisposeMsg m s) });
     Some (upd_blk i (\<lambda>b. b\<lparr>lastWrite := currentTick s\<rparr>) s) }"

definition RespondInvalidate :: "'st protocol \<Rightarrow> config \<Rightarrow> nat \<Rightarrow> 'st cache \<Rightarrow> 'st cache option" where
  "RespondInvalidate \<pi> c t s = do {
     p \<leftarrow> pendingInvalidate s t;
     b \<leftarrow> Lookup c t s;
     let (att, s) = (case b of
        Some i \<Rightarrow> (dirty \<pi> (state (blk s i)), s)
      | None \<Rightarrow> (case pendingEviction s t of
          Some e \<Rightarrow> (dirty \<pi> (state e), s\<lparr>pendingEviction := (pendingEviction s)(t := None)\<rparr>)
        | None \<Rightarrow> (False, s)));
     let s = send RemoteConnection (\<lambda>n. InvalidateResponseMsg n 0 (CalcAddr c t) (lineSize c) att (msgID p)) (invalidateTime c) s;
     s \<leftarrow> (if waitingOnBlockUnlock s t \<noteq> None then do {
         i \<leftarrow> b;
         DebugAssert (locked (blk s i));
         let s = upd_blk i (\<lambda>b. b\<lparr>state := invalid \<pi>\<rparr>) s;
         Some (send RemoteConnection (\<lambda>n. ReadMsg n (generatingPC p) (addr p) (lineSize c) False False False False) (invalidateTime c) s) }
       else (case b of Some i \<Rightarrow> InvalidateBlock \<pi> i s | None \<Rightarrow> Some s));
     let s = DisposeMsg p s;
     Some (s\<lparr>pendingInvalidate := (pendingInvalidate s)(t := None)\<rparr>) }"

section \<open>Handlers\<close>

definition OnLocalRead :: "'st protocol \<Rightarrow> config \<Rightarrow> msg \<Rightarrow> 'st cache \<Rightarrow> 'st cache option" where
  "OnLocalRead \<pi> c m s = do {
     let t = CalcTag c (addr m);
     b \<leftarrow> Lookup c t s;
     if b \<noteq> None then PerformRead \<pi> c m s
     else do {
       (ok, s) \<leftarrow> AllocateBlock \<pi> c t s;
       if ok then PerformRead \<pi> c m s
       else Some (WaitOnSetUnlock (CalcSetFromTag c t) (CB_RetryMsg m LocalConnection) s) } }"

definition OnRemoteRead :: "'st protocol \<Rightarrow> config \<Rightarrow> msg \<Rightarrow> 'st cache \<Rightarrow> 'st cache option" where
  "OnRemoteRead \<pi> c m s = do {
     let t = CalcTag c (addr m);
     b \<leftarrow> Lookup c t s;
     case b of
       Some i \<Rightarrow>
         if topCache c \<or> state (blk s i) = invalid \<pi> \<or> (\<not> requestingExclusive m \<and> read_only \<pi> (state (blk s i)))
         then PerformRemoteRead \<pi> c m s
         else Some (WaitOnRemoteReadResponse t (CB_PerformRemoteRead m)
           (send LocalConnection (\<lambda>n. ReadMsg n (generatingPC m) (addr m) (msize m) (requestingExclusive m) True False False) (hitTime c) s))
     | None \<Rightarrow> PerformRemoteRead \<pi> c m s }"

definition OnLocalWrite :: "'st protocol \<Rightarrow> config \<Rightarrow> msg \<Rightarrow> 'st cache \<Rightarrow> 'st cache option" where
  "OnLocalWrite \<pi> c m s = do {
     let t = CalcTag c (addr m);
     b \<leftarrow> Lookup c t s;
     if b \<noteq> None then PerformWrite \<pi> c m s
     else do {
       (ok, s) \<leftarrow> AllocateBlock \<pi> c t s;
       if \<not> ok then Some (WaitOnSetUnlock (CalcSetFromTag c t) (CB_RetryMsg m LocalConnection) s)
       else PerformWrite \<pi> c m s } }"

definition OnRemoteWrite :: "config \<Rightarrow> msg \<Rightarrow> 'st cache \<Rightarrow> 'st cache option" where
  "OnRemoteWrite c m s = do {
     let s = SignalComplete m s;
     let s = send RemoteConnection (\<lambda>n. WriteResponseMsg n (generatingPC m) (addr m) (msize m) (msgID m)) (satisfyRequestTime c) s;
     Some (DisposeMsg m s) }"

definition OnRemoteInvalidate :: "'st protocol \<Rightarrow> config \<Rightarrow> msg \<Rightarrow> 'st cache \<Rightarrow> 'st cache option" where
  "OnRemoteInvalidate \<pi> c m s = do {
     let t = CalcTag c (addr m);
     if pendingInvalidate s t \<noteq> None then Some (DisposeMsg m s)
     else do {
       let s = s\<lparr>pendingInvalidate := (pendingInvalidate s)(t := Some m)\<rparr>;
       if topCache c then RespondInvalidate \<pi> c t s
       else do {
         b \<leftarrow> Lookup c t s;
         if b \<noteq> None then Some (send_replica LocalConnection m 0 s)
         else RespondInvalidate \<pi> c t s } } }"

definition OnLocalEviction :: "'st protocol \<Rightarrow> config \<Rightarrow> msg \<Rightarrow> 'st cache \<Rightarrow> 'st cache option" where
  "OnLocalEviction \<pi> c m s = do {
     let t = CalcTag c (addr m);
     b \<leftarrow> Lookup c t s;
     let s = (case b of
        Some i \<Rightarrow> if blockAttached m then upd_blk i (\<lambda>b. b\<lparr>state := absorb \<pi> (state b)\<rparr>) s else s
      | None \<Rightarrow> s);
     let s = send LocalConnection (\<lambda>n. EvictionResponseMsg n (generatingPC m) (addr m) (msize m) (msgID m)) (hitTime c) s;
     Some (DisposeMsg m s) }"

definition OnRemoteEviction :: "config \<Rightarrow> msg \<Rightarrow> 'st cache \<Rightarrow> 'st cache option" where
  "OnRemoteEviction c m s =
     Some (DisposeMsg m (send RemoteConnection (\<lambda>n. EvictionResponseMsg n (generatingPC m) (addr m) (msize m) (msgID m)) (hitTime c) s))"

text \<open>The answer to an invalidation: what is done with its data, and what follows.\<close>

definition absorb_data :: "'st protocol \<Rightarrow> config \<Rightarrow> msg \<Rightarrow> 'st cache \<Rightarrow> 'st cache option" where
  "absorb_data \<pi> c m s = (let t = CalcTag c (addr m) in
     if blockAttached m then
       case pendingEviction s t of
         Some p \<Rightarrow> do {
           DebugAssert (expects_data \<pi> (state p));
           Some (s\<lparr>pendingEviction := (pendingEviction s)(t := Some (p\<lparr>state := absorb \<pi> (state p)\<rparr>))\<rparr>) }
       | None \<Rightarrow>
           if pendingInvalidate s t \<noteq> None then do {
             b \<leftarrow> Lookup c t s;
             case b of
               Some i \<Rightarrow> do {
                 DebugAssert (expects_data \<pi> (state (blk s i)));
                 Some (upd_blk i (\<lambda>b. b\<lparr>state := absorb \<pi> (state b)\<rparr>) s) }
             | None \<Rightarrow> Some s }
           else Some s
     else Some s)"

definition finish_response :: "'st protocol \<Rightarrow> config \<Rightarrow> msg \<Rightarrow> 'st cache \<Rightarrow> 'st cache option" where
  "finish_response \<pi> c m s = (let t = CalcTag c (addr m) in do {
     s \<leftarrow> (if pendingInvalidate s t \<noteq> None then RespondInvalidate \<pi> c t s else Some s);
     let s = (case pendingEviction s t of
        Some p \<Rightarrow> send RemoteConnection (\<lambda>n. EvictionMsg n (generatingPC m) (CalcAddr c t) (lineSize c)
           (dirty \<pi> (state p))) (evictionTime c) (s\<lparr>pendingEviction := (pendingEviction s)(t := None)\<rparr>)
      | None \<Rightarrow> s);
     Some (DisposeMsg m s) })"

definition OnLocalInvalidateResponse :: "'st protocol \<Rightarrow> config \<Rightarrow> msg \<Rightarrow> 'st cache \<Rightarrow> 'st cache option" where
  "OnLocalInvalidateResponse \<pi> c m s = (let t = CalcTag c (addr m) in do {
     DebugAssert (pendingEviction s t \<noteq> None \<or> pendingInvalidate s t \<noteq> None \<or> t \<in> canceledBlockEviction s);
     if t \<in> canceledBlockEviction s then do {
       DebugAssert (pendingEviction s t = None);
       DebugAssert (pendingInvalidate s t = None);
       Some (DisposeMsg m (s\<lparr>canceledBlockEviction := canceledBlockEviction s - {t}\<rparr>)) }
     else do {
       s \<leftarrow> absorb_data \<pi> c m s;
       finish_response \<pi> c m s } })"

text \<open>
  \<open>RecvMsg\<close> with the two handlers that run deferred calls as arguments: the deferred calls
  themselves go through \<open>RecvMsg\<close> again (\<open>RetryMsg\<close>), for local reads and writes only.
\<close>

definition RecvMsg_with :: "'st protocol \<Rightarrow> (msg \<Rightarrow> 'st cache \<Rightarrow> 'st cache option) \<Rightarrow> (msg \<Rightarrow> 'st cache \<Rightarrow> 'st cache option) \<Rightarrow>
    config \<Rightarrow> msg \<Rightarrow> connection \<Rightarrow> 'st cache \<Rightarrow> 'st cache option" where
  "RecvMsg_with \<pi> onLocalReadResponse onRemoteReadResponse c m k s =
     (let s = s\<lparr>messagesReceived := messagesReceived s + 1\<rparr> in
      case k of
        LocalConnection \<Rightarrow> (case m of
          ReadMsg _ _ _ _ _ _ _ _ \<Rightarrow> OnLocalRead \<pi> c m s
        | WriteMsg _ _ _ _ _ \<Rightarrow> OnLocalWrite \<pi> c m s
        | InvalidateMsg _ _ _ _ \<Rightarrow> None
        | EvictionMsg _ _ _ _ _ \<Rightarrow> OnLocalEviction \<pi> c m s
        | ReadResponseMsg _ _ _ _ _ _ _ _ _ _ \<Rightarrow> onLocalReadResponse m s
        | WriteResponseMsg _ _ _ _ _ \<Rightarrow> None
        | InvalidateResponseMsg _ _ _ _ _ _ \<Rightarrow> OnLocalInvalidateResponse \<pi> c m s
        | EvictionResponseMsg _ _ _ _ _ \<Rightarrow> None
        | _ \<Rightarrow> None)
      | RemoteConnection \<Rightarrow> (case m of
          ReadMsg _ _ _ _ _ _ _ _ \<Rightarrow> OnRemoteRead \<pi> c m s
        | WriteMsg _ _ _ _ _ \<Rightarrow> OnRemoteWrite c m s
        | InvalidateMsg _ _ _ _ \<Rightarrow> OnRemoteInvalidate \<pi> c m s
        | EvictionMsg _ _ _ _ _ \<Rightarrow> OnRemoteEviction c m s
        | ReadResponseMsg _ _ _ _ _ _ _ _ _ _ \<Rightarrow> onRemoteReadResponse m s
        | WriteResponseMsg _ _ _ _ _ \<Rightarrow> Some (DisposeMsg m s)
        | InvalidateResponseMsg _ _ _ _ _ _ \<Rightarrow> Some (DisposeMsg m s)
        | EvictionResponseMsg _ _ _ _ _ \<Rightarrow> Some (DisposeMsg m s)
        | _ \<Rightarrow> None)
      | NoConnection \<Rightarrow> None)"

fun call_stored :: "'st protocol \<Rightarrow> config \<Rightarrow> stored \<Rightarrow> 'st cache \<Rightarrow> 'st cache option" where
  "call_stored \<pi> c (CB_PerformRead m) s = PerformRead \<pi> c m s"
| "call_stored \<pi> c (CB_PerformRemoteRead m) s = PerformRemoteRead \<pi> c m s"
| "call_stored \<pi> c (CB_PerformWrite m) s = PerformWrite \<pi> c m s"
| "call_stored \<pi> c (CB_RetryMsg m k) s = RecvMsg_with \<pi> (\<lambda>_ _. None) (\<lambda>_ _. None) c m k s"
| "call_stored \<pi> c (Composit f g) s = do { s \<leftarrow> call_stored \<pi> c f s; call_stored \<pi> c g s }"

definition UnlockBlock :: "'st protocol \<Rightarrow> config \<Rightarrow> nat \<Rightarrow> 'st cache \<Rightarrow> 'st cache option" where
  "UnlockBlock \<pi> c t s = do {
     l \<leftarrow> Lookup c t s;
     i \<leftarrow> l;
     DebugAssert (valid (blk s i));
     DebugAssert (locked (blk s i));
     f \<leftarrow> waitingOnBlockUnlock s t;
     let s = upd_blk i (\<lambda>b. b\<lparr>locked := False\<rparr>) s;
     let s = s\<lparr>waitingOnBlockUnlock := (waitingOnBlockUnlock s)(t := None)\<rparr>;
     s \<leftarrow> call_stored \<pi> c f s;
     if \<not> locked (blk s i) then do {
       let k = CalcSetFromTag c t;
       case waitingOnSetUnlock s ! k of
         None \<Rightarrow> Some s
       | Some f \<Rightarrow> call_stored \<pi> c f (s\<lparr>waitingOnSetUnlock := (waitingOnSetUnlock s)[k := None]\<rparr>) }
     else Some s }"

definition OnLocalReadResponse :: "'st protocol \<Rightarrow> config \<Rightarrow> msg \<Rightarrow> 'st cache \<Rightarrow> 'st cache option" where
  "OnLocalReadResponse \<pi> c m s = do {
     let t = CalcTag c (addr m);
     s \<leftarrow> (case waitingOnRemoteReads s t of
        Some f \<Rightarrow> call_stored \<pi> c f (s\<lparr>waitingOnRemoteReads := (waitingOnRemoteReads s)(t := None)\<rparr>)
      | None \<Rightarrow> Some s);
     Some (DisposeMsg m s) }"

definition OnRemoteReadResponse :: "'st protocol \<Rightarrow> config \<Rightarrow> msg \<Rightarrow> 'st cache \<Rightarrow> 'st cache option" where
  "OnRemoteReadResponse \<pi> c m s = do {
     let t = CalcTag c (addr m);
     b \<leftarrow> Lookup c t s;
     let stale = Some (DisposeMsg m (if returns_stale \<pi>
       then send RemoteConnection (\<lambda>n. EvictionMsg n 0 (addr m) (msize m) (blockAttached m)) (evictionTime c) s else s));
     case b of
       None \<Rightarrow> stale
     | Some i \<Rightarrow>
         if \<not> locked (blk s i) then stale
         else do {
           let s = upd_blk i (\<lambda>b. b\<lparr>state := if exclusiveOwnership m then granted \<pi> else shared \<pi>\<rparr>) s;
           s \<leftarrow> UnlockBlock \<pi> c t s;
           Some (DisposeMsg m s) } }"

definition RecvMsg :: "'st protocol \<Rightarrow> config \<Rightarrow> msg \<Rightarrow> connection \<Rightarrow> 'st cache \<Rightarrow> 'st cache option" where
  "RecvMsg \<pi> c = RecvMsg_with \<pi> (OnLocalReadResponse \<pi> c) (OnRemoteReadResponse \<pi> c) c"

end
