(* ===== verification/CacheInv.thy ===== *)
theory CacheInv
  imports Cache
begin

text \<open>
  The invariant of the caches: tags are unique and lie in their set, a block is locked exactly
  when calls wait for it, a block that is being evicted is not in the cache, and every deferred
  call is one its queue may hold. Every handler keeps it, and no assertion of the code fails.
\<close>

section \<open>Deferred calls\<close>

fun block_call :: "config \<Rightarrow> nat \<Rightarrow> stored \<Rightarrow> bool" where
  "block_call c t (CB_PerformRead m) \<longleftrightarrow> is_read m \<and> CalcTag c (addr m) = t"
| "block_call c t (CB_PerformWrite m) \<longleftrightarrow> is_write m \<and> CalcTag c (addr m) = t"
| "block_call c t (Composit f g) \<longleftrightarrow> block_call c t f \<and> block_call c t g"
| "block_call c t _ \<longleftrightarrow> False"

fun remote_call :: "config \<Rightarrow> nat \<Rightarrow> stored \<Rightarrow> bool" where
  "remote_call c t (CB_PerformRemoteRead m) \<longleftrightarrow> is_read m \<and> CalcTag c (addr m) = t"
| "remote_call c t (Composit f g) \<longleftrightarrow> remote_call c t f \<and> remote_call c t g"
| "remote_call c t _ \<longleftrightarrow> False"

fun set_call :: "config \<Rightarrow> nat \<Rightarrow> stored \<Rightarrow> bool" where
  "set_call c k (CB_RetryMsg m l) \<longleftrightarrow> (is_read m \<or> is_write m) \<and> l = LocalConnection \<and>
     CalcSetFromTag c (CalcTag c (addr m)) = k"
| "set_call c k (Composit f g) \<longleftrightarrow> set_call c k f \<and> set_call c k g"
| "set_call c k _ \<longleftrightarrow> False"

lemma wait_after_call:
  "block_call c t f \<Longrightarrow> (\<And>g. w = Some g \<Longrightarrow> block_call c t g) \<Longrightarrow> block_call c t (wait_after w f)"
  "remote_call c t f \<Longrightarrow> (\<And>g. w = Some g \<Longrightarrow> remote_call c t g) \<Longrightarrow> remote_call c t (wait_after w f)"
  "set_call c k f \<Longrightarrow> (\<And>g. w = Some g \<Longrightarrow> set_call c k g) \<Longrightarrow> set_call c k (wait_after w f)"
  by (cases w; simp)+

section \<open>The invariant\<close>

definition config_ok :: "config \<Rightarrow> bool" where
  "config_ok c \<longleftrightarrow> 0 < associativity c \<and> 0 < setCount c \<and> 0 < lineSize c \<and> evictionPolicy c = LRUEvictionPolicy"

definition absent :: "'st BlockState list \<Rightarrow> nat \<Rightarrow> bool" where
  "absent B t \<longleftrightarrow> (\<forall>i<length B. valid (B ! i) \<longrightarrow> tag (B ! i) \<noteq> t)"

definition blocks_ok :: "config \<Rightarrow> 'st BlockState list \<Rightarrow> bool" where
  "blocks_ok c B \<longleftrightarrow> length B = setCount c * associativity c \<and>
     (\<forall>i<length B. \<not> valid (B ! i) \<longrightarrow> \<not> locked (B ! i)) \<and>
     (\<forall>i<length B. valid (B ! i) \<longrightarrow> i div associativity c = tag (B ! i) mod setCount c) \<and>
     (\<forall>i<length B. \<forall>j<length B. valid (B ! i) \<and> valid (B ! j) \<and> tag (B ! i) = tag (B ! j) \<longrightarrow> i = j)"

definition waits_ok :: "config \<Rightarrow> 'st BlockState list \<Rightarrow> (nat \<Rightarrow> stored option) \<Rightarrow> bool" where
  "waits_ok c B W \<longleftrightarrow> (\<forall>i<length B. valid (B ! i) \<longrightarrow> (locked (B ! i) \<longleftrightarrow> W (tag (B ! i)) \<noteq> None)) \<and>
     (\<forall>t. absent B t \<longrightarrow> W t = None) \<and> (\<forall>t f. W t = Some f \<longrightarrow> block_call c t f)"

definition evictions_ok :: "'st protocol \<Rightarrow> 'st BlockState list \<Rightarrow> (nat \<Rightarrow> 'st BlockState option) \<Rightarrow> bool" where
  "evictions_ok \<pi> B P \<longleftrightarrow> (\<forall>t b. P t = Some b \<longrightarrow>
     valid b \<and> \<not> locked b \<and> tag b = t \<and> state b \<noteq> invalid \<pi> \<and> absent B t)"

definition ticks_ok :: "nat \<Rightarrow> 'st BlockState list \<Rightarrow> (nat \<Rightarrow> 'st BlockState option) \<Rightarrow> bool" where
  "ticks_ok n B P \<longleftrightarrow> n < max_tick \<and> (\<forall>i<length B. lastRead (B ! i) \<le> n \<and> lastWrite (B ! i) \<le> n) \<and>
     (\<forall>t b. P t = Some b \<longrightarrow> lastRead b \<le> n \<and> lastWrite b \<le> n)"

definition queues_ok :: "config \<Rightarrow> stored option list \<Rightarrow> (nat \<Rightarrow> stored option) \<Rightarrow> (nat \<Rightarrow> msg option) \<Rightarrow> bool" where
  "queues_ok c S R I \<longleftrightarrow> length S = setCount c \<and> (\<forall>k<setCount c. \<forall>f. S ! k = Some f \<longrightarrow> set_call c k f) \<and>
     (\<forall>t f. R t = Some f \<longrightarrow> remote_call c t f) \<and>
     (\<forall>t m. I t = Some m \<longrightarrow> is_invalidate m \<and> CalcTag c (addr m) = t)"

definition parts_ok where
  "parts_ok \<pi> c B W S R P I n \<longleftrightarrow>
     blocks_ok c B \<and> waits_ok c B W \<and> evictions_ok \<pi> B P \<and> ticks_ok n B P \<and> queues_ok c S R I"

definition cache_ok :: "'st protocol \<Rightarrow> config \<Rightarrow> 'st cache \<Rightarrow> bool" where
  "cache_ok \<pi> c s \<longleftrightarrow> parts_ok \<pi> c (cacheContents s) (waitingOnBlockUnlock s) (waitingOnSetUnlock s)
     (waitingOnRemoteReads s) (pendingEviction s) (pendingInvalidate s) (currentTick s)"

section \<open>Changing one block\<close>

lemma absent_update:
  "i < length B \<Longrightarrow> absent (B[i := b]) t \<longleftrightarrow> (valid b \<longrightarrow> tag b \<noteq> t) \<and> (\<forall>j<length B. j \<noteq> i \<and> valid (B ! j) \<longrightarrow> tag (B ! j) \<noteq> t)"
  by (auto simp: absent_def nth_list_update)

lemma absentD: "absent B (tag (B ! i)) \<Longrightarrow> i < length B \<Longrightarrow> \<not> valid (B ! i)"
  by (auto simp: absent_def)

text \<open>A change that keeps validity, tag and lock.\<close>

lemma parts_meta:
  assumes "parts_ok \<pi> c B W S R P I n" and i: "i < length B"
    and b: "valid b = valid (B ! i)" "tag b = tag (B ! i)" "locked b = locked (B ! i)" "lastRead b \<le> n" "lastWrite b \<le> n"
  shows "parts_ok \<pi> c (B[i := b]) W S R P I n"
proof -
  have nth: "valid (B[i := b] ! j) = valid (B ! j)" "tag (B[i := b] ! j) = tag (B ! j)" "locked (B[i := b] ! j) = locked (B ! j)" for j
    using i b by (auto simp: nth_list_update)
  then have "absent (B[i := b]) t = absent B t" for t by (simp add: absent_def)
  with assms(1) nth b i show ?thesis
    by (auto simp: parts_ok_def blocks_ok_def waits_ok_def evictions_ok_def ticks_ok_def nth_list_update)
qed

lemma parts_lock:
  assumes ok: "parts_ok \<pi> c B W S R P I n" and i: "i < length B" "valid (B ! i)" "tag (B ! i) = t"
    and b: "valid b" "tag b = t" "locked b" "lastRead b \<le> n" "lastWrite b \<le> n" and f: "block_call c t f"
  shows "parts_ok \<pi> c (B[i := b]) (W(t := Some f)) S R P I n"
proof -
  have nth: "valid (B[i := b] ! j) = valid (B ! j)" "tag (B[i := b] ! j) = tag (B ! j)" for j
    using i b by (auto simp: nth_list_update)
  then have abs: "absent (B[i := b]) u = absent B u" for u by (simp add: absent_def)
  have "\<not> absent B t" using i by (auto simp: absent_def)
  moreover have "tag (B ! j) \<noteq> t" if "j < length B" "valid (B ! j)" "j \<noteq> i" for j
    using ok that i by (auto simp: parts_ok_def blocks_ok_def)
  ultimately have "waits_ok c (B[i := b]) (W(t := Some f))"
    using ok i b f abs unfolding parts_ok_def waits_ok_def by (auto simp: nth_list_update)
  with ok nth abs b i show ?thesis
    by (auto simp: parts_ok_def blocks_ok_def evictions_ok_def ticks_ok_def nth_list_update)
qed

lemma parts_unlock:
  assumes ok: "parts_ok \<pi> c B W S R P I n" and i: "i < length B" "valid (B ! i)" "tag (B ! i) = t"
    and b: "valid b" "tag b = t" "\<not> locked b" "lastRead b \<le> n" "lastWrite b \<le> n"
  shows "parts_ok \<pi> c (B[i := b]) (W(t := None)) S R P I n"
proof -
  have nth: "valid (B[i := b] ! j) = valid (B ! j)" "tag (B[i := b] ! j) = tag (B ! j)" for j
    using i b by (auto simp: nth_list_update)
  then have abs: "absent (B[i := b]) u = absent B u" for u by (simp add: absent_def)
  have "tag (B ! j) \<noteq> t" if "j < length B" "valid (B ! j)" "j \<noteq> i" for j
    using ok that i by (auto simp: parts_ok_def blocks_ok_def)
  then have "waits_ok c (B[i := b]) (W(t := None))"
    using ok i b abs unfolding parts_ok_def waits_ok_def by (auto simp: nth_list_update)
  with ok nth abs b i show ?thesis
    by (auto simp: parts_ok_def blocks_ok_def evictions_ok_def ticks_ok_def nth_list_update)
qed

text \<open>Emptying a slot whose block is not locked.\<close>

lemma parts_clear:
  assumes ok: "parts_ok \<pi> c B W S R P I n" and i: "i < length B" "\<not> locked (B ! i)"
    and b: "\<not> valid b" "\<not> locked b" "lastRead b \<le> n" "lastWrite b \<le> n"
  shows "parts_ok \<pi> c (B[i := b]) W S R P I n"
proof -
  have abs: "absent (B[i := b]) t \<longleftrightarrow> absent B t \<or> (valid (B ! i) \<and> tag (B ! i) = t)" for t
    using ok i b unfolding absent_update[OF i(1)] by (auto simp: absent_def parts_ok_def blocks_ok_def)
  have "W t = None" if "absent (B[i := b]) t" for t
    using that ok i unfolding abs parts_ok_def waits_ok_def by auto
  then have "waits_ok c (B[i := b]) W"
    using ok i b unfolding parts_ok_def waits_ok_def by (auto simp: nth_list_update)
  moreover have "evictions_ok \<pi> (B[i := b]) P" using ok abs by (auto simp: parts_ok_def evictions_ok_def)
  ultimately show ?thesis using ok i b
    by (auto simp: parts_ok_def blocks_ok_def ticks_ok_def nth_list_update)
qed

text \<open>Filling an empty slot.\<close>

lemma parts_place:
  assumes ok: "parts_ok \<pi> c B W S R P I n" and i: "i < length B" "\<not> valid (B ! i)" and t: "absent B t" "P t = None"
    and b: "valid b" "tag b = t" "\<not> locked b" "lastRead b \<le> n" "lastWrite b \<le> n"
    and set: "i div associativity c = t mod setCount c"
  shows "parts_ok \<pi> c (B[i := b]) W S R P I n"
proof -
  have abs: "absent (B[i := b]) u \<longleftrightarrow> absent B u \<and> u \<noteq> t" for u
    using i b unfolding absent_update[OF i(1)] by (auto simp: absent_def)
  have Wt: "W t = None" using ok t by (auto simp: parts_ok_def waits_ok_def)
  then have "waits_ok c (B[i := b]) W"
    using ok i b abs unfolding parts_ok_def waits_ok_def by (auto simp: nth_list_update)
  moreover have "evictions_ok \<pi> (B[i := b]) P"
    using ok t(2) unfolding parts_ok_def evictions_ok_def abs by auto
  moreover have "blocks_ok c (B[i := b])"
    using ok i b set t(1) unfolding parts_ok_def blocks_ok_def absent_def by (auto simp: nth_list_update)
  ultimately show ?thesis using ok i b by (auto simp: parts_ok_def ticks_ok_def nth_list_update)
qed

lemma parts_pend:
  assumes "parts_ok \<pi> c B W S R P I n" and "absent B (tag v)" "valid v" "\<not> locked v" "state v \<noteq> invalid \<pi>"
    "lastRead v \<le> n" "lastWrite v \<le> n"
  shows "parts_ok \<pi> c B W S R (P(tag v := Some v)) I n"
  using assms by (auto simp: parts_ok_def evictions_ok_def ticks_ok_def)

lemma parts_unpend: "parts_ok \<pi> c B W S R P I n \<Longrightarrow> parts_ok \<pi> c B W S R (P(t := None)) I n"
  by (auto simp: parts_ok_def evictions_ok_def ticks_ok_def)

section \<open>Finding blocks\<close>

lemma parts_length: "parts_ok \<pi> c B W S R P I n \<Longrightarrow> length B = setCount c * associativity c"
  by (simp add: parts_ok_def blocks_ok_def)

lemma set_range:
  assumes "k < setCount c" and "j < associativity c"
  shows "k * associativity c + j < setCount c * associativity c" and "(k * associativity c + j) div associativity c = k"
proof -
  have "k * associativity c + j < Suc k * associativity c" using assms(2) by simp
  also have "\<dots> \<le> setCount c * associativity c" using assms(1) by (intro mult_le_mono1) simp
  finally show "k * associativity c + j < setCount c * associativity c" .
  show "(k * associativity c + j) div associativity c = k" using assms(2) by simp
qed

lemma Lookup_wp:
  assumes ok: "cache_ok \<pi> c s" and cfg: "config_ok c"
  shows "returns (Lookup c t s) (\<lambda>l. case l of
      Some i \<Rightarrow> i < length (cacheContents s) \<and> valid (blk s i) \<and> tag (blk s i) = t
    | None \<Rightarrow> absent (cacheContents s) t)"
proof -
  let ?B = "cacheContents s" and ?k = "t mod setCount c" and ?a = "associativity c"
  have k: "?k < setCount c" using cfg by (simp add: config_ok_def)
  have len: "length ?B = setCount c * ?a" using ok parts_length by (auto simp: cache_ok_def)
  have in_set: "i \<in> set [?k * ?a..<?k * ?a + ?a]" if "i < length ?B" "valid (?B ! i)" "tag (?B ! i) = t" for i
  proof -
    have "i div ?a = ?k" using ok that by (auto simp: cache_ok_def parts_ok_def blocks_ok_def)
    moreover have "i = i div ?a * ?a + i mod ?a" by simp
    moreover have "i mod ?a < ?a" using cfg by (simp add: config_ok_def)
    ultimately show ?thesis by (metis add_less_cancel_left atLeastLessThan_iff le_add1 set_upt)
  qed
  have lt: "i < length ?B" if "i \<in> set [?k * ?a..<?k * ?a + ?a]" for i
  proof -
    from that have "i - ?k * ?a < ?a" "i = ?k * ?a + (i - ?k * ?a)" by auto
    with set_range(1)[OF k this(1)] len show ?thesis by simp
  qed
  show ?thesis
  proof (cases "find (\<lambda>i. valid (blk s i) \<and> tag (blk s i) = t) [?k * ?a..<?k * ?a + ?a]")
    case None
    have "absent ?B t" using in_set None unfolding absent_def find_None_iff blk_def by blast
    then show ?thesis using k None by (simp add: Lookup_def GetSet_def CalcSetFromTag_def wp)
  next
    case (Some i)
    from Some have "i \<in> set [?k * ?a..<?k * ?a + ?a]" "valid (blk s i) \<and> tag (blk s i) = t"
      unfolding find_Some_iff by (auto simp: in_set_conv_nth)
    with lt k Some show ?thesis by (simp add: Lookup_def GetSet_def CalcSetFromTag_def wp)
  qed
qed

lemma Lookup_Some:
  assumes ok: "cache_ok \<pi> c s" and cfg: "config_ok c" and i: "i < length (cacheContents s)" "valid (blk s i)" "tag (blk s i) = t"
  shows "Lookup c t s = Some (Some i)"
proof -
  from Lookup_wp[OF ok cfg, of t] obtain l where
    l: "Lookup c t s = Some l" "case l of Some i \<Rightarrow> i < length (cacheContents s) \<and> valid (blk s i) \<and> tag (blk s i) = t
      | None \<Rightarrow> absent (cacheContents s) t" by (auto elim: returnsE)
  from l(2) i have "l = Some i"
    using ok unfolding cache_ok_def parts_ok_def blocks_ok_def absent_def blk_def by (cases l) auto
  with l(1) show ?thesis by simp
qed

lemma Lookup_None:
  assumes ok: "cache_ok \<pi> c s" and cfg: "config_ok c" and "absent (cacheContents s) t"
  shows "Lookup c t s = Some None"
proof -
  from Lookup_wp[OF ok cfg, of t] obtain l where
    l: "Lookup c t s = Some l" "case l of Some i \<Rightarrow> i < length (cacheContents s) \<and> valid (blk s i) \<and> tag (blk s i) = t
      | None \<Rightarrow> absent (cacheContents s) t" by (auto elim: returnsE)
  from l(2) assms(3) have "l = None" by (cases l) (auto simp: absent_def blk_def)
  with l(1) show ?thesis by simp
qed

lemma LookupE:
  assumes "cache_ok \<pi> c s" and "config_ok c"
  obtains (hit) i where "Lookup c t s = Some (Some i)" "i < length (cacheContents s)" "valid (blk s i)" "tag (blk s i) = t"
    | (miss) "Lookup c t s = Some None" "absent (cacheContents s) t"
proof -
  from Lookup_wp[OF assms, of t] obtain l where
    l: "Lookup c t s = Some l" "case l of Some i \<Rightarrow> i < length (cacheContents s) \<and> valid (blk s i) \<and> tag (blk s i) = t
      | None \<Rightarrow> absent (cacheContents s) t" by (auto elim: returnsE)
  then show thesis using hit miss by (cases l) auto
qed

section \<open>Actions outside the cache\<close>

lemma outside [simp]:
  "cacheContents (send k f d s) = cacheContents s" "waitingOnBlockUnlock (send k f d s) = waitingOnBlockUnlock s"
  "waitingOnSetUnlock (send k f d s) = waitingOnSetUnlock s" "waitingOnRemoteReads (send k f d s) = waitingOnRemoteReads s"
  "pendingEviction (send k f d s) = pendingEviction s" "pendingInvalidate (send k f d s) = pendingInvalidate s"
  "canceledBlockEviction (send k f d s) = canceledBlockEviction s" "currentTick (send k f d s) = currentTick s"
  "cacheContents (DisposeMsg m s) = cacheContents s" "waitingOnBlockUnlock (DisposeMsg m s) = waitingOnBlockUnlock s"
  "waitingOnSetUnlock (DisposeMsg m s) = waitingOnSetUnlock s" "waitingOnRemoteReads (DisposeMsg m s) = waitingOnRemoteReads s"
  "pendingEviction (DisposeMsg m s) = pendingEviction s" "pendingInvalidate (DisposeMsg m s) = pendingInvalidate s"
  "canceledBlockEviction (DisposeMsg m s) = canceledBlockEviction s" "currentTick (DisposeMsg m s) = currentTick s"
  "cacheContents (SignalComplete m s) = cacheContents s" "waitingOnBlockUnlock (SignalComplete m s) = waitingOnBlockUnlock s"
  "waitingOnSetUnlock (SignalComplete m s) = waitingOnSetUnlock s" "waitingOnRemoteReads (SignalComplete m s) = waitingOnRemoteReads s"
  "pendingEviction (SignalComplete m s) = pendingEviction s" "pendingInvalidate (SignalComplete m s) = pendingInvalidate s"
  "canceledBlockEviction (SignalComplete m s) = canceledBlockEviction s" "currentTick (SignalComplete m s) = currentTick s"
  by (simp_all add: send_def DisposeMsg_def SignalComplete_def)

lemma blk_outside [simp]:
  "blk (send k f d s) i = blk s i" "blk (DisposeMsg m s) i = blk s i" "blk (SignalComplete m s) i = blk s i"
  by (simp_all add: blk_def)

lemma Lookup_cong: "cacheContents s' = cacheContents s \<Longrightarrow> Lookup c t s' = Lookup c t s"
  by (simp add: Lookup_def blk_def)

lemma blk_upd [simp]: "i < length (cacheContents s) \<Longrightarrow> blk (upd_blk i f s) i = f (blk s i)"
  by (simp add: blk_def upd_blk_def)

text \<open>Tags and validity of all slots, which decide what \<open>Lookup\<close> finds.\<close>

definition same_tags :: "'st cache \<Rightarrow> 'st cache \<Rightarrow> bool" where
  "same_tags s s' \<longleftrightarrow> length (cacheContents s') = length (cacheContents s) \<and>
     (\<forall>i<length (cacheContents s). valid (blk s' i) = valid (blk s i) \<and> tag (blk s' i) = tag (blk s i))"

lemma same_tags_refl: "cacheContents s' = cacheContents s \<Longrightarrow> same_tags s s'"
  by (simp add: same_tags_def blk_def)

lemma same_tags_trans: "same_tags s s' \<Longrightarrow> same_tags s' s'' \<Longrightarrow> same_tags s s''"
  by (simp add: same_tags_def)

lemma same_tags_upd:
  "cacheContents s' = (cacheContents s)[i := b] \<Longrightarrow> valid b = valid (blk s i) \<Longrightarrow> tag b = tag (blk s i) \<Longrightarrow> same_tags s s'"
  unfolding same_tags_def blk_def by (metis length_list_update nth_list_update_eq nth_list_update_neq)

lemma Lookup_same_tags:
  assumes "same_tags s s'" and "cache_ok \<pi> c s" and "cache_ok \<pi> c s'" and cfg: "config_ok c"
    and l: "Lookup c t s = Some (Some i)"
  shows "Lookup c t s' = Some (Some i)"
proof -
  have "i < length (cacheContents s) \<and> valid (blk s i) \<and> tag (blk s i) = t"
    using Lookup_wp[OF assms(2) cfg, of t] l by simp
  then show ?thesis using assms(1) by (intro Lookup_Some[OF assms(3) cfg]) (auto simp: same_tags_def)
qed

section \<open>Reads, writes and remote reads\<close>

definition frame :: "'st cache \<Rightarrow> 'st cache \<Rightarrow> bool" where
  "frame s s' \<longleftrightarrow> waitingOnSetUnlock s' = waitingOnSetUnlock s \<and> waitingOnRemoteReads s' = waitingOnRemoteReads s \<and>
     pendingEviction s' = pendingEviction s \<and> pendingInvalidate s' = pendingInvalidate s \<and>
     canceledBlockEviction s' = canceledBlockEviction s \<and> currentTick s' = currentTick s"

lemma cache_ok_meta:
  assumes "cache_ok \<pi> c s" and "i < length (cacheContents s)" and "cacheContents s' = (cacheContents s)[i := b]"
    and "waitingOnBlockUnlock s' = waitingOnBlockUnlock s" "frame s s'"
    and "valid b = valid (blk s i)" "tag b = tag (blk s i)" "locked b = locked (blk s i)"
    "lastRead b \<le> currentTick s" "lastWrite b \<le> currentTick s"
  shows "cache_ok \<pi> c s'"
  using parts_meta[OF assms(1)[unfolded cache_ok_def] assms(2), of b] assms by (simp add: cache_ok_def blk_def frame_def)

lemma cache_ok_ticks:
  "cache_ok \<pi> c s \<Longrightarrow> i < length (cacheContents s) \<Longrightarrow> lastRead (blk s i) \<le> currentTick s \<and> lastWrite (blk s i) \<le> currentTick s"
  by (simp add: cache_ok_def parts_ok_def ticks_ok_def blk_def)

lemma cache_ok_waits:
  "cache_ok \<pi> c s \<Longrightarrow> i < length (cacheContents s) \<Longrightarrow> valid (blk s i) \<Longrightarrow>
   locked (blk s i) = (waitingOnBlockUnlock s (tag (blk s i)) \<noteq> None)"
  by (simp add: cache_ok_def parts_ok_def waits_ok_def blk_def)

lemma cache_ok_call: "cache_ok \<pi> c s \<Longrightarrow> waitingOnBlockUnlock s t = Some f \<Longrightarrow> block_call c t f"
  by (simp add: cache_ok_def parts_ok_def waits_ok_def)

lemma cache_ok_wait:
  assumes ok: "cache_ok \<pi> c s" and i: "i < length (cacheContents s)" "valid (blk s i)" "tag (blk s i) = t"
    and f: "block_call c t f"
    and B: "cacheContents s' = (cacheContents s)[i := b]" "valid b" "tag b = t" "locked b"
      "lastRead b \<le> currentTick s" "lastWrite b \<le> currentTick s"
    and W: "waitingOnBlockUnlock s' = (waitingOnBlockUnlock s)(t := Some (wait_after (waitingOnBlockUnlock s t) f))"
    and eq: "frame s s'"
  shows "cache_ok \<pi> c s'"
proof -
  have "block_call c t (wait_after (waitingOnBlockUnlock s t) f)"
    by (rule wait_after_call(1)[OF f cache_ok_call[OF ok]])
  from parts_lock[OF ok[unfolded cache_ok_def], of i t _ "wait_after (waitingOnBlockUnlock s t) f", OF i[unfolded blk_def] _ _ _ _ _ this]
  show ?thesis using eq B(2-) unfolding cache_ok_def B(1) W frame_def by simp
qed

text \<open>
  What a read does to the cache: it waits on the (now) locked block, or it answers; in any case
  the time of the read is noted.
\<close>

lemma already_locked: "locked b \<Longrightarrow> b\<lparr>locked := True, lastRead := r\<rparr> = b\<lparr>lastRead := r\<rparr>"
  "locked b \<Longrightarrow> b\<lparr>locked := True, lastWrite := r\<rparr> = b\<lparr>lastWrite := r\<rparr>"
  by (cases b; simp)+

definition writable :: "'st protocol \<Rightarrow> 'st \<Rightarrow> bool" where
  "writable \<pi> st \<longleftrightarrow> st \<noteq> invalid \<pi> \<and> \<not> read_only \<pi> st"

definition read_misses :: "'st protocol \<Rightarrow> msg \<Rightarrow> 'st BlockState \<Rightarrow> bool" where
  "read_misses \<pi> m b \<longleftrightarrow> state b = invalid \<pi> \<or> (requestingExclusive m \<and> read_only \<pi> (state b))"

lemma PerformRead_miss:
  assumes "Lookup c (CalcTag c (addr m)) s = Some (Some i)" and "i < length (cacheContents s)" "valid (blk s i)"
    and "\<not> locked (blk s i) \<longrightarrow> waitingOnBlockUnlock s (CalcTag c (addr m)) = None" and "read_misses \<pi> m (blk s i)"
  shows "returns (PerformRead \<pi> c m s) (\<lambda>s'. frame s s' \<and>
    cacheContents s' = (cacheContents s)[i := (blk s i)\<lparr>locked := True, lastRead := currentTick s\<rparr>] \<and>
    waitingOnBlockUnlock s' = (waitingOnBlockUnlock s)
      (CalcTag c (addr m) := Some (wait_after (waitingOnBlockUnlock s (CalcTag c (addr m))) (CB_PerformRead m))))"
proof (cases "locked (blk s i)")
  case True
  with assms show ?thesis
    by (simp add: already_locked PerformRead_def wp Let_def read_misses_def frame_def WaitOnBlockUnlock_def upd_blk_def blk_def)
next
  case False
  with assms show ?thesis
    by (cases "requestingExclusive m"; simp add: PerformRead_def wp Let_def read_misses_def frame_def
        WaitOnBlockUnlock_def upd_blk_def blk_def LockBlock_def)
qed

lemma PerformRead_hit:
  assumes "Lookup c (CalcTag c (addr m)) s = Some (Some i)" and "i < length (cacheContents s)" and "\<not> read_misses \<pi> m (blk s i)"
  shows "returns (PerformRead \<pi> c m s) (\<lambda>s'. frame s s' \<and> waitingOnBlockUnlock s' = waitingOnBlockUnlock s \<and>
    cacheContents s' = (cacheContents s)[i := (blk s i)\<lparr>lastRead := currentTick s\<rparr>])"
  using assms
  by (cases "requestingExclusive m"; simp add: PerformRead_def wp Let_def read_misses_def frame_def upd_blk_def blk_def)

lemma PerformRead_wp:
  assumes ok: "cache_ok \<pi> c s" and cfg: "config_ok c" and m: "is_read m"
    and i: "Lookup c (CalcTag c (addr m)) s = Some (Some i)"
  shows "returns (PerformRead \<pi> c m s) (\<lambda>s'. cache_ok \<pi> c s' \<and> same_tags s s')"
proof -
  let ?t = "CalcTag c (addr m)"
  have l: "i < length (cacheContents s)" "valid (blk s i)" "tag (blk s i) = ?t"
    using Lookup_wp[OF ok cfg, of ?t] i by auto
  note tk = cache_ok_ticks[OF ok l(1)] and wt = cache_ok_waits[OF ok l(1,2)]
  have f: "block_call c ?t (CB_PerformRead m)" using m by simp
  show ?thesis
  proof (cases "read_misses \<pi> m (blk s i)")
    case True
    show ?thesis
      by (rule returns_mono[OF PerformRead_miss[OF i l(1,2) _ True]])
        (use wt l tk in \<open>auto intro: cache_ok_wait[OF ok l f] same_tags_upd\<close>)
  next
    case False
    show ?thesis
      by (rule returns_mono[OF PerformRead_hit[OF i l(1) False]])
        (use tk in \<open>auto intro: cache_ok_meta[OF ok l(1)] same_tags_upd\<close>)
  qed
qed

text \<open>The same for writes.\<close>

lemma PerformWrite_miss:
  assumes "Lookup c (CalcTag c (addr m)) s = Some (Some i)" and "i < length (cacheContents s)" "valid (blk s i)"
    and "\<not> locked (blk s i) \<longrightarrow> waitingOnBlockUnlock s (CalcTag c (addr m)) = None" and "\<not> writable \<pi> (state (blk s i))"
  shows "returns (PerformWrite \<pi> c m s) (\<lambda>s'. frame s s' \<and>
    cacheContents s' = (cacheContents s)[i := (blk s i)\<lparr>locked := True, lastWrite := currentTick s\<rparr>] \<and>
    waitingOnBlockUnlock s' = (waitingOnBlockUnlock s)
      (CalcTag c (addr m) := Some (wait_after (waitingOnBlockUnlock s (CalcTag c (addr m))) (CB_PerformWrite m))))"
proof -
  have st: "state (blk s i) = invalid \<pi> \<or> read_only \<pi> (state (blk s i))" using assms(5) by (simp add: writable_def)
  show ?thesis
  proof (cases "locked (blk s i)")
    case True
    with st assms show ?thesis
      by (simp add: already_locked PerformWrite_def wp Let_def frame_def WaitOnBlockUnlock_def upd_blk_def blk_def)
  next
    case False
    with st assms show ?thesis
      by (simp add: PerformWrite_def wp Let_def frame_def WaitOnBlockUnlock_def upd_blk_def blk_def LockBlock_def)
  qed
qed

lemma PerformWrite_hit:
  assumes "Lookup c (CalcTag c (addr m)) s = Some (Some i)" and "i < length (cacheContents s)" and "writable \<pi> (state (blk s i))"
  shows "returns (PerformWrite \<pi> c m s) (\<lambda>s'. frame s s' \<and> waitingOnBlockUnlock s' = waitingOnBlockUnlock s \<and>
    cacheContents s' = (cacheContents s)[i := (blk s i)\<lparr>state := modified \<pi>, lastWrite := currentTick s\<rparr>])"
  using assms by (simp add: PerformWrite_def wp Let_def frame_def upd_blk_def blk_def writable_def)

lemma PerformWrite_wp:
  assumes ok: "cache_ok \<pi> c s" and cfg: "config_ok c" and m: "is_write m"
    and i: "Lookup c (CalcTag c (addr m)) s = Some (Some i)"
  shows "returns (PerformWrite \<pi> c m s) (\<lambda>s'. cache_ok \<pi> c s' \<and> same_tags s s')"
proof -
  let ?t = "CalcTag c (addr m)"
  have l: "i < length (cacheContents s)" "valid (blk s i)" "tag (blk s i) = ?t"
    using Lookup_wp[OF ok cfg, of ?t] i by auto
  note tk = cache_ok_ticks[OF ok l(1)] and wt = cache_ok_waits[OF ok l(1,2)]
  have f: "block_call c ?t (CB_PerformWrite m)" using m by simp
  show ?thesis
  proof (cases "writable \<pi> (state (blk s i))")
    case False
    show ?thesis
      by (rule returns_mono[OF PerformWrite_miss[OF i l(1,2) _ False]])
        (use wt l tk in \<open>auto intro: cache_ok_wait[OF ok l f] same_tags_upd\<close>)
  next
    case True
    show ?thesis
      by (rule returns_mono[OF PerformWrite_hit[OF i l(1) True]])
        (use tk in \<open>auto intro: cache_ok_meta[OF ok l(1)] same_tags_upd\<close>)
  qed
qed

section \<open>Invalidations\<close>

definition holds :: "('st \<Rightarrow> bool) \<Rightarrow> 'st cache \<Rightarrow> nat \<Rightarrow> bool" where
  "holds Q s t \<longleftrightarrow> (\<exists>i<length (cacheContents s). valid (blk s i) \<and> tag (blk s i) = t \<and> Q (state (blk s i)))"

abbreviation readable :: "'st protocol \<Rightarrow> 'st cache \<Rightarrow> nat \<Rightarrow> bool" where
  "readable \<pi> \<equiv> holds (\<lambda>st. st \<noteq> invalid \<pi>)"

abbreviation owned :: "'st protocol \<Rightarrow> 'st cache \<Rightarrow> nat \<Rightarrow> bool" where
  "owned \<pi> \<equiv> holds (writable \<pi>)"

lemma holds_cong: "cacheContents s' = cacheContents s \<Longrightarrow> holds Q s' t = holds Q s t"
  by (simp add: holds_def blk_def)

lemma absent_holds: "absent (cacheContents s) t \<Longrightarrow> \<not> holds Q s t"
  by (auto simp: holds_def absent_def blk_def)

lemma unique_tag:
  "cache_ok \<pi> c s \<Longrightarrow> i < length (cacheContents s) \<Longrightarrow> j < length (cacheContents s) \<Longrightarrow> valid (blk s i) \<Longrightarrow>
   valid (blk s j) \<Longrightarrow> tag (blk s i) = tag (blk s j) \<Longrightarrow> i = j"
  by (simp add: cache_ok_def parts_ok_def blocks_ok_def blk_def)

text \<open>What is left of a block whose slot is overwritten.\<close>

lemma holds_upd:
  assumes ok: "cache_ok \<pi> c s" and i: "i < length (cacheContents s)" "valid (blk s i)" "tag (blk s i) = t"
    and B: "cacheContents s' = (cacheContents s)[i := b]"
  shows "(valid b \<longrightarrow> tag b = t) \<Longrightarrow> holds Q s' t \<longleftrightarrow> valid b \<and> Q (state b)"
    and "\<not> valid b \<Longrightarrow> absent (cacheContents s') t"
proof -
  have other: "\<not> (valid (blk s j) \<and> tag (blk s j) = t)" if "j < length (cacheContents s)" "j \<noteq> i" for j
    using unique_tag[OF ok i(1) that(1) i(2)] that(2) i(3) by auto
  have b': "blk s' j = (if j = i then b else blk s j)" if "j < length (cacheContents s)" for j
    using that B by (simp add: blk_def nth_list_update)
  have len: "length (cacheContents s') = length (cacheContents s)" using B by simp
  show "(valid b \<longrightarrow> tag b = t) \<Longrightarrow> holds Q s' t \<longleftrightarrow> valid b \<and> Q (state b)"
    unfolding holds_def len using b' other i(1) by metis
  show "\<not> valid b \<Longrightarrow> absent (cacheContents s') t"
    unfolding absent_def len using b' other i(1) by (metis blk_def)
qed

lemma holds_at:
  "cache_ok \<pi> c s \<Longrightarrow> i < length (cacheContents s) \<Longrightarrow> valid (blk s i) \<Longrightarrow> holds Q s (tag (blk s i)) \<longleftrightarrow> Q (state (blk s i))"
  using holds_upd(1)[of \<pi> c s i "tag (blk s i)" s "blk s i" Q] by (simp add: blk_def)

lemma cache_ok_clear:
  assumes "cache_ok \<pi> c s" and "i < length (cacheContents s)" "\<not> locked (blk s i)" and "cacheContents s' = (cacheContents s)[i := b]"
    and "waitingOnBlockUnlock s' = waitingOnBlockUnlock s" "frame s s'"
    and "\<not> valid b" "\<not> locked b" "lastRead b \<le> currentTick s" "lastWrite b \<le> currentTick s"
  shows "cache_ok \<pi> c s'"
  using parts_clear[OF assms(1)[unfolded cache_ok_def] assms(2), of b] assms by (simp add: cache_ok_def blk_def frame_def)

text \<open>A block whose lock and waiting calls agree is invalidated, or kept without its data.\<close>

definition cleared :: "'st protocol \<Rightarrow> 'st BlockState \<Rightarrow> 'st BlockState" where
  "cleared \<pi> b = b\<lparr>tag := 0, lastRead := 0, lastWrite := 0, state := invalid \<pi>, valid := False, locked := False\<rparr>"

lemma InvalidateBlock_wp:
  assumes ok: "cache_ok \<pi> c s" and i: "i < length (cacheContents s)" "valid (blk s i)" "\<not> locked (blk s i)"
  shows "returns (InvalidateBlock \<pi> i s) (\<lambda>s'. frame s s' \<and> waitingOnBlockUnlock s' = waitingOnBlockUnlock s \<and>
    cacheContents s' = (cacheContents s)[i := cleared \<pi> (blk s i)])"
  using cache_ok_waits[OF ok i(1,2)] i
  by (simp add: InvalidateBlock_def wp frame_def upd_blk_def blk_def cleared_def)

lemma cleared_simps [simp]: "\<not> valid (cleared \<pi> b)" "\<not> locked (cleared \<pi> b)" "lastRead (cleared \<pi> b) = 0" "lastWrite (cleared \<pi> b) = 0"
  by (simp_all add: cleared_def)

lemma frame_outside [simp]: "frame s (send k f d s') = frame s s'" "frame s (DisposeMsg m s') = frame s s'"
  "frame s (SignalComplete m s') = frame s s'" "frame (SignalComplete m s) s' = frame s s'"
  by (simp_all add: frame_def)

text \<open>
  A remote read leaves the block in one of two ways: its slot keeps the tag and the lock and its state
  is weakened, or the slot is emptied.
\<close>

definition given_up :: "'st protocol \<Rightarrow> msg \<Rightarrow> 'st \<Rightarrow> 'st" where
  "given_up \<pi> m st = (if st = invalid \<pi> \<or> requestingExclusive m then invalid \<pi> else downgrade \<pi> st)"

lemma PerformRemoteRead_hit:
  assumes ok: "cache_ok \<pi> c s" and i: "Lookup c (CalcTag c (addr m)) s = Some (Some i)"
    "i < length (cacheContents s)" "valid (blk s i)" "tag (blk s i) = CalcTag c (addr m)"
  shows "returns (PerformRemoteRead \<pi> c m s) (\<lambda>s'. frame s s' \<and> waitingOnBlockUnlock s' = waitingOnBlockUnlock s \<and>
    cacheContents s' = (cacheContents s)[i :=
      (if state (blk s i) \<noteq> invalid \<pi> \<and> requestingExclusive m \<and> \<not> locked (blk s i) then cleared \<pi> (blk s i)
       else (blk s i)\<lparr>state := given_up \<pi> m (state (blk s i))\<rparr>)])"
proof -
  have lk: "Lookup c (CalcTag c (addr m)) (SignalComplete m s) = Lookup c (CalcTag c (addr m)) s" by (rule Lookup_cong) simp
  note wt = cache_ok_waits[OF ok i(2,3)]
  have st: "state b = v \<Longrightarrow> b\<lparr>state := v\<rparr> = b" for b :: "'a BlockState" and v by (cases b) simp
  show ?thesis
    using i wt
    by (cases "state (blk s i) = invalid \<pi>"; cases "requestingExclusive m"; cases "locked (blk s i)")
      (auto simp: PerformRemoteRead_def wp Let_def frame_def lk blk_def upd_blk_def InvalidateBlock_def cleared_def given_up_def st)
qed

lemma PerformRemoteRead_wp:
  assumes ok: "cache_ok \<pi> c s" and cfg: "config_ok c"
  shows "returns (PerformRemoteRead \<pi> c m s) (\<lambda>s'. cache_ok \<pi> c s' \<and> frame s s' \<and>
    (\<forall>Q. holds Q s' (CalcTag c (addr m)) \<longrightarrow> holds (\<lambda>st. Q (given_up \<pi> m st)) s (CalcTag c (addr m))))"
proof -
  let ?t = "CalcTag c (addr m)"
  have lk: "Lookup c ?t (SignalComplete m s) = Lookup c ?t s" by (rule Lookup_cong) simp
  show ?thesis
    using ok cfg
  proof (cases rule: LookupE[where t = ?t])
    case miss
    have "cache_ok \<pi> c (DisposeMsg m (send k f d (SignalComplete m s)))" for k f d using ok by (simp add: cache_ok_def)
    moreover have "\<not> holds Q (DisposeMsg m (send k f d (SignalComplete m s))) ?t" for Q k f d
      by (rule absent_holds) (use miss in simp)
    ultimately show ?thesis using miss(1) by (simp add: PerformRemoteRead_def wp Let_def frame_def)
  next
    case (hit i)
    note tk = cache_ok_ticks[OF ok hit(2)]
    show ?thesis
    proof (rule returns_mono[OF PerformRemoteRead_hit[OF ok hit]], elim conjE, intro conjI allI impI)
      fix s' Q assume s': "frame s s'" "waitingOnBlockUnlock s' = waitingOnBlockUnlock s"
        "cacheContents s' = (cacheContents s)[i :=
          (if state (blk s i) \<noteq> invalid \<pi> \<and> requestingExclusive m \<and> \<not> locked (blk s i) then cleared \<pi> (blk s i)
           else (blk s i)\<lparr>state := given_up \<pi> m (state (blk s i))\<rparr>)]" (is "_ = (cacheContents s)[i := ?b]")
      show "frame s s'" by (rule s'(1))
      show "cache_ok \<pi> c s'"
      proof (cases "state (blk s i) \<noteq> invalid \<pi> \<and> requestingExclusive m \<and> \<not> locked (blk s i)")
        case True
        then show ?thesis by (intro cache_ok_clear[OF ok hit(2) _ s'(3) s'(2,1)]) auto
      next
        case False
        then show ?thesis by (intro cache_ok_meta[OF ok hit(2) s'(3,2,1)]) (use tk in auto)
      qed
      assume "holds Q s' ?t"
      then have "valid ?b \<and> Q (state ?b)" using holds_upd(1)[OF ok hit(2-4) s'(3), of Q] hit by auto
      then have "Q (given_up \<pi> m (state (blk s i)))" by (auto split: if_splits)
      with hit show "holds (\<lambda>st. Q (given_up \<pi> m st)) s ?t" unfolding holds_def by blast
    qed
  qed
qed

lemma cache_ok_pending:
  assumes "cache_ok \<pi> c s" and "cacheContents s' = cacheContents s" "waitingOnBlockUnlock s' = waitingOnBlockUnlock s"
    "waitingOnSetUnlock s' = waitingOnSetUnlock s" "waitingOnRemoteReads s' = waitingOnRemoteReads s" "currentTick s' = currentTick s"
    and "\<And>t p. pendingEviction s' t = Some p \<Longrightarrow> pendingEviction s t = Some p"
    and "\<And>t m. pendingInvalidate s' t = Some m \<Longrightarrow> pendingInvalidate s t = Some m \<or> (is_invalidate m \<and> CalcTag c (addr m) = t)"
  shows "cache_ok \<pi> c s'"
proof -
  note ok = assms(1)[unfolded cache_ok_def parts_ok_def]
  have "evictions_ok \<pi> (cacheContents s) (pendingEviction s')" using ok assms(7) unfolding evictions_ok_def by blast
  moreover have "ticks_ok (currentTick s) (cacheContents s) (pendingEviction s')"
    using ok assms(7) unfolding ticks_ok_def by blast
  moreover have "queues_ok c (waitingOnSetUnlock s) (waitingOnRemoteReads s) (pendingInvalidate s')"
    using ok assms(8) unfolding queues_ok_def by blast
  ultimately show ?thesis using ok unfolding cache_ok_def parts_ok_def assms(2-6) by blast
qed

text \<open>
  After the answer to an invalidation neither the block nor a pending eviction of it is left; a
  block that calls wait for keeps its slot and its lock, without data.
\<close>

lemma pending_absent: "cache_ok \<pi> c s \<Longrightarrow> pendingEviction s t = Some p \<Longrightarrow> absent (cacheContents s) t"
  by (simp add: cache_ok_def parts_ok_def evictions_ok_def)

lemma RespondInvalidate_wp:
  assumes ok: "cache_ok \<pi> c s" and cfg: "config_ok c" and p: "pendingInvalidate s t = Some p"
  shows "returns (RespondInvalidate \<pi> c t s) (\<lambda>s'. cache_ok \<pi> c s' \<and> \<not> readable \<pi> s' t \<and>
    pendingEviction s' = (pendingEviction s)(t := None) \<and> pendingInvalidate s' = (pendingInvalidate s)(t := None) \<and>
    canceledBlockEviction s' = canceledBlockEviction s)"
  using ok cfg
proof (cases rule: LookupE[where t = t])
  case miss
  have w: "waitingOnBlockUnlock s t = None" using ok miss(2) by (simp add: cache_ok_def parts_ok_def waits_ok_def)
  have un: "\<not> readable \<pi> s' t" if "cacheContents s' = cacheContents s" for s'
    by (metis absent_holds miss(2) that)
  show ?thesis
    using miss(1) p w
    by (cases "pendingEviction s t"; auto simp: RespondInvalidate_def wp Let_def un fun_upd_idem
        intro!: cache_ok_pending[OF ok] split: if_splits)
next
  case (hit i)
  note tk = cache_ok_ticks[OF ok hit(2)] and wt = cache_ok_waits[OF ok hit(2,3)]
  have P: "pendingEviction s t = None"
  proof (rule ccontr)
    assume "pendingEviction s t \<noteq> None"
    then have "absent (cacheContents s) t" using pending_absent[OF ok] by blast
    with hit show False by (auto simp: absent_def blk_def)
  qed
  show ?thesis
  proof (cases "locked (blk s i)")
    case True
    then have w: "waitingOnBlockUnlock s t \<noteq> None" using wt hit by simp
    let ?b = "(blk s i)\<lparr>state := invalid \<pi>\<rparr>"
    have core: "cache_ok \<pi> c (upd_blk i (\<lambda>b. b\<lparr>state := invalid \<pi>\<rparr>) s)"
      by (rule cache_ok_meta[OF ok hit(2), where b = ?b]) (use tk in \<open>auto simp: upd_blk_def blk_def frame_def\<close>)
    have ok': "cache_ok \<pi> c s'" if "cacheContents s' = (cacheContents s)[i := ?b]" "waitingOnBlockUnlock s' = waitingOnBlockUnlock s"
      "waitingOnSetUnlock s' = waitingOnSetUnlock s" "waitingOnRemoteReads s' = waitingOnRemoteReads s" "currentTick s' = currentTick s"
      "pendingEviction s' = pendingEviction s" "pendingInvalidate s' = (pendingInvalidate s)(t := None)" for s'
      by (rule cache_ok_pending[OF core]) (use that in \<open>auto simp: upd_blk_def blk_def split: if_splits\<close>)
    have un: "\<not> readable \<pi> s' t" if "cacheContents s' = (cacheContents s)[i := ?b]" for s'
      using holds_upd(1)[OF ok hit(2-4) that] hit by simp
    have "returns (RespondInvalidate \<pi> c t s) (\<lambda>s'. cacheContents s' = (cacheContents s)[i := ?b] \<and>
        waitingOnBlockUnlock s' = waitingOnBlockUnlock s \<and> waitingOnSetUnlock s' = waitingOnSetUnlock s \<and>
        waitingOnRemoteReads s' = waitingOnRemoteReads s \<and> currentTick s' = currentTick s \<and>
        pendingEviction s' = pendingEviction s \<and> pendingInvalidate s' = (pendingInvalidate s)(t := None) \<and>
        canceledBlockEviction s' = canceledBlockEviction s)"
      using hit(1,2) p w True P by (auto simp: RespondInvalidate_def wp Let_def upd_blk_def blk_def)
    then show ?thesis by (rule returns_mono) (auto simp: P fun_upd_idem intro: ok' dest: un)
  next
    case False
    then have w: "waitingOnBlockUnlock s t = None" using wt hit by simp
    have core: "cache_ok \<pi> c (upd_blk i (cleared \<pi>) s)"
      by (rule cache_ok_clear[OF ok hit(2) False, where b = "cleared \<pi> (blk s i)"]) (auto simp: upd_blk_def blk_def frame_def)
    have ok': "cache_ok \<pi> c s'" if "cacheContents s' = (cacheContents s)[i := cleared \<pi> (blk s i)]" "waitingOnBlockUnlock s' = waitingOnBlockUnlock s"
      "waitingOnSetUnlock s' = waitingOnSetUnlock s" "waitingOnRemoteReads s' = waitingOnRemoteReads s" "currentTick s' = currentTick s"
      "pendingEviction s' = pendingEviction s" "pendingInvalidate s' = (pendingInvalidate s)(t := None)" for s'
      by (rule cache_ok_pending[OF core]) (use that in \<open>auto simp: upd_blk_def blk_def split: if_splits\<close>)
    have un: "\<not> readable \<pi> s' t" if "cacheContents s' = (cacheContents s)[i := cleared \<pi> (blk s i)]" for s'
      using holds_upd(1)[OF ok hit(2-4) that] by simp
    have "returns (RespondInvalidate \<pi> c t s) (\<lambda>s'. cacheContents s' = (cacheContents s)[i := cleared \<pi> (blk s i)] \<and>
        waitingOnBlockUnlock s' = waitingOnBlockUnlock s \<and> waitingOnSetUnlock s' = waitingOnSetUnlock s \<and>
        waitingOnRemoteReads s' = waitingOnRemoteReads s \<and> currentTick s' = currentTick s \<and>
        pendingEviction s' = pendingEviction s \<and> pendingInvalidate s' = (pendingInvalidate s)(t := None) \<and>
        canceledBlockEviction s' = canceledBlockEviction s)"
      using hit p w False P
      by (auto simp: RespondInvalidate_def InvalidateBlock_def wp Let_def upd_blk_def blk_def cleared_def)
    then show ?thesis by (rule returns_mono) (auto simp: P fun_upd_idem intro: ok' dest: un)
  qed
qed

section \<open>Least recently used\<close>

abbreviation used_at :: "'st BlockState \<Rightarrow> nat" where
  "used_at b \<equiv> max (lastWrite b) (lastRead b)"

lemma lru_from_wp:
  assumes "lru_from \<pi> k u x B = r"
  shows "case r of None \<Rightarrow> x = None \<and> (\<forall>b\<in>set B. evictable \<pi> b \<longrightarrow> u \<le> used_at b)
    | Some j \<Rightarrow> (x = Some j \<and> (\<forall>b\<in>set B. evictable \<pi> b \<longrightarrow> u \<le> used_at b)) \<or>
        (k \<le> j \<and> j - k < length B \<and> evictable \<pi> (B ! (j - k)) \<and> used_at (B ! (j - k)) < u \<and>
         (\<forall>b\<in>set B. evictable \<pi> b \<longrightarrow> used_at (B ! (j - k)) \<le> used_at b))"
  using assms
proof (induction B arbitrary: k u x)
  case Nil
  then show ?case by (auto split: option.splits)
next
  case (Cons b B)
  have sub: "Suc k \<le> j \<Longrightarrow> (b # B) ! (j - k) = B ! (j - Suc k)" for j by (simp add: nth_Cons')
  show ?case
  proof (cases "evictable \<pi> b \<and> u > used_at b")
    case True
    with Cons.prems have "lru_from \<pi> (Suc k) (used_at b) (Some k) B = r" by simp
    note ih = Cons.IH[OF this]
    show ?thesis
    proof (cases r)
      case (Some j)
      with ih consider "j = k" "\<forall>b'\<in>set B. evictable \<pi> b' \<longrightarrow> used_at b \<le> used_at b'"
        | "Suc k \<le> j" "j - Suc k < length B" "evictable \<pi> (B ! (j - Suc k))" "used_at (B ! (j - Suc k)) < used_at b"
          "\<forall>b'\<in>set B. evictable \<pi> b' \<longrightarrow> used_at (B ! (j - Suc k)) \<le> used_at b'" by auto
      then show ?thesis using Some True by cases (auto simp: sub)
    qed (use ih in simp)
  next
    case False
    with Cons.prems have "lru_from \<pi> (Suc k) u x B = r" by auto
    note ih = Cons.IH[OF this]
    show ?thesis
    proof (cases r)
      case None
      with ih False show ?thesis by auto
    next
      case (Some j)
      with ih consider "x = Some j" "\<forall>b'\<in>set B. evictable \<pi> b' \<longrightarrow> u \<le> used_at b'"
        | "Suc k \<le> j" "j - Suc k < length B" "evictable \<pi> (B ! (j - Suc k))" "used_at (B ! (j - Suc k)) < u"
          "\<forall>b'\<in>set B. evictable \<pi> b' \<longrightarrow> used_at (B ! (j - Suc k)) \<le> used_at b'" by auto
      then show ?thesis using Some False by cases (auto simp: sub)
    qed
  qed
qed

lemma lru_Evict_wp:
  assumes "B \<noteq> []" and "\<forall>b\<in>set B. used_at b < max_tick"
  shows "returns (lru_Evict \<pi> B) (\<lambda>e. case e of None \<Rightarrow> \<forall>b\<in>set B. \<not> evictable \<pi> b
    | Some j \<Rightarrow> j < length B \<and> evictable \<pi> (B ! j) \<and> (\<forall>b\<in>set B. evictable \<pi> b \<longrightarrow> used_at (B ! j) \<le> used_at b))"
proof -
  define r where "r = lru_from \<pi> 0 max_tick None B"
  have P: "case r of None \<Rightarrow> \<forall>b\<in>set B. evictable \<pi> b \<longrightarrow> max_tick \<le> used_at b
    | Some j \<Rightarrow> j < length B \<and> evictable \<pi> (B ! j) \<and> (\<forall>b\<in>set B. evictable \<pi> b \<longrightarrow> used_at (B ! j) \<le> used_at b)"
    using lru_from_wp[OF r_def[symmetric]] by (cases r) auto
  have f: "filter (evictable \<pi>) B = [] \<longleftrightarrow> (\<forall>b\<in>set B. \<not> evictable \<pi> b)" by (simp add: filter_empty_conv)
  show ?thesis
  proof (cases r)
    case None
    with P have "\<forall>b\<in>set B. evictable \<pi> b \<longrightarrow> max_tick \<le> used_at b" by simp
    then have none: "\<forall>b\<in>set B. \<not> evictable \<pi> b" using assms(2) not_le by blast
    then have "filter (evictable \<pi>) B = []" unfolding f .
    with assms(1) have "lru_Evict \<pi> B = Some None" by (simp add: lru_Evict_def Let_def DebugAssert_def)
    with none show ?thesis by simp
  next
    case (Some j)
    with P have j: "j < length B \<and> evictable \<pi> (B ! j) \<and> (\<forall>b\<in>set B. evictable \<pi> b \<longrightarrow> used_at (B ! j) \<le> used_at b)" by simp
    then have "filter (evictable \<pi>) B \<noteq> []" unfolding f using nth_mem by blast
    with Some assms(1) have "lru_Evict \<pi> B = Some (Some j)"
      unfolding r_def by (simp add: lru_Evict_def Let_def DebugAssert_def)
    with j show ?thesis by simp
  qed
qed

end
