(* ===== verification/CacheSafe.thy ===== *)
theory CacheSafe
  imports CacheInv
begin

text \<open>
  Allocation, the handlers and \<open>RecvMsg\<close> keep the invariant and never fail an assertion, for every
  message the protocol allows in the state and for every protocol that obeys the laws of the locale
  \<open>coherence\<close>.
\<close>

section \<open>Allocation\<close>

lemma PrepareFreshBlock_wp:
  assumes cfg: "config_ok c" and idx: "index < associativity c" and i: "i = CalcSetFromTag c t * associativity c + index"
    and ok: "parts_ok \<pi> c ((cacheContents s)[i := cleared \<pi> (blk s i)]) (waitingOnBlockUnlock s) (waitingOnSetUnlock s)
      (waitingOnRemoteReads s) (pendingEviction s) (pendingInvalidate s) (currentTick s)"
    and ul: "\<not> locked (blk s i)" and t: "absent ((cacheContents s)[i := cleared \<pi> (blk s i)]) t"
  shows "returns (PrepareFreshBlock \<pi> c (CalcSetFromTag c t) index t s) (\<lambda>s'. cache_ok \<pi> c s' \<and> Lookup c t s' = Some (Some i))"
proof -
  let ?k = "CalcSetFromTag c t"
  let ?B = "cacheContents s"
  have k: "?k < setCount c" using cfg by (simp add: CalcSetFromTag_def config_ok_def)
  have len: "i < length ?B" using parts_length[OF ok] set_range(1)[OF k idx] i by simp
  have set: "i div associativity c = t mod setCount c" using set_range(2)[OF k idx] i by (simp add: CalcSetFromTag_def)
  have inv: "\<not> valid (?B[i := cleared \<pi> (blk s i)] ! i)" using len by simp
  have fin: "cache_ok \<pi> c s' \<and> Lookup c t s' = Some (Some i)"
    if b: "valid b" "tag b = t" "\<not> locked b" "lastRead b \<le> currentTick s" "lastWrite b \<le> currentTick s"
      and s': "cacheContents s' = ?B[i := b]" "waitingOnBlockUnlock s' = waitingOnBlockUnlock s"
        "waitingOnSetUnlock s' = waitingOnSetUnlock s" "waitingOnRemoteReads s' = waitingOnRemoteReads s"
        "pendingEviction s' = (pendingEviction s)(t := None)" "pendingInvalidate s' = pendingInvalidate s"
        "currentTick s' = currentTick s" for b s'
  proof
    have "parts_ok \<pi> c (?B[i := cleared \<pi> (blk s i)]) (waitingOnBlockUnlock s) (waitingOnSetUnlock s)
      (waitingOnRemoteReads s) ((pendingEviction s)(t := None)) (pendingInvalidate s) (currentTick s)"
      by (rule parts_unpend[OF ok])
    from parts_place[OF this _ inv t _ b set] len show ok': "cache_ok \<pi> c s'"
      by (simp add: cache_ok_def s')
    show "Lookup c t s' = Some (Some i)"
      by (rule Lookup_Some[OF ok' cfg]) (use len b s'(1) in \<open>simp_all add: blk_def\<close>)
  qed
  show ?thesis
  proof (cases "pendingEviction s t")
    case None
    let ?b = "(blk s i)\<lparr>valid := True, tag := t, lastWrite := 0, lastRead := 0, state := invalid \<pi>\<rparr>"
    have "returns (PrepareFreshBlock \<pi> c ?k index t s) (\<lambda>s'. cacheContents s' = ?B[i := ?b] \<and> waitingOnBlockUnlock s' = waitingOnBlockUnlock s \<and>
        waitingOnSetUnlock s' = waitingOnSetUnlock s \<and> waitingOnRemoteReads s' = waitingOnRemoteReads s \<and>
        pendingEviction s' = (pendingEviction s)(t := None) \<and> pendingInvalidate s' = pendingInvalidate s \<and> currentTick s' = currentTick s)"
      using None ul k len by (simp add: PrepareFreshBlock_def GetSet_def wp Let_def upd_blk_def blk_def fun_upd_idem flip: i)
    then show ?thesis by (rule returns_mono) (rule fin[of ?b]; use ul in simp)
  next
    case (Some p)
    from ok Some have p: "valid p" "\<not> locked p" "tag p = t" "state p \<noteq> invalid \<pi>" "lastRead p \<le> currentTick s" "lastWrite p \<le> currentTick s"
      by (auto simp: parts_ok_def evictions_ok_def ticks_ok_def)
    have "returns (PrepareFreshBlock \<pi> c ?k index t s) (\<lambda>s'. cacheContents s' = ?B[i := p] \<and> waitingOnBlockUnlock s' = waitingOnBlockUnlock s \<and>
        waitingOnSetUnlock s' = waitingOnSetUnlock s \<and> waitingOnRemoteReads s' = waitingOnRemoteReads s \<and>
        pendingEviction s' = (pendingEviction s)(t := None) \<and> pendingInvalidate s' = pendingInvalidate s \<and> currentTick s' = currentTick s)"
      using Some ul k len p by (simp add: PrepareFreshBlock_def GetSet_def wp Let_def upd_blk_def blk_def flip: i)
    then show ?thesis by (rule returns_mono) (rule fin[of p]; use p in simp)
  qed
qed

lemma AllocateBlock_wp:
  assumes ok: "cache_ok \<pi> c s" and cfg: "config_ok c" and t: "absent (cacheContents s) t"
  shows "returns (AllocateBlock \<pi> c t s) (\<lambda>(b, s'). cache_ok \<pi> c s' \<and> (b \<longrightarrow> (\<exists>i. Lookup c t s' = Some (Some i))))"
proof -
  let ?k = "CalcSetFromTag c t" and ?a = "associativity c" and ?B = "cacheContents s"
  have k: "?k < setCount c" using cfg by (simp add: CalcSetFromTag_def config_ok_def)
  have lenB: "length ?B = setCount c * ?a" using ok parts_length by (auto simp: cache_ok_def)
  have lt: "?k * ?a + j < length ?B" if "j < ?a" for j using set_range(1)[OF k that] lenB by simp
  have clr: "parts_ok \<pi> c (?B[i := cleared \<pi> (blk s i)]) (waitingOnBlockUnlock s) (waitingOnSetUnlock s)
      (waitingOnRemoteReads s) (pendingEviction s) (pendingInvalidate s) (currentTick s)"
    if "i < length ?B" "\<not> locked (blk s i)" for i
    using parts_clear[OF ok[unfolded cache_ok_def] that(1)] that(2) by (simp add: blk_def)
  have abs: "absent (?B[i := cleared \<pi> (blk s i)]) t" if "i < length ?B" for i
    using t that unfolding absent_update[OF that] by (auto simp: absent_def)
  show ?thesis
  proof (cases "find (\<lambda>i. \<not> valid (blk s (?k * ?a + i))) [0..<?a]")
    case (Some j)
    then have j: "j < ?a" "\<not> valid (blk s (?k * ?a + j))" unfolding find_Some_iff by auto
    let ?i = "?k * ?a + j"
    have ul: "\<not> locked (blk s ?i)" using ok j lt[OF j(1)] by (simp add: cache_ok_def parts_ok_def blocks_ok_def blk_def)
    from PrepareFreshBlock_wp[OF cfg j(1) refl clr[OF lt[OF j(1)] ul] ul abs[OF lt[OF j(1)]]]
    show ?thesis using k Some by (auto simp: AllocateBlock_def GetSet_def wp elim!: returns_mono)
  next
    case None
    let ?S = "take ?a (drop (?k * ?a) ?B)"
    have "?k * ?a + ?a \<le> setCount c * ?a" using k by (metis Suc_leI add.commute mult_Suc mult_le_mono1)
    then have lenS: "length ?S = ?a" using lenB by simp
    have S: "?S ! j = blk s (?k * ?a + j)" if "j < ?a" for j using that lenS by (simp add: blk_def)
    have ne: "?S \<noteq> []" using lenS cfg by (auto simp: config_ok_def)
    have tk: "\<forall>b\<in>set ?S. used_at b < max_tick"
    proof
      fix b assume "b \<in> set ?S"
      then have "b \<in> set ?B" by (meson in_set_dropD in_set_takeD)
      then obtain j where "j < length ?B" "b = ?B ! j" by (auto simp: in_set_conv_nth)
      with ok show "used_at b < max_tick"
        unfolding cache_ok_def parts_ok_def ticks_ok_def by (metis le_less_trans max_def)
    qed
    from lru_Evict_wp[OF ne tk] obtain e where e: "lru_Evict \<pi> ?S = Some e"
      "case e of None \<Rightarrow> \<forall>b\<in>set ?S. \<not> evictable \<pi> b
        | Some j \<Rightarrow> j < length ?S \<and> evictable \<pi> (?S ! j) \<and> (\<forall>b\<in>set ?S. evictable \<pi> b \<longrightarrow> used_at (?S ! j) \<le> used_at b)"
      by (rule returnsE)
    have pol: "evictionPolicy c = LRUEvictionPolicy" using cfg by (simp add: config_ok_def)
    show ?thesis
    proof (cases e)
      case None
      with e ok k \<open>find _ _ = None\<close> pol show ?thesis by (simp add: AllocateBlock_def GetSet_def Evict_def wp)
    next
      case (Some j)
      let ?i = "?k * ?a + j" and ?v = "blk s (?k * ?a + j)"
      from e(2) Some lenS have j: "j < ?a" by simp
      with e(2) Some S have v: "valid ?v" "state ?v \<noteq> invalid \<pi>" "\<not> locked ?v" by (auto simp: evictable_def)
      note li = lt[OF j]
      have P: "pendingEviction s (tag ?v) = None"
      proof (rule ccontr)
        assume "pendingEviction s (tag ?v) \<noteq> None"
        then have "absent ?B (tag ?v)" using pending_absent[OF ok] by blast
        with v li show False by (auto simp: absent_def blk_def)
      qed
      have lk: "Lookup c (tag ?v) s = Some (Some ?i)" by (rule Lookup_Some[OF ok cfg li v(1) refl])
      note tks = cache_ok_ticks[OF ok li]
      have absv: "absent (?B[?i := cleared \<pi> ?v]) (tag ?v)"
      proof -
        have "tag (?B ! q) \<noteq> tag ?v" if "q < length ?B" "q \<noteq> ?i" "valid (?B ! q)" for q
          using unique_tag[OF ok li that(1) v(1)] that by (auto simp: blk_def)
        then show ?thesis unfolding absent_update[OF li] by simp
      qed
      show ?thesis
      proof (cases "topCache c")
        case True
        let ?s = "send RemoteConnection (\<lambda>n. EvictionMsg n 0 (CalcAddr c (tag ?v)) (lineSize c) (lastWrite ?v \<noteq> 0)) (evictionTime c) s"
        have "returns (PrepareFreshBlock \<pi> c ?k j t ?s) (\<lambda>s'. cache_ok \<pi> c s' \<and> Lookup c t s' = Some (Some ?i))"
          by (rule PrepareFreshBlock_wp[OF cfg j refl]) (use clr[OF li v(3)] v abs[OF li] in simp_all)
        then show ?thesis using k \<open>find _ _ = None\<close> e(1) Some pol True P v lk
          by (auto simp: AllocateBlock_def GetSet_def Evict_def EvictBlock_def wp elim!: returns_mono)
      next
        case False
        have core: "parts_ok \<pi> c (?B[?i := cleared \<pi> ?v]) (waitingOnBlockUnlock s) (waitingOnSetUnlock s) (waitingOnRemoteReads s)
            ((pendingEviction s)(tag ?v := Some ?v)) (pendingInvalidate s) (currentTick s)"
          by (rule parts_pend[OF clr[OF li v(3)] absv]) (use v tks in auto)
        define s1 where "s1 = s\<lparr>pendingEviction := (pendingEviction s)(tag ?v := Some ?v)\<rparr>"
        define s2 where "s2 = (if pendingInvalidate s1 t = None
          then send LocalConnection (\<lambda>n. InvalidateMsg n 0 (CalcAddr c (tag ?v)) (lineSize c)) (invalidateTime c) s1 else s1)"
        have s2: "cacheContents s2 = ?B" "waitingOnBlockUnlock s2 = waitingOnBlockUnlock s" "waitingOnSetUnlock s2 = waitingOnSetUnlock s"
            "waitingOnRemoteReads s2 = waitingOnRemoteReads s" "pendingEviction s2 = (pendingEviction s)(tag ?v := Some ?v)"
            "pendingInvalidate s2 = pendingInvalidate s" "currentTick s2 = currentTick s"
          by (simp_all add: s2_def s1_def)
        have "returns (PrepareFreshBlock \<pi> c ?k j t s2) (\<lambda>s'. cache_ok \<pi> c s' \<and> Lookup c t s' = Some (Some ?i))"
          by (rule PrepareFreshBlock_wp[OF cfg j refl]) (use core v abs[OF li] s2 in \<open>simp_all add: blk_def\<close>)
        then obtain s' where s': "PrepareFreshBlock \<pi> c ?k j t s2 = Some s'" "cache_ok \<pi> c s' \<and> Lookup c t s' = Some (Some ?i)"
          by (rule returnsE)
        have "AllocateBlock \<pi> c t s = do { s \<leftarrow> PrepareFreshBlock \<pi> c ?k j t s2; Some (True, s) }"
          unfolding s2_def s1_def using k \<open>find _ _ = None\<close> e(1) Some pol False P
          by (simp add: AllocateBlock_def GetSet_def Evict_def DebugAssert_def Let_def)
        with s' show ?thesis by simp
      qed
    qed
  qed
qed

section \<open>Handlers\<close>

lemma cache_ok_same:
  assumes "cache_ok \<pi> c s" and "cacheContents s' = cacheContents s" "waitingOnBlockUnlock s' = waitingOnBlockUnlock s"
    "waitingOnSetUnlock s' = waitingOnSetUnlock s" "waitingOnRemoteReads s' = waitingOnRemoteReads s"
    "pendingEviction s' = pendingEviction s" "pendingInvalidate s' = pendingInvalidate s" "currentTick s' = currentTick s"
  shows "cache_ok \<pi> c s'"
  using assms by (simp add: cache_ok_def)

lemma cache_ok_outside [simp]: "cache_ok \<pi> c (send k f d s) = cache_ok \<pi> c s" "cache_ok \<pi> c (DisposeMsg m s) = cache_ok \<pi> c s"
  "cache_ok \<pi> c (SignalComplete m s) = cache_ok \<pi> c s" "cache_ok \<pi> c (s\<lparr>messagesReceived := n\<rparr>) = cache_ok \<pi> c s"
  by (simp_all add: cache_ok_def)

lemma cache_ok_set_wait:
  assumes ok: "cache_ok \<pi> c s" and k: "k < setCount c" and f: "set_call c k f"
  shows "cache_ok \<pi> c (WaitOnSetUnlock k f s)"
proof -
  have w: "set_call c k (wait_after (waitingOnSetUnlock s ! k) f)"
    by (rule wait_after_call(3)[OF f]) (use ok k in \<open>simp add: cache_ok_def parts_ok_def queues_ok_def\<close>)
  have len: "length (waitingOnSetUnlock s) = setCount c" using ok by (simp add: cache_ok_def parts_ok_def queues_ok_def)
  have "queues_ok c ((waitingOnSetUnlock s)[k := Some (wait_after (waitingOnSetUnlock s ! k) f)]) (waitingOnRemoteReads s) (pendingInvalidate s)"
    using ok w k len unfolding cache_ok_def parts_ok_def queues_ok_def by (auto simp: nth_list_update)
  with ok show ?thesis by (simp add: cache_ok_def parts_ok_def WaitOnSetUnlock_def)
qed

lemma cache_ok_set_clear:
  assumes ok: "cache_ok \<pi> c s"
  shows "cache_ok \<pi> c (s\<lparr>waitingOnSetUnlock := (waitingOnSetUnlock s)[k := None]\<rparr>)"
proof -
  have "queues_ok c ((waitingOnSetUnlock s)[k := None]) (waitingOnRemoteReads s) (pendingInvalidate s)"
  proof -
    have "(waitingOnSetUnlock s)[k := None] ! j = Some f \<Longrightarrow> waitingOnSetUnlock s ! j = Some f" for j f
      by (cases "k < length (waitingOnSetUnlock s)"; cases "j = k") (auto simp: list_update_beyond)
    then show ?thesis using ok unfolding cache_ok_def parts_ok_def queues_ok_def by simp
  qed
  with ok show ?thesis by (simp add: cache_ok_def parts_ok_def)
qed

lemma cache_ok_remote_wait:
  assumes ok: "cache_ok \<pi> c s" and f: "remote_call c t f"
  shows "cache_ok \<pi> c (WaitOnRemoteReadResponse t f s)"
proof -
  have w: "remote_call c t (wait_after (waitingOnRemoteReads s t) f)"
    by (rule wait_after_call(2)[OF f]) (use ok in \<open>simp add: cache_ok_def parts_ok_def queues_ok_def\<close>)
  with ok show ?thesis by (simp add: cache_ok_def parts_ok_def WaitOnRemoteReadResponse_def queues_ok_def)
qed

lemma set_lt: "config_ok c \<Longrightarrow> CalcSetFromTag c t < setCount c"
  by (simp add: CalcSetFromTag_def config_ok_def)

text \<open>A request that finds no block allocates one, or waits for its set.\<close>

lemma OnLocalRead_wp:
  assumes ok: "cache_ok \<pi> c s" and cfg: "config_ok c" and m: "is_read m"
  shows "returns (OnLocalRead \<pi> c m s) (cache_ok \<pi> c)"
  using ok cfg
proof (cases rule: LookupE[where t = "CalcTag c (addr m)"])
  case (hit i)
  then show ?thesis using PerformRead_wp[OF ok cfg m hit(1)]
    by (auto simp: OnLocalRead_def wp Let_def elim: returns_mono)
next
  case miss
  have "returns (case r of (b, s') \<Rightarrow> if b then PerformRead \<pi> c m s'
      else Some (WaitOnSetUnlock (CalcSetFromTag c (CalcTag c (addr m))) (CB_RetryMsg m LocalConnection) s')) (cache_ok \<pi> c)"
    if "case r of (b, s') \<Rightarrow> cache_ok \<pi> c s' \<and> (b \<longrightarrow> (\<exists>i. Lookup c (CalcTag c (addr m)) s' = Some (Some i)))" for r
    using that m cfg
    by (auto split: if_splits intro!: cache_ok_set_wait[OF _ set_lt] intro: returns_mono[OF PerformRead_wp])
  from returns_bindI[OF AllocateBlock_wp[OF ok cfg miss(2)] this] miss(1) show ?thesis by (simp add: OnLocalRead_def Let_def)
qed

lemma OnLocalWrite_wp:
  assumes ok: "cache_ok \<pi> c s" and cfg: "config_ok c" and m: "is_write m"
  shows "returns (OnLocalWrite \<pi> c m s) (cache_ok \<pi> c)"
  using ok cfg
proof (cases rule: LookupE[where t = "CalcTag c (addr m)"])
  case (hit i)
  then show ?thesis using PerformWrite_wp[OF ok cfg m hit(1)]
    by (auto simp: OnLocalWrite_def wp Let_def elim: returns_mono)
next
  case miss
  have "returns (case r of (b, s') \<Rightarrow> if \<not> b
      then Some (WaitOnSetUnlock (CalcSetFromTag c (CalcTag c (addr m))) (CB_RetryMsg m LocalConnection) s')
      else PerformWrite \<pi> c m s') (cache_ok \<pi> c)"
    if "case r of (b, s') \<Rightarrow> cache_ok \<pi> c s' \<and> (b \<longrightarrow> (\<exists>i. Lookup c (CalcTag c (addr m)) s' = Some (Some i)))" for r
    using that m cfg
    by (auto split: if_splits intro!: cache_ok_set_wait[OF _ set_lt] intro: returns_mono[OF PerformWrite_wp])
  from returns_bindI[OF AllocateBlock_wp[OF ok cfg miss(2)] this] miss(1) show ?thesis by (simp add: OnLocalWrite_def Let_def)
qed

lemma OnRemoteRead_wp:
  assumes ok: "cache_ok \<pi> c s" and cfg: "config_ok c" and m: "is_read m"
  shows "returns (OnRemoteRead \<pi> c m s) (cache_ok \<pi> c)"
  using ok cfg
proof (cases rule: LookupE[where t = "CalcTag c (addr m)"])
  case (hit i)
  have "cache_ok \<pi> c (WaitOnRemoteReadResponse (CalcTag c (addr m)) (CB_PerformRemoteRead m) (send k f d s))" for k f d
    by (rule cache_ok_remote_wait) (use ok m in auto)
  then show ?thesis using hit(1) returns_mono[OF PerformRemoteRead_wp[OF ok cfg, of m], of "cache_ok \<pi> c"]
    by (auto simp: OnRemoteRead_def Let_def)
next
  case miss
  then show ?thesis using returns_mono[OF PerformRemoteRead_wp[OF ok cfg, of m], of "cache_ok \<pi> c"]
    by (auto simp: OnRemoteRead_def Let_def)
qed

lemma OnRemoteInvalidate_wp:
  assumes ok: "cache_ok \<pi> c s" and cfg: "config_ok c" and m: "is_invalidate m"
  shows "returns (OnRemoteInvalidate \<pi> c m s) (cache_ok \<pi> c)"
proof (cases "pendingInvalidate s (CalcTag c (addr m))")
  case (Some p)
  with ok show ?thesis by (simp add: OnRemoteInvalidate_def Let_def)
next
  case None
  let ?t = "CalcTag c (addr m)" and ?s = "s\<lparr>pendingInvalidate := (pendingInvalidate s)(CalcTag c (addr m) := Some m)\<rparr>"
  have ok': "cache_ok \<pi> c ?s" by (rule cache_ok_pending[OF ok]) (use m in \<open>auto split: if_splits\<close>)
  have r: "returns (RespondInvalidate \<pi> c ?t ?s) (cache_ok \<pi> c)"
    by (rule returns_mono[OF RespondInvalidate_wp[OF ok' cfg, of ?t m]]) auto
  have "cache_ok \<pi> c (send_replica k m 0 ?s)" for k using ok' by (simp add: send_replica_def)
  with r None show ?thesis using ok' cfg
    by (cases rule: LookupE[OF ok' cfg, where t = ?t]) (auto simp: OnRemoteInvalidate_def Let_def)
qed

lemma OnLocalEviction_wp:
  assumes ok: "cache_ok \<pi> c s" and cfg: "config_ok c"
  shows "returns (OnLocalEviction \<pi> c m s) (cache_ok \<pi> c)"
  using ok cfg
proof (cases rule: LookupE[where t = "CalcTag c (addr m)"])
  case (hit i)
  have "cache_ok \<pi> c (upd_blk i (\<lambda>b. b\<lparr>state := absorb \<pi> (state b)\<rparr>) s)"
    by (rule cache_ok_meta[OF ok hit(2), where b = "(blk s i)\<lparr>state := absorb \<pi> (state (blk s i))\<rparr>"])
      (use cache_ok_ticks[OF ok hit(2)] in \<open>auto simp: upd_blk_def blk_def frame_def\<close>)
  with hit(1) ok show ?thesis by (simp add: OnLocalEviction_def Let_def)
next
  case miss
  with ok show ?thesis by (simp add: OnLocalEviction_def Let_def)
qed

section \<open>The answer to an invalidation\<close>

text \<open>
  The answer to an invalidation this cache sent to its local side is expected if an eviction or an
  invalidation is pending, and its data (if any) belong to a block in a state the code accepts, or
  if it answers an eviction that was cancelled.
\<close>

definition response_expected :: "'st protocol \<Rightarrow> config \<Rightarrow> msg \<Rightarrow> 'st cache \<Rightarrow> bool" where
  "response_expected \<pi> c m s \<longleftrightarrow> (let t = CalcTag c (addr m) in
     if t \<in> canceledBlockEviction s then pendingEviction s t = None \<and> pendingInvalidate s t = None
     else (pendingEviction s t \<noteq> None \<or> pendingInvalidate s t \<noteq> None) \<and>
       (blockAttached m \<longrightarrow> (case pendingEviction s t of Some p \<Rightarrow> expects_data \<pi> (state p)
          | None \<Rightarrow> holds (expects_data \<pi>) s t \<or> absent (cacheContents s) t)))"

lemma finish_response_wp:
  assumes ok: "cache_ok \<pi> c s" and cfg: "config_ok c"
  shows "returns (finish_response \<pi> c m s) (cache_ok \<pi> c)"
proof -
  let ?t = "CalcTag c (addr m)"
  have unp: "cache_ok \<pi> c (send k f d (s'\<lparr>pendingEviction := (pendingEviction s')(?t := None)\<rparr>))" if "cache_ok \<pi> c s'" for k f d s'
    unfolding cache_ok_outside by (rule cache_ok_pending[OF that]) (auto split: if_splits)
  show ?thesis
  proof (cases "pendingInvalidate s ?t")
    case None
    with ok unp show ?thesis by (cases "pendingEviction s ?t") (simp_all add: finish_response_def Let_def)
  next
    case (Some p)
    have "returns (Option.bind (RespondInvalidate \<pi> c ?t s) (\<lambda>s. Some (DisposeMsg m (case pendingEviction s ?t of
          Some p \<Rightarrow> send RemoteConnection (\<lambda>n. EvictionMsg n (generatingPC m) (CalcAddr c ?t) (lineSize c)
             (dirty \<pi> (state p))) (evictionTime c) (s\<lparr>pendingEviction := (pendingEviction s)(?t := None)\<rparr>)
        | None \<Rightarrow> s)))) (cache_ok \<pi> c)"
      by (rule returns_bindI[OF RespondInvalidate_wp[OF ok cfg Some]]) auto
    with Some show ?thesis by (simp add: finish_response_def Let_def)
  qed
qed

text \<open>
  The laws of a coherence protocol that the proofs need: data from the local side keep a block
  valid; a remote read that does not ask for ownership leaves a valid block that can be read only;
  ownership is granted, and answered, exactly with the states that allow a write.
\<close>

locale coherence =
  fixes \<pi> :: "'st protocol"
  assumes absorb_valid: "st \<noteq> invalid \<pi> \<Longrightarrow> absorb \<pi> st \<noteq> invalid \<pi>"
    and downgrade_read_only: "st \<noteq> invalid \<pi> \<Longrightarrow> downgrade \<pi> st \<noteq> invalid \<pi> \<and> read_only \<pi> (downgrade \<pi> st)"
    and granted_writable: "writable \<pi> (granted \<pi>)"
    and modified_writable: "writable \<pi> (modified \<pi>)"
    and shared_readable: "shared \<pi> \<noteq> invalid \<pi>"
    and exclusive_writable: "st \<noteq> invalid \<pi> \<Longrightarrow> exclusive \<pi> st \<longleftrightarrow> writable \<pi> st"
begin

lemma absorb_data_wp:
  assumes ok: "cache_ok \<pi> c s" and cfg: "config_ok c" and m: "response_expected \<pi> c m s"
    and nc: "CalcTag c (addr m) \<notin> canceledBlockEviction s"
  shows "returns (absorb_data \<pi> c m s) (cache_ok \<pi> c)"
proof (cases "blockAttached m")
  case True
  let ?t = "CalcTag c (addr m)"
  show ?thesis
  proof (cases "pendingEviction s ?t")
    case (Some p)
    let ?p = "p\<lparr>state := absorb \<pi> (state p)\<rparr>"
    have p: "valid p" "\<not> locked p" "tag p = ?t" "state p \<noteq> invalid \<pi>" "absent (cacheContents s) ?t"
      "lastRead p \<le> currentTick s" "lastWrite p \<le> currentTick s"
      using ok Some by (auto simp: cache_ok_def parts_ok_def evictions_ok_def ticks_ok_def)
    have "cache_ok \<pi> c (s\<lparr>pendingEviction := (pendingEviction s)(?t := Some ?p)\<rparr>)"
      using parts_pend[OF ok[unfolded cache_ok_def], of ?p] p absorb_valid by (simp add: cache_ok_def)
    moreover have "expects_data \<pi> (state p)" using m nc True Some by (simp add: response_expected_def Let_def)
    ultimately show ?thesis using True Some by (simp add: absorb_data_def Let_def)
  next
    case None
    show ?thesis
      using ok cfg
    proof (cases rule: LookupE[where t = ?t])
      case miss
      with True None ok show ?thesis by (simp add: absorb_data_def Let_def)
    next
      case (hit i)
      have "holds (expects_data \<pi>) s ?t" using m True nc None hit by (auto simp: response_expected_def Let_def absent_def blk_def)
      then have "expects_data \<pi> (state (blk s i))" using holds_at[OF ok hit(2,3)] hit(4) by metis
      moreover have "cache_ok \<pi> c (upd_blk i (\<lambda>b. b\<lparr>state := absorb \<pi> (state b)\<rparr>) s)"
        by (rule cache_ok_meta[OF ok hit(2), where b = "(blk s i)\<lparr>state := absorb \<pi> (state (blk s i))\<rparr>"])
          (use cache_ok_ticks[OF ok hit(2)] in \<open>auto simp: upd_blk_def blk_def frame_def\<close>)
      ultimately show ?thesis using True None hit ok by (simp add: absorb_data_def Let_def)
    qed
  qed
qed (use ok in \<open>simp add: absorb_data_def\<close>)

lemma OnLocalInvalidateResponse_wp:
  assumes ok: "cache_ok \<pi> c s" and cfg: "config_ok c" and m: "response_expected \<pi> c m s"
  shows "returns (OnLocalInvalidateResponse \<pi> c m s) (cache_ok \<pi> c)"
proof (cases "CalcTag c (addr m) \<in> canceledBlockEviction s")
  case True
  have "cache_ok \<pi> c (s\<lparr>canceledBlockEviction := X\<rparr>)" for X using ok by (simp add: cache_ok_def)
  with m True show ?thesis by (simp add: OnLocalInvalidateResponse_def response_expected_def Let_def wp)
next
  case False
  have "pendingEviction s (CalcTag c (addr m)) \<noteq> None \<or> pendingInvalidate s (CalcTag c (addr m)) \<noteq> None"
    using m False by (simp add: response_expected_def Let_def)
  with returns_bindI[OF absorb_data_wp[OF ok cfg m False] finish_response_wp[OF _ cfg]] False
  show ?thesis by (simp add: OnLocalInvalidateResponse_def Let_def DebugAssert_def)
qed

end

section \<open>Deferred calls and unlocking\<close>

lemma RecvMsg_retry_wp:
  assumes "cache_ok \<pi> c s" and cfg: "config_ok c" and "set_call c k (CB_RetryMsg m l)"
  shows "returns (RecvMsg_with \<pi> h g c m l s) (cache_ok \<pi> c)"
proof -
  from assms(1) have "cache_ok \<pi> c (s\<lparr>messagesReceived := messagesReceived s + 1\<rparr>)" by simp
  from OnLocalRead_wp[OF this cfg, of m] OnLocalWrite_wp[OF this cfg, of m] assms(3) show ?thesis
    by (cases m) (auto simp: RecvMsg_with_def Let_def)
qed

lemma call_set_wp:
  "set_call c k f \<Longrightarrow> cache_ok \<pi> c s \<Longrightarrow> config_ok c \<Longrightarrow> returns (call_stored \<pi> c f s) (cache_ok \<pi> c)"
proof (induction f arbitrary: s)
  case (CB_RetryMsg m l)
  then show ?case using RecvMsg_retry_wp[of \<pi> c s k m l] by simp
next
  case (Composit f g)
  then have "returns (call_stored \<pi> c f s) (cache_ok \<pi> c)" by simp
  then show ?case unfolding call_stored.simps by (rule returns_bindI) (use Composit in simp)
qed auto

lemma call_block_wp:
  "block_call c t f \<Longrightarrow> cache_ok \<pi> c s \<Longrightarrow> config_ok c \<Longrightarrow> Lookup c t s = Some (Some i) \<Longrightarrow>
   returns (call_stored \<pi> c f s) (\<lambda>s'. cache_ok \<pi> c s' \<and> same_tags s s')"
proof (induction f arbitrary: s)
  case (CB_PerformRead m)
  then show ?case using PerformRead_wp[of \<pi> c s m i] by auto
next
  case (CB_PerformWrite m)
  then show ?case using PerformWrite_wp[of \<pi> c s m i] by auto
next
  case (Composit f g)
  have "returns (call_stored \<pi> c f s) (\<lambda>s'. cache_ok \<pi> c s' \<and> same_tags s s')" using Composit by simp
  then show ?case unfolding call_stored.simps
  proof (rule returns_bindI, elim conjE)
    fix s' assume s': "cache_ok \<pi> c s'" "same_tags s s'"
    have "Lookup c t s' = Some (Some i)"
      by (rule Lookup_same_tags[OF s'(2) Composit.prems(2) s'(1) Composit.prems(3,4)])
    with Composit s' show "returns (call_stored \<pi> c g s') (\<lambda>s'. cache_ok \<pi> c s' \<and> same_tags s s')"
      by (auto intro: returns_mono same_tags_trans)
  qed
qed auto

lemma call_remote_wp:
  "remote_call c t f \<Longrightarrow> cache_ok \<pi> c s \<Longrightarrow> config_ok c \<Longrightarrow> returns (call_stored \<pi> c f s) (cache_ok \<pi> c)"
proof (induction f arbitrary: s)
  case (CB_PerformRemoteRead m)
  then show ?case using returns_mono[OF PerformRemoteRead_wp[of \<pi> c s m]] by auto
next
  case (Composit f g)
  then have "returns (call_stored \<pi> c f s) (cache_ok \<pi> c)" by simp
  then show ?case unfolding call_stored.simps by (rule returns_bindI) (use Composit in simp)
qed auto

text \<open>\<open>UnlockBlock\<close>: the block is unlocked, its calls run, and then those that wait for the set, if any.\<close>

abbreviation unlocked :: "nat \<Rightarrow> nat \<Rightarrow> 'st cache \<Rightarrow> 'st cache" where
  "unlocked i t s \<equiv> (upd_blk i (\<lambda>b. b\<lparr>locked := False\<rparr>) s)\<lparr>waitingOnBlockUnlock := (waitingOnBlockUnlock s)(t := None)\<rparr>"

lemma unlocked_ok:
  assumes ok: "cache_ok \<pi> c s" and cfg: "config_ok c" and i: "Lookup c t s = Some (Some i)"
  shows "cache_ok \<pi> c (unlocked i t s)" and "Lookup c t (unlocked i t s) = Some (Some i)"
    and "blk (unlocked i t s) i = (blk s i)\<lparr>locked := False\<rparr>"
proof -
  have l: "i < length (cacheContents s)" "valid (blk s i)" "tag (blk s i) = t" using Lookup_wp[OF ok cfg, of t] i by auto
  have "parts_ok \<pi> c ((cacheContents s)[i := (blk s i)\<lparr>locked := False\<rparr>]) ((waitingOnBlockUnlock s)(t := None))
     (waitingOnSetUnlock s) (waitingOnRemoteReads s) (pendingEviction s) (pendingInvalidate s) (currentTick s)"
    by (rule parts_unlock[OF ok[unfolded cache_ok_def] l(1)]) (use l cache_ok_ticks[OF ok l(1)] in \<open>simp_all add: blk_def\<close>)
  then show ok': "cache_ok \<pi> c (unlocked i t s)" by (simp add: cache_ok_def upd_blk_def blk_def)
  have "same_tags s (unlocked i t s)"
    by (rule same_tags_upd[where i = i and b = "(blk s i)\<lparr>locked := False\<rparr>"]) (auto simp: upd_blk_def blk_def)
  then show "Lookup c t (unlocked i t s) = Some (Some i)" by (rule Lookup_same_tags[OF _ ok ok' cfg i])
  show "blk (unlocked i t s) i = (blk s i)\<lparr>locked := False\<rparr>" using l by (simp add: blk_def upd_blk_def)
qed

lemma UnlockBlock_steps:
  assumes ok: "cache_ok \<pi> c s" and cfg: "config_ok c" and i: "Lookup c t s = Some (Some i)" and lk: "locked (blk s i)"
  obtains f s2 where "waitingOnBlockUnlock s t = Some f" "block_call c t f"
    "call_stored \<pi> c f (unlocked i t s) = Some s2" "cache_ok \<pi> c s2"
    "UnlockBlock \<pi> c t s = (if \<not> locked (blk s2 i) then (case waitingOnSetUnlock s2 ! CalcSetFromTag c t of
         None \<Rightarrow> Some s2
       | Some g \<Rightarrow> call_stored \<pi> c g (s2\<lparr>waitingOnSetUnlock := (waitingOnSetUnlock s2)[CalcSetFromTag c t := None]\<rparr>))
     else Some s2)"
    "\<And>g. waitingOnSetUnlock s2 ! CalcSetFromTag c t = Some g \<Longrightarrow> set_call c (CalcSetFromTag c t) g"
proof -
  have l: "i < length (cacheContents s)" "valid (blk s i)" "tag (blk s i) = t" using Lookup_wp[OF ok cfg, of t] i by auto
  from cache_ok_waits[OF ok l(1,2)] lk l(3) obtain f where f: "waitingOnBlockUnlock s t = Some f" by auto
  note bc = cache_ok_call[OF ok f]
  from call_block_wp[OF bc unlocked_ok(1)[OF ok cfg i] cfg unlocked_ok(2)[OF ok cfg i]]
  obtain s2 where s2: "call_stored \<pi> c f (unlocked i t s) = Some s2" "cache_ok \<pi> c s2" by (auto elim: returnsE)
  have "set_call c (CalcSetFromTag c t) g" if "waitingOnSetUnlock s2 ! CalcSetFromTag c t = Some g" for g
    using s2(2) that set_lt[OF cfg, of t] by (simp add: cache_ok_def parts_ok_def queues_ok_def)
  moreover have "UnlockBlock \<pi> c t s = (if \<not> locked (blk s2 i) then (case waitingOnSetUnlock s2 ! CalcSetFromTag c t of
         None \<Rightarrow> Some s2
       | Some g \<Rightarrow> call_stored \<pi> c g (s2\<lparr>waitingOnSetUnlock := (waitingOnSetUnlock s2)[CalcSetFromTag c t := None]\<rparr>))
     else Some s2)"
    using i l lk f s2 by (simp add: UnlockBlock_def DebugAssert_def Let_def upd_blk_def cong: if_cong)
  ultimately show ?thesis using that f bc s2 by blast
qed

lemma UnlockBlock_wp:
  assumes ok: "cache_ok \<pi> c s" and cfg: "config_ok c" and i: "Lookup c t s = Some (Some i)" and lk: "locked (blk s i)"
  shows "returns (UnlockBlock \<pi> c t s) (cache_ok \<pi> c)"
proof -
  from UnlockBlock_steps[OF assms] obtain s2 where s2: "cache_ok \<pi> c s2"
    "UnlockBlock \<pi> c t s = (if \<not> locked (blk s2 i) then (case waitingOnSetUnlock s2 ! CalcSetFromTag c t of
         None \<Rightarrow> Some s2
       | Some g \<Rightarrow> call_stored \<pi> c g (s2\<lparr>waitingOnSetUnlock := (waitingOnSetUnlock s2)[CalcSetFromTag c t := None]\<rparr>))
     else Some s2)"
    "\<And>g. waitingOnSetUnlock s2 ! CalcSetFromTag c t = Some g \<Longrightarrow> set_call c (CalcSetFromTag c t) g"
    by metis
  show ?thesis
    using s2 call_set_wp[OF s2(3) cache_ok_set_clear[OF s2(1)] cfg]
    by (cases "waitingOnSetUnlock s2 ! CalcSetFromTag c t") auto
qed

lemma OnLocalReadResponse_wp:
  assumes ok: "cache_ok \<pi> c s" and cfg: "config_ok c"
  shows "returns (OnLocalReadResponse \<pi> c m s) (cache_ok \<pi> c)"
proof (cases "waitingOnRemoteReads s (CalcTag c (addr m))")
  case None
  with ok show ?thesis by (simp add: OnLocalReadResponse_def Let_def)
next
  case (Some f)
  let ?t = "CalcTag c (addr m)"
  let ?s = "s\<lparr>waitingOnRemoteReads := (waitingOnRemoteReads s)(?t := None)\<rparr>"
  have "remote_call c ?t f" using ok Some by (simp add: cache_ok_def parts_ok_def queues_ok_def)
  moreover have "cache_ok \<pi> c ?s" using ok by (auto simp: cache_ok_def parts_ok_def queues_ok_def)
  ultimately have "returns (call_stored \<pi> c f ?s) (cache_ok \<pi> c)" using call_remote_wp cfg by blast
  with Some show ?thesis by (simp add: OnLocalReadResponse_def Let_def)
qed

lemma OnRemoteReadResponse_wp:
  assumes ok: "cache_ok \<pi> c s" and cfg: "config_ok c"
  shows "returns (OnRemoteReadResponse \<pi> c m s) (cache_ok \<pi> c)"
  using ok cfg
proof (cases rule: LookupE[where t = "CalcTag c (addr m)"])
  case miss
  with ok show ?thesis by (simp add: OnRemoteReadResponse_def Let_def)
next
  case (hit i)
  let ?b = "(blk s i)\<lparr>state := if exclusiveOwnership m then granted \<pi> else shared \<pi>\<rparr>"
  define s1 where "s1 = upd_blk i (\<lambda>b. b\<lparr>state := if exclusiveOwnership m then granted \<pi> else shared \<pi>\<rparr>) s"
  have s1: "cacheContents s1 = (cacheContents s)[i := ?b]" by (simp add: s1_def upd_blk_def blk_def)
  have ok1: "cache_ok \<pi> c s1"
    by (rule cache_ok_meta[OF ok hit(2) s1])
      (use cache_ok_ticks[OF ok hit(2)] in \<open>auto simp: s1_def upd_blk_def frame_def\<close>)
  have i1: "Lookup c (CalcTag c (addr m)) s1 = Some (Some i)"
    by (rule Lookup_same_tags[OF same_tags_upd[OF s1] ok ok1 cfg hit(1)]) auto
  have "returns (UnlockBlock \<pi> c (CalcTag c (addr m)) s1) (cache_ok \<pi> c)" if "locked (blk s i)"
    by (rule UnlockBlock_wp[OF ok1 cfg i1]) (use that hit s1 in \<open>simp add: blk_def\<close>)
  with hit(1) ok show ?thesis by (simp add: OnRemoteReadResponse_def Let_def flip: s1_def)
qed

section \<open>The messages the protocol allows\<close>

text \<open>
  The code rejects four messages by design: a local invalidation, a local write or eviction
  response, and anything on another connection. The answer to an invalidation must be expected.
\<close>

definition legal :: "'st protocol \<Rightarrow> config \<Rightarrow> msg \<Rightarrow> connection \<Rightarrow> 'st cache \<Rightarrow> bool" where
  "legal \<pi> c m k s \<longleftrightarrow> (case k of
     LocalConnection \<Rightarrow> (case m of
       InvalidateMsg _ _ _ _ \<Rightarrow> False
     | WriteResponseMsg _ _ _ _ _ \<Rightarrow> False
     | EvictionResponseMsg _ _ _ _ _ \<Rightarrow> False
     | NetworkMsg _ _ _ _ _ _ \<Rightarrow> False
     | DirectoryNakMsg _ _ _ _ _ _ _ \<Rightarrow> False
     | InvalidateResponseMsg _ _ _ _ _ _ \<Rightarrow> response_expected \<pi> c m s
     | _ \<Rightarrow> True)
   | RemoteConnection \<Rightarrow> is_protocol m
   | NoConnection \<Rightarrow> False)"

context coherence
begin

lemma RecvMsg_wp:
  assumes ok: "cache_ok \<pi> c s" and cfg: "config_ok c" and m: "legal \<pi> c m k s"
  shows "returns (RecvMsg \<pi> c m k s) (cache_ok \<pi> c)"
proof -
  define s1 where "s1 = s\<lparr>messagesReceived := messagesReceived s + 1\<rparr>"
  have ok1: "cache_ok \<pi> c s1" using ok by (simp add: s1_def)
  have ex: "response_expected \<pi> c m s1 = response_expected \<pi> c m s"
    by (simp add: s1_def response_expected_def Let_def holds_def blk_def cong: if_cong option.case_cong)
  have r: "RecvMsg \<pi> c m k s = RecvMsg_with \<pi> (OnLocalReadResponse \<pi> c) (OnRemoteReadResponse \<pi> c) c m k s" by (simp add: RecvMsg_def)
  show ?thesis
  proof (cases k)
    case LocalConnection
    then show ?thesis using m ex ok1 OnLocalRead_wp[OF ok1 cfg, of m] OnLocalWrite_wp[OF ok1 cfg, of m]
        OnLocalEviction_wp[OF ok1 cfg, of m] OnLocalReadResponse_wp[OF ok1 cfg, of m] OnLocalInvalidateResponse_wp[OF ok1 cfg, of m]
      unfolding r RecvMsg_with_def Let_def s1_def[symmetric] by (cases m) (auto simp: legal_def)
  next
    case RemoteConnection
    then show ?thesis using m ok1 OnRemoteRead_wp[OF ok1 cfg, of m] OnRemoteInvalidate_wp[OF ok1 cfg, of m]
        OnRemoteReadResponse_wp[OF ok1 cfg, of m]
      unfolding r RecvMsg_with_def Let_def s1_def[symmetric]
      by (cases m) (auto simp: legal_def OnRemoteWrite_def OnRemoteEviction_def Let_def)
  next
    case NoConnection
    with m show ?thesis by (simp add: legal_def)
  qed
qed

end

lemma Initialize_ok:
  assumes "config_ok c" and "setCount c * associativity c \<le> length raw" and "currentTick em < max_tick"
  shows "cache_ok \<pi> c (Initialize c raw em)"
  using assms
  by (auto simp: cache_ok_def parts_ok_def blocks_ok_def waits_ok_def evictions_ok_def ticks_ok_def queues_ok_def
      Initialize_def empty_block_def absent_def)

section \<open>Reachable states\<close>

definition cache_init :: "config \<Rightarrow> 'st cache \<Rightarrow> bool" where
  "cache_init c s \<longleftrightarrow> (\<exists>raw em. setCount c * associativity c \<le> length raw \<and> currentTick em < max_tick \<and> s = Initialize c raw em)"

definition cache_tick :: "'st cache \<Rightarrow> 'st cache \<Rightarrow> bool" where
  "cache_tick s s' \<longleftrightarrow> (\<exists>n. currentTick s \<le> n \<and> n < max_tick \<and> s' = s\<lparr>currentTick := n\<rparr>)"

abbreviation cache_reach :: "'st protocol \<Rightarrow> config \<Rightarrow> 'st cache \<Rightarrow> bool" where
  "cache_reach \<pi> c \<equiv> device_reach (\<lambda>s. config_ok c \<and> cache_init c s) cache_tick (legal \<pi> c) (RecvMsg \<pi> c)"

lemma cache_tick_ok: "cache_ok \<pi> c s \<Longrightarrow> cache_tick s s' \<Longrightarrow> cache_ok \<pi> c s'"
  by (fastforce simp: cache_tick_def cache_ok_def parts_ok_def ticks_ok_def)

text \<open>A cache with a well-formed configuration is a device (for any other configuration nothing is promised).\<close>

sublocale coherence \<subseteq> device "\<lambda>s. config_ok c \<and> cache_init c s" cache_tick "legal \<pi> c" "RecvMsg \<pi> c"
  "\<lambda>s. config_ok c \<and> cache_ok \<pi> c s" for c
proof
  show "config_ok c \<and> cache_ok \<pi> c s" if "config_ok c \<and> cache_init c s" for s
    using that Initialize_ok by (auto simp: cache_init_def)
  show "config_ok c \<and> cache_ok \<pi> c s'" if "config_ok c \<and> cache_ok \<pi> c s" "cache_tick s s'" for s s'
    using that cache_tick_ok by blast
  show "returns (RecvMsg \<pi> c m k s) (\<lambda>s. config_ok c \<and> cache_ok \<pi> c s)" if "config_ok c \<and> cache_ok \<pi> c s" "legal \<pi> c m k s" for m k s
    using RecvMsg_wp[of c s m k] that by (auto elim: returns_mono)
qed

section \<open>Messages of any state\<close>

text \<open>
  The exact failures, for runs in which anything may come: \<open>accepted\<close> are the messages that the class
  has a case for, whatever the state. Of these only the answer to an invalidation can fail, and it does
  exactly if it is \<open>unwanted\<close>: it belongs to an eviction that was cancelled and has been started again, or
  to nothing that is pending, or it brings data for a block that this cache does not hold in a state to
  take them.
\<close>

definition accepted :: "msg \<Rightarrow> connection \<Rightarrow> bool" where
  "accepted m k \<longleftrightarrow> (case k of
     LocalConnection \<Rightarrow> (case m of
       InvalidateMsg _ _ _ _ \<Rightarrow> False
     | WriteResponseMsg _ _ _ _ _ \<Rightarrow> False
     | EvictionResponseMsg _ _ _ _ _ \<Rightarrow> False
     | NetworkMsg _ _ _ _ _ _ \<Rightarrow> False
     | DirectoryNakMsg _ _ _ _ _ _ _ \<Rightarrow> False
     | _ \<Rightarrow> True)
   | RemoteConnection \<Rightarrow> is_protocol m
   | NoConnection \<Rightarrow> False)"

definition is_answer :: "msg \<Rightarrow> connection \<Rightarrow> bool" where
  "is_answer m k \<longleftrightarrow> k = LocalConnection \<and> (\<exists>i pc a sz att sol. m = InvalidateResponseMsg i pc a sz att sol)"

definition unwanted :: "'st protocol \<Rightarrow> config \<Rightarrow> msg \<Rightarrow> 'st cache \<Rightarrow> bool" where
  "unwanted \<pi> c m s \<longleftrightarrow> (let t = CalcTag c (addr m); pending = (pendingEviction s t \<noteq> None \<or> pendingInvalidate s t \<noteq> None) in
     (t \<in> canceledBlockEviction s \<and> pending) \<or>
     (t \<notin> canceledBlockEviction s \<and> \<not> pending) \<or>
     (t \<notin> canceledBlockEviction s \<and> blockAttached m \<and> (case pendingEviction s t of
         Some p \<Rightarrow> \<not> expects_data \<pi> (state p)
       | None \<Rightarrow> holds (\<lambda>st. \<not> expects_data \<pi> st) s t)))"

lemma legal_accepted: "legal \<pi> c m k s \<longleftrightarrow> accepted m k \<and> (is_answer m k \<longrightarrow> response_expected \<pi> c m s)"
  by (cases k; cases m) (auto simp: legal_def accepted_def is_answer_def)

lemma not_accepted_fails: "\<not> accepted m k \<Longrightarrow> RecvMsg \<pi> c m k s = None"
  by (cases k; cases m) (auto simp: accepted_def RecvMsg_def RecvMsg_with_def Let_def)

abbreviation cache_reach_any :: "'st protocol \<Rightarrow> config \<Rightarrow> 'st cache \<Rightarrow> bool" where
  "cache_reach_any \<pi> c \<equiv> device_reach (\<lambda>s. config_ok c \<and> cache_init c s) cache_tick (\<lambda>_ _ _. True) (RecvMsg \<pi> c)"

context coherence
begin

lemma expected_unwanted:
  assumes ok: "cache_ok \<pi> c s" and cfg: "config_ok c"
  shows "response_expected \<pi> c m s \<longleftrightarrow> \<not> unwanted \<pi> c m s"
  using ok cfg
proof (cases rule: LookupE[where t = "CalcTag c (addr m)"])
  case (hit i)
  have "holds (expects_data \<pi>) s (CalcTag c (addr m)) \<longleftrightarrow> \<not> holds (\<lambda>st. \<not> expects_data \<pi> st) s (CalcTag c (addr m))"
    using holds_at[OF ok hit(2,3), of "expects_data \<pi>"] holds_at[OF ok hit(2,3), of "\<lambda>st. \<not> expects_data \<pi> st"] hit(4) by simp
  moreover have "\<not> absent (cacheContents s) (CalcTag c (addr m))" using hit(2-4) by (auto simp: absent_def blk_def)
  ultimately show ?thesis by (auto simp: response_expected_def unwanted_def Let_def split: option.splits)
next
  case miss
  then show ?thesis using absent_holds[OF miss(2)] by (auto simp: response_expected_def unwanted_def Let_def split: option.splits)
qed

lemma unwanted_fails:
  assumes ok: "cache_ok \<pi> c s" and cfg: "config_ok c" and u: "unwanted \<pi> c m s" and a: "is_answer m k"
  shows "RecvMsg \<pi> c m k s = None"
proof -
  let ?s = "s\<lparr>messagesReceived := messagesReceived s + 1\<rparr>" and ?t = "CalcTag c (addr m)"
  have "absorb_data \<pi> c m ?s = None" if "?t \<notin> canceledBlockEviction s" "pendingEviction s ?t \<noteq> None \<or> pendingInvalidate s ?t \<noteq> None"
  proof (cases "pendingEviction s ?t")
    case (Some p)
    then show ?thesis using u that by (auto simp: unwanted_def absorb_data_def Let_def DebugAssert_def)
  next
    case None
    with u that have h: "blockAttached m" "holds (\<lambda>st. \<not> expects_data \<pi> st) s ?t" "pendingInvalidate s ?t \<noteq> None"
      by (auto simp: unwanted_def Let_def)
    have ok': "cache_ok \<pi> c ?s" using ok by simp
    show ?thesis
      using ok' cfg
    proof (cases rule: LookupE[where t = ?t])
      case (hit i)
      have "\<not> expects_data \<pi> (state (blk ?s i))"
        using h(2) holds_at[OF ok, of i "\<lambda>st. \<not> expects_data \<pi> st"] hit(2-4) by (simp add: blk_def)
      then show ?thesis using h None hit by (simp add: absorb_data_def Let_def DebugAssert_def)
    next
      case miss
      then show ?thesis using h(2) absent_holds[of s ?t] by simp
    qed
  qed
  then have "OnLocalInvalidateResponse \<pi> c m ?s = None"
    using u by (auto simp: OnLocalInvalidateResponse_def unwanted_def Let_def DebugAssert_def)
  then show ?thesis using a by (auto simp: is_answer_def RecvMsg_def RecvMsg_with_def Let_def)
qed

lemma reach_any: "cache_reach_any \<pi> c s \<Longrightarrow> cache_reach \<pi> c s"
proof (induction rule: device_reach.induct)
  case (device_recv s m k s')
  have ok: "config_ok c" "cache_ok \<pi> c s" using reach_inv[OF device_recv(4)] by simp_all
  have "accepted m k" "is_answer m k \<Longrightarrow> response_expected \<pi> c m s"
    using unwanted_fails[OF ok(2,1)] expected_unwanted[OF ok(2,1)] not_accepted_fails[of m k \<pi> c s] device_recv(3) by force+
  then show ?case using device_recv by (intro device_reach.device_recv[OF device_recv(4)]) (auto simp: legal_accepted)
qed (auto intro: device_reach.intros)

lemma fails_iff:
  assumes "cache_reach_any \<pi> c s"
  shows "RecvMsg \<pi> c m k s = None \<longleftrightarrow> \<not> accepted m k \<or> is_answer m k \<and> unwanted \<pi> c m s"
proof -
  note r = reach_any[OF assms(1)]
  have ok: "config_ok c" "cache_ok \<pi> c s" using reach_inv[OF r] by simp_all
  show ?thesis
    using never_fails[OF r, of m k] unwanted_fails[OF ok(2,1)] expected_unwanted[OF ok(2,1)] not_accepted_fails[of m k \<pi> c s]
    by (auto simp: legal_accepted simp del: not_None_eq)
qed

end

end
