(* ===== verification/CacheProps.thy ===== *)
theory CacheProps
  imports CacheSafe
begin

text \<open>
  What the handlers of a cache answer, for every protocol: requests that hit and that miss, remote
  reads, invalidations, and the calls that wait for a block.
\<close>

definition completed :: "msg \<Rightarrow> connection event list" where
  "completed m = (if onCompleted m then [Completed (msgID m)] else [])"

text \<open>What a request sends when it is the first to miss on a block (\<open>excl\<close>: it asks for ownership).\<close>

definition miss_events :: "'st protocol \<Rightarrow> config \<Rightarrow> msg \<Rightarrow> bool \<Rightarrow> 'st cache \<Rightarrow> nat \<Rightarrow> connection event list" where
  "miss_events \<pi> c m excl s i = (if locked (blk s i) then [] else
     [Sent RemoteConnection (ReadMsg (currentMsgStamp s) (generatingPC m) (CalcAddr c (CalcTag c (addr m))) (lineSize c)
        excl (state (blk s i) \<noteq> invalid \<pi>) False False) (missTime c)])"

lemma found:
  assumes "cache_ok \<pi> c s" and "config_ok c" and "Lookup c t s = Some (Some i)"
  shows "i < length (cacheContents s)" "valid (blk s i)" "tag (blk s i) = t"
    "\<not> locked (blk s i) \<Longrightarrow> waitingOnBlockUnlock s t = None"
  using Lookup_wp[OF assms(1,2), of t] assms(3) cache_ok_waits[OF assms(1), of i] by auto

lemma read_served:
  assumes ok: "cache_ok \<pi> c s" and cfg: "config_ok c" and i: "Lookup c (CalcTag c (addr m)) s = Some (Some i)"
  shows "returns (PerformRead \<pi> c m s) (\<lambda>s'.
    if read_misses \<pi> m (blk s i)
    then events s' = events s @ miss_events \<pi> c m (requestingExclusive m) s i \<and>
         locked (blk s' i) \<and> state (blk s' i) = state (blk s i) \<and>
         waitingOnBlockUnlock s' (CalcTag c (addr m)) =
           Some (wait_after (waitingOnBlockUnlock s (CalcTag c (addr m))) (CB_PerformRead m))
    else events s' = events s @ completed m @
           [Sent LocalConnection (ReadResponseMsg (currentMsgStamp s) (generatingPC m) (addr m) (msize m) True
              (\<not> alreadyHasBlock m) False (exclusive \<pi> (state (blk s i))) False (msgID m)) (hitTime c), Disposed (msgID m)] \<and>
         locked (blk s' i) = locked (blk s i) \<and> state (blk s' i) = state (blk s i) \<and>
         waitingOnBlockUnlock s' = waitingOnBlockUnlock s)"
  using i found[OF ok cfg i]
  by (cases "locked (blk s i)"; cases "requestingExclusive m"; cases "read_misses \<pi> m (blk s i)";
      simp add: PerformRead_def LockBlock_def wp Let_def read_misses_def completed_def WaitOnBlockUnlock_def
        upd_blk_def blk_def miss_events_def send_def DisposeMsg_def SignalComplete_def DebugAssert_def)

lemma write_served:
  assumes ok: "cache_ok \<pi> c s" and cfg: "config_ok c" and i: "Lookup c (CalcTag c (addr m)) s = Some (Some i)"
  shows "returns (PerformWrite \<pi> c m s) (\<lambda>s'.
    if \<not> writable \<pi> (state (blk s i))
    then events s' = events s @ miss_events \<pi> c m True s i \<and>
         locked (blk s' i) \<and> state (blk s' i) = state (blk s i) \<and>
         waitingOnBlockUnlock s' (CalcTag c (addr m)) =
           Some (wait_after (waitingOnBlockUnlock s (CalcTag c (addr m))) (CB_PerformWrite m))
    else events s' = events s @ completed m @
           [Sent LocalConnection (WriteResponseMsg (currentMsgStamp s) (generatingPC m) (addr m) (msize m) (msgID m)) (hitTime c),
            Disposed (msgID m)] \<and>
         locked (blk s' i) = locked (blk s i) \<and> state (blk s' i) = modified \<pi> \<and>
         waitingOnBlockUnlock s' = waitingOnBlockUnlock s)"
  using i found[OF ok cfg i]
  by (cases "locked (blk s i)"; cases "writable \<pi> (state (blk s i))";
      simp add: PerformWrite_def LockBlock_def wp Let_def writable_def completed_def WaitOnBlockUnlock_def
        upd_blk_def blk_def miss_events_def send_def DisposeMsg_def SignalComplete_def DebugAssert_def)

text \<open>The answer to an invalidation carries data exactly if a dirty copy was here or on its way out.\<close>

lemma invalidated:
  assumes ok: "cache_ok \<pi> c s" and cfg: "config_ok c" and p: "pendingInvalidate s t = Some p"
  shows "returns (RespondInvalidate \<pi> c t s) (\<lambda>s'. \<not> readable \<pi> s' t \<and> pendingEviction s' t = None \<and> pendingInvalidate s' t = None \<and>
    (\<exists>rest. events s' = events s @ Sent RemoteConnection (InvalidateResponseMsg (currentMsgStamp s) 0 (CalcAddr c t) (lineSize c)
       (holds (dirty \<pi>) s t \<or> (\<exists>e. pendingEviction s t = Some e \<and> dirty \<pi> (state e))) (msgID p)) (invalidateTime c) # rest))"
proof -
  have ev: "returns (RespondInvalidate \<pi> c t s) (\<lambda>s'. \<exists>rest. events s' = events s @
      Sent RemoteConnection (InvalidateResponseMsg (currentMsgStamp s) 0 (CalcAddr c t) (lineSize c)
       (holds (dirty \<pi>) s t \<or> (\<exists>e. pendingEviction s t = Some e \<and> dirty \<pi> (state e))) (msgID p)) (invalidateTime c) # rest)"
    using ok cfg
  proof (cases rule: LookupE[where t = t])
    case miss
    have "\<not> holds (dirty \<pi>) s t" by (rule absent_holds[OF miss(2)])
    moreover have "waitingOnBlockUnlock s t = None" using ok miss(2) by (simp add: cache_ok_def parts_ok_def waits_ok_def)
    ultimately show ?thesis using miss(1) p
      by (cases "pendingEviction s t") (simp_all add: RespondInvalidate_def Let_def send_def DisposeMsg_def)
  next
    case (hit i)
    have o: "holds (dirty \<pi>) s t \<longleftrightarrow> dirty \<pi> (state (blk s i))" using holds_at[OF ok hit(2,3)] hit(4) by metis
    have P: "pendingEviction s t = None"
      using pending_absent[OF ok, of t] hit by (cases "pendingEviction s t") (auto simp: absent_def blk_def)
    show ?thesis using cache_ok_waits[OF ok hit(2,3)] hit p o P
      by (cases "locked (blk s i)")
        (simp_all add: RespondInvalidate_def InvalidateBlock_def Let_def upd_blk_def blk_def send_def DisposeMsg_def DebugAssert_def)
  qed
  show ?thesis
    by (rule returns_mono[OF returns_conj[OF RespondInvalidate_wp[OF ok cfg p] ev]]) auto
qed

section \<open>The random policy\<close>

lemma pick_from_iff: "pick_from \<pi> i r B = None \<longleftrightarrow> length (filter (evictable \<pi>) B) \<le> r"
  by (induction \<pi> i r B rule: pick_from.induct) auto

lemma random_Evict_None:
  "random_Evict \<pi> r B = None \<longleftrightarrow>
     B = [] \<or> (0 < length (filter (evictable \<pi>) B) \<and> length (filter (evictable \<pi>) B) \<le> r mod length B)"
proof (cases "B = [] \<or> filter (evictable \<pi>) B = []")
  case True
  then show ?thesis by (auto simp: random_Evict_def DebugAssert_def)
next
  case False
  then have "random_Evict \<pi> r B = Option.bind (pick_from \<pi> 0 (r mod length B) B) (\<lambda>i. Some (Some i))"
    by (simp add: random_Evict_def DebugAssert_def)
  then show ?thesis using False pick_from_iff[of \<pi> 0 "r mod length B" B]
    by (cases "pick_from \<pi> 0 (r mod length B) B") auto
qed

section \<open>Requests that wait for a block\<close>

fun call_ids :: "stored \<Rightarrow> nat list" where
  "call_ids (CB_PerformRead m) = [msgID m]"
| "call_ids (CB_PerformWrite m) = [msgID m]"
| "call_ids (Composit f g) = call_ids f @ call_ids g"
| "call_ids _ = []"

text \<open>The requests answered to the local side, in order.\<close>

fun answer :: "connection event \<Rightarrow> nat list" where
  "answer (Sent LocalConnection (ReadResponseMsg _ _ _ _ True _ _ _ _ n) _) = [n]"
| "answer (Sent LocalConnection (WriteResponseMsg _ _ _ _ n) _) = [n]"
| "answer _ = []"

definition answers :: "(connection, 'a) event_manager_scheme \<Rightarrow> nat list" where
  "answers s = concat (map answer (events s))"

section \<open>What a cache may send\<close>

text \<open>
  Requests and read responses from the next level only add events and leave the clock alone; at the top of the hierarchy
  these are answers to the processor, and reads and evictions for the next level.
\<close>

fun top_event :: "connection event \<Rightarrow> bool" where
  "top_event (Sent LocalConnection m d) \<longleftrightarrow> is_read_response m \<or> is_write_response m"
| "top_event (Sent RemoteConnection m d) \<longleftrightarrow> is_read m \<or> is_eviction m"
| "top_event (Completed n) \<longleftrightarrow> True"
| "top_event (Disposed n) \<longleftrightarrow> True"
| "top_event _ \<longleftrightarrow> False"

definition grows :: "config \<Rightarrow> (connection, 'a) event_manager_scheme \<Rightarrow> (connection, 'a) event_manager_scheme \<Rightarrow> bool" where
  "grows c s s' \<longleftrightarrow> currentTick s' = currentTick s \<and> (\<exists>es. events s' = events s @ es \<and> (topCache c \<longrightarrow> list_all top_event es))"

lemma growsI: "currentTick s' = currentTick s \<Longrightarrow> events s' = events s @ es \<Longrightarrow> (topCache c \<Longrightarrow> list_all top_event es) \<Longrightarrow> grows c s s'"
  by (auto simp: grows_def)

lemma grows_trans [trans]: "grows c s s' \<Longrightarrow> grows c s' s'' \<Longrightarrow> grows c s s''"
  by (auto simp: grows_def)

lemma grows_answers: "grows c s s' \<Longrightarrow> \<exists>es. answers s' = answers s @ es"
  by (auto simp: grows_def answers_def)

lemmas grow_defs = grows_def DebugAssert_def Let_def Option.bind_eq_Some_conv send_def DisposeMsg_def SignalComplete_def
  upd_blk_def WaitOnBlockUnlock_def WaitOnSetUnlock_def

lemma PrepareFreshBlock_grows: "PrepareFreshBlock \<pi> c k i t s = Some s' \<Longrightarrow> grows c s s'"
  by (auto simp: PrepareFreshBlock_def grow_defs split: if_splits option.splits)

lemma EvictBlock_grows: "EvictBlock \<pi> c t s = Some s' \<Longrightarrow> grows c s s'"
  by (auto simp: EvictBlock_def grow_defs split: if_splits)

lemma Evict_grows: "Evict \<pi> c B s = Some (e, s') \<Longrightarrow> grows c s s'"
  by (auto simp: Evict_def grow_defs split: if_splits EvictionPolicy.splits)

lemma AllocateBlock_grows:
  assumes "AllocateBlock \<pi> c t s = Some (ok, s')"
  shows "grows c s s'"
proof -
  from assms obtain base where base: "GetSet c (CalcSetFromTag c t) = Some base"
    by (auto simp: AllocateBlock_def Option.bind_eq_Some_conv)
  show ?thesis
  proof (cases "find (\<lambda>i. \<not> valid (blk s (base + i))) [0..<associativity c]")
    case (Some i)
    with assms base show ?thesis by (auto simp: AllocateBlock_def Option.bind_eq_Some_conv dest: PrepareFreshBlock_grows)
  next
    case None
    with assms base obtain e s1 where e: "Evict \<pi> c (take (associativity c) (drop base (cacheContents s))) s = Some (e, s1)"
      by (auto simp: AllocateBlock_def Option.bind_eq_Some_conv)
    have "grows c s1 s'"
    proof (cases e)
      case e: (Some i)
      show ?thesis
      proof (cases "topCache c")
        case True
        with assms base None \<open>Evict _ _ _ _ = _\<close> e show ?thesis
          by (auto simp: AllocateBlock_def Option.bind_eq_Some_conv dest!: PrepareFreshBlock_grows EvictBlock_grows intro: grows_trans)
      next
        case False
        with assms base None \<open>Evict _ _ _ _ = _\<close> e show ?thesis
          by (auto simp: AllocateBlock_def Let_def Option.bind_eq_Some_conv DebugAssert_def grows_def send_def split: if_splits dest!: PrepareFreshBlock_grows)
      qed
    qed (use assms base None e in \<open>auto simp: AllocateBlock_def grows_def\<close>)
    with Evict_grows[OF e] show ?thesis by (rule grows_trans)
  qed
qed

lemma LockBlock_grows: "LockBlock c t s = Some s' \<Longrightarrow> events s' = events s \<and> currentTick s' = currentTick s"
  by (auto simp: LockBlock_def grow_defs split: if_splits)

lemma PerformRead_grows: "PerformRead \<pi> c m s = Some s' \<Longrightarrow> grows c s s'"
  by (auto simp: PerformRead_def grow_defs split: if_splits dest!: LockBlock_grows)

lemma PerformWrite_grows: "PerformWrite \<pi> c m s = Some s' \<Longrightarrow> grows c s s'"
  by (auto simp: PerformWrite_def grow_defs split: if_splits dest!: LockBlock_grows)

lemma OnLocalRead_grows: "OnLocalRead \<pi> c m s = Some s' \<Longrightarrow> grows c s s'"
  by (auto simp: OnLocalRead_def Let_def Option.bind_eq_Some_conv WaitOnSetUnlock_def growsI[where es = "[]"] split: if_splits
      dest!: PerformRead_grows AllocateBlock_grows intro: grows_trans)

lemma OnLocalWrite_grows: "OnLocalWrite \<pi> c m s = Some s' \<Longrightarrow> grows c s s'"
  by (auto simp: OnLocalWrite_def Let_def Option.bind_eq_Some_conv WaitOnSetUnlock_def growsI[where es = "[]"] split: if_splits
      dest!: PerformWrite_grows AllocateBlock_grows intro: grows_trans)

lemma call_set_grows: "set_call c k f \<Longrightarrow> call_stored \<pi> c f s = Some s' \<Longrightarrow> grows c s s'"
proof (induction f arbitrary: s s')
  case (CB_RetryMsg m l)
  then show ?case
    by (cases m) (auto simp: RecvMsg_with_def Let_def grows_def dest!: OnLocalRead_grows OnLocalWrite_grows)
next
  case (Composit f g)
  then show ?case by (auto simp: Option.bind_eq_Some_conv) (metis grows_trans)
qed auto

section \<open>What a grant answers\<close>

context coherence
begin

lemma hand_over:
  assumes "cache_ok \<pi> c s" and "config_ok c"
  shows "returns (PerformRemoteRead \<pi> c m s) (\<lambda>s'. cache_ok \<pi> c s' \<and> \<not> owned \<pi> s' (CalcTag c (addr m)) \<and>
    (requestingExclusive m \<longrightarrow> \<not> readable \<pi> s' (CalcTag c (addr m))))"
proof (rule returns_mono[OF PerformRemoteRead_wp[OF assms]], elim conjE, intro conjI impI notI)
  fix s' assume Q: "\<forall>Q. holds Q s' (CalcTag c (addr m)) \<longrightarrow> holds (\<lambda>st. Q (given_up \<pi> m st)) s (CalcTag c (addr m))"
  show False if "owned \<pi> s' (CalcTag c (addr m))"
    using Q[rule_format, OF that] downgrade_read_only by (auto simp: holds_def given_up_def writable_def split: if_splits)
  show False if "requestingExclusive m" "readable \<pi> s' (CalcTag c (addr m))"
    using Q[rule_format, OF that(2)] that(1) by (auto simp: holds_def given_up_def)
qed

lemma calls_complete:
  "block_call c t f \<Longrightarrow> cache_ok \<pi> c s \<Longrightarrow> config_ok c \<Longrightarrow> Lookup c t s = Some (Some i) \<Longrightarrow>
   \<not> locked (blk s i) \<Longrightarrow> writable \<pi> (state (blk s i)) \<Longrightarrow>
   returns (call_stored \<pi> c f s) (\<lambda>s'. cache_ok \<pi> c s' \<and> same_tags s s' \<and> \<not> locked (blk s' i) \<and>
     writable \<pi> (state (blk s' i)) \<and> answers s' = answers s @ call_ids f)"
proof (induction f arbitrary: s)
  case (CB_PerformRead m)
  then have hit: "\<not> read_misses \<pi> m (blk s i)" by (auto simp: read_misses_def writable_def)
  from CB_PerformRead have m: "is_read m" "Lookup c (CalcTag c (addr m)) s = Some (Some i)" by auto
  from returns_conj[OF PerformRead_wp[OF CB_PerformRead.prems(2,3) m] read_served[OF CB_PerformRead.prems(2,3) m(2)]] hit CB_PerformRead.prems
  show ?case by (auto simp: answers_def completed_def elim!: returns_mono)
next
  case (CB_PerformWrite m)
  from CB_PerformWrite have m: "is_write m" "Lookup c (CalcTag c (addr m)) s = Some (Some i)" by auto
  from returns_conj[OF PerformWrite_wp[OF CB_PerformWrite.prems(2,3) m] write_served[OF CB_PerformWrite.prems(2,3) m(2)]]
    CB_PerformWrite.prems modified_writable
  show ?case by (auto simp: answers_def completed_def elim!: returns_mono)
next
  case (Composit f g)
  then have "returns (call_stored \<pi> c f s) (\<lambda>s'. cache_ok \<pi> c s' \<and> same_tags s s' \<and> \<not> locked (blk s' i) \<and>
     writable \<pi> (state (blk s' i)) \<and> answers s' = answers s @ call_ids f)" by simp
  then show ?case unfolding call_stored.simps
  proof (rule returns_bindI, elim conjE)
    fix s' assume s': "cache_ok \<pi> c s'" "same_tags s s'" "\<not> locked (blk s' i)" "writable \<pi> (state (blk s' i))"
      "answers s' = answers s @ call_ids f"
    have "Lookup c t s' = Some (Some i)" by (rule Lookup_same_tags[OF s'(2) Composit.prems(2) s'(1) Composit.prems(3,4)])
    with s' have "returns (call_stored \<pi> c g s') (\<lambda>s''. cache_ok \<pi> c s'' \<and> same_tags s' s'' \<and> \<not> locked (blk s'' i) \<and>
     writable \<pi> (state (blk s'' i)) \<and> answers s'' = answers s' @ call_ids g)"
      using Composit.prems by (intro Composit.IH(2)) simp_all
    then show "returns (call_stored \<pi> c g s') (\<lambda>s'. cache_ok \<pi> c s' \<and> same_tags s s' \<and> \<not> locked (blk s' i) \<and>
     writable \<pi> (state (blk s' i)) \<and> answers s' = answers s @ call_ids (Composit f g))"
      by (rule returns_mono) (use s' in \<open>auto intro: same_tags_trans\<close>)
  qed
qed auto

text \<open>The response that grants ownership answers every waiting call, in the order of arrival.\<close>

lemma UnlockBlock_completes:
  assumes ok: "cache_ok \<pi> c s" and cfg: "config_ok c" and i: "Lookup c t s = Some (Some i)"
    and lk: "locked (blk s i)" and st: "writable \<pi> (state (blk s i))" and f: "waitingOnBlockUnlock s t = Some f"
  shows "returns (UnlockBlock \<pi> c t s) (\<lambda>s'. \<exists>es. answers s' = answers s @ call_ids f @ es)"
proof -
  let ?k = "CalcSetFromTag c t"
  from UnlockBlock_steps[OF ok cfg i lk] f obtain s2 where s2:
    "call_stored \<pi> c f (unlocked i t s) = Some s2" "cache_ok \<pi> c s2"
    "UnlockBlock \<pi> c t s = (if \<not> locked (blk s2 i) then (case waitingOnSetUnlock s2 ! ?k of None \<Rightarrow> Some s2
       | Some g \<Rightarrow> call_stored \<pi> c g (s2\<lparr>waitingOnSetUnlock := (waitingOnSetUnlock s2)[?k := None]\<rparr>))
     else Some s2)"
    "\<And>g. waitingOnSetUnlock s2 ! ?k = Some g \<Longrightarrow> set_call c ?k g" "block_call c t f"
    by (metis option.inject)
  note u = unlocked_ok[OF ok cfg i]
  have "answers (unlocked i t s) = answers s" by (simp add: answers_def upd_blk_def)
  with calls_complete[OF s2(5) u(1) cfg u(2)] st s2(1) u(3)
  have s2': "answers s2 = answers s @ call_ids f" "\<not> locked (blk s2 i)" by auto
  show ?thesis
  proof (cases "waitingOnSetUnlock s2 ! ?k")
    case (Some g)
    let ?s = "s2\<lparr>waitingOnSetUnlock := (waitingOnSetUnlock s2)[?k := None]\<rparr>"
    from call_set_wp[OF s2(4)[OF Some] cache_ok_set_clear[OF s2(2)] cfg] obtain s3 where s3: "call_stored \<pi> c g ?s = Some s3"
      by (auto elim: returnsE)
    from grows_answers[OF call_set_grows[OF s2(4)[OF Some] s3]] obtain es where "answers s3 = answers ?s @ es" by blast
    then show ?thesis using s2(3) s2' Some s3 by (simp add: answers_def)
  qed (use s2(3) s2' in simp)
qed

lemma grant_completes:
  assumes ok: "cache_ok \<pi> c s" and cfg: "config_ok c" and i: "Lookup c (CalcTag c (addr m)) s = Some (Some i)"
    and lk: "locked (blk s i)" and m: "exclusiveOwnership m"
  shows "\<exists>f. waitingOnBlockUnlock s (CalcTag c (addr m)) = Some f \<and>
    returns (OnRemoteReadResponse \<pi> c m s) (\<lambda>s'. \<exists>es. answers s' = answers s @ call_ids f @ es)"
proof -
  let ?t = "CalcTag c (addr m)"
  note l = found[OF ok cfg i]
  obtain f where f: "waitingOnBlockUnlock s ?t = Some f" using cache_ok_waits[OF ok l(1,2)] lk l(3) by auto
  define s1 where "s1 = upd_blk i (\<lambda>b. b\<lparr>state := granted \<pi>\<rparr>) s"
  have s1: "cacheContents s1 = (cacheContents s)[i := (blk s i)\<lparr>state := granted \<pi>\<rparr>]" by (simp add: s1_def upd_blk_def blk_def)
  have ok1: "cache_ok \<pi> c s1"
    by (rule cache_ok_meta[OF ok l(1) s1]) (use cache_ok_ticks[OF ok l(1)] in \<open>auto simp: s1_def upd_blk_def frame_def\<close>)
  have i1: "Lookup c ?t s1 = Some (Some i)" by (rule Lookup_same_tags[OF same_tags_upd[OF s1] ok ok1 cfg i]) auto
  have b1: "blk s1 i = (blk s i)\<lparr>state := granted \<pi>\<rparr>" using l s1 by (simp add: blk_def)
  have "returns (UnlockBlock \<pi> c ?t s1) (\<lambda>s'. \<exists>es. answers s' = answers s1 @ call_ids f @ es)"
    by (rule UnlockBlock_completes[OF ok1 cfg i1]) (use lk f b1 granted_writable in \<open>auto simp: s1_def upd_blk_def\<close>)
  then have "returns (OnRemoteReadResponse \<pi> c m s) (\<lambda>s'. \<exists>es. answers s' = answers s @ call_ids f @ es)"
    using i lk m by (auto simp: OnRemoteReadResponse_def Let_def answers_def s1_def[symmetric] DisposeMsg_def elim!: returnsE)
      (simp add: s1_def upd_blk_def)
  with f show ?thesis by blast
qed

lemma block_structure:
  assumes "config_ok c" and "cache_reach \<pi> c s" and i: "i < length (cacheContents s)" "valid (blk s i)"
  shows "i div associativity c = CalcSetFromTag c (tag (blk s i)) \<and>
    (locked (blk s i) \<longleftrightarrow> waitingOnBlockUnlock s (tag (blk s i)) \<noteq> None) \<and>
    pendingEviction s (tag (blk s i)) = None \<and> Lookup c (tag (blk s i)) s = Some (Some i)"
proof (intro conjI)
  have ok: "cache_ok \<pi> c s" using reach_inv[OF assms(2)] by simp
  show "i div associativity c = CalcSetFromTag c (tag (blk s i))"
    using ok i by (simp add: cache_ok_def parts_ok_def blocks_ok_def blk_def CalcSetFromTag_def)
  show "locked (blk s i) \<longleftrightarrow> waitingOnBlockUnlock s (tag (blk s i)) \<noteq> None" by (rule cache_ok_waits[OF ok i])
  show "pendingEviction s (tag (blk s i)) = None"
    using pending_absent[OF ok, of "tag (blk s i)"] absentD i
    by (cases "pendingEviction s (tag (blk s i))") (auto simp: blk_def)
  show "Lookup c (tag (blk s i)) s = Some (Some i)" by (rule Lookup_Some[OF ok assms(1) i refl])
qed

end

section \<open>A small cache\<close>

text \<open>One block, and the state after one read has missed on it: the example of the witnesses.\<close>

fun cache_run :: "'st protocol \<Rightarrow> config \<Rightarrow> (msg \<times> connection) list \<Rightarrow> 'st cache \<Rightarrow> 'st cache option" where
  "cache_run \<pi> c [] s = Some s"
| "cache_run \<pi> c ((m, k) # ms) s = do { s \<leftarrow> RecvMsg \<pi> c m k s; cache_run \<pi> c ms s }"

lemmas cache_eval = RecvMsg_def RecvMsg_with_def OnLocalRead_def OnRemoteRead_def OnLocalWrite_def OnRemoteWrite_def
  OnRemoteInvalidate_def OnLocalEviction_def OnRemoteEviction_def OnLocalInvalidateResponse_def absorb_data_def
  finish_response_def OnLocalReadResponse_def OnRemoteReadResponse_def UnlockBlock_def PerformRead_def PerformWrite_def
  PerformRemoteRead_def RespondInvalidate_def AllocateBlock_def PrepareFreshBlock_def EvictBlock_def Evict_def
  lru_Evict_def random_Evict_def evictable_def LockBlock_def InvalidateBlock_def Lookup_def GetSet_def CalcTag_def
  CalcAddr_def CalcSetFromTag_def blk_def upd_blk_def WaitOnBlockUnlock_def WaitOnSetUnlock_def
  WaitOnRemoteReadResponse_def DebugAssert_def send_def send_replica_def DisposeMsg_def SignalComplete_def Let_def

definition demo_config :: config where
  "demo_config = \<lparr>hitTime = 1, missTime = 2, evictionTime = 3, invalidateTime = 4, satisfyRequestTime = 5,
     evictionPolicy = LRUEvictionPolicy, rnd = (\<lambda>_. 0), associativity = 1, setCount = 1, lineSize = 4, topCache = False\<rparr>"

definition demo_block :: "'st protocol \<Rightarrow> 'st BlockState" where
  "demo_block \<pi> = \<lparr>lastRead = 7, lastWrite = 7, locked = True, valid = True, tag = 9, state = invalid \<pi>\<rparr>"

definition demo_em :: "connection event_manager" where
  "demo_em = \<lparr>currentTick = 10, currentMsgStamp = 1, events = []\<rparr>"

definition demo_start :: "'st protocol \<Rightarrow> 'st cache" where
  "demo_start \<pi> = Initialize demo_config [demo_block \<pi>] demo_em"

lemmas demo_eval = demo_start_def demo_config_def demo_block_def demo_em_def Initialize_def empty_block_def max_tick_def

definition demo_after_read :: "'st protocol \<Rightarrow> 'st cache" where
  "demo_after_read \<pi> = the (RecvMsg \<pi> demo_config (ReadMsg 5 0 3 4 False False False False) LocalConnection (demo_start \<pi>))"

lemma demo_config_ok: "config_ok demo_config"
  by (simp add: config_ok_def demo_config_def)

lemma demo_start_init: "cache_init demo_config (demo_start \<pi>)"
  unfolding cache_init_def demo_start_def
  by (intro exI[of _ "[demo_block \<pi>]"] exI[of _ demo_em]) (simp add: demo_config_def demo_em_def max_tick_def)

lemma demo_after_read:
  "RecvMsg \<pi> demo_config (ReadMsg 5 0 3 4 False False False False) LocalConnection (demo_start \<pi>) = Some (demo_after_read \<pi>)"
  "cacheContents (demo_after_read \<pi>) =
     [\<lparr>lastRead = 10, lastWrite = 0, locked = True, valid = True, tag = 0, state = invalid \<pi>\<rparr>]"
  "waitingOnBlockUnlock (demo_after_read \<pi>) = (\<lambda>_. None)(0 := Some (CB_PerformRead (ReadMsg 5 0 3 4 False False False False)))"
  by (simp_all add: demo_after_read_def cache_eval demo_eval)

lemma demo_after_read_reach: "cache_reach \<pi> demo_config (demo_after_read \<pi>)"
proof -
  have "cache_reach \<pi> demo_config (demo_start \<pi>)" by (rule device_init) (simp add: demo_config_ok demo_start_init)
  then show ?thesis
    by (rule device_recv[where recv = "RecvMsg \<pi> demo_config", OF _ _ demo_after_read(1)]) (simp add: legal_def)
qed

lemma demo_after_read_reach_any: "cache_reach_any \<pi> demo_config (demo_after_read \<pi>)"
proof -
  have "cache_reach_any \<pi> demo_config (demo_start \<pi>)" by (rule device_init) (simp add: demo_config_ok demo_start_init)
  then show ?thesis by (rule device_recv[where recv = "RecvMsg \<pi> demo_config", OF _ _ demo_after_read(1)]) simp
qed

lemma demo_after_read_pending:
  "pendingEviction (demo_after_read \<pi>) = (\<lambda>_. None)" "pendingInvalidate (demo_after_read \<pi>) = (\<lambda>_. None)"
  "canceledBlockEviction (demo_after_read \<pi>) = {}"
  by (simp_all add: demo_after_read_def cache_eval demo_eval)

context coherence
begin

lemma demo_after_read_ok: "cache_ok \<pi> demo_config (demo_after_read \<pi>)"
  using reach_inv[OF demo_after_read_reach] by simp

end

lemma demo_after_read_block: "blk (demo_after_read \<pi>) 0 =
    \<lparr>lastRead = 10, lastWrite = 0, locked = True, valid = True, tag = 0, state = invalid \<pi>\<rparr>"
  by (simp add: blk_def demo_after_read(2))

lemma demo_after_read_lookup: "Lookup demo_config 0 (demo_after_read \<pi>) = Some (Some 0)"
  by (simp add: Lookup_def GetSet_def CalcSetFromTag_def DebugAssert_def demo_config_def demo_after_read_block)

lemma demo_tag: "CalcTag demo_config 2 = 0"
  by (simp add: CalcTag_def demo_config_def)

lemma demo_tag0: "CalcTag demo_config 0 = 0"
  by (simp add: CalcTag_def demo_config_def)

text \<open>The same cache after ownership has been granted.\<close>

definition demo_granted :: "'st protocol \<Rightarrow> 'st cache" where
  "demo_granted \<pi> = the (RecvMsg \<pi> demo_config (ReadResponseMsg 9 0 0 4 True True False True False 1) RemoteConnection (demo_after_read \<pi>))"

context coherence
begin

lemma granted_valid: "granted \<pi> \<noteq> invalid \<pi>"
  using granted_writable by (simp add: writable_def)

lemma demo_granted:
  "RecvMsg \<pi> demo_config (ReadResponseMsg 9 0 0 4 True True False True False 1) RemoteConnection (demo_after_read \<pi>) = Some (demo_granted \<pi>)"
  "cacheContents (demo_granted \<pi>) =
     [\<lparr>lastRead = 10, lastWrite = 0, locked = False, valid = True, tag = 0, state = granted \<pi>\<rparr>]"
  using granted_valid by (simp_all add: demo_granted_def demo_after_read_def cache_eval demo_eval)

lemma demo_granted_ok: "cache_ok \<pi> demo_config (demo_granted \<pi>)"
  using reach_inv[OF device_recv[where recv = "RecvMsg \<pi> demo_config", OF demo_after_read_reach _ demo_granted(1)]]
  by (simp add: legal_def)

lemma demo_granted_block: "blk (demo_granted \<pi>) 0 =
    \<lparr>lastRead = 10, lastWrite = 0, locked = False, valid = True, tag = 0, state = granted \<pi>\<rparr>"
  by (simp add: blk_def demo_granted(2))

lemma demo_granted_lookup: "Lookup demo_config 0 (demo_granted \<pi>) = Some (Some 0)"
  by (simp add: Lookup_def GetSet_def CalcSetFromTag_def DebugAssert_def demo_config_def demo_granted_block[unfolded blk_def] blk_def)

end

end
