(* ===== verification/MSICache.thy ===== *)
theory MSICache
  imports CacheProps
begin

text \<open>
  The class \<^verbatim>\<open>MSICache\<close>: its states, its protocol, and its properties. The methods are those of
  \<^verbatim>\<open>Cache\<close> for the protocol \<open>MSI\<close>.
\<close>

section \<open>The protocol\<close>

datatype MSIState = bs_Modified | bs_Shared | bs_Invalid

fun MSI_downgrade :: "MSIState \<Rightarrow> MSIState" where
  "MSI_downgrade bs_Modified = bs_Shared"
| "MSI_downgrade st = st"

definition MSI :: "MSIState protocol" where
  "MSI = \<lparr>modified = bs_Modified, shared = bs_Shared, invalid = bs_Invalid,
     read_only = (\<lambda>st. st = bs_Shared), exclusive = (\<lambda>st. st = bs_Modified), granted = bs_Modified,
     downgrade = MSI_downgrade, marks_dirty = (\<lambda>_. False), absorb = (\<lambda>_. bs_Modified),
     expects_data = (\<lambda>st. st = bs_Modified), dirty = (\<lambda>st. st = bs_Modified), returns_stale = False\<rparr>"

lemma MSI_simps [simp]: "modified MSI = bs_Modified" "shared MSI = bs_Shared" "invalid MSI = bs_Invalid"
  "read_only MSI st \<longleftrightarrow> st = bs_Shared" "exclusive MSI st \<longleftrightarrow> st = bs_Modified" "granted MSI = bs_Modified"
  "downgrade MSI = MSI_downgrade" "\<not> marks_dirty MSI st" "absorb MSI st = bs_Modified"
  "expects_data MSI st \<longleftrightarrow> st = bs_Modified" "dirty MSI st \<longleftrightarrow> st = bs_Modified" "\<not> returns_stale MSI"
  by (simp_all add: MSI_def)

lemma MSI_writable [simp]: "writable MSI st \<longleftrightarrow> st = bs_Modified"
  by (cases st) (auto simp: writable_def)

interpretation msi: coherence MSI
proof
  show "downgrade MSI st \<noteq> invalid MSI \<and> read_only MSI (downgrade MSI st)" if "st \<noteq> invalid MSI" for st
    using that by (cases st) auto
qed auto

section \<open>Properties\<close>



text \<open>
  C2: In every reachable state two valid blocks have different tags, every block lies in the set of
  its tag, a block is locked exactly when calls wait for it, and no block is at once in the cache
  and on its way out.
\<close>

theorem msi_structure:
  assumes "config_ok c" and "cache_reach MSI c s"
    and "i < length (cacheContents s)" and "valid (blk s i)"
  shows "i div associativity c = CalcSetFromTag c (tag (blk s i)) \<and>
    (locked (blk s i) \<longleftrightarrow> waitingOnBlockUnlock s (tag (blk s i)) \<noteq> None) \<and>
    pendingEviction s (tag (blk s i)) = None \<and> Lookup c (tag (blk s i)) s = Some (Some i)"
  by (rule msi.block_structure[OF assms])

theorem msi_structure_witness: "Lookup demo_config 0 (demo_after_read MSI) = Some (Some 0)"
  using msi_structure[OF demo_config_ok demo_after_read_reach, of 0] by (simp add: demo_after_read demo_after_read_block)

text \<open>
  C3: A read of a block in the cache is answered at once exactly if it hits; the answer carries the
  request's number and grants ownership only of a modified block. A miss asks the next level once:
  only the first request that misses on the block sends anything, and every one waits on the
  locked block.
\<close>

theorem msi_read_served:
  assumes "cache_ok MSI c s" and "config_ok c" and "Lookup c (CalcTag c (addr m)) s = Some (Some i)"
  shows "returns (PerformRead MSI c m s) (\<lambda>s'.
    if state (blk s i) = bs_Invalid \<or> (requestingExclusive m \<and> state (blk s i) = bs_Shared)
    then events s' = events s @ (if locked (blk s i) then [] else
           [Sent RemoteConnection (ReadMsg (currentMsgStamp s) (generatingPC m) (CalcAddr c (CalcTag c (addr m))) (lineSize c)
              (requestingExclusive m) (state (blk s i) \<noteq> bs_Invalid) False False) (missTime c)]) \<and>
         locked (blk s' i) \<and> state (blk s' i) = state (blk s i) \<and>
         waitingOnBlockUnlock s' (CalcTag c (addr m)) =
           Some (wait_after (waitingOnBlockUnlock s (CalcTag c (addr m))) (CB_PerformRead m))
    else events s' = events s @ completed m @
           [Sent LocalConnection (ReadResponseMsg (currentMsgStamp s) (generatingPC m) (addr m) (msize m) True
              (\<not> alreadyHasBlock m) False (state (blk s i) = bs_Modified) False (msgID m)) (hitTime c), Disposed (msgID m)] \<and>
         state (blk s' i) = state (blk s i) \<and> waitingOnBlockUnlock s' = waitingOnBlockUnlock s)"
  by (rule returns_mono[OF read_served[OF assms]]) (simp add: read_misses_def miss_events_def split: if_splits)

theorem msi_read_served_witness:
  "returns (PerformRead MSI demo_config (ReadMsg 6 0 2 4 False False False False) (demo_after_read MSI))
     (\<lambda>s'. events s' = events (demo_after_read MSI) \<and> locked (blk s' 0))"
  by (rule returns_mono[OF msi_read_served[OF msi.demo_after_read_ok demo_config_ok, of "ReadMsg 6 0 2 4 False False False False" 0]])
    (simp_all add: demo_tag demo_after_read_lookup demo_after_read_block)

text \<open>
  A write completes exactly if the cache owns the block modified. Otherwise it waits, and only
  the first request that misses on the block asks the next level, for exclusive ownership.
\<close>

theorem msi_write_owned:
  assumes "cache_ok MSI c s" and "config_ok c" and "Lookup c (CalcTag c (addr m)) s = Some (Some i)"
  shows "returns (PerformWrite MSI c m s) (\<lambda>s'.
    if state (blk s i) = bs_Modified
    then events s' = events s @ completed m @
           [Sent LocalConnection (WriteResponseMsg (currentMsgStamp s) (generatingPC m) (addr m) (msize m) (msgID m)) (hitTime c),
            Disposed (msgID m)] \<and> state (blk s' i) = bs_Modified \<and> waitingOnBlockUnlock s' = waitingOnBlockUnlock s
    else events s' = events s @ (if locked (blk s i) then [] else
           [Sent RemoteConnection (ReadMsg (currentMsgStamp s) (generatingPC m) (CalcAddr c (CalcTag c (addr m))) (lineSize c)
              True (state (blk s i) \<noteq> bs_Invalid) False False) (missTime c)]) \<and>
         locked (blk s' i) \<and> state (blk s' i) = state (blk s i) \<and>
         waitingOnBlockUnlock s' (CalcTag c (addr m)) =
           Some (wait_after (waitingOnBlockUnlock s (CalcTag c (addr m))) (CB_PerformWrite m)))"
  by (rule returns_mono[OF write_served[OF assms]]) (simp add: miss_events_def split: if_splits)

theorem msi_write_owned_witness:
  "returns (PerformWrite MSI demo_config (WriteMsg 6 0 2 4 False) (demo_after_read MSI))
     (\<lambda>s'. events s' = events (demo_after_read MSI) \<and> locked (blk s' 0))"
  by (rule returns_mono[OF msi_write_owned[OF msi.demo_after_read_ok demo_config_ok, of "WriteMsg 6 0 2 4 False" 0]])
    (simp_all add: demo_tag demo_after_read_lookup demo_after_read_block)

text \<open>
  C4: A remote read never fails; after it this cache does not own the block modified, and after an
  exclusive one it cannot read the block either.
\<close>

theorem msi_hand_over:
  assumes "cache_ok MSI c s" and "config_ok c"
  shows "returns (PerformRemoteRead MSI c m s) (\<lambda>s'. cache_ok MSI c s' \<and>
    \<not> holds (\<lambda>st. st = bs_Modified) s' (CalcTag c (addr m)) \<and>
    (requestingExclusive m \<longrightarrow> \<not> holds (\<lambda>st. st \<noteq> bs_Invalid) s' (CalcTag c (addr m))))"
  by (rule returns_mono[OF msi.hand_over[OF assms]]) (simp add: holds_def)

theorem msi_hand_over_witness:
  "returns (PerformRemoteRead MSI demo_config (ReadMsg 6 0 2 4 True False False False) (demo_after_read MSI))
     (\<lambda>s'. \<not> holds (\<lambda>st. st \<noteq> bs_Invalid) s' 0)"
  by (rule returns_mono[OF msi_hand_over[OF msi.demo_after_read_ok demo_config_ok]]) (simp add: demo_tag)

text \<open>
  The answer to an invalidation carries the data exactly if the cache owned the block modified
  (in the cache or on its way out); afterwards the block is not readable, and neither its eviction
  nor its invalidation is pending.
\<close>

theorem msi_invalidated:
  assumes "cache_ok MSI c s" and "config_ok c" and "pendingInvalidate s t = Some p"
  shows "returns (RespondInvalidate MSI c t s) (\<lambda>s'. \<not> holds (\<lambda>st. st \<noteq> bs_Invalid) s' t \<and>
    pendingEviction s' t = None \<and> pendingInvalidate s' t = None \<and>
    (\<exists>rest. events s' = events s @ Sent RemoteConnection (InvalidateResponseMsg (currentMsgStamp s) 0 (CalcAddr c t) (lineSize c)
       (holds (\<lambda>st. st = bs_Modified) s t \<or> (\<exists>e. pendingEviction s t = Some e \<and> state e = bs_Modified))
       (msgID p)) (invalidateTime c) # rest))"
  by (rule returns_mono[OF invalidated[OF assms]]) (simp add: holds_def)

theorem msi_invalidated_witness:
  "returns (RespondInvalidate MSI demo_config 0
     ((demo_after_read MSI)\<lparr>pendingInvalidate := (\<lambda>_. None)(0 := Some (InvalidateMsg 8 0 2 4))\<rparr>))
     (\<lambda>s'. \<not> holds (\<lambda>st. st \<noteq> bs_Invalid) s' 0)"
proof -
  let ?s = "(demo_after_read MSI)\<lparr>pendingInvalidate := (\<lambda>_. None)(0 := Some (InvalidateMsg 8 0 2 4))\<rparr>"
  have "cache_ok MSI demo_config ?s"
    by (rule cache_ok_pending[OF msi.demo_after_read_ok]) (auto simp: demo_tag split: if_splits)
  from msi_invalidated[OF this demo_config_ok, of 0 "InvalidateMsg 8 0 2 4"] show ?thesis
    by (auto elim: returns_mono)
qed

text \<open>
  The LRU policy returns a block that may be evicted and was used no later than any other one,
  and no block exactly if none may be evicted.
\<close>

theorem lru_Evict_correct:
  assumes "B \<noteq> []" and "\<forall>b\<in>set B. used_at b < max_tick"
  shows "returns (lru_Evict MSI B) (\<lambda>e. case e of None \<Rightarrow> \<forall>b\<in>set B. \<not> evictable MSI b
    | Some j \<Rightarrow> j < length B \<and> evictable MSI (B ! j) \<and> (\<forall>b\<in>set B. evictable MSI b \<longrightarrow> used_at (B ! j) \<le> used_at b))"
  by (rule lru_Evict_wp[OF assms])

theorem lru_Evict_correct_witness:
  "returns (lru_Evict MSI [(demo_block MSI)\<lparr>locked := False, state := bs_Shared\<rparr>]) (\<lambda>e. e \<noteq> None)"
  by (rule returns_mono[OF lru_Evict_correct]) (auto simp: demo_block_def evictable_def max_tick_def split: option.splits)

text \<open>
  The random policy draws an index below the size of the set, not below the number of blocks
  that may be evicted: it fails its own assertion exactly if some block may be evicted and the index
  drawn is not below their number.
\<close>

theorem random_Evict_fails:
  "random_Evict MSI r B = None \<longleftrightarrow>
     B = [] \<or> (0 < length (filter (evictable MSI) B) \<and> length (filter (evictable MSI) B) \<le> r mod length B)"
  by (rule random_Evict_None)

section \<open>Two runs with one block\<close>

text \<open>
  Reads of the addresses 0 and 4 (two tags, one slot) alternate while the answers to the
  invalidations of the lower level are under way.
\<close>

definition cancel_twice :: "(msg \<times> connection) list" where
  "cancel_twice =
    [(ReadMsg 101 0 0 4 False False False False, LocalConnection),
     (ReadResponseMsg 102 0 0 4 True True False False False 1, RemoteConnection),
     (ReadMsg 103 0 4 4 False False False False, LocalConnection),
     (ReadResponseMsg 104 0 4 4 True True False False False 3, RemoteConnection),
     (ReadMsg 105 0 0 4 False False False False, LocalConnection),
     (ReadMsg 106 0 4 4 False False False False, LocalConnection)]"

text \<open>
  An eviction that is cancelled and started again before the first answer arrives: each message
  is one the code handles, but the answer to the first invalidation fails the assertion that a
  cancelled block is not pending.
\<close>

theorem cancelled_twice_fails:
  "cache_run MSI demo_config cancel_twice (demo_start MSI) \<noteq> None \<and>
   cache_run MSI demo_config (cancel_twice @ [(InvalidateResponseMsg 107 0 0 4 False 4, LocalConnection)]) (demo_start MSI) = None"
  by (simp add: cancel_twice_def cache_eval demo_eval)

definition lost_eviction :: "(msg \<times> connection) list" where
  "lost_eviction =
    [(ReadMsg 101 0 0 4 False False False False, LocalConnection),
     (ReadResponseMsg 102 0 0 4 True True False False False 1, RemoteConnection),
     (InvalidateMsg 103 0 0 4, RemoteConnection),
     (ReadMsg 104 0 4 4 False False False False, LocalConnection),
     (ReadResponseMsg 105 0 4 4 True True False False False 3, RemoteConnection),
     (ReadMsg 106 0 0 4 False False False False, LocalConnection)]"

text \<open>
  \<open>AllocateBlock\<close> decides whether the lower level must be invalidated by looking up the block
  that is allocated instead of the one that is evicted: here the block with tag 1 is left pending
  and no message about it was ever sent to the lower level.
\<close>

theorem eviction_not_announced:
  "returns (cache_run MSI demo_config lost_eviction (demo_start MSI)) (\<lambda>s. pendingEviction s 1 \<noteq> None \<and>
     (\<forall>n pc sz d. Sent LocalConnection (InvalidateMsg n pc 4 sz) d \<notin> set (events s)))"
  by (simp add: lost_eviction_def cache_eval demo_eval)

end
