(* ===== verification/MESICache.thy ===== *)
theory MESICache
  imports CacheProps
begin

text \<open>
  The class \<^verbatim>\<open>MESICache\<close>: its states and its protocol. Each method is the one of \<^verbatim>\<open>Cache\<close> for the
  protocol \<open>MESI\<close>. A block that was granted is \<open>bs_Exclusive\<close>, and becomes \<open>bs_Modified\<close> with the
  first write, or when a lower level returns data.
\<close>

section \<open>The protocol\<close>

datatype MESIState = bs_Modified | bs_Exclusive | bs_Shared | bs_Invalid

fun MESI_downgrade :: "MESIState \<Rightarrow> MESIState" where
  "MESI_downgrade bs_Modified = bs_Shared"
| "MESI_downgrade bs_Exclusive = bs_Shared"
| "MESI_downgrade st = st"

fun MESI_absorb :: "MESIState \<Rightarrow> MESIState" where
  "MESI_absorb bs_Exclusive = bs_Modified"
| "MESI_absorb st = st"

definition MESI :: "MESIState protocol" where
  "MESI = \<lparr>modified = bs_Modified, shared = bs_Shared, invalid = bs_Invalid,
     read_only = (\<lambda>st. st = bs_Shared), exclusive = (\<lambda>st. st = bs_Exclusive \<or> st = bs_Modified), granted = bs_Exclusive,
     downgrade = MESI_downgrade, marks_dirty = (\<lambda>_. False), absorb = MESI_absorb,
     expects_data = (\<lambda>_. True), dirty = (\<lambda>st. st = bs_Modified), returns_stale = False\<rparr>"

lemma MESI_simps [simp]: "modified MESI = bs_Modified" "shared MESI = bs_Shared" "invalid MESI = bs_Invalid"
  "read_only MESI st \<longleftrightarrow> st = bs_Shared" "exclusive MESI st \<longleftrightarrow> st = bs_Exclusive \<or> st = bs_Modified" "granted MESI = bs_Exclusive"
  "downgrade MESI = MESI_downgrade" "\<not> marks_dirty MESI st" "absorb MESI = MESI_absorb"
  "expects_data MESI st" "dirty MESI st \<longleftrightarrow> st = bs_Modified" "\<not> returns_stale MESI"
  by (simp_all add: MESI_def)

lemma MESI_writable [simp]: "writable MESI st \<longleftrightarrow> st = bs_Modified \<or> st = bs_Exclusive"
  by (cases st) (auto simp: writable_def)

interpretation mesi: coherence MESI
proof
  show "downgrade MESI st \<noteq> invalid MESI \<and> read_only MESI (downgrade MESI st)" if "st \<noteq> invalid MESI" for st
    using that by (cases st) auto
  show "absorb MESI st \<noteq> invalid MESI" if "st \<noteq> invalid MESI" for st
    using that by (cases st) auto
qed auto

section \<open>The methods of the class\<close>

definition MESICache_GetSet :: "config \<Rightarrow> nat \<Rightarrow> nat option" where
  "MESICache_GetSet = GetSet"

definition MESICache_CalcTag :: "config \<Rightarrow> nat \<Rightarrow> nat" where
  "MESICache_CalcTag = CalcTag"

definition MESICache_CalcAddr :: "config \<Rightarrow> nat \<Rightarrow> nat" where
  "MESICache_CalcAddr = CalcAddr"

definition MESICache_CalcSetFromTag :: "config \<Rightarrow> nat \<Rightarrow> nat" where
  "MESICache_CalcSetFromTag = CalcSetFromTag"

definition MESICache_RandomEvictionPolicy_Evict :: "nat \<Rightarrow> MESIState BlockState list \<Rightarrow> nat option option" where
  "MESICache_RandomEvictionPolicy_Evict = random_Evict MESI"

definition MESICache_LRUEvictionPolicy_Evict :: "MESIState BlockState list \<Rightarrow> nat option option" where
  "MESICache_LRUEvictionPolicy_Evict = lru_Evict MESI"

definition MESICache_InvalidateBlock :: "nat \<Rightarrow> MESIState cache \<Rightarrow> MESIState cache option" where
  "MESICache_InvalidateBlock = InvalidateBlock MESI"

definition MESICache_Lookup :: "config \<Rightarrow> nat \<Rightarrow> MESIState cache \<Rightarrow> nat option option" where
  "MESICache_Lookup = Lookup"

definition MESICache_AllocateBlock :: "config \<Rightarrow> nat \<Rightarrow> MESIState cache \<Rightarrow> (bool \<times> MESIState cache) option" where
  "MESICache_AllocateBlock = AllocateBlock MESI"

definition MESICache_EvictBlock :: "config \<Rightarrow> nat \<Rightarrow> MESIState cache \<Rightarrow> MESIState cache option" where
  "MESICache_EvictBlock = EvictBlock MESI"

definition MESICache_LockBlock :: "config \<Rightarrow> nat \<Rightarrow> MESIState cache \<Rightarrow> MESIState cache option" where
  "MESICache_LockBlock = LockBlock"

definition MESICache_UnlockBlock :: "config \<Rightarrow> nat \<Rightarrow> MESIState cache \<Rightarrow> MESIState cache option" where
  "MESICache_UnlockBlock = UnlockBlock MESI"

definition MESICache_PrepareFreshBlock :: "config \<Rightarrow> nat \<Rightarrow> nat \<Rightarrow> nat \<Rightarrow> MESIState cache \<Rightarrow> MESIState cache option" where
  "MESICache_PrepareFreshBlock = PrepareFreshBlock MESI"

definition MESICache_RespondInvalidate :: "config \<Rightarrow> nat \<Rightarrow> MESIState cache \<Rightarrow> MESIState cache option" where
  "MESICache_RespondInvalidate = RespondInvalidate MESI"

definition MESICache_WaitOnBlockUnlock :: "nat \<Rightarrow> stored \<Rightarrow> MESIState cache \<Rightarrow> MESIState cache" where
  "MESICache_WaitOnBlockUnlock = WaitOnBlockUnlock"

definition MESICache_WaitOnRemoteReadResponse :: "nat \<Rightarrow> stored \<Rightarrow> MESIState cache \<Rightarrow> MESIState cache" where
  "MESICache_WaitOnRemoteReadResponse = WaitOnRemoteReadResponse"

definition MESICache_WaitOnSetUnlock :: "nat \<Rightarrow> stored \<Rightarrow> MESIState cache \<Rightarrow> MESIState cache" where
  "MESICache_WaitOnSetUnlock = WaitOnSetUnlock"

definition MESICache_PerformRead :: "config \<Rightarrow> msg \<Rightarrow> MESIState cache \<Rightarrow> MESIState cache option" where
  "MESICache_PerformRead = PerformRead MESI"

definition MESICache_PerformRemoteRead :: "config \<Rightarrow> msg \<Rightarrow> MESIState cache \<Rightarrow> MESIState cache option" where
  "MESICache_PerformRemoteRead = PerformRemoteRead MESI"

definition MESICache_PerformWrite :: "config \<Rightarrow> msg \<Rightarrow> MESIState cache \<Rightarrow> MESIState cache option" where
  "MESICache_PerformWrite = PerformWrite MESI"

definition MESICache_OnLocalRead :: "config \<Rightarrow> msg \<Rightarrow> MESIState cache \<Rightarrow> MESIState cache option" where
  "MESICache_OnLocalRead = OnLocalRead MESI"

definition MESICache_OnRemoteRead :: "config \<Rightarrow> msg \<Rightarrow> MESIState cache \<Rightarrow> MESIState cache option" where
  "MESICache_OnRemoteRead = OnRemoteRead MESI"

definition MESICache_OnLocalWrite :: "config \<Rightarrow> msg \<Rightarrow> MESIState cache \<Rightarrow> MESIState cache option" where
  "MESICache_OnLocalWrite = OnLocalWrite MESI"

definition MESICache_OnRemoteWrite :: "config \<Rightarrow> msg \<Rightarrow> MESIState cache \<Rightarrow> MESIState cache option" where
  "MESICache_OnRemoteWrite = OnRemoteWrite"

definition MESICache_OnRemoteInvalidate :: "config \<Rightarrow> msg \<Rightarrow> MESIState cache \<Rightarrow> MESIState cache option" where
  "MESICache_OnRemoteInvalidate = OnRemoteInvalidate MESI"

definition MESICache_OnLocalEviction :: "config \<Rightarrow> msg \<Rightarrow> MESIState cache \<Rightarrow> MESIState cache option" where
  "MESICache_OnLocalEviction = OnLocalEviction MESI"

definition MESICache_OnRemoteEviction :: "config \<Rightarrow> msg \<Rightarrow> MESIState cache \<Rightarrow> MESIState cache option" where
  "MESICache_OnRemoteEviction = OnRemoteEviction"

definition MESICache_OnLocalReadResponse :: "config \<Rightarrow> msg \<Rightarrow> MESIState cache \<Rightarrow> MESIState cache option" where
  "MESICache_OnLocalReadResponse = OnLocalReadResponse MESI"

definition MESICache_OnRemoteReadResponse :: "config \<Rightarrow> msg \<Rightarrow> MESIState cache \<Rightarrow> MESIState cache option" where
  "MESICache_OnRemoteReadResponse = OnRemoteReadResponse MESI"

definition MESICache_OnLocalInvalidateResponse :: "config \<Rightarrow> msg \<Rightarrow> MESIState cache \<Rightarrow> MESIState cache option" where
  "MESICache_OnLocalInvalidateResponse = OnLocalInvalidateResponse MESI"

definition MESICache_Initialize :: "config \<Rightarrow> MESIState BlockState list \<Rightarrow> connection event_manager \<Rightarrow> MESIState cache" where
  "MESICache_Initialize = Initialize"

definition MESICache_RecvMsg :: "config \<Rightarrow> msg \<Rightarrow> connection \<Rightarrow> MESIState cache \<Rightarrow> MESIState cache option" where
  "MESICache_RecvMsg = RecvMsg MESI"

lemmas mesi_methods = MESICache_GetSet_def MESICache_CalcTag_def MESICache_CalcAddr_def MESICache_CalcSetFromTag_def
  MESICache_RandomEvictionPolicy_Evict_def MESICache_LRUEvictionPolicy_Evict_def MESICache_InvalidateBlock_def MESICache_Lookup_def
  MESICache_AllocateBlock_def MESICache_EvictBlock_def MESICache_LockBlock_def MESICache_UnlockBlock_def
  MESICache_PrepareFreshBlock_def MESICache_RespondInvalidate_def MESICache_WaitOnBlockUnlock_def MESICache_WaitOnRemoteReadResponse_def
  MESICache_WaitOnSetUnlock_def MESICache_PerformRead_def MESICache_PerformRemoteRead_def MESICache_PerformWrite_def
  MESICache_OnLocalRead_def MESICache_OnRemoteRead_def MESICache_OnLocalWrite_def MESICache_OnRemoteWrite_def
  MESICache_OnRemoteInvalidate_def MESICache_OnLocalEviction_def MESICache_OnRemoteEviction_def MESICache_OnLocalReadResponse_def
  MESICache_OnRemoteReadResponse_def MESICache_OnLocalInvalidateResponse_def MESICache_Initialize_def MESICache_RecvMsg_def

section \<open>Properties\<close>

text \<open>
  A write to a block the MESI cache holds modified or exclusive completes at once: nothing is
  asked of the next level, and an exclusive block becomes modified. Any other write waits, and only
  the first request that misses on the block asks the next level, for exclusive ownership.
\<close>

theorem mesi_write_owned:
  assumes "cache_ok MESI c s" and "config_ok c" and "MESICache_Lookup c (MESICache_CalcTag c (addr m)) s = Some (Some i)"
  shows "returns (MESICache_PerformWrite c m s) (\<lambda>s'.
    if state (blk s i) = bs_Modified \<or> state (blk s i) = bs_Exclusive
    then events s' = events s @ completed m @
           [Sent LocalConnection (WriteResponseMsg (currentMsgStamp s) (generatingPC m) (addr m) (msize m) (msgID m)) (hitTime c),
            Disposed (msgID m)] \<and> state (blk s' i) = bs_Modified \<and> waitingOnBlockUnlock s' = waitingOnBlockUnlock s
    else events s' = events s @ (if locked (blk s i) then [] else
           [Sent RemoteConnection (ReadMsg (currentMsgStamp s) (generatingPC m) (CalcAddr c (CalcTag c (addr m))) (lineSize c)
              True (state (blk s i) \<noteq> bs_Invalid) False False) (missTime c)]) \<and>
         locked (blk s' i) \<and> state (blk s' i) = state (blk s i) \<and>
         waitingOnBlockUnlock s' (CalcTag c (addr m)) =
           Some (wait_after (waitingOnBlockUnlock s (CalcTag c (addr m))) (CB_PerformWrite m)))"
  unfolding mesi_methods
  by (rule returns_mono[OF write_served[OF assms[unfolded mesi_methods]]]) (simp add: miss_events_def split: if_splits)

theorem mesi_write_owned_witness:
  "returns (MESICache_PerformWrite demo_config (WriteMsg 6 0 2 4 False) (demo_granted MESI))
     (\<lambda>s'. state (blk s' 0) = bs_Modified \<and> waitingOnBlockUnlock s' = waitingOnBlockUnlock (demo_granted MESI))"
  by (rule returns_mono[OF mesi_write_owned[OF mesi.demo_granted_ok demo_config_ok, of "WriteMsg 6 0 2 4 False" 0]])
    (simp_all add: mesi_methods demo_tag mesi.demo_granted_lookup mesi.demo_granted_block)

text \<open>
  C6: When the response that grants ownership of a locked block arrives, every call that waits for
  the block is answered to the local side, in the order in which the calls began to wait. Answers to
  requests that waited for the set may follow; none is lost or repeated in between.
\<close>

theorem mesi_grant_answers:
  assumes "cache_reach MESI c s" and "MESICache_Lookup c (MESICache_CalcTag c (addr m)) s = Some (Some i)"
    and "locked (blk s i)" and "exclusiveOwnership m"
  shows "\<exists>f. waitingOnBlockUnlock s (CalcTag c (addr m)) = Some f \<and>
    returns (MESICache_OnRemoteReadResponse c m s) (\<lambda>s'. \<exists>es. answers s' = answers s @ call_ids f @ es)"
  using mesi.grant_completes[OF _ _ assms(2)[unfolded mesi_methods] assms(3,4)] mesi.reach_inv[OF assms(1)]
  by (simp add: mesi_methods)

theorem mesi_grant_answers_witness:
  "returns (MESICache_OnRemoteReadResponse demo_config (ReadResponseMsg 9 0 0 4 True True False True False 1) (demo_after_read MESI))
     (\<lambda>s'. \<exists>es. answers s' = answers (demo_after_read MESI) @ 5 # es)"
  using mesi_grant_answers[OF demo_after_read_reach, of "ReadResponseMsg 9 0 0 4 True True False True False 1" 0]
  by (simp add: mesi_methods demo_tag0 demo_after_read_lookup demo_after_read_block demo_after_read(3))

text \<open>
  C9: In every reachable state the deferred calls are well typed: those that wait for a block are
  reads and writes of this block, those that wait for a remote response are remote reads of its
  block, those that wait for a set retry local reads and writes of this set, and what waits for an
  invalidation is an invalidation of the block.
\<close>

theorem mesi_calls_typed:
  assumes "cache_reach MESI c s"
  shows "(\<forall>t f. waitingOnBlockUnlock s t = Some f \<longrightarrow> block_call c t f) \<and>
    (\<forall>t f. waitingOnRemoteReads s t = Some f \<longrightarrow> remote_call c t f) \<and>
    length (waitingOnSetUnlock s) = setCount c \<and>
    (\<forall>k<setCount c. \<forall>f. waitingOnSetUnlock s ! k = Some f \<longrightarrow> set_call c k f) \<and>
    (\<forall>t m. pendingInvalidate s t = Some m \<longrightarrow> is_invalidate m \<and> CalcTag c (addr m) = t)"
  using mesi.reach_inv[OF assms] by (auto simp: cache_ok_def parts_ok_def waits_ok_def queues_ok_def)

theorem mesi_calls_typed_witness:
  "block_call demo_config 0 (CB_PerformRead (ReadMsg 5 0 3 4 False False False False))"
  using conjunct1[OF mesi_calls_typed[OF demo_after_read_reach], rule_format, of 0] by (simp add: demo_after_read(3))

end
