(* ===== verification/MOESICache.thy ===== *)
theory MOESICache
  imports CacheProps
begin

text \<open>
  The class \<^verbatim>\<open>MOESICache\<close>: its states and its protocol. Each method is the one of \<^verbatim>\<open>Cache\<close> for the
  protocol \<open>MOESI\<close>. A modified block that another cache reads stays here as \<open>bs_Owned\<close>: it may no longer
  be written, and its data are still to be written back.
\<close>

section \<open>The protocol\<close>

datatype MOESIState = bs_Modified | bs_Owned | bs_Exclusive | bs_Shared | bs_Invalid

fun MOESI_downgrade :: "MOESIState \<Rightarrow> MOESIState" where
  "MOESI_downgrade bs_Modified = bs_Owned"
| "MOESI_downgrade bs_Exclusive = bs_Shared"
| "MOESI_downgrade st = st"

fun MOESI_absorb :: "MOESIState \<Rightarrow> MOESIState" where
  "MOESI_absorb bs_Exclusive = bs_Modified"
| "MOESI_absorb bs_Shared = bs_Owned"
| "MOESI_absorb st = st"

definition MOESI :: "MOESIState protocol" where
  "MOESI = \<lparr>modified = bs_Modified, shared = bs_Shared, invalid = bs_Invalid,
     read_only = (\<lambda>st. st = bs_Shared \<or> st = bs_Owned), exclusive = (\<lambda>st. st = bs_Exclusive \<or> st = bs_Modified),
     granted = bs_Exclusive, downgrade = MOESI_downgrade, marks_dirty = (\<lambda>st. st = bs_Modified), absorb = MOESI_absorb,
     expects_data = (\<lambda>_. True), dirty = (\<lambda>st. st = bs_Modified \<or> st = bs_Owned), returns_stale = False\<rparr>"

lemma MOESI_simps [simp]: "modified MOESI = bs_Modified" "shared MOESI = bs_Shared" "invalid MOESI = bs_Invalid"
  "read_only MOESI st \<longleftrightarrow> st = bs_Shared \<or> st = bs_Owned" "exclusive MOESI st \<longleftrightarrow> st = bs_Exclusive \<or> st = bs_Modified"
  "granted MOESI = bs_Exclusive" "downgrade MOESI = MOESI_downgrade" "marks_dirty MOESI st \<longleftrightarrow> st = bs_Modified"
  "absorb MOESI = MOESI_absorb" "expects_data MOESI st" "dirty MOESI st \<longleftrightarrow> st = bs_Modified \<or> st = bs_Owned"
  "\<not> returns_stale MOESI"
  by (simp_all add: MOESI_def)

lemma MOESI_writable [simp]: "writable MOESI st \<longleftrightarrow> st = bs_Modified \<or> st = bs_Exclusive"
  by (cases st) (auto simp: writable_def)

lemma MOESI_laws: "coherence (MOESI\<lparr>returns_stale := b\<rparr>)"
proof
  let ?p = "MOESI\<lparr>returns_stale := b\<rparr>"
  show "downgrade ?p st \<noteq> invalid ?p \<and> read_only ?p (downgrade ?p st)" if "st \<noteq> invalid ?p" for st
    using that by (cases st) auto
  show "absorb ?p st \<noteq> invalid ?p" if "st \<noteq> invalid ?p" for st
    using that by (cases st) auto
  show "exclusive ?p st \<longleftrightarrow> writable ?p st" if "st \<noteq> invalid ?p" for st
    using that by (cases st) (auto simp: writable_def)
qed (auto simp: writable_def)

interpretation moesi: coherence MOESI
  using MOESI_laws[of False] by (simp add: MOESI_def)

section \<open>The methods of the class\<close>

definition MOESICache_GetSet :: "config \<Rightarrow> nat \<Rightarrow> nat option" where
  "MOESICache_GetSet = GetSet"

definition MOESICache_CalcTag :: "config \<Rightarrow> nat \<Rightarrow> nat" where
  "MOESICache_CalcTag = CalcTag"

definition MOESICache_CalcAddr :: "config \<Rightarrow> nat \<Rightarrow> nat" where
  "MOESICache_CalcAddr = CalcAddr"

definition MOESICache_CalcSetFromTag :: "config \<Rightarrow> nat \<Rightarrow> nat" where
  "MOESICache_CalcSetFromTag = CalcSetFromTag"

definition MOESICache_RandomEvictionPolicy_Evict :: "nat \<Rightarrow> MOESIState BlockState list \<Rightarrow> nat option option" where
  "MOESICache_RandomEvictionPolicy_Evict = random_Evict MOESI"

definition MOESICache_LRUEvictionPolicy_Evict :: "MOESIState BlockState list \<Rightarrow> nat option option" where
  "MOESICache_LRUEvictionPolicy_Evict = lru_Evict MOESI"

definition MOESICache_InvalidateBlock :: "nat \<Rightarrow> MOESIState cache \<Rightarrow> MOESIState cache option" where
  "MOESICache_InvalidateBlock = InvalidateBlock MOESI"

definition MOESICache_Lookup :: "config \<Rightarrow> nat \<Rightarrow> MOESIState cache \<Rightarrow> nat option option" where
  "MOESICache_Lookup = Lookup"

definition MOESICache_AllocateBlock :: "config \<Rightarrow> nat \<Rightarrow> MOESIState cache \<Rightarrow> (bool \<times> MOESIState cache) option" where
  "MOESICache_AllocateBlock = AllocateBlock MOESI"

definition MOESICache_EvictBlock :: "config \<Rightarrow> nat \<Rightarrow> MOESIState cache \<Rightarrow> MOESIState cache option" where
  "MOESICache_EvictBlock = EvictBlock MOESI"

definition MOESICache_LockBlock :: "config \<Rightarrow> nat \<Rightarrow> MOESIState cache \<Rightarrow> MOESIState cache option" where
  "MOESICache_LockBlock = LockBlock"

definition MOESICache_UnlockBlock :: "config \<Rightarrow> nat \<Rightarrow> MOESIState cache \<Rightarrow> MOESIState cache option" where
  "MOESICache_UnlockBlock = UnlockBlock MOESI"

definition MOESICache_PrepareFreshBlock :: "config \<Rightarrow> nat \<Rightarrow> nat \<Rightarrow> nat \<Rightarrow> MOESIState cache \<Rightarrow> MOESIState cache option" where
  "MOESICache_PrepareFreshBlock = PrepareFreshBlock MOESI"

definition MOESICache_RespondInvalidate :: "config \<Rightarrow> nat \<Rightarrow> MOESIState cache \<Rightarrow> MOESIState cache option" where
  "MOESICache_RespondInvalidate = RespondInvalidate MOESI"

definition MOESICache_WaitOnBlockUnlock :: "nat \<Rightarrow> stored \<Rightarrow> MOESIState cache \<Rightarrow> MOESIState cache" where
  "MOESICache_WaitOnBlockUnlock = WaitOnBlockUnlock"

definition MOESICache_WaitOnRemoteReadResponse :: "nat \<Rightarrow> stored \<Rightarrow> MOESIState cache \<Rightarrow> MOESIState cache" where
  "MOESICache_WaitOnRemoteReadResponse = WaitOnRemoteReadResponse"

definition MOESICache_WaitOnSetUnlock :: "nat \<Rightarrow> stored \<Rightarrow> MOESIState cache \<Rightarrow> MOESIState cache" where
  "MOESICache_WaitOnSetUnlock = WaitOnSetUnlock"

definition MOESICache_PerformRead :: "config \<Rightarrow> msg \<Rightarrow> MOESIState cache \<Rightarrow> MOESIState cache option" where
  "MOESICache_PerformRead = PerformRead MOESI"

definition MOESICache_PerformRemoteRead :: "config \<Rightarrow> msg \<Rightarrow> MOESIState cache \<Rightarrow> MOESIState cache option" where
  "MOESICache_PerformRemoteRead = PerformRemoteRead MOESI"

definition MOESICache_PerformWrite :: "config \<Rightarrow> msg \<Rightarrow> MOESIState cache \<Rightarrow> MOESIState cache option" where
  "MOESICache_PerformWrite = PerformWrite MOESI"

definition MOESICache_OnLocalRead :: "config \<Rightarrow> msg \<Rightarrow> MOESIState cache \<Rightarrow> MOESIState cache option" where
  "MOESICache_OnLocalRead = OnLocalRead MOESI"

definition MOESICache_OnRemoteRead :: "config \<Rightarrow> msg \<Rightarrow> MOESIState cache \<Rightarrow> MOESIState cache option" where
  "MOESICache_OnRemoteRead = OnRemoteRead MOESI"

definition MOESICache_OnLocalWrite :: "config \<Rightarrow> msg \<Rightarrow> MOESIState cache \<Rightarrow> MOESIState cache option" where
  "MOESICache_OnLocalWrite = OnLocalWrite MOESI"

definition MOESICache_OnRemoteWrite :: "config \<Rightarrow> msg \<Rightarrow> MOESIState cache \<Rightarrow> MOESIState cache option" where
  "MOESICache_OnRemoteWrite = OnRemoteWrite"

definition MOESICache_OnRemoteInvalidate :: "config \<Rightarrow> msg \<Rightarrow> MOESIState cache \<Rightarrow> MOESIState cache option" where
  "MOESICache_OnRemoteInvalidate = OnRemoteInvalidate MOESI"

definition MOESICache_OnLocalEviction :: "config \<Rightarrow> msg \<Rightarrow> MOESIState cache \<Rightarrow> MOESIState cache option" where
  "MOESICache_OnLocalEviction = OnLocalEviction MOESI"

definition MOESICache_OnRemoteEviction :: "config \<Rightarrow> msg \<Rightarrow> MOESIState cache \<Rightarrow> MOESIState cache option" where
  "MOESICache_OnRemoteEviction = OnRemoteEviction"

definition MOESICache_OnLocalReadResponse :: "config \<Rightarrow> msg \<Rightarrow> MOESIState cache \<Rightarrow> MOESIState cache option" where
  "MOESICache_OnLocalReadResponse = OnLocalReadResponse MOESI"

definition MOESICache_OnRemoteReadResponse :: "config \<Rightarrow> msg \<Rightarrow> MOESIState cache \<Rightarrow> MOESIState cache option" where
  "MOESICache_OnRemoteReadResponse = OnRemoteReadResponse MOESI"

definition MOESICache_OnLocalInvalidateResponse :: "config \<Rightarrow> msg \<Rightarrow> MOESIState cache \<Rightarrow> MOESIState cache option" where
  "MOESICache_OnLocalInvalidateResponse = OnLocalInvalidateResponse MOESI"

definition MOESICache_Initialize :: "config \<Rightarrow> MOESIState BlockState list \<Rightarrow> connection event_manager \<Rightarrow> MOESIState cache" where
  "MOESICache_Initialize = Initialize"

definition MOESICache_RecvMsg :: "config \<Rightarrow> msg \<Rightarrow> connection \<Rightarrow> MOESIState cache \<Rightarrow> MOESIState cache option" where
  "MOESICache_RecvMsg = RecvMsg MOESI"

lemmas moesi_methods = MOESICache_GetSet_def MOESICache_CalcTag_def MOESICache_CalcAddr_def MOESICache_CalcSetFromTag_def
  MOESICache_RandomEvictionPolicy_Evict_def MOESICache_LRUEvictionPolicy_Evict_def MOESICache_InvalidateBlock_def MOESICache_Lookup_def
  MOESICache_AllocateBlock_def MOESICache_EvictBlock_def MOESICache_LockBlock_def MOESICache_UnlockBlock_def
  MOESICache_PrepareFreshBlock_def MOESICache_RespondInvalidate_def MOESICache_WaitOnBlockUnlock_def MOESICache_WaitOnRemoteReadResponse_def
  MOESICache_WaitOnSetUnlock_def MOESICache_PerformRead_def MOESICache_PerformRemoteRead_def MOESICache_PerformWrite_def
  MOESICache_OnLocalRead_def MOESICache_OnRemoteRead_def MOESICache_OnLocalWrite_def MOESICache_OnRemoteWrite_def
  MOESICache_OnRemoteInvalidate_def MOESICache_OnLocalEviction_def MOESICache_OnRemoteEviction_def MOESICache_OnLocalReadResponse_def
  MOESICache_OnRemoteReadResponse_def MOESICache_OnLocalInvalidateResponse_def MOESICache_Initialize_def MOESICache_RecvMsg_def

section \<open>Properties\<close>

text \<open>
  C8: A remote read that does not ask for ownership is answered with the data of any valid block. A
  modified block becomes owned and the answer is marked dirty, an exclusive one becomes shared; an
  owned block stays owned, and its answer is not marked dirty. Dirty data stay dirty in the cache.
\<close>

theorem moesi_remote_read:
  assumes "cache_ok MOESI c s" and "config_ok c" and "MOESICache_Lookup c (MOESICache_CalcTag c (addr m)) s = Some (Some i)"
    and "state (blk s i) \<noteq> bs_Invalid" and "\<not> requestingExclusive m"
  shows "returns (MOESICache_PerformRemoteRead c m s) (\<lambda>s'.
    state (blk s' i) = (case state (blk s i) of bs_Modified \<Rightarrow> bs_Owned | bs_Exclusive \<Rightarrow> bs_Shared | st \<Rightarrow> st) \<and>
    (dirty MOESI (state (blk s' i)) \<longleftrightarrow> dirty MOESI (state (blk s i))) \<and>
    events s' = events s @ completed m @
      [Sent RemoteConnection (ReadResponseMsg (currentMsgStamp s) (generatingPC m) (addr m) (msize m) True True False False
         (state (blk s i) = bs_Modified) (msgID m)) (hitTime c), Disposed (msgID m)])"
  using assms found[OF assms(1,2) assms(3)[unfolded moesi_methods]]
  by (cases "state (blk s i)")
    (simp_all add: moesi_methods PerformRemoteRead_def Let_def upd_blk_def blk_def send_def DisposeMsg_def SignalComplete_def completed_def)

theorem moesi_remote_read_witness:
  "returns (MOESICache_PerformRemoteRead demo_config (ReadMsg 6 0 2 4 False False False False) (demo_granted MOESI))
     (\<lambda>s'. state (blk s' 0) = bs_Shared)"
  by (rule returns_mono[OF moesi_remote_read[OF moesi.demo_granted_ok demo_config_ok, of "ReadMsg 6 0 2 4 False False False False" 0]])
    (simp_all add: moesi_methods demo_tag moesi.demo_granted_lookup moesi.demo_granted_block)

end
