(* ===== verification/BIPMOESICache.thy ===== *)
theory BIPMOESICache
  imports MOESICache
begin

text \<open>
  The class \<^verbatim>\<open>BIPMOESICache\<close>: the states and the protocol of \<^verbatim>\<open>MOESICache\<close>, except that a read response
  that no request waits for is sent back to the next level as an eviction.
\<close>

section \<open>The protocol\<close>

type_synonym BIPMOESIState = MOESIState

definition BIPMOESI :: "BIPMOESIState protocol" where
  "BIPMOESI = MOESI\<lparr>returns_stale := True\<rparr>"

interpretation bip: coherence BIPMOESI
  unfolding BIPMOESI_def by (rule MOESI_laws)

section \<open>The methods of the class\<close>

definition BIPMOESICache_GetSet :: "config \<Rightarrow> nat \<Rightarrow> nat option" where
  "BIPMOESICache_GetSet = GetSet"

definition BIPMOESICache_CalcTag :: "config \<Rightarrow> nat \<Rightarrow> nat" where
  "BIPMOESICache_CalcTag = CalcTag"

definition BIPMOESICache_CalcAddr :: "config \<Rightarrow> nat \<Rightarrow> nat" where
  "BIPMOESICache_CalcAddr = CalcAddr"

definition BIPMOESICache_CalcSetFromTag :: "config \<Rightarrow> nat \<Rightarrow> nat" where
  "BIPMOESICache_CalcSetFromTag = CalcSetFromTag"

definition BIPMOESICache_RandomEvictionPolicy_Evict :: "nat \<Rightarrow> MOESIState BlockState list \<Rightarrow> nat option option" where
  "BIPMOESICache_RandomEvictionPolicy_Evict = random_Evict BIPMOESI"

definition BIPMOESICache_LRUEvictionPolicy_Evict :: "MOESIState BlockState list \<Rightarrow> nat option option" where
  "BIPMOESICache_LRUEvictionPolicy_Evict = lru_Evict BIPMOESI"

definition BIPMOESICache_InvalidateBlock :: "nat \<Rightarrow> MOESIState cache \<Rightarrow> MOESIState cache option" where
  "BIPMOESICache_InvalidateBlock = InvalidateBlock BIPMOESI"

definition BIPMOESICache_Lookup :: "config \<Rightarrow> nat \<Rightarrow> MOESIState cache \<Rightarrow> nat option option" where
  "BIPMOESICache_Lookup = Lookup"

definition BIPMOESICache_AllocateBlock :: "config \<Rightarrow> nat \<Rightarrow> MOESIState cache \<Rightarrow> (bool \<times> MOESIState cache) option" where
  "BIPMOESICache_AllocateBlock = AllocateBlock BIPMOESI"

definition BIPMOESICache_EvictBlock :: "config \<Rightarrow> nat \<Rightarrow> MOESIState cache \<Rightarrow> MOESIState cache option" where
  "BIPMOESICache_EvictBlock = EvictBlock BIPMOESI"

definition BIPMOESICache_LockBlock :: "config \<Rightarrow> nat \<Rightarrow> MOESIState cache \<Rightarrow> MOESIState cache option" where
  "BIPMOESICache_LockBlock = LockBlock"

definition BIPMOESICache_UnlockBlock :: "config \<Rightarrow> nat \<Rightarrow> MOESIState cache \<Rightarrow> MOESIState cache option" where
  "BIPMOESICache_UnlockBlock = UnlockBlock BIPMOESI"

definition BIPMOESICache_PrepareFreshBlock :: "config \<Rightarrow> nat \<Rightarrow> nat \<Rightarrow> nat \<Rightarrow> MOESIState cache \<Rightarrow> MOESIState cache option" where
  "BIPMOESICache_PrepareFreshBlock = PrepareFreshBlock BIPMOESI"

definition BIPMOESICache_RespondInvalidate :: "config \<Rightarrow> nat \<Rightarrow> MOESIState cache \<Rightarrow> MOESIState cache option" where
  "BIPMOESICache_RespondInvalidate = RespondInvalidate BIPMOESI"

definition BIPMOESICache_WaitOnBlockUnlock :: "nat \<Rightarrow> stored \<Rightarrow> MOESIState cache \<Rightarrow> MOESIState cache" where
  "BIPMOESICache_WaitOnBlockUnlock = WaitOnBlockUnlock"

definition BIPMOESICache_WaitOnRemoteReadResponse :: "nat \<Rightarrow> stored \<Rightarrow> MOESIState cache \<Rightarrow> MOESIState cache" where
  "BIPMOESICache_WaitOnRemoteReadResponse = WaitOnRemoteReadResponse"

definition BIPMOESICache_WaitOnSetUnlock :: "nat \<Rightarrow> stored \<Rightarrow> MOESIState cache \<Rightarrow> MOESIState cache" where
  "BIPMOESICache_WaitOnSetUnlock = WaitOnSetUnlock"

definition BIPMOESICache_PerformRead :: "config \<Rightarrow> msg \<Rightarrow> MOESIState cache \<Rightarrow> MOESIState cache option" where
  "BIPMOESICache_PerformRead = PerformRead BIPMOESI"

definition BIPMOESICache_PerformRemoteRead :: "config \<Rightarrow> msg \<Rightarrow> MOESIState cache \<Rightarrow> MOESIState cache option" where
  "BIPMOESICache_PerformRemoteRead = PerformRemoteRead BIPMOESI"

definition BIPMOESICache_PerformWrite :: "config \<Rightarrow> msg \<Rightarrow> MOESIState cache \<Rightarrow> MOESIState cache option" where
  "BIPMOESICache_PerformWrite = PerformWrite BIPMOESI"

definition BIPMOESICache_OnLocalRead :: "config \<Rightarrow> msg \<Rightarrow> MOESIState cache \<Rightarrow> MOESIState cache option" where
  "BIPMOESICache_OnLocalRead = OnLocalRead BIPMOESI"

definition BIPMOESICache_OnRemoteRead :: "config \<Rightarrow> msg \<Rightarrow> MOESIState cache \<Rightarrow> MOESIState cache option" where
  "BIPMOESICache_OnRemoteRead = OnRemoteRead BIPMOESI"

definition BIPMOESICache_OnLocalWrite :: "config \<Rightarrow> msg \<Rightarrow> MOESIState cache \<Rightarrow> MOESIState cache option" where
  "BIPMOESICache_OnLocalWrite = OnLocalWrite BIPMOESI"

definition BIPMOESICache_OnRemoteWrite :: "config \<Rightarrow> msg \<Rightarrow> MOESIState cache \<Rightarrow> MOESIState cache option" where
  "BIPMOESICache_OnRemoteWrite = OnRemoteWrite"

definition BIPMOESICache_OnRemoteInvalidate :: "config \<Rightarrow> msg \<Rightarrow> MOESIState cache \<Rightarrow> MOESIState cache option" where
  "BIPMOESICache_OnRemoteInvalidate = OnRemoteInvalidate BIPMOESI"

definition BIPMOESICache_OnLocalEviction :: "config \<Rightarrow> msg \<Rightarrow> MOESIState cache \<Rightarrow> MOESIState cache option" where
  "BIPMOESICache_OnLocalEviction = OnLocalEviction BIPMOESI"

definition BIPMOESICache_OnRemoteEviction :: "config \<Rightarrow> msg \<Rightarrow> MOESIState cache \<Rightarrow> MOESIState cache option" where
  "BIPMOESICache_OnRemoteEviction = OnRemoteEviction"

definition BIPMOESICache_OnLocalReadResponse :: "config \<Rightarrow> msg \<Rightarrow> MOESIState cache \<Rightarrow> MOESIState cache option" where
  "BIPMOESICache_OnLocalReadResponse = OnLocalReadResponse BIPMOESI"

definition BIPMOESICache_OnRemoteReadResponse :: "config \<Rightarrow> msg \<Rightarrow> MOESIState cache \<Rightarrow> MOESIState cache option" where
  "BIPMOESICache_OnRemoteReadResponse = OnRemoteReadResponse BIPMOESI"

definition BIPMOESICache_OnLocalInvalidateResponse :: "config \<Rightarrow> msg \<Rightarrow> MOESIState cache \<Rightarrow> MOESIState cache option" where
  "BIPMOESICache_OnLocalInvalidateResponse = OnLocalInvalidateResponse BIPMOESI"

definition BIPMOESICache_Initialize :: "config \<Rightarrow> MOESIState BlockState list \<Rightarrow> connection event_manager \<Rightarrow> MOESIState cache" where
  "BIPMOESICache_Initialize = Initialize"

definition BIPMOESICache_RecvMsg :: "config \<Rightarrow> msg \<Rightarrow> connection \<Rightarrow> MOESIState cache \<Rightarrow> MOESIState cache option" where
  "BIPMOESICache_RecvMsg = RecvMsg BIPMOESI"

lemmas bip_methods = BIPMOESICache_GetSet_def BIPMOESICache_CalcTag_def BIPMOESICache_CalcAddr_def BIPMOESICache_CalcSetFromTag_def
  BIPMOESICache_RandomEvictionPolicy_Evict_def BIPMOESICache_LRUEvictionPolicy_Evict_def BIPMOESICache_InvalidateBlock_def BIPMOESICache_Lookup_def
  BIPMOESICache_AllocateBlock_def BIPMOESICache_EvictBlock_def BIPMOESICache_LockBlock_def BIPMOESICache_UnlockBlock_def
  BIPMOESICache_PrepareFreshBlock_def BIPMOESICache_RespondInvalidate_def BIPMOESICache_WaitOnBlockUnlock_def BIPMOESICache_WaitOnRemoteReadResponse_def
  BIPMOESICache_WaitOnSetUnlock_def BIPMOESICache_PerformRead_def BIPMOESICache_PerformRemoteRead_def BIPMOESICache_PerformWrite_def
  BIPMOESICache_OnLocalRead_def BIPMOESICache_OnRemoteRead_def BIPMOESICache_OnLocalWrite_def BIPMOESICache_OnRemoteWrite_def
  BIPMOESICache_OnRemoteInvalidate_def BIPMOESICache_OnLocalEviction_def BIPMOESICache_OnRemoteEviction_def BIPMOESICache_OnLocalReadResponse_def
  BIPMOESICache_OnRemoteReadResponse_def BIPMOESICache_OnLocalInvalidateResponse_def BIPMOESICache_Initialize_def BIPMOESICache_RecvMsg_def

section \<open>Comparison with MOESI\<close>

text \<open>A response nobody waits for: its block is not here, or not locked.\<close>

definition stale_response :: "config \<Rightarrow> msg \<Rightarrow> connection \<Rightarrow> BIPMOESIState cache \<Rightarrow> bool" where
  "stale_response c m k s \<longleftrightarrow> k = RemoteConnection \<and> is_read_response m \<and>
     (case Lookup c (CalcTag c (addr m)) s of Some (Some i) \<Rightarrow> \<not> locked (blk s i) | Some None \<Rightarrow> True | None \<Rightarrow> False)"

lemma BIPMOESI_fields [simp]: "modified BIPMOESI = modified MOESI" "shared BIPMOESI = shared MOESI" "invalid BIPMOESI = invalid MOESI"
  "read_only BIPMOESI = read_only MOESI" "exclusive BIPMOESI = exclusive MOESI" "granted BIPMOESI = granted MOESI"
  "downgrade BIPMOESI = downgrade MOESI" "marks_dirty BIPMOESI = marks_dirty MOESI" "absorb BIPMOESI = absorb MOESI"
  "expects_data BIPMOESI = expects_data MOESI" "dirty BIPMOESI = dirty MOESI" "returns_stale BIPMOESI"
  by (simp_all add: BIPMOESI_def del: MOESI_simps)

text \<open>No method but \<open>OnRemoteReadResponse\<close> looks at the difference.\<close>

named_theorems same

lemma same_policy [same]: "evictable BIPMOESI = evictable MOESI" "random_Evict BIPMOESI = random_Evict MOESI" "lru_Evict BIPMOESI = lru_Evict MOESI"
proof -
  show e: "evictable BIPMOESI = evictable MOESI" by (simp add: evictable_def fun_eq_iff)
  have "pick_from BIPMOESI i r B = pick_from MOESI i r B" for i r B
    by (induction MOESI i r B rule: pick_from.induct) (simp_all add: e)
  then show "random_Evict BIPMOESI = random_Evict MOESI" by (simp add: random_Evict_def fun_eq_iff e)
  have "lru_from BIPMOESI i u x B = lru_from MOESI i u x B" for i u x B
    by (induction MOESI i u x B rule: lru_from.induct) (simp_all add: e)
  then show "lru_Evict BIPMOESI = lru_Evict MOESI" by (simp add: lru_Evict_def fun_eq_iff e)
qed

lemma same_blocks [same]: "InvalidateBlock BIPMOESI = InvalidateBlock MOESI" "PrepareFreshBlock BIPMOESI = PrepareFreshBlock MOESI"
  "EvictBlock BIPMOESI = EvictBlock MOESI" "Evict BIPMOESI = Evict MOESI"
  by (simp_all only: InvalidateBlock_def PrepareFreshBlock_def EvictBlock_def Evict_def fun_eq_iff BIPMOESI_fields same simp_thms)

lemma same_requests [same]: "AllocateBlock BIPMOESI = AllocateBlock MOESI" "PerformRead BIPMOESI = PerformRead MOESI"
  "PerformWrite BIPMOESI = PerformWrite MOESI" "PerformRemoteRead BIPMOESI = PerformRemoteRead MOESI"
  "RespondInvalidate BIPMOESI = RespondInvalidate MOESI"
  by (simp_all only: AllocateBlock_def PerformRead_def PerformWrite_def PerformRemoteRead_def RespondInvalidate_def
      fun_eq_iff BIPMOESI_fields same simp_thms)

lemma same_handlers [same]: "OnLocalRead BIPMOESI = OnLocalRead MOESI" "OnRemoteRead BIPMOESI = OnRemoteRead MOESI"
  "OnLocalWrite BIPMOESI = OnLocalWrite MOESI" "OnRemoteInvalidate BIPMOESI = OnRemoteInvalidate MOESI"
  "OnLocalEviction BIPMOESI = OnLocalEviction MOESI" "absorb_data BIPMOESI = absorb_data MOESI"
  "finish_response BIPMOESI = finish_response MOESI"
  by (simp_all only: OnLocalRead_def OnRemoteRead_def OnLocalWrite_def OnRemoteInvalidate_def OnLocalEviction_def
      absorb_data_def finish_response_def fun_eq_iff BIPMOESI_fields same simp_thms)

lemma same_dispatch [same]: "OnLocalInvalidateResponse BIPMOESI = OnLocalInvalidateResponse MOESI" "RecvMsg_with BIPMOESI = RecvMsg_with MOESI"
proof -
  show l: "OnLocalInvalidateResponse BIPMOESI = OnLocalInvalidateResponse MOESI"
    by (simp only: OnLocalInvalidateResponse_def fun_eq_iff same simp_thms)
  show "RecvMsg_with BIPMOESI = RecvMsg_with MOESI" by (simp only: RecvMsg_with_def fun_eq_iff same l simp_thms)
qed

lemma same_calls [same]: "call_stored BIPMOESI = call_stored MOESI"
proof (intro ext)
  fix c f s
  show "call_stored BIPMOESI c f s = call_stored MOESI c f s"
  proof (induction f arbitrary: s)
    case (Composit f g)
    have "call_stored BIPMOESI c f = call_stored MOESI c f" "call_stored BIPMOESI c g = call_stored MOESI c g"
      using Composit by (simp_all add: fun_eq_iff)
    then show ?case by simp
  qed (simp_all add: same)
qed

lemma same_unlock [same]: "UnlockBlock BIPMOESI = UnlockBlock MOESI" "OnLocalReadResponse BIPMOESI = OnLocalReadResponse MOESI"
  by (simp_all only: UnlockBlock_def OnLocalReadResponse_def fun_eq_iff BIPMOESI_fields same simp_thms)

lemma response_cases:
  "OnRemoteReadResponse BIPMOESI c m s =
    (case Lookup c (CalcTag c (addr m)) s of
       Some (Some i) \<Rightarrow> if locked (blk s i) then OnRemoteReadResponse MOESI c m s
         else Some (DisposeMsg m (send RemoteConnection (\<lambda>n. EvictionMsg n 0 (addr m) (msize m) (blockAttached m)) (evictionTime c) s))
     | Some None \<Rightarrow> Some (DisposeMsg m (send RemoteConnection (\<lambda>n. EvictionMsg n 0 (addr m) (msize m) (blockAttached m)) (evictionTime c) s))
     | None \<Rightarrow> None)"
  by (simp add: OnRemoteReadResponse_def Let_def same split: option.splits del: MOESI_simps)

lemma received_blocks [simp]: "blk (s\<lparr>messagesReceived := n\<rparr>) = blk s"
  "Lookup c t (s\<lparr>messagesReceived := n\<rparr>) = Lookup c t s"
  by (simp_all add: Lookup_def blk_def fun_eq_iff)

section \<open>Properties\<close>

text \<open>
  C7: The BIPMOESI cache handles every message, in every state, exactly as the MOESI cache does,
  except for a read response that no request waits for: MOESI drops it, and BIPMOESI also sends its
  data back to the next level as an eviction.
\<close>

theorem bip_equivalence:
  "if stale_response c m k s
   then MOESICache_RecvMsg c m k s = Some (DisposeMsg m (s\<lparr>messagesReceived := messagesReceived s + 1\<rparr>)) \<and>
     BIPMOESICache_RecvMsg c m k s = Some (DisposeMsg m (send RemoteConnection
       (\<lambda>n. EvictionMsg n 0 (addr m) (msize m) (blockAttached m)) (evictionTime c) (s\<lparr>messagesReceived := messagesReceived s + 1\<rparr>)))
   else BIPMOESICache_RecvMsg c m k s = MOESICache_RecvMsg c m k s"
  by (cases k; cases m)
    (auto simp: stale_response_def bip_methods moesi_methods RecvMsg_def RecvMsg_with_def same response_cases Let_def
       OnRemoteReadResponse_def[of MOESI] split: option.splits if_splits)

end
