(* ===== verification/EventQueue.thy ===== *)
theory EventQueue
  imports MemMessages "HOL-Library.Multiset_Order"
begin

text \<open>
  The event queue of \<^verbatim>\<open>MemSys/EventManager.cpp\<close> (\<^verbatim>\<open>ScheduleEvent\<close>, \<^verbatim>\<open>ScheduleEventAbsolute\<close>,
  \<^verbatim>\<open>ProcessTick\<close>): events are kept per tick in the order in which they were scheduled. What a call
  does to the devices is a parameter: \<open>h e t w\<close> is the state of the devices after the event \<open>e\<close> at
  tick \<open>t\<close>, with what it schedules and the delays; \<open>None\<close> is a failed assertion of a device.
\<close>

section \<open>The queue\<close>

record ('e, 'w) scheduler =
  scheduleSet :: "nat \<Rightarrow> 'e list option"
  ticks :: nat
  world :: 'w

type_synonym ('e, 'w) handler = "'e \<Rightarrow> nat \<Rightarrow> 'w \<Rightarrow> ('w \<times> ('e \<times> nat) list) option"

definition ScheduleEventAbsolute :: "'e \<Rightarrow> nat \<Rightarrow> ('e, 'w) scheduler \<Rightarrow> ('e, 'w) scheduler option" where
  "ScheduleEventAbsolute f t s = do {
     DebugAssert (t \<ge> ticks s);
     let q = (case scheduleSet s t of None \<Rightarrow> [] | Some q \<Rightarrow> q);
     Some (s\<lparr>scheduleSet := (scheduleSet s)(t := Some (q @ [f]))\<rparr>) }"

definition ScheduleDelayed :: "'e \<Rightarrow> nat \<Rightarrow> ('e, 'w) scheduler \<Rightarrow> ('e, 'w) scheduler option" where
  "ScheduleDelayed f dT s = ScheduleEventAbsolute f (ticks s + dT) s"

fun schedule_all :: "('e \<times> nat) list \<Rightarrow> ('e, 'w) scheduler \<Rightarrow> ('e, 'w) scheduler option" where
  "schedule_all [] s = Some s"
| "schedule_all ((f, d) # fs) s = do { s \<leftarrow> ScheduleDelayed f d s; schedule_all fs s }"

text \<open>\<open>Call\<close>: the event runs, and schedules through the manager.\<close>

definition call_event :: "('e, 'w) handler \<Rightarrow> 'e \<Rightarrow> ('e, 'w) scheduler \<Rightarrow> ('e, 'w) scheduler option" where
  "call_event h e s = do {
     (w, new) \<leftarrow> h e (ticks s) (world s);
     schedule_all new (s\<lparr>world := w\<rparr>) }"

text \<open>
  The loop of \<^verbatim>\<open>ProcessTick\<close> reads the size of the list in every round: an event that is scheduled
  for the current tick while it is processed is called in the same tick. \<open>None\<close> is also a loop that
  does not end.
\<close>

partial_function (option) call_due :: "('e, 'w) handler \<Rightarrow> nat \<Rightarrow> ('e, 'w) scheduler \<Rightarrow> ('e, 'w) scheduler option" where
  "call_due h i s = (case scheduleSet s (ticks s) of
     None \<Rightarrow> None
   | Some q \<Rightarrow> if i < length q then do { s \<leftarrow> call_event h (q ! i) s; call_due h (i + 1) s } else Some s)"

definition ProcessTick :: "('e, 'w) handler \<Rightarrow> ('e, 'w) scheduler \<Rightarrow> ('e, 'w) scheduler option" where
  "ProcessTick h s = do {
     s \<leftarrow> (if scheduleSet s (ticks s) \<noteq> None then do {
             s \<leftarrow> call_due h 0 s;
             Some (s\<lparr>scheduleSet := (scheduleSet s)(ticks s := None)\<rparr>) }
           else Some s);
     Some (s\<lparr>ticks := ticks s + 1\<rparr>) }"

section \<open>An agenda\<close>

text \<open>
  The specification: one list of pairs of a time and an event, in the order of scheduling. A step
  calls the first event that is due, or, when none is due, advances the time.
\<close>

type_synonym ('e, 'w) agenda = "nat \<times> (nat \<times> 'e) list \<times> 'w"

definition due :: "nat \<Rightarrow> (nat \<times> 'e) list \<Rightarrow> 'e list" where
  "due t A = map snd (filter (\<lambda>(u, e). u = t) A)"

fun remove_due :: "nat \<Rightarrow> (nat \<times> 'e) list \<Rightarrow> (nat \<times> 'e) list" where
  "remove_due t [] = []"
| "remove_due t ((u, e) # A) = (if u = t then A else (u, e) # remove_due t A)"

inductive agenda_step :: "('e, 'w) handler \<Rightarrow> ('e, 'w) agenda \<Rightarrow> ('e, 'w) agenda \<Rightarrow> bool" for h where
  agenda_call: "due t A = e # es \<Longrightarrow> h e t w = Some (w', new) \<Longrightarrow>
    agenda_step h (t, A, w) (t, remove_due t A @ map (\<lambda>(f, d). (t + d, f)) new, w')"
| agenda_advance: "due t A = [] \<Longrightarrow> agenda_step h (t, A, w) (t + 1, A, w)"

text \<open>The queue with \<open>i\<close> events of the current tick called.\<close>

definition pending_at :: "nat \<Rightarrow> ('e, 'w) scheduler \<Rightarrow> nat \<Rightarrow> 'e list" where
  "pending_at i s t = (case scheduleSet s t of None \<Rightarrow> [] | Some q \<Rightarrow> if t = ticks s then drop i q else q)"

definition implements :: "nat \<Rightarrow> ('e, 'w) scheduler \<Rightarrow> ('e, 'w) agenda \<Rightarrow> bool" where
  "implements i s a \<longleftrightarrow> (case a of (t, A, w) \<Rightarrow> ticks s = t \<and> world s = w \<and> (\<forall>u. due u A = pending_at i s u))"

lemma due_simps [simp]: "due t [] = []" "due t ((u, e) # A) = (if u = t then e # due t A else due t A)"
  "due t (A @ B) = due t A @ due t B"
  by (simp_all add: due_def)

lemma pending_at_0: "pending_at 0 s u = (case scheduleSet s u of None \<Rightarrow> [] | Some q \<Rightarrow> q)"
  by (simp add: pending_at_def split: option.splits)

lemma pending_at_other: "u \<noteq> ticks s \<Longrightarrow> pending_at i s u = pending_at 0 s u"
  by (simp add: pending_at_def split: option.splits)

lemma due_remove: "due u (remove_due t A) = (if u = t then tl (due t A) else due u A)"
  by (induction t A rule: remove_due.induct) auto

lemma schedule_all_wp:
  "i \<le> (case scheduleSet s (ticks s) of None \<Rightarrow> 0 | Some q \<Rightarrow> length q) \<Longrightarrow>
   returns (schedule_all new s) (\<lambda>s'. ticks s' = ticks s \<and> world s' = world s \<and>
     (scheduleSet s (ticks s) \<noteq> None \<longrightarrow> scheduleSet s' (ticks s) \<noteq> None) \<and>
     (\<forall>u. pending_at i s' u = pending_at i s u @ due u (map (\<lambda>(f, d). (ticks s + d, f)) new)))"
proof (induction new arbitrary: s)
  case (Cons p new)
  obtain f d where p: "p = (f, d)" by force
  let ?t = "ticks s + d"
  define s1 where "s1 = s\<lparr>scheduleSet := (scheduleSet s)(?t := Some ((case scheduleSet s ?t of None \<Rightarrow> [] | Some q \<Rightarrow> q) @ [f]))\<rparr>"
  have s1: "ScheduleDelayed f d s = Some s1" by (simp add: ScheduleDelayed_def ScheduleEventAbsolute_def DebugAssert_def s1_def Let_def)
  have P: "pending_at i s1 u = pending_at i s u @ due u [(?t, f)]" for u
    using Cons.prems by (auto simp: pending_at_def s1_def split: option.splits)
  have "returns (schedule_all new s1) (\<lambda>s'. ticks s' = ticks s1 \<and> world s' = world s1 \<and>
     (scheduleSet s1 (ticks s1) \<noteq> None \<longrightarrow> scheduleSet s' (ticks s1) \<noteq> None) \<and>
     (\<forall>u. pending_at i s' u = pending_at i s1 u @ due u (map (\<lambda>(f, d). (ticks s1 + d, f)) new)))"
    by (rule Cons.IH) (use Cons.prems in \<open>auto simp: s1_def split: option.splits\<close>)
  moreover have "schedule_all (p # new) s = schedule_all new s1" by (simp add: p s1)
  moreover have "ticks s1 = ticks s" "world s1 = world s" "scheduleSet s (ticks s) \<noteq> None \<Longrightarrow> scheduleSet s1 (ticks s) \<noteq> None"
    by (simp_all add: s1_def)
  ultimately show ?case by (auto simp: P p elim!: returns_mono split: if_splits)
qed (simp add: pending_at_def)

section \<open>The queue implements the agenda\<close>

text \<open>
  What is asked of the devices: an invariant under which every event that may be in the queue is
  handled, and whatever an event schedules for the same tick has a smaller rank, so that a tick ends.
\<close>

locale event_loop =
  fixes h :: "('e, 'w) handler" and inv :: "nat \<Rightarrow> 'w \<Rightarrow> bool" and ok :: "'e \<Rightarrow> bool" and rank :: "'e \<Rightarrow> nat"
  assumes handled: "inv t w \<Longrightarrow> ok e \<Longrightarrow> returns (h e t w)
    (\<lambda>(w', new). inv t w' \<and> (\<forall>(f, d)\<in>set new. ok f \<and> (d = 0 \<longrightarrow> rank f < rank e)))"
begin

definition queue_ok :: "nat \<Rightarrow> ('e, 'w) scheduler \<Rightarrow> bool" where
  "queue_ok i s \<longleftrightarrow> inv (ticks s) (world s) \<and> (\<forall>u. \<forall>e\<in>set (pending_at i s u). ok e)"

lemma set_due: "set (due u (map (\<lambda>(f, d). (t + d, f)) new)) = {f. \<exists>d. (f, d) \<in> set new \<and> t + d = u}"
  by (force simp: due_def)

lemma due_now: "due t (map (\<lambda>(f, d). (t + d, f)) new) = map fst (filter (\<lambda>(f, d). d = 0) new)"
  by (induction new) auto

lemma call_event_wp:
  assumes q: "scheduleSet s (ticks s) = Some q" and i: "i < length q" and ok: "queue_ok i s"
    and A: "implements i s (ticks s, A, world s)"
  shows "returns (call_event h (q ! i) s) (\<lambda>s'. ticks s' = ticks s \<and> queue_ok (i + 1) s' \<and>
    scheduleSet s' (ticks s) \<noteq> None \<and>
    (\<exists>A'. agenda_step h (ticks s, A, world s) (ticks s, A', world s') \<and> implements (i + 1) s' (ticks s, A', world s')) \<and>
    (\<exists>new. pending_at (i + 1) s' (ticks s) = tl (pending_at i s (ticks s)) @ new \<and> (\<forall>f\<in>set new. rank f < rank (q ! i))))"
proof -
  let ?t = "ticks s" and ?e = "q ! i"
  have P: "pending_at i s ?t = ?e # drop (i + 1) q" using q i by (simp add: pending_at_def Cons_nth_drop_Suc)
  then have "?e \<in> set (pending_at i s ?t)" by simp
  with ok have "ok ?e" "inv ?t (world s)" unfolding queue_ok_def by blast+
  from handled[OF this(2,1)] obtain p where p: "h ?e ?t (world s) = Some p"
      "case p of (w', new) \<Rightarrow> inv ?t w' \<and> (\<forall>(f, d)\<in>set new. ok f \<and> (d = 0 \<longrightarrow> rank f < rank ?e))"
    by (rule returnsE)
  obtain w new where "p = (w, new)" by force
  with p have w: "h ?e ?t (world s) = Some (w, new)" "inv ?t w"
    and new: "\<forall>(f, d)\<in>set new. ok f \<and> (d = 0 \<longrightarrow> rank f < rank ?e)" by simp_all
  let ?N = "map (\<lambda>(f, d). (?t + d, f)) new"
  let ?s = "s\<lparr>world := w\<rparr>"
  have D: "due ?t A = ?e # drop (i + 1) q" using A P by (simp add: implements_def)
  have "returns (schedule_all new ?s) (\<lambda>s'. ticks s' = ticks ?s \<and> world s' = world ?s \<and>
     (scheduleSet ?s (ticks ?s) \<noteq> None \<longrightarrow> scheduleSet s' (ticks ?s) \<noteq> None) \<and>
     (\<forall>u. pending_at (i + 1) s' u = pending_at (i + 1) ?s u @ due u (map (\<lambda>(f, d). (ticks ?s + d, f)) new)))"
    by (rule schedule_all_wp) (use q i in simp)
  then have R: "returns (schedule_all new ?s) (\<lambda>s'. ticks s' = ?t \<and> world s' = w \<and> scheduleSet s' ?t \<noteq> None \<and>
     (\<forall>u. pending_at (i + 1) s' u = (if u = ?t then tl (pending_at i s u) else pending_at i s u) @ due u ?N))"
    by (rule returns_mono) (auto simp: q pending_at_def drop_Suc tl_drop split: option.splits)
  have "call_event h ?e s = schedule_all new ?s" by (simp add: call_event_def w)
  moreover have "returns (schedule_all new ?s) (\<lambda>s'. ticks s' = ?t \<and> queue_ok (i + 1) s' \<and> scheduleSet s' ?t \<noteq> None \<and>
    (\<exists>A'. agenda_step h (?t, A, world s) (?t, A', world s') \<and> implements (i + 1) s' (?t, A', world s')) \<and>
    (\<exists>new. pending_at (i + 1) s' ?t = tl (pending_at i s ?t) @ new \<and> (\<forall>f\<in>set new. rank f < rank ?e)))"
    using R
  proof (rule returns_mono, elim conjE, intro conjI)
    fix s' assume s': "ticks s' = ?t" "world s' = w" "scheduleSet s' ?t \<noteq> None"
      "\<forall>u. pending_at (i + 1) s' u = (if u = ?t then tl (pending_at i s u) else pending_at i s u) @ due u ?N"
    show "queue_ok (i + 1) s'" unfolding queue_ok_def
    proof (intro conjI allI ballI)
      show "inv (ticks s') (world s')" using w s' by simp
      fix u e assume "e \<in> set (pending_at (i + 1) s' u)"
      then have "e \<in> set (pending_at i s u) \<or> e \<in> set (due u ?N)"
        using s'(4) by (auto split: if_splits dest: list.set_sel(2)[rotated] simp: P)
      then show "ok e" using ok new by (auto simp: queue_ok_def set_due)
    qed
    show "\<exists>A'. agenda_step h (?t, A, world s) (?t, A', world s') \<and> implements (i + 1) s' (?t, A', world s')"
    proof (intro exI conjI)
      show "agenda_step h (?t, A, world s) (?t, remove_due ?t A @ ?N, world s')"
        using agenda_call[where h = h, OF D w(1)] s'(2) by simp
      show "implements (i + 1) s' (?t, remove_due ?t A @ ?N, world s')"
        using A s' by (auto simp: implements_def due_remove)
    qed
    show "\<exists>new. pending_at (i + 1) s' ?t = tl (pending_at i s ?t) @ new \<and> (\<forall>f\<in>set new. rank f < rank ?e)"
      by (rule exI[of _ "due ?t ?N"]) (use s' new in \<open>auto simp: set_due\<close>)
  qed (use q in simp_all)
  ultimately show ?thesis by simp
qed

lemma call_due_wp:
  assumes "scheduleSet s (ticks s) \<noteq> None" and "queue_ok i s" and "implements i s (ticks s, A, world s)"
  shows "returns (call_due h i s) (\<lambda>s'. ticks s' = ticks s \<and> inv (ticks s) (world s') \<and>
    (\<forall>u. u \<noteq> ticks s \<longrightarrow> (\<forall>e\<in>set (pending_at 0 s' u). ok e)) \<and>
    (\<exists>A'. (agenda_step h)\<^sup>*\<^sup>* (ticks s, A, world s) (ticks s, A', world s') \<and> due (ticks s) A' = [] \<and>
      (\<forall>u. u \<noteq> ticks s \<longrightarrow> due u A' = pending_at 0 s' u)))"
  using assms
proof (induction "mset (map rank (pending_at i s (ticks s)))" arbitrary: i s A rule: less_induct)
  case less
  from less.prems obtain q where q: "scheduleSet s (ticks s) = Some q" by auto
  show ?case
  proof (cases "i < length q")
    case False
    then have "call_due h i s = Some s" using q by (subst call_due.simps) simp
    moreover have "due u A = pending_at 0 s u" if "u \<noteq> ticks s" for u
      using less.prems(3) pending_at_other[OF that, of i] by (simp add: implements_def)
    moreover have "due (ticks s) A = []" using less.prems(3) False q by (simp add: implements_def pending_at_def)
    moreover have "\<forall>e\<in>set (pending_at 0 s u). ok e" if "u \<noteq> ticks s" for u
      using less.prems(2) unfolding queue_ok_def pending_at_other[OF that, of i, symmetric] by blast
    ultimately show ?thesis using less.prems(2) by (auto simp: queue_ok_def)
  next
    case True
    from call_event_wp[OF q True less.prems(2,3)] obtain s1 A1 new where
      s1: "call_event h (q ! i) s = Some s1" "ticks s1 = ticks s" "queue_ok (i + 1) s1" "scheduleSet s1 (ticks s) \<noteq> None"
        "agenda_step h (ticks s, A, world s) (ticks s, A1, world s1)" "implements (i + 1) s1 (ticks s, A1, world s1)"
        "pending_at (i + 1) s1 (ticks s) = tl (pending_at i s (ticks s)) @ new" "\<forall>f\<in>set new. rank f < rank (q ! i)"
      by (auto elim!: returnsE)
    have P: "pending_at i s (ticks s) = q ! i # drop (i + 1) q" using q True by (simp add: pending_at_def Cons_nth_drop_Suc)
    have "mset (map rank (drop (i + 1) q)) + mset (map rank new) < mset (map rank (drop (i + 1) q)) + {#rank (q ! i)#}"
      unfolding less_multiset_def multp_def by (rule one_step_implies_mult) (use s1(8) in auto)
    then have "mset (map rank (pending_at (i + 1) s1 (ticks s1))) < mset (map rank (pending_at i s (ticks s)))"
      using s1(2,7) P by simp
    from less.hyps[OF this] s1 have "returns (call_due h (i + 1) s1) (\<lambda>s'. ticks s' = ticks s \<and> inv (ticks s) (world s') \<and>
      (\<forall>u. u \<noteq> ticks s \<longrightarrow> (\<forall>e\<in>set (pending_at 0 s' u). ok e)) \<and>
      (\<exists>A'. (agenda_step h)\<^sup>*\<^sup>* (ticks s, A1, world s1) (ticks s, A', world s') \<and> due (ticks s) A' = [] \<and>
        (\<forall>u. u \<noteq> ticks s \<longrightarrow> due u A' = pending_at 0 s' u)))" by simp
    moreover have "call_due h i s = call_due h (i + 1) s1" using q True s1(1) by (subst call_due.simps) simp
    ultimately show ?thesis using s1(5) by (auto elim!: returns_mono intro: converse_rtranclp_into_rtranclp)
  qed
qed

text \<open>
  A tick ends; it does what the agenda does until the next time, and afterwards only events that
  lie in the future are left.
\<close>

lemma ProcessTick_wp:
  assumes ok: "queue_ok 0 s" and A: "implements 0 s (ticks s, A, world s)"
  shows "returns (ProcessTick h s) (\<lambda>s'. ticks s' = ticks s + 1 \<and> inv (ticks s) (world s') \<and>
    (\<forall>u. \<forall>e\<in>set (pending_at 0 s' u). ok e) \<and> pending_at 0 s' (ticks s) = [] \<and>
    (\<exists>A'. (agenda_step h)\<^sup>*\<^sup>* (ticks s, A, world s) (ticks s + 1, A', world s') \<and>
       implements 0 s' (ticks s + 1, A', world s')))"
proof (cases "scheduleSet s (ticks s)")
  case None
  let ?s = "s\<lparr>ticks := ticks s + 1\<rparr>"
  have "due (ticks s) A = []" using A None by (simp add: implements_def pending_at_def)
  then have "agenda_step h (ticks s, A, world s) (ticks s + 1, A, world s)" by (rule agenda_advance)
  moreover have P: "pending_at 0 ?s = pending_at 0 s" by (simp add: pending_at_0 fun_eq_iff)
  moreover have "implements 0 ?s (ticks s + 1, A, world s)" using A P by (simp add: implements_def)
  moreover have "ProcessTick h s = Some ?s" using None by (simp add: ProcessTick_def)
  moreover have "pending_at 0 s (ticks s) = []" using None by (simp add: pending_at_0)
  ultimately show ?thesis using ok unfolding queue_ok_def by auto
next
  case (Some q)
  let ?f = "\<lambda>s'. s'\<lparr>scheduleSet := (scheduleSet s')(ticks s' := None), ticks := ticks s' + 1\<rparr>"
  have run: "ProcessTick h s = Option.bind (call_due h 0 s) (\<lambda>s'. Some (?f s'))"
    using Some by (simp add: ProcessTick_def)
  have P: "pending_at 0 (?f s') u = (if u = ticks s' then [] else pending_at 0 s' u)" for s' u
    by (simp add: pending_at_def split: option.splits)
  have q: "scheduleSet s (ticks s) \<noteq> None" using Some by simp
  show ?thesis unfolding run returns_bind returns_Some
  proof (rule returns_mono[OF call_due_wp[OF q ok A]], elim conjE exE, intro conjI)
    fix s' A'
    assume s': "ticks s' = ticks s" "inv (ticks s) (world s')" "\<forall>u. u \<noteq> ticks s \<longrightarrow> (\<forall>e\<in>set (pending_at 0 s' u). ok e)"
      "(agenda_step h)\<^sup>*\<^sup>* (ticks s, A, world s) (ticks s, A', world s')" "due (ticks s) A' = []"
      "\<forall>u. u \<noteq> ticks s \<longrightarrow> due u A' = pending_at 0 s' u"
    have "agenda_step h (ticks s, A', world s') (ticks s + 1, A', world s')" by (rule agenda_advance[OF s'(5)])
    with s'(4) have "(agenda_step h)\<^sup>*\<^sup>* (ticks s, A, world s) (ticks s + 1, A', world (?f s'))" by simp
    moreover have "implements 0 (?f s') (ticks s + 1, A', world (?f s'))"
      using s' P[of s'] by (auto simp: implements_def)
    ultimately show "\<exists>A'. (agenda_step h)\<^sup>*\<^sup>* (ticks s, A, world s) (ticks s + 1, A', world (?f s')) \<and>
       implements 0 (?f s') (ticks s + 1, A', world (?f s'))" by blast
    show "\<forall>u. \<forall>e\<in>set (pending_at 0 (?f s') u). ok e" using s' P[of s'] by simp
    show "pending_at 0 (?f s') (ticks s) = []" using P[of s' "ticks s"] s'(1) by simp
  qed simp_all
qed

end

end
