(* ===== verification/TestMemory.thy ===== *)
theory TestMemory
  imports MemMessages
begin

text \<open>
  The main memory (\<^verbatim>\<open>MemSys/Devices/TestMemory.cpp\<close>): it answers reads, writes and evictions after a
  fixed time and fails on any other message. It has one connection, number 0.
\<close>

record memory_config =
  readTime :: nat
  writeTime :: nat

record memory = "nat event_manager" +
  evictionsReceived :: nat
  readsReceived :: nat
  writesReceived :: nat

definition TestMemory_Initialize :: "nat event_manager \<Rightarrow> memory" where
  "TestMemory_Initialize em = \<lparr>currentTick = currentTick em, currentMsgStamp = currentMsgStamp em, events = events em,
     evictionsReceived = 0, readsReceived = 0, writesReceived = 0\<rparr>"

text \<open>\<open>GetConnection\<close> of a device with one connection.\<close>

definition reply_to :: "nat \<Rightarrow> msg \<Rightarrow> nat \<Rightarrow> memory \<Rightarrow> memory option" where
  "reply_to connectionID reply replyTime s = do {
     DebugAssert (IsResponse reply);
     DebugAssert (connectionID < 1);
     Some (SendMsg connectionID reply replyTime s) }"

fun TestMemory_RecvMsg :: "memory_config \<Rightarrow> msg \<Rightarrow> nat \<Rightarrow> memory \<Rightarrow> memory option" where
  "TestMemory_RecvMsg c (ReadMsg n pc a sz excl has dl cb) connectionID s = (let m = ReadMsg n pc a sz excl has dl cb in do {
     let s = s\<lparr>readsReceived := readsReceived s + 1\<rparr>;
     let (r, s) = CreateMsg (\<lambda>k. ReadResponseMsg k pc a sz True True dl True False n) s;
     let s = SignalComplete m s;
     s \<leftarrow> reply_to connectionID r (readTime c) s;
     Some (DisposeMsg m s) })"
| "TestMemory_RecvMsg c (WriteMsg n pc a sz cb) connectionID s = (let m = WriteMsg n pc a sz cb in do {
     let s = s\<lparr>writesReceived := writesReceived s + 1\<rparr>;
     let (r, s) = CreateMsg (\<lambda>k. WriteResponseMsg k pc a sz n) s;
     let s = SignalComplete m s;
     s \<leftarrow> reply_to connectionID r (writeTime c) s;
     Some (DisposeMsg m s) })"
| "TestMemory_RecvMsg c (EvictionMsg n pc a sz att) connectionID s = (let m = EvictionMsg n pc a sz att in do {
     let s = s\<lparr>evictionsReceived := evictionsReceived s + 1\<rparr>;
     let (r, s) = CreateMsg (\<lambda>k. EvictionResponseMsg k pc a sz n) s;
     s \<leftarrow> reply_to connectionID r 0 s;
     Some (DisposeMsg m s) })"
| "TestMemory_RecvMsg c _ connectionID s = None"

lemma TestMemory_read:
  "returns (TestMemory_RecvMsg c (ReadMsg n pc a sz excl has dl cb) 0 s) (\<lambda>s'.
    events s' = events s @ (if cb then [Completed n] else []) @
      [Sent 0 (ReadResponseMsg (currentMsgStamp s) pc a sz True True dl True False n) (readTime c), Disposed n])"
  by (simp add: CreateMsg_def SignalComplete_def reply_to_def DebugAssert_def SendMsg_def DisposeMsg_def)

lemma TestMemory_evict:
  "returns (TestMemory_RecvMsg c (EvictionMsg n pc a sz att) 0 s) (\<lambda>s'.
    events s' = events s @ [Sent 0 (EvictionResponseMsg (currentMsgStamp s) pc a sz n) 0, Disposed n])"
  by (simp add: CreateMsg_def reply_to_def DebugAssert_def SendMsg_def DisposeMsg_def)

end
