(* ===== verification/CacheSystem.thy ===== *)
theory CacheSystem
  imports CacheProps TestMemory EventQueue MESICache
begin

text \<open>
  A closed system: a cache at the top of the hierarchy between a processor and the main memory,
  driven by the event queue. The processor only asks and takes answers (what it does with them is
  not part of the system). A message that a device sends is delivered after the delay of the device
  and the latency of the connection (\<^verbatim>\<open>Connection::SendMsg\<close>, \<^verbatim>\<open>EventManager::ScheduleMessageTransmit\<close>).
\<close>

section \<open>What the cache sends\<close>

lemma call_block_grows: "block_call c t f \<Longrightarrow> call_stored \<pi> c f s = Some s' \<Longrightarrow> grows c s s'"
proof (induction f arbitrary: s s')
  case (Composit f g)
  then show ?case by (auto simp: Option.bind_eq_Some_conv) (metis grows_trans)
qed (auto dest: PerformRead_grows PerformWrite_grows)

lemma same_events_grows: "events s' = events s \<Longrightarrow> currentTick s' = currentTick s \<Longrightarrow> grows c s s'"
  by (simp add: grows_def)

lemma grows_same_events: "grows c s s' \<Longrightarrow> events s = events s0 \<Longrightarrow> currentTick s = currentTick s0 \<Longrightarrow> grows c s0 s'"
  by (simp add: grows_def)

lemma Dispose_grows: "grows c s (DisposeMsg m s)"
  by (simp add: grows_def DisposeMsg_def)

context coherence
begin

lemma UnlockBlock_grows:
  assumes ok: "cache_ok \<pi> c s" and cfg: "config_ok c" and i: "Lookup c t s = Some (Some i)" and lk: "locked (blk s i)"
    and run: "UnlockBlock \<pi> c t s = Some s'"
  shows "grows c s s'"
proof -
  let ?k = "CalcSetFromTag c t"
  from UnlockBlock_steps[OF ok cfg i lk] obtain f s2 where s2: "block_call c t f"
    "call_stored \<pi> c f (unlocked i t s) = Some s2"
    "UnlockBlock \<pi> c t s = (if \<not> locked (blk s2 i) then (case waitingOnSetUnlock s2 ! ?k of None \<Rightarrow> Some s2
       | Some g \<Rightarrow> call_stored \<pi> c g (s2\<lparr>waitingOnSetUnlock := (waitingOnSetUnlock s2)[?k := None]\<rparr>))
     else Some s2)"
    "\<And>g. waitingOnSetUnlock s2 ! ?k = Some g \<Longrightarrow> set_call c ?k g"
    by metis
  have "grows c s s2" by (rule grows_same_events[OF call_block_grows[OF s2(1,2)]]) (simp_all add: upd_blk_def)
  moreover have "grows c s2 s'"
  proof (cases "waitingOnSetUnlock s2 ! ?k")
    case (Some g)
    have "grows c s2 s3" if "call_stored \<pi> c g (s2\<lparr>waitingOnSetUnlock := (waitingOnSetUnlock s2)[?k := None]\<rparr>) = Some s3" for s3
      by (rule grows_same_events[OF call_set_grows[OF s2(4)[OF Some] that]]) simp_all
    with s2(3) Some run show ?thesis by (auto simp: same_events_grows split: if_splits)
  qed (use s2(3) run in \<open>auto simp: same_events_grows split: if_splits\<close>)
  ultimately show ?thesis by (rule grows_trans)
qed

lemma OnRemoteReadResponse_grows:
  assumes ok: "cache_ok \<pi> c s" and cfg: "config_ok c" and run: "OnRemoteReadResponse \<pi> c m s = Some s'"
  shows "grows c s s'"
  using ok cfg
proof (cases rule: LookupE[where t = "CalcTag c (addr m)"])
  case miss
  with run show ?thesis by (auto simp: OnRemoteReadResponse_def Let_def grows_def DisposeMsg_def send_def)
next
  case (hit i)
  show ?thesis
  proof (cases "locked (blk s i)")
    case False
    with hit run show ?thesis by (auto simp: OnRemoteReadResponse_def Let_def grows_def DisposeMsg_def send_def split: if_splits)
  next
    case True
    let ?s = "upd_blk i (\<lambda>b. b\<lparr>state := if exclusiveOwnership m then granted \<pi> else shared \<pi>\<rparr>) s"
    have B: "cacheContents ?s = (cacheContents s)[i := (blk s i)\<lparr>state := if exclusiveOwnership m then granted \<pi> else shared \<pi>\<rparr>]"
      by (simp add: upd_blk_def blk_def)
    have ok1: "cache_ok \<pi> c ?s"
      by (rule cache_ok_meta[OF ok hit(2) B]) (use cache_ok_ticks[OF ok hit(2)] in \<open>auto simp: upd_blk_def frame_def\<close>)
    have i1: "Lookup c (CalcTag c (addr m)) ?s = Some (Some i)"
      by (rule Lookup_same_tags[OF same_tags_upd[OF B] ok ok1 cfg hit(1)]) auto
    have l1: "locked (blk ?s i)" using True hit B by (simp add: blk_def)
    from run True hit obtain s1 where s1: "UnlockBlock \<pi> c (CalcTag c (addr m)) ?s = Some s1" "s' = DisposeMsg m s1"
      by (auto simp: OnRemoteReadResponse_def Let_def Option.bind_eq_Some_conv)
    have "grows c s s1" by (rule grows_same_events[OF UnlockBlock_grows[OF ok1 cfg i1 l1 s1(1)]]) (simp_all add: upd_blk_def)
    then show ?thesis unfolding s1(2) by (rule grows_trans[OF _ Dispose_grows])
  qed
qed

end

text \<open>The messages the cache gets in the closed system.\<close>

definition closed_msg :: "msg \<Rightarrow> connection \<Rightarrow> bool" where
  "closed_msg m k \<longleftrightarrow> (case k of
     LocalConnection \<Rightarrow> is_read m \<or> is_write m
   | RemoteConnection \<Rightarrow> is_read_response m \<or> is_eviction_response m
   | NoConnection \<Rightarrow> False)"

context coherence
begin

lemma closed_step:
  assumes ok: "cache_ok \<pi> c s" and cfg: "config_ok c" and m: "closed_msg m k"
  shows "returns (RecvMsg \<pi> c m k s) (\<lambda>s'. cache_ok \<pi> c s' \<and> grows c s s' \<and>
    (is_eviction_response m \<longrightarrow> events s' = events s @ [Disposed (msgID m)]))"
proof -
  let ?s = "s\<lparr>messagesReceived := messagesReceived s + 1\<rparr>"
  have ok1: "cache_ok \<pi> c ?s" using ok by simp
  have "legal \<pi> c m k s" using m by (cases k; cases m) (auto simp: legal_def closed_msg_def)
  from RecvMsg_wp[OF ok cfg this] obtain s' where s': "RecvMsg \<pi> c m k s = Some s'" "cache_ok \<pi> c s'"
    by (auto elim: returnsE)
  have "grows c ?s s' \<and> (is_eviction_response m \<longrightarrow> events s' = events s @ [Disposed (msgID m)])"
    using s'(1) m OnRemoteReadResponse_grows[OF ok1 cfg]
    by (cases k; cases m)
      (auto simp: closed_msg_def RecvMsg_def RecvMsg_with_def Let_def DisposeMsg_def grows_def
        dest!: OnLocalRead_grows OnLocalWrite_grows)
  moreover have "grows c s ?s" by (simp add: grows_def)
  ultimately show ?thesis using s' by (auto intro: grows_trans)
qed

end

section \<open>The system\<close>

datatype sys_event = ToCache msg connection | ToMemory msg | ToProcessor msg

record 'st system =
  cache_of :: "'st cache"
  memory_of :: memory
  stamp :: nat
  delivered :: "(nat \<times> msg) list"

text \<open>\<open>local\<close> and \<open>remote\<close> are the latencies of the two connections.\<close>

fun route_cache :: "nat \<Rightarrow> nat \<Rightarrow> connection event \<Rightarrow> (sys_event \<times> nat) list" where
  "route_cache local remote (Sent LocalConnection m d) = [(ToProcessor m, d + local)]"
| "route_cache local remote (Sent RemoteConnection m d) = [(ToMemory m, d + remote)]"
| "route_cache local remote _ = []"

fun route_memory :: "nat \<Rightarrow> nat event \<Rightarrow> (sys_event \<times> nat) list" where
  "route_memory remote (Sent k m d) = [(ToCache m RemoteConnection, d + remote)]"
| "route_memory remote _ = []"

fun sys_step :: "'st protocol \<Rightarrow> config \<Rightarrow> memory_config \<Rightarrow> nat \<Rightarrow> nat \<Rightarrow> (sys_event, 'st system) handler" where
  "sys_step \<pi> c mc local remote (ToCache m k) t w = do {
     s \<leftarrow> RecvMsg \<pi> c m k ((cache_of w)\<lparr>currentTick := t, currentMsgStamp := stamp w, events := []\<rparr>);
     Some (w\<lparr>cache_of := s, stamp := currentMsgStamp s\<rparr>, concat (map (route_cache local remote) (events s))) }"
| "sys_step \<pi> c mc local remote (ToMemory m) t w = do {
     s \<leftarrow> TestMemory_RecvMsg mc m 0 ((memory_of w)\<lparr>currentTick := t, currentMsgStamp := stamp w, events := []\<rparr>);
     Some (w\<lparr>memory_of := s, stamp := currentMsgStamp s\<rparr>, concat (map (route_memory remote) (events s))) }"
| "sys_step \<pi> c mc local remote (ToProcessor m) t w = Some (w\<lparr>delivered := delivered w @ [(t, m)]\<rparr>, [])"

fun sys_event_ok :: "sys_event \<Rightarrow> bool" where
  "sys_event_ok (ToCache m k) \<longleftrightarrow> closed_msg m k"
| "sys_event_ok (ToMemory m) \<longleftrightarrow> is_read m \<or> is_eviction m"
| "sys_event_ok (ToProcessor m) \<longleftrightarrow> is_read_response m \<or> is_write_response m"

text \<open>A read that reaches the memory takes time; everything else may happen in one tick.\<close>

fun sys_rank :: "sys_event \<Rightarrow> nat" where
  "sys_rank (ToCache m k) = (if is_eviction_response m then 0 else 2)"
| "sys_rank (ToMemory m) = 1"
| "sys_rank (ToProcessor m) = 0"

definition sys_inv :: "'st protocol \<Rightarrow> config \<Rightarrow> memory_config \<Rightarrow> nat \<Rightarrow> 'st system \<Rightarrow> bool" where
  "sys_inv \<pi> c mc t w \<longleftrightarrow> config_ok c \<and> topCache c \<and> 0 < readTime mc \<and>
     cache_ok \<pi> c ((cache_of w)\<lparr>currentTick := t\<rparr>)"

lemma route_cache_ok:
  assumes "top_event e" and "(f, d) \<in> set (route_cache local remote e)"
  shows "sys_event_ok f \<and> sys_rank f < 2"
  using assms by (cases "(local, remote, e)" rule: route_cache.cases) auto

context coherence
begin

lemma sys_handled:
  assumes inv: "sys_inv \<pi> c mc t w" and e: "sys_event_ok e"
  shows "returns (sys_step \<pi> c mc local remote e t w) (\<lambda>(w', new). sys_inv \<pi> c mc t w' \<and>
    (\<forall>(f, d)\<in>set new. sys_event_ok f \<and> (d = 0 \<longrightarrow> sys_rank f < sys_rank e)))"
proof (cases e)
  case (ToCache m k)
  let ?s = "(cache_of w)\<lparr>currentTick := t, currentMsgStamp := stamp w, events := []\<rparr>"
  have ok: "cache_ok \<pi> c ?s" and cfg: "config_ok c" and top: "topCache c" using inv by (simp_all add: sys_inv_def cache_ok_def)
  from closed_step[OF ok cfg] e ToCache obtain s' where s': "RecvMsg \<pi> c m k ?s = Some s'" "cache_ok \<pi> c s'" "grows c ?s s'"
    "is_eviction_response m \<Longrightarrow> events s' = [Disposed (msgID m)]"
    by (auto elim!: returnsE)
  from s'(3) top obtain es where es: "events s' = es" "list_all top_event es" "currentTick s' = t" by (auto simp: grows_def)
  have "sys_event_ok f \<and> sys_rank f < 2" if "(f, d) \<in> set (concat (map (route_cache local remote) es))" for f d
    using that route_cache_ok es(2) by (fastforce simp: list_all_iff)
  moreover have "concat (map (route_cache local remote) es) = []" if "is_eviction_response m" using s'(4)[OF that] es by simp
  moreover have "cache_ok \<pi> c (s'\<lparr>currentTick := t\<rparr>)" using s'(2) es(3) by (simp add: cache_ok_def)
  ultimately show ?thesis using ToCache s'(1) es inv by (auto simp: sys_inv_def)
next
  case (ToMemory m)
  let ?s = "(memory_of w)\<lparr>currentTick := t, currentMsgStamp := stamp w, events := []\<rparr>"
  have "returns (TestMemory_RecvMsg mc m 0 ?s) (\<lambda>s'. \<forall>(f, d)\<in>set (concat (map (route_memory remote) (events s'))).
      sys_event_ok f \<and> (d = 0 \<longrightarrow> sys_rank f < 1))"
  proof (cases m)
    case (ReadMsg n pc a sz excl has dl cb)
    show ?thesis unfolding ReadMsg
      by (rule returns_mono[OF TestMemory_read]) (use inv in \<open>auto simp: closed_msg_def sys_inv_def\<close>)
  next
    case (EvictionMsg n pc a sz att)
    show ?thesis unfolding EvictionMsg
      by (rule returns_mono[OF TestMemory_evict]) (auto simp: closed_msg_def)
  qed (use e ToMemory in simp_all)
  then show ?thesis using ToMemory inv by (auto simp: sys_inv_def elim!: returns_mono)
next
  case (ToProcessor m)
  with inv show ?thesis by (simp add: sys_inv_def)
qed

end

section \<open>Runs of the system\<close>

text \<open>The processor's requests, with the ticks at which they reach the cache, are in the queue from the start.\<close>

fun run_ticks :: "('e, 'w) handler \<Rightarrow> nat \<Rightarrow> ('e, 'w) scheduler \<Rightarrow> ('e, 'w) scheduler option" where
  "run_ticks h 0 s = Some s"
| "run_ticks h (Suc n) s = do { s \<leftarrow> run_ticks h n s; ProcessTick h s }"

definition request :: "msg \<times> nat \<Rightarrow> sys_event \<times> nat" where
  "request r = (ToCache (fst r) LocalConnection, snd r)"

definition sys_start :: "config \<Rightarrow> 'st BlockState list \<Rightarrow> nat \<Rightarrow> 'st system" where
  "sys_start c raw n = (let em = \<lparr>currentTick = 0, currentMsgStamp = n, events = []\<rparr> in
     \<lparr>cache_of = Initialize c raw em, memory_of = TestMemory_Initialize \<lparr>currentTick = 0, currentMsgStamp = n, events = []\<rparr>,
      stamp = n, delivered = []\<rparr>)"

definition sys_queue :: "(msg \<times> nat) list \<Rightarrow> 'st system \<Rightarrow> (sys_event, 'st system) scheduler option" where
  "sys_queue rs w = schedule_all (map request rs) \<lparr>scheduleSet = (\<lambda>_. None), ticks = 0, world = w\<rparr>"

definition sys_agenda :: "(msg \<times> nat) list \<Rightarrow> (nat \<times> sys_event) list" where
  "sys_agenda rs = map (\<lambda>(m, t). (t, ToCache m LocalConnection)) rs"

lemma sys_queue_wp:
  fixes w :: "'a system"
  shows "returns (sys_queue rs w) (\<lambda>s. ticks s = 0 \<and> world s = w \<and> implements 0 s (0, sys_agenda rs, w) \<and>
    (\<forall>u. \<forall>e\<in>set (pending_at 0 s u). \<exists>m\<in>fst ` set rs. e = ToCache m LocalConnection))"
proof -
  let ?s = "\<lparr>scheduleSet = (\<lambda>_. None), ticks = 0, world = w\<rparr> :: (sys_event, 'a system) scheduler"
  have "returns (schedule_all (map request rs) ?s) (\<lambda>s'. ticks s' = ticks ?s \<and> world s' = world ?s \<and>
     (scheduleSet ?s (ticks ?s) \<noteq> None \<longrightarrow> scheduleSet s' (ticks ?s) \<noteq> None) \<and>
     (\<forall>u. pending_at 0 s' u = pending_at 0 ?s u @ due u (map (\<lambda>(f, d). (ticks ?s + d, f)) (map request rs))))"
    by (rule schedule_all_wp) simp
  moreover have "map (\<lambda>(f, d). (0 + d, f)) (map request rs) = sys_agenda rs"
    by (auto simp: request_def sys_agenda_def)
  moreover have "\<exists>m\<in>fst ` set rs. e = ToCache m LocalConnection" if "e \<in> set (due u (sys_agenda rs))" for e u
    using that by (force simp: due_def sys_agenda_def)
  moreover have "pending_at 0 ?s u = []" for u by (simp add: pending_at_0)
  ultimately show ?thesis by (auto simp: sys_queue_def implements_def elim!: returns_mono)
qed

context coherence
begin

lemma sys_inv_start:
  assumes "config_ok c" and "topCache c" and "0 < readTime mc" and "setCount c * associativity c \<le> length raw"
  shows "sys_inv \<pi> c mc 0 (sys_start c raw n)"
proof -
  have "cache_ok \<pi> c (Initialize c raw \<lparr>currentTick = 0, currentMsgStamp = n, events = []\<rparr>)"
    by (rule Initialize_ok) (use assms in \<open>simp_all add: max_tick_def\<close>)
  moreover have "currentTick (Initialize c raw \<lparr>currentTick = 0, currentMsgStamp = n, events = []\<rparr>) = 0"
    by (simp add: Initialize_def)
  ultimately show ?thesis using assms by (simp add: sys_inv_def sys_start_def Let_def cache_ok_def)
qed

lemma sys_inv_next: "sys_inv \<pi> c mc t w \<Longrightarrow> t + 1 < max_tick \<Longrightarrow> sys_inv \<pi> c mc (t + 1) w"
proof -
  assume inv: "sys_inv \<pi> c mc t w" and t: "t + 1 < max_tick"
  have "cache_tick ((cache_of w)\<lparr>currentTick := t\<rparr>) ((cache_of w)\<lparr>currentTick := t + 1\<rparr>)"
    unfolding cache_tick_def by (rule exI[of _ "t + 1"]) (use t in simp)
  from cache_tick_ok[OF _ this] inv show ?thesis by (simp add: sys_inv_def)
qed

end

sublocale coherence \<subseteq> sys: event_loop "sys_step \<pi> c mc local remote" "sys_inv \<pi> c mc" sys_event_ok sys_rank
  for c mc local remote
  by unfold_locales (rule sys_handled)

context coherence
begin

lemma run_ticks_wp:
  assumes s: "sys.queue_ok c mc 0 s" "implements 0 s (0, A, world s)" "ticks s = 0" and n: "n < max_tick"
  shows "returns (run_ticks (sys_step \<pi> c mc local remote) n s) (\<lambda>s'. ticks s' = n \<and> sys.queue_ok c mc 0 s' \<and>
    (\<exists>A'. (agenda_step (sys_step \<pi> c mc local remote))\<^sup>*\<^sup>* (0, A, world s) (n, A', world s') \<and> implements 0 s' (n, A', world s')))"
  using n
proof (induction n)
  case 0
  then show ?case using s by auto
next
  case (Suc n)
  then obtain s1 A1 where s1: "run_ticks (sys_step \<pi> c mc local remote) n s = Some s1" "ticks s1 = n" "sys.queue_ok c mc 0 s1"
    "(agenda_step (sys_step \<pi> c mc local remote))\<^sup>*\<^sup>* (0, A, world s) (n, A1, world s1)" "implements 0 s1 (n, A1, world s1)"
    by (auto elim!: returnsE)
  from sys.ProcessTick_wp[OF s1(3), of A1 local remote] s1(2,5)
  have "returns (ProcessTick (sys_step \<pi> c mc local remote) s1) (\<lambda>s'. ticks s' = n + 1 \<and> sys_inv \<pi> c mc n (world s') \<and>
    (\<forall>u. \<forall>e\<in>set (pending_at 0 s' u). sys_event_ok e) \<and> pending_at 0 s' n = [] \<and>
    (\<exists>A'. (agenda_step (sys_step \<pi> c mc local remote))\<^sup>*\<^sup>* (n, A1, world s1) (n + 1, A', world s') \<and>
       implements 0 s' (n + 1, A', world s')))" by simp
  then show ?case using s1 sys_inv_next Suc.prems
    by (auto simp: sys.queue_ok_def elim!: returns_mono) (meson rtranclp_trans)+
qed

end

section \<open>The MESI cache as the only level\<close>

text \<open>
  C24: A MESI cache between a processor and the main memory, driven by the event queue: whatever reads
  and writes the processor sends, and whenever, no device fails an assertion, every tick ends, and
  after \<open>n\<close> ticks the events of the first \<open>n\<close> ticks have been called in the order of the agenda
  (by time, and in the order of scheduling within a tick) and no other event has.
\<close>

theorem mesi_system_runs:
  assumes "config_ok c" and "topCache c" and "0 < readTime mc" and "setCount c * associativity c \<le> length raw"
    and "\<forall>(m, t)\<in>set rs. is_read m \<or> is_write m" and "n < max_tick"
  shows "\<exists>s0. sys_queue rs (sys_start c raw k) = Some s0 \<and>
    returns (run_ticks (sys_step MESI c mc local remote) n s0) (\<lambda>s. ticks s = n \<and>
      (\<exists>A. (agenda_step (sys_step MESI c mc local remote))\<^sup>*\<^sup>* (0, sys_agenda rs, sys_start c raw k) (n, A, world s) \<and>
        (\<forall>t. due t A = (case scheduleSet s t of None \<Rightarrow> [] | Some q \<Rightarrow> q))))"
proof -
  from sys_queue_wp obtain s0 where s0: "sys_queue rs (sys_start c raw k) = Some s0" "ticks s0 = 0" "world s0 = sys_start c raw k"
    "implements 0 s0 (0, sys_agenda rs, sys_start c raw k)"
    "\<forall>u. \<forall>e\<in>set (pending_at 0 s0 u). \<exists>m\<in>fst ` set rs. e = ToCache m LocalConnection"
    by (rule returnsE) blast
  have "sys_event_ok e" if e: "e \<in> set (pending_at 0 s0 u)" for e u
    using s0(5)[rule_format, OF e] assms(5) by (auto simp: closed_msg_def)
  then have "mesi.sys.queue_ok c mc 0 s0"
    using mesi.sys_inv_start[OF assms(1-4)] s0 by (simp add: mesi.sys.queue_ok_def)
  from mesi.run_ticks_wp[OF this _ s0(2) assms(6), of "sys_agenda rs" local remote] s0 show ?thesis
    by (auto simp: implements_def pending_at_0 elim!: returns_mono)
qed

definition top_config :: config where
  "top_config = demo_config\<lparr>topCache := True\<rparr>"

theorem mesi_system_runs_witness:
  "\<exists>s0. sys_queue [(ReadMsg 5 0 3 4 False False False False, 1), (WriteMsg 6 0 9 4 False, 1)] (sys_start top_config [demo_block MESI] 100) = Some s0 \<and>
    returns (run_ticks (sys_step MESI top_config \<lparr>readTime = 10, writeTime = 10\<rparr> 1 1) 30 s0) (\<lambda>s. ticks s = 30)"
proof -
  have "config_ok top_config \<and> topCache top_config \<and> setCount top_config * associativity top_config \<le> length [demo_block MESI]"
    by (simp add: top_config_def config_ok_def demo_config_def)
  then show ?thesis
    using mesi_system_runs[of top_config "\<lparr>readTime = 10, writeTime = 10\<rparr>" "[demo_block MESI]"
        "[(ReadMsg 5 0 3 4 False False False False, 1), (WriteMsg 6 0 9 4 False, 1)]" 30 100 1 1]
    by (auto simp: max_tick_def elim!: returns_mono)
qed

end
