(* ===== verification/SnoopyBus.thy ===== *)
theory SnoopyBus
  imports MemMessages "HOL-Library.Multiset"
begin

text \<open>
  The snooping bus (\<^verbatim>\<open>MemSys/Devices/SnoopyBus.cpp\<close>). Connections are numbered; one of them leads to
  the next level (\<open>remoteConnection\<close>), the others to caches. A request waits in the queue of its
  connection until no transfer for its address is under way; it is then sent to every other cache,
  and, when none of them satisfies it, to the next level. \<open>None\<close> is a failed assertion.
\<close>

section \<open>State\<close>

datatype BusArbitration = RandomArbitration | RemoteFirstRandomArbitration

datatype LatencyCalculator = ConstantLatencyCalculator nat | LinearLatencyCalculator nat nat

text \<open>\<open>draws n\<close> is the \<open>n\<close>-th value of \<open>rand\<close>.\<close>

record bus_config =
  connectionCount :: nat
  remoteConnection :: nat
  arbitrator :: BusArbitration
  latencyCalculator :: LatencyCalculator
  draws :: "nat \<Rightarrow> nat"

record TransferData =
  pendingResponses :: int
  solicitingMsg :: msg
  solicitingConnection :: nat
  transferSatisfied :: bool

record bus = "nat event_manager" +
  waitingMsgs :: "msg list list"
  pendingTransfers :: "nat \<Rightarrow> TransferData option"
  pendingMsgs :: "bool list"
  msgIndex :: "nat list"
  transferInProgress :: bool
  drawn :: nat

definition SnoopyBus_Initialize :: "bus_config \<Rightarrow> nat event_manager \<Rightarrow> bus option" where
  "SnoopyBus_Initialize c em = do {
     DebugAssert (remoteConnection c < connectionCount c);
     DebugAssert (connectionCount c > 1);
     Some \<lparr>currentTick = currentTick em, currentMsgStamp = currentMsgStamp em, events = events em,
       waitingMsgs = replicate (connectionCount c) [], pendingTransfers = (\<lambda>_. None),
       pendingMsgs = replicate (connectionCount c) False, msgIndex = replicate (connectionCount c) 0,
       transferInProgress = False, drawn = 0\<rparr> }"

section \<open>Arbitration and latency\<close>

fun select_pending :: "nat \<Rightarrow> nat \<Rightarrow> bool list \<Rightarrow> nat option" where
  "select_pending i selection [] = None"
| "select_pending i selection (p # ps) =
     (if p then if selection = 0 then Some i else select_pending (i + 1) (selection - 1) ps
      else select_pending (i + 1) selection ps)"

definition RandomArbitration_SelectNext :: "nat \<Rightarrow> bool list \<Rightarrow> nat option" where
  "RandomArbitration_SelectNext draw pending = do {
     DebugAssert (length pending > 0);
     let countPending = length (filter id pending);
     DebugAssert (countPending > 0);
     select_pending 0 (draw mod countPending) pending }"

text \<open>The result also says whether a number was drawn.\<close>

definition SelectNext :: "bus_config \<Rightarrow> nat \<Rightarrow> bool list \<Rightarrow> (nat \<times> bool) option" where
  "SelectNext c draw pending = (case arbitrator c of
     RandomArbitration \<Rightarrow> do { i \<leftarrow> RandomArbitration_SelectNext draw pending; Some (i, True) }
   | RemoteFirstRandomArbitration \<Rightarrow> do {
       DebugAssert (length pending > remoteConnection c);
       if pending ! remoteConnection c then Some (remoteConnection c, False)
       else do { i \<leftarrow> RandomArbitration_SelectNext draw pending; Some (i, True) } })"

definition CalculateTime :: "bus_config \<Rightarrow> msg \<Rightarrow> nat" where
  "CalculateTime c m = (case latencyCalculator c of
     ConstantLatencyCalculator dt \<Rightarrow> dt
   | LinearLatencyCalculator fixedDt perByte \<Rightarrow> fixedDt + MsgSize m * perByte)"

text \<open>\<open>None\<close> is a type that the bus does not support.\<close>

definition GetRelevantAddr :: "msg \<Rightarrow> nat option" where
  "GetRelevantAddr m = (if \<not> is_protocol m then None else Some (addr m))"

section \<open>Transfers\<close>

text \<open>\<open>ReplicateMsg\<close> to every cache except the one that asks.\<close>

definition broadcast_to :: "bus_config \<Rightarrow> nat \<Rightarrow> nat list" where
  "broadcast_to c connectionID = filter (\<lambda>i. i \<noteq> connectionID \<and> i \<noteq> remoteConnection c) [0..<connectionCount c]"

definition BroadcastMsg :: "bus_config \<Rightarrow> msg \<Rightarrow> nat \<Rightarrow> bus \<Rightarrow> bus option" where
  "BroadcastMsg c m connectionID s = do {
     DebugAssert (\<not> IsResponse m);
     let s = fold (\<lambda>i. send_replica i m 0) (broadcast_to c connectionID) s;
     a \<leftarrow> GetRelevantAddr m;
     Some (s\<lparr>pendingTransfers := (pendingTransfers s)(a := Some
       \<lparr>pendingResponses = int (connectionCount c) - 1, solicitingMsg = m,
         solicitingConnection = connectionID, transferSatisfied = False\<rparr>)\<rparr>) }"

text \<open>The first message of a queue whose address has no transfer under way.\<close>

fun first_ready :: "bus \<Rightarrow> nat \<Rightarrow> msg list \<Rightarrow> nat option option" where
  "first_ready s j [] = Some None"
| "first_ready s j (m # ms) = do {
     a \<leftarrow> GetRelevantAddr m;
     if pendingTransfers s a = None then Some (Some j) else first_ready s (j + 1) ms }"

fun scan_queues :: "bus \<Rightarrow> nat \<Rightarrow> msg list list \<Rightarrow> bool list \<times> nat list \<times> bool \<Rightarrow> (bool list \<times> nat list \<times> bool) option" where
  "scan_queues s i [] r = Some r"
| "scan_queues s i (ms # mss) (pending, index, found) = do {
     j \<leftarrow> first_ready s 0 ms;
     scan_queues s (i + 1) mss (case j of
       None \<Rightarrow> (pending[i := False], index, found)
     | Some j \<Rightarrow> (pending[i := True], index[i := j], True)) }"

definition AttemptTransfer :: "bus_config \<Rightarrow> bus \<Rightarrow> bus option" where
  "AttemptTransfer c s = do {
     (pending, index, transferFound) \<leftarrow> scan_queues s 0 (waitingMsgs s) (pendingMsgs s, msgIndex s, False);
     let s = s\<lparr>pendingMsgs := pending, msgIndex := index\<rparr>;
     if \<not> transferFound then Some (s\<lparr>transferInProgress := False\<rparr>)
     else do {
       let s = s\<lparr>transferInProgress := True\<rparr>;
       (r, d) \<leftarrow> SelectNext c (draws c (drawn s)) (pendingMsgs s);
       let s = (if d then s\<lparr>drawn := drawn s + 1\<rparr> else s);
       DebugAssert (r < length (waitingMsgs s));
       let choice = msgIndex s ! r;
       DebugAssert (choice < length (waitingMsgs s ! r));
       let m = waitingMsgs s ! r ! choice;
       let s = s\<lparr>waitingMsgs := (waitingMsgs s)[r := take choice (waitingMsgs s ! r) @ drop (choice + 1) (waitingMsgs s ! r)]\<rparr>;
       BroadcastMsg c m r s } }"

text \<open>Whether a response satisfies the request.\<close>

fun satisfies :: "msg \<Rightarrow> bool option" where
  "satisfies (ReadResponseMsg _ _ _ _ sat _ _ _ _ _) = Some sat"
| "satisfies (WriteResponseMsg _ _ _ _ _) = Some False"
| "satisfies (EvictionResponseMsg _ _ _ _ _) = Some False"
| "satisfies (InvalidateResponseMsg _ _ _ _ att _) = Some att"
| "satisfies _ = None"

text \<open>The transfer is over: its request is disposed of.\<close>

definition end_transfer :: "nat \<Rightarrow> TransferData \<Rightarrow> bus \<Rightarrow> bus" where
  "end_transfer a d s = (let s = DisposeMsg (solicitingMsg d) s in s\<lparr>pendingTransfers := (pendingTransfers s)(a := None)\<rparr>)"

definition all_answered :: "bus_config \<Rightarrow> TransferData \<Rightarrow> bool" where
  "all_answered c d \<longleftrightarrow> pendingResponses d = 0 \<or> (pendingResponses d = 1 \<and> solicitingConnection d \<noteq> remoteConnection c)"

definition GetConnection :: "bus_config \<Rightarrow> nat \<Rightarrow> nat option" where
  "GetConnection c i = do { DebugAssert (i < connectionCount c); Some i }"

definition ProcessResponse :: "bus_config \<Rightarrow> msg \<Rightarrow> bus \<Rightarrow> bus option" where
  "ProcessResponse c m s = do {
     a \<leftarrow> GetRelevantAddr m;
     DebugAssert (IsResponse m);
     d \<leftarrow> pendingTransfers s a;
     if \<not> transferSatisfied d then do {
       sat \<leftarrow> satisfies m;
       let d = d\<lparr>transferSatisfied := sat, pendingResponses := pendingResponses d - 1\<rparr>;
       let s = s\<lparr>pendingTransfers := (pendingTransfers s)(a := Some d)\<rparr>;
       if sat then do {
         let delay = CalculateTime c m;
         k \<leftarrow> GetConnection c (solicitingConnection d);
         let s = ScheduleEvent CB_AttemptTransfer delay (SendMsg k m delay s);
         Some (if all_answered c d then end_transfer a d s else s) }
       else if pendingResponses d = 1 \<and> solicitingConnection d \<noteq> remoteConnection c then do {
         k \<leftarrow> GetConnection c (remoteConnection c);
         Some (send_replica k (solicitingMsg d) 0 (DisposeMsg m s)) }
       else if pendingResponses d = 0 then do {
         let delay = CalculateTime c m;
         k \<leftarrow> GetConnection c (solicitingConnection d);
         let s = ScheduleEvent CB_AttemptTransfer delay (SendMsg k m delay s);
         Some (end_transfer a d s) }
       else Some s }
     else do {
       let s = DisposeMsg m s;
       let d = d\<lparr>pendingResponses := pendingResponses d - 1\<rparr>;
       let s = s\<lparr>pendingTransfers := (pendingTransfers s)(a := Some d)\<rparr>;
       Some (if all_answered c d
             then end_transfer a d (ScheduleEvent CB_AttemptTransfer (CalculateTime c m) s) else s) } }"

definition SnoopyBus_RecvMsg :: "bus_config \<Rightarrow> msg \<Rightarrow> nat \<Rightarrow> bus \<Rightarrow> bus option" where
  "SnoopyBus_RecvMsg c m connectionID s = do {
     DebugAssert (connectionID < connectionCount c);
     if IsResponse m then ProcessResponse c m s
     else do {
       let s = s\<lparr>waitingMsgs := (waitingMsgs s)[connectionID := waitingMsgs s ! connectionID @ [m]]\<rparr>;
       if \<not> transferInProgress s then AttemptTransfer c s else Some s } }"

section \<open>Invariant\<close>

definition is_request :: "msg \<Rightarrow> bool" where
  "is_request m \<longleftrightarrow> \<not> IsResponse m \<and> is_protocol m"

definition transfer_ok :: "bus_config \<Rightarrow> nat \<Rightarrow> TransferData \<Rightarrow> bool" where
  "transfer_ok c a d \<longleftrightarrow> is_request (solicitingMsg d) \<and> addr (solicitingMsg d) = a \<and>
     solicitingConnection d < connectionCount c \<and> 1 \<le> pendingResponses d \<and> pendingResponses d < int (connectionCount c)"

definition bus_ok :: "bus_config \<Rightarrow> bus \<Rightarrow> bool" where
  "bus_ok c s \<longleftrightarrow> 2 \<le> connectionCount c \<and> remoteConnection c < connectionCount c \<and>
     length (waitingMsgs s) = connectionCount c \<and> length (pendingMsgs s) = connectionCount c \<and>
     length (msgIndex s) = connectionCount c \<and> (\<forall>ms\<in>set (waitingMsgs s). \<forall>m\<in>set ms. is_request m) \<and>
     finite (dom (pendingTransfers s)) \<and> (\<forall>a d. pendingTransfers s a = Some d \<longrightarrow> transfer_ok c a d)"

text \<open>The requests that wait, and those whose transfer is under way.\<close>

definition requests :: "bus \<Rightarrow> msg multiset" where
  "requests s = mset (concat (waitingMsgs s)) +
     image_mset (\<lambda>a. solicitingMsg (the (pendingTransfers s a))) (mset_set (dom (pendingTransfers s)))"

lemma requests_events [simp]: "requests (s\<lparr>events := x\<rparr>) = requests s" "requests (s\<lparr>currentMsgStamp := n\<rparr>) = requests s"
  "requests (s\<lparr>drawn := n\<rparr>) = requests s" "requests (s\<lparr>transferInProgress := b\<rparr>) = requests s"
  "requests (s\<lparr>pendingMsgs := P\<rparr>) = requests s" "requests (s\<lparr>msgIndex := I\<rparr>) = requests s"
  by (simp_all add: requests_def)

lemma mset_concat_update:
  "i < length xss \<Longrightarrow> mset (concat (xss[i := ys])) + mset (xss ! i) = mset (concat xss) + mset ys"
proof (induction xss arbitrary: i)
  case (Cons xs xss)
  then show ?case by (cases i) (auto simp: add.assoc add.left_commute)
qed simp

section \<open>Selecting a transfer\<close>

lemma select_pending_Some:
  "selection < length (filter id ps) \<Longrightarrow> \<exists>k<length ps. select_pending i selection ps = Some (i + k) \<and> ps ! k"
proof (induction i selection ps rule: select_pending.induct)
  case (2 i selection p ps)
  show ?case
  proof (cases "p \<and> selection = 0")
    case False
    with 2 have "\<exists>k<length ps. select_pending i selection (p # ps) = Some (i + 1 + k) \<and> ps ! k" by (auto split: if_splits)
    then obtain k where "k < length ps" "select_pending i selection (p # ps) = Some (i + 1 + k)" "ps ! k" by blast
    then show ?thesis by (intro exI[of _ "k + 1"]) auto
  qed (auto intro: exI[of _ 0])
qed simp

lemma SelectNext_wp:
  assumes "remoteConnection c < length ps" and "k < length ps" "ps ! k"
  shows "returns (SelectNext c draw ps) (\<lambda>(r, d). r < length ps \<and> ps ! r)"
proof -
  have "True \<in> set ps" using nth_mem[OF assms(2)] assms(3) by simp
  then have "filter id ps \<noteq> []" by (auto simp: filter_empty_conv)
  then have "draw mod length (filter id ps) < length (filter id ps)" by simp
  from select_pending_Some[OF this, of 0] obtain r where
    "r < length ps" "select_pending 0 (draw mod length (filter id ps)) ps = Some r" "ps ! r" by auto
  moreover have "length ps > 0" "0 < length (filter id ps)" using assms(2) \<open>filter id ps \<noteq> []\<close> by auto
  ultimately have "returns (RandomArbitration_SelectNext draw ps) (\<lambda>r. r < length ps \<and> ps ! r)"
    by (simp add: RandomArbitration_SelectNext_def Let_def)
  note R = this
  show ?thesis
  proof (cases "arbitrator c")
    case RandomArbitration
    then show ?thesis using R by (simp add: SelectNext_def)
  next
    case RemoteFirstRandomArbitration
    then show ?thesis using R assms(1) by (simp add: SelectNext_def DebugAssert_def)
  qed
qed

lemma first_ready_Some:
  "\<forall>m\<in>set ms. is_request m \<Longrightarrow> \<exists>r. first_ready s j ms = Some r \<and>
    (case r of None \<Rightarrow> True | Some l \<Rightarrow> j \<le> l \<and> l < j + length ms \<and> pendingTransfers s (addr (ms ! (l - j))) = None)"
proof (induction s j ms rule: first_ready.induct)
  case (2 s j m ms)
  show ?case
  proof (cases "pendingTransfers s (addr m)")
    case (Some d)
    with 2 have "\<exists>r. first_ready s (j + 1) ms = Some r \<and> (case r of None \<Rightarrow> True
      | Some l \<Rightarrow> j + 1 \<le> l \<and> l < j + 1 + length ms \<and> pendingTransfers s (addr (ms ! (l - (j + 1)))) = None)"
      by (auto simp: is_request_def GetRelevantAddr_def)
    then obtain r where r: "first_ready s (j + 1) ms = Some r" "case r of None \<Rightarrow> True
      | Some l \<Rightarrow> j + 1 \<le> l \<and> l < j + 1 + length ms \<and> pendingTransfers s (addr (ms ! (l - (j + 1)))) = None" by blast
    have "first_ready s j (m # ms) = Some r" using Some 2(2) r(1) by (simp add: is_request_def GetRelevantAddr_def)
    then show ?thesis using r(2) by (auto simp: nth_Cons' split: option.splits)
  qed (use 2 in \<open>auto simp: is_request_def GetRelevantAddr_def\<close>)
qed simp

definition ready_ok :: "bus \<Rightarrow> msg list \<Rightarrow> bool \<Rightarrow> nat \<Rightarrow> bool" where
  "ready_ok s ms p l \<longleftrightarrow> (p \<longrightarrow> l < length ms \<and> pendingTransfers s (addr (ms ! l)) = None)"

lemma scan_queues_wp:
  assumes "\<forall>ms\<in>set mss. \<forall>m\<in>set ms. is_request m" and "i + length mss \<le> length P" "length I = length P"
  shows "returns (scan_queues s i mss (P, I, f)) (\<lambda>(P', I', f'). length P' = length P \<and> length I' = length P \<and>
    (\<forall>k<length P. k < i \<longrightarrow> P' ! k = P ! k \<and> I' ! k = I ! k) \<and>
    (\<forall>k<length mss. ready_ok s (mss ! k) (P' ! (i + k)) (I' ! (i + k))) \<and>
    (f' \<longrightarrow> f \<or> (\<exists>k<length mss. P' ! (i + k))))"
  using assms
proof (induction mss arbitrary: i P I f)
  case (Cons ms mss)
  from first_ready_Some[of ms s 0] Cons.prems(1) obtain r where r: "first_ready s 0 ms = Some r"
    "case r of None \<Rightarrow> True | Some l \<Rightarrow> l < length ms \<and> pendingTransfers s (addr (ms ! l)) = None"
    by (auto split: option.splits)
  define P1 where "P1 = P[i := r \<noteq> None]"
  define I1 where "I1 = (case r of None \<Rightarrow> I | Some l \<Rightarrow> I[i := l])"
  have ih: "returns (scan_queues s (i + 1) mss (P1, I1, f \<or> r \<noteq> None)) (\<lambda>(P', I', f'). length P' = length P1 \<and> length I' = length P1 \<and>
    (\<forall>k<length P1. k < i + 1 \<longrightarrow> P' ! k = P1 ! k \<and> I' ! k = I1 ! k) \<and>
    (\<forall>k<length mss. ready_ok s (mss ! k) (P' ! (i + 1 + k)) (I' ! (i + 1 + k))) \<and>
    (f' \<longrightarrow> (f \<or> r \<noteq> None) \<or> (\<exists>k<length mss. P' ! (i + 1 + k))))"
    by (rule Cons.IH) (use Cons.prems in \<open>auto simp: P1_def I1_def split: option.splits\<close>)
  have run: "scan_queues s i (ms # mss) (P, I, f) = scan_queues s (i + 1) mss (P1, I1, f \<or> r \<noteq> None)"
    using r(1) by (cases r) (simp_all add: P1_def I1_def)
  have len: "length P1 = length P" "i < length P" using Cons.prems by (simp_all add: P1_def)
  have i: "P1 ! i \<longleftrightarrow> r \<noteq> None" "r = Some l \<Longrightarrow> I1 ! i = l" for l
    using Cons.prems len by (simp_all add: P1_def I1_def)
  have o: "k < i \<Longrightarrow> P1 ! k = P ! k \<and> I1 ! k = I ! k" for k by (auto simp: P1_def I1_def split: option.splits)
  show ?case unfolding run using ih
  proof (rule returns_mono, clarify, intro conjI allI impI)
    fix P' I' f'
    assume H: "length P' = length P1" "length I' = length P1"
      "\<forall>k<length P1. k < i + 1 \<longrightarrow> P' ! k = P1 ! k \<and> I' ! k = I1 ! k"
      "\<forall>k<length mss. ready_ok s (mss ! k) (P' ! (i + 1 + k)) (I' ! (i + 1 + k))"
      "f' \<longrightarrow> (f \<or> r \<noteq> None) \<or> (\<exists>k<length mss. P' ! (i + 1 + k))"
    have now: "P' ! i \<longleftrightarrow> r \<noteq> None" "I' ! i = I1 ! i" using H(3) i(1) len by auto
    show "ready_ok s ((ms # mss) ! k) (P' ! (i + k)) (I' ! (i + k))" if k: "k < length (ms # mss)" for k
    proof (cases k)
      case 0
      with now r i show ?thesis by (auto simp: ready_ok_def split: option.splits)
    qed (use k H(4) in simp)
    show "f \<or> (\<exists>k<length (ms # mss). P' ! (i + k))" if f'
    proof -
      consider f | "r \<noteq> None" | k where "k < length mss" "P' ! (i + 1 + k)" using H(5) \<open>f'\<close> by blast
      then show ?thesis
      proof cases
        case 2
        then show ?thesis using now by (intro disjI2 exI[of _ 0]) simp
      next
        case 3
        then show ?thesis by (intro disjI2 exI[of _ "k + 1"]) simp
      qed simp
    qed
    show "length P' = length P" "length I' = length P" using H len by simp_all
    show "P' ! k = P ! k" "I' ! k = I ! k" if "k < length P" "k < i" for k using that H(3) len o by auto
  qed
qed simp

section \<open>Every request is in one place\<close>

lemma broadcast_replicas:
  "fold (\<lambda>i. send_replica i m 0) is s =
     s\<lparr>currentMsgStamp := currentMsgStamp s + length is, events := events s @ map (\<lambda>i. Sent i m 0) is\<rparr>"
  by (induction "is" arbitrary: s) (simp_all add: send_replica_def send_def)

lemma requests_begin:
  assumes "finite (dom (pendingTransfers s))" and "pendingTransfers s a = None"
  shows "requests (s\<lparr>pendingTransfers := (pendingTransfers s)(a := Some d)\<rparr>) = add_mset (solicitingMsg d) (requests s)"
proof -
  have "image_mset (\<lambda>b. solicitingMsg (the (((pendingTransfers s)(a := Some d)) b))) (mset_set (dom (pendingTransfers s))) =
    image_mset (\<lambda>b. solicitingMsg (the (pendingTransfers s b))) (mset_set (dom (pendingTransfers s)))"
    by (rule image_mset_cong) (use assms in \<open>auto simp: domIff\<close>)
  moreover have "a \<notin> dom (pendingTransfers s)" using assms(2) by auto
  ultimately show ?thesis using assms(1) by (simp add: requests_def)
qed

lemma requests_end:
  assumes "finite (dom (pendingTransfers s))" and "pendingTransfers s a = Some d"
  shows "requests s = add_mset (solicitingMsg d) (requests (s\<lparr>pendingTransfers := (pendingTransfers s)(a := None)\<rparr>))"
proof -
  let ?s = "s\<lparr>pendingTransfers := (pendingTransfers s)(a := None)\<rparr>"
  have "s = ?s\<lparr>pendingTransfers := (pendingTransfers ?s)(a := Some d)\<rparr>" using assms(2) by (simp add: fun_upd_idem)
  then show ?thesis using requests_begin[of ?s a d] assms(1) by simp
qed

lemma requests_answer:
  assumes "pendingTransfers s a = Some d" and "solicitingMsg d' = solicitingMsg d" and "finite (dom (pendingTransfers s))"
  shows "requests (s\<lparr>pendingTransfers := (pendingTransfers s)(a := Some d')\<rparr>) = requests s"
proof -
  have "insert a (dom (pendingTransfers s)) = dom (pendingTransfers s)" using assms(1) by auto
  then show ?thesis using assms by (auto simp: requests_def intro!: image_mset_cong)
qed

lemma mset_take_out: "j < length xs \<Longrightarrow> mset (take j xs @ drop (j + 1) xs) + {#xs ! j#} = mset xs"
  by (metis add_mset_add_single id_take_nth_drop mset_append mset.simps(2) Suc_eq_plus1 union_mset_add_mset_right)

lemma requests_take:
  assumes "r < length (waitingMsgs s)" and "j < length (waitingMsgs s ! r)"
  shows "requests s = add_mset (waitingMsgs s ! r ! j)
    (requests (s\<lparr>waitingMsgs := (waitingMsgs s)[r := take j (waitingMsgs s ! r) @ drop (j + 1) (waitingMsgs s ! r)]\<rparr>))"
proof -
  let ?q = "waitingMsgs s ! r"
  let ?rest = "take j ?q @ drop (j + 1) ?q"
  have "mset (concat ((waitingMsgs s)[r := ?rest])) + (mset ?rest + {#?q ! j#}) = mset (concat (waitingMsgs s)) + mset ?rest"
    unfolding mset_take_out[OF assms(2)] by (rule mset_concat_update[OF assms(1)])
  then have "mset (concat (waitingMsgs s)) + mset ?rest = (mset (concat ((waitingMsgs s)[r := ?rest])) + {#?q ! j#}) + mset ?rest"
    by (simp only: ac_simps)
  then have "mset (concat (waitingMsgs s)) = mset (concat ((waitingMsgs s)[r := ?rest])) + {#?q ! j#}"
    by (rule add_right_imp_eq)
  then show ?thesis by (simp add: requests_def)
qed

lemma AttemptTransfer_wp:
  assumes ok: "bus_ok c s"
  shows "returns (AttemptTransfer c s) (\<lambda>s'. bus_ok c s' \<and> requests s' = requests s)"
proof -
  have W: "\<forall>ms\<in>set (waitingMsgs s). \<forall>m\<in>set ms. is_request m" "0 + length (waitingMsgs s) \<le> length (pendingMsgs s)"
    "length (msgIndex s) = length (pendingMsgs s)" using ok by (auto simp: bus_ok_def)
  from scan_queues_wp[OF W, of s False] ok
  have "returns (scan_queues s 0 (waitingMsgs s) (pendingMsgs s, msgIndex s, False)) (\<lambda>(P, I, f).
    length P = connectionCount c \<and> length I = connectionCount c \<and>
    (\<forall>k<connectionCount c. ready_ok s (waitingMsgs s ! k) (P ! k) (I ! k)) \<and> (f \<longrightarrow> (\<exists>k<connectionCount c. P ! k)))"
    by (auto simp: bus_ok_def elim!: returns_mono)
  then obtain P I f where scan: "scan_queues s 0 (waitingMsgs s) (pendingMsgs s, msgIndex s, False) = Some (P, I, f)"
    "length P = connectionCount c" "length I = connectionCount c"
    "\<forall>k<connectionCount c. ready_ok s (waitingMsgs s ! k) (P ! k) (I ! k)"
    "f \<Longrightarrow> \<exists>k<connectionCount c. P ! k" by (elim returns_pairE) (auto split: prod.splits)
  show ?thesis
  proof (cases f)
    case False
    with scan ok show ?thesis by (simp add: AttemptTransfer_def bus_ok_def)
  next
    case True
    from scan(5)[OF True] obtain k where k: "k < length P" "P ! k" using scan(2) by auto
    have "remoteConnection c < length P" using ok scan(2) by (simp add: bus_ok_def)
    from SelectNext_wp[OF this k, of "draws c (drawn s)"] obtain r d where
      r: "SelectNext c (draws c (drawn s)) P = Some (r, d)" "r < connectionCount c" "P ! r"
      using scan(2) by (auto elim: returns_pairE)
    let ?q = "waitingMsgs s ! r" and ?j = "I ! r"
    let ?m = "?q ! ?j"
    let ?rest = "take ?j ?q @ drop (?j + 1) ?q"
    define s1 where "s1 = (if d then s\<lparr>pendingMsgs := P, msgIndex := I, transferInProgress := True, drawn := drawn s + 1\<rparr>
      else s\<lparr>pendingMsgs := P, msgIndex := I, transferInProgress := True\<rparr>)"
    have s1: "waitingMsgs s1 = waitingMsgs s" "pendingTransfers s1 = pendingTransfers s" "requests s1 = requests s"
      "pendingMsgs s1 = P" "msgIndex s1 = I" by (simp_all add: s1_def)
    have len: "length (waitingMsgs s) = connectionCount c" using ok by (simp add: bus_ok_def)
    have j: "?j < length ?q" "pendingTransfers s (addr ?m) = None" using scan(4) r(2,3) by (auto simp: ready_ok_def)
    have q: "?q \<in> set (waitingMsgs s)" using r(2) len by simp
    then have m: "is_request ?m" using W(1) j(1) by auto
    have rest: "\<forall>ms\<in>set ((waitingMsgs s)[r := ?rest]). \<forall>m\<in>set ms. is_request m"
    proof (intro ballI)
      fix ms m assume ms: "ms \<in> set ((waitingMsgs s)[r := ?rest])" "m \<in> set ms"
      then have "ms = ?rest \<or> ms \<in> set (waitingMsgs s)" using set_update_subset_insert by fastforce
      moreover have "set ?rest \<subseteq> set ?q" by (auto dest: in_set_takeD in_set_dropD)
      ultimately show "is_request m" using W(1) q ms(2) by blast
    qed
    let ?s2 = "s1\<lparr>waitingMsgs := (waitingMsgs s1)[r := ?rest]\<rparr>"
    let ?s3 = "fold (\<lambda>i. send_replica i ?m 0) (broadcast_to c r) ?s2"
    let ?d = "\<lparr>pendingResponses = int (connectionCount c) - 1, solicitingMsg = ?m, solicitingConnection = r, transferSatisfied = False\<rparr>"
    let ?s4 = "?s3\<lparr>pendingTransfers := (pendingTransfers ?s3)(addr ?m := Some ?d)\<rparr>"
    have fin: "finite (dom (pendingTransfers ?s3))" "pendingTransfers ?s3 (addr ?m) = None"
      using ok j(2) s1 by (simp_all add: broadcast_replicas bus_ok_def)
    have "requests ?s4 = add_mset ?m (requests ?s3)" using requests_begin[OF fin, of ?d] by simp
    also have "requests ?s3 = requests ?s2" by (simp add: broadcast_replicas)
    also have "add_mset ?m (requests ?s2) = requests s1" using requests_take[of r s1 ?j] r(2) len j(1) s1 by simp
    finally have "requests ?s4 = requests s1" .
    then have req: "requests ?s4 = requests s" by (simp only: s1(3))
    have "bus_ok c ?s4" using ok scan(2,3) rest m r(2) fin s1 j(2)
      by (auto simp: bus_ok_def broadcast_replicas transfer_ok_def)
    moreover have "AttemptTransfer c s = Some ?s4"
      using scan(1) True r len j(1) m s1
      by (simp add: AttemptTransfer_def Let_def DebugAssert_def BroadcastMsg_def GetRelevantAddr_def is_request_def s1_def)
    ultimately show ?thesis using req by (simp only: returns_Some simp_thms)
  qed
qed

section \<open>Responses\<close>

text \<open>The responses that a list of events sends to a connection.\<close>

fun response_to :: "nat \<Rightarrow> nat event \<Rightarrow> msg list" where
  "response_to k (Sent i m t) = (if i = k \<and> IsResponse m then [m] else [])"
| "response_to k _ = []"

definition responses_to :: "nat \<Rightarrow> bus \<Rightarrow> msg list" where
  "responses_to k s = concat (map (response_to k) (events s))"

lemma responses_to_simps [simp]:
  "responses_to k (s\<lparr>pendingTransfers := T\<rparr>) = responses_to k s"
  "responses_to k (DisposeMsg m s) = responses_to k s"
  "responses_to k (ScheduleEvent f d s) = responses_to k s"
  "responses_to k (SendMsg i m d s) = responses_to k s @ (if i = k \<and> IsResponse m then [m] else [])"
  "\<not> IsResponse m \<Longrightarrow> responses_to k (send_replica i m d s) = responses_to k s"
  by (simp_all add: responses_to_def DisposeMsg_def ScheduleEvent_def SendMsg_def send_replica_def send_def)

lemma requests_outside [simp]: "requests (DisposeMsg m s) = requests s" "requests (ScheduleEvent f d s) = requests s"
  "requests (SendMsg i m d s) = requests s" "requests (send_replica i m d s) = requests s"
  by (simp_all add: DisposeMsg_def ScheduleEvent_def SendMsg_def send_replica_def send_def)

lemma bus_ok_outside [simp]: "bus_ok c (DisposeMsg m s) = bus_ok c s" "bus_ok c (ScheduleEvent f d s) = bus_ok c s"
  "bus_ok c (SendMsg i m d s) = bus_ok c s" "bus_ok c (send_replica i m d s) = bus_ok c s"
  by (simp_all add: bus_ok_def DisposeMsg_def ScheduleEvent_def SendMsg_def send_replica_def send_def)

lemma outside_pending [simp]: "pendingTransfers (DisposeMsg m s) = pendingTransfers s"
  "pendingTransfers (ScheduleEvent f d s) = pendingTransfers s"
  "pendingTransfers (SendMsg i m d s) = pendingTransfers s" "pendingTransfers (send_replica i m d s) = pendingTransfers s"
  by (simp_all add: DisposeMsg_def ScheduleEvent_def SendMsg_def send_replica_def send_def)

lemma outside_update: "(DisposeMsg m s)\<lparr>pendingTransfers := T\<rparr> = DisposeMsg m (s\<lparr>pendingTransfers := T\<rparr>)"
  "(ScheduleEvent f d s)\<lparr>pendingTransfers := T\<rparr> = ScheduleEvent f d (s\<lparr>pendingTransfers := T\<rparr>)"
  "(SendMsg i m d s)\<lparr>pendingTransfers := T\<rparr> = SendMsg i m d (s\<lparr>pendingTransfers := T\<rparr>)"
  by (simp_all add: DisposeMsg_def ScheduleEvent_def SendMsg_def)

lemma bus_ok_transfer:
  assumes "bus_ok c s" and "transfer_ok c a d"
  shows "bus_ok c (s\<lparr>pendingTransfers := (pendingTransfers s)(a := Some d)\<rparr>)"
  using assms by (auto simp: bus_ok_def)

lemma bus_ok_end: "bus_ok c s \<Longrightarrow> bus_ok c (s\<lparr>pendingTransfers := (pendingTransfers s)(a := None)\<rparr>)"
  by (auto simp: bus_ok_def)

text \<open>
  A response is counted. The requester is answered by the first response that satisfies the request,
  or else by the last one; nobody is answered twice. When every cache has answered (and the next
  level too, if nobody satisfied the request) the transfer ends and its request is disposed of.
\<close>

definition answered_by :: "bus_config \<Rightarrow> TransferData \<Rightarrow> msg \<Rightarrow> msg list" where
  "answered_by c d m = (if \<not> transferSatisfied d \<and> (satisfies m = Some True \<or> pendingResponses d = 1) then [m] else [])"

definition transfer_ends :: "bus_config \<Rightarrow> TransferData \<Rightarrow> msg \<Rightarrow> bool" where
  "transfer_ends c d m \<longleftrightarrow> pendingResponses d = 1 \<or>
     ((transferSatisfied d \<or> satisfies m = Some True) \<and> pendingResponses d = 2 \<and> solicitingConnection d \<noteq> remoteConnection c)"

lemma satisfies_response: "IsResponse m \<Longrightarrow> is_protocol m \<Longrightarrow> \<exists>b. satisfies m = Some b"
  by (cases m) auto

lemma ProcessResponse_wp:
  assumes ok: "bus_ok c s" and m: "IsResponse m" "is_protocol m" and d: "pendingTransfers s (addr m) = Some d"
  shows "returns (ProcessResponse c m s) (\<lambda>s'. bus_ok c s' \<and>
    responses_to (solicitingConnection d) s' = responses_to (solicitingConnection d) s @ answered_by c d m \<and>
    (if transfer_ends c d m
     then pendingTransfers s' = (pendingTransfers s)(addr m := None) \<and> requests s = add_mset (solicitingMsg d) (requests s')
     else requests s' = requests s \<and> (\<exists>d'. pendingTransfers s' = (pendingTransfers s)(addr m := Some d') \<and>
       pendingResponses d' = pendingResponses d - 1 \<and> (transferSatisfied d' \<longleftrightarrow> transferSatisfied d \<or> satisfies m = Some True))))"
proof -
  let ?a = "addr m"
  from satisfies_response[OF m] obtain b where b: "satisfies m = Some b" by auto
  have t: "transfer_ok c ?a d" and fin: "finite (dom (pendingTransfers s))" using ok d by (auto simp: bus_ok_def)
  let ?d = "d\<lparr>transferSatisfied := transferSatisfied d \<or> b, pendingResponses := pendingResponses d - 1\<rparr>"
  let ?s = "s\<lparr>pendingTransfers := (pendingTransfers s)(?a := Some ?d)\<rparr>"
  let ?e = "s\<lparr>pendingTransfers := (pendingTransfers s)(?a := None)\<rparr>"
  have rq: "requests ?s = requests s" by (rule requests_answer[OF d _ fin]) simp
  have re: "requests s = add_mset (solicitingMsg d) (requests ?e)" by (rule requests_end[OF fin d])
  have oks: "bus_ok c ?s" if "pendingResponses d \<noteq> 1"
    by (rule bus_ok_transfer[OF ok]) (use t that in \<open>auto simp: transfer_ok_def\<close>)
  have oke: "bus_ok c ?e" by (rule bus_ok_end[OF ok])
  have lim: "solicitingConnection d < connectionCount c" "remoteConnection c < connectionCount c"
    "\<not> IsResponse (solicitingMsg d)" "pendingResponses d \<ge> 1"
    using t ok by (auto simp: transfer_ok_def bus_ok_def is_request_def)
  show ?thesis
  proof (cases "transferSatisfied d")
    case True
    have d': "d\<lparr>transferSatisfied := True, pendingResponses := x\<rparr> = d\<lparr>pendingResponses := x\<rparr>" for x
      by (cases d) (use True in simp)
    have run: "ProcessResponse c m s = Some (if transfer_ends c d m
        then DisposeMsg (solicitingMsg d) (ScheduleEvent CB_AttemptTransfer (CalculateTime c m) (DisposeMsg m ?e))
        else DisposeMsg m ?s)"
      using True m d by (auto simp: d' ProcessResponse_def GetRelevantAddr_def DebugAssert_def Let_def all_answered_def
          transfer_ends_def end_transfer_def outside_update)
    have "answered_by c d m = []" using True by (simp add: answered_by_def)
    moreover have "\<not> transfer_ends c d m \<Longrightarrow> pendingResponses d \<noteq> 1" by (simp add: transfer_ends_def)
    ultimately show ?thesis unfolding run using rq re oks oke True by auto
  next
    case False
    have run: "ProcessResponse c m s = Some (
      if transfer_ends c d m then DisposeMsg (solicitingMsg d)
        (ScheduleEvent CB_AttemptTransfer (CalculateTime c m) (SendMsg (solicitingConnection d) m (CalculateTime c m) ?e))
      else if b then ScheduleEvent CB_AttemptTransfer (CalculateTime c m) (SendMsg (solicitingConnection d) m (CalculateTime c m) ?s)
      else if pendingResponses d = 2 \<and> solicitingConnection d \<noteq> remoteConnection c
      then send_replica (remoteConnection c) (solicitingMsg d) 0 (DisposeMsg m ?s)
      else ?s)"
      using False m d b lim by (auto simp: ProcessResponse_def GetRelevantAddr_def DebugAssert_def Let_def all_answered_def
          transfer_ends_def end_transfer_def outside_update GetConnection_def)
    have "answered_by c d m = (if b \<or> pendingResponses d = 1 then [m] else [])" using False b by (simp add: answered_by_def)
    moreover have "\<not> transfer_ends c d m \<Longrightarrow> pendingResponses d \<noteq> 1" by (simp add: transfer_ends_def)
    moreover have "transfer_ends c d m \<Longrightarrow> b \<or> pendingResponses d = 1" using False b by (auto simp: transfer_ends_def)
    ultimately show ?thesis unfolding run using rq re oks oke False b m lim by auto
  qed
qed

section \<open>The bus as a device\<close>

definition bus_legal :: "bus_config \<Rightarrow> msg \<Rightarrow> nat \<Rightarrow> bus \<Rightarrow> bool" where
  "bus_legal c m k s \<longleftrightarrow> k < connectionCount c \<and> is_protocol m \<and>
     (IsResponse m \<longrightarrow> pendingTransfers s (addr m) \<noteq> None)"

text \<open>Besides messages, an event that was scheduled may attempt a transfer at any time.\<close>

definition bus_event :: "bus_config \<Rightarrow> bus \<Rightarrow> bus \<Rightarrow> bool" where
  "bus_event c s s' \<longleftrightarrow> AttemptTransfer c s = Some s' \<or> (\<exists>n. s' = s\<lparr>currentTick := n\<rparr>)"

definition bus_init :: "bus_config \<Rightarrow> bus \<Rightarrow> bool" where
  "bus_init c s \<longleftrightarrow> (\<exists>em. SnoopyBus_Initialize c em = Some s)"

lemma receive_wp:
  assumes ok: "bus_ok c s" and k: "k < connectionCount c" and m: "is_request m"
  defines "s1 \<equiv> s\<lparr>waitingMsgs := (waitingMsgs s)[k := waitingMsgs s ! k @ [m]]\<rparr>"
  shows "bus_ok c s1" and "requests s1 = add_mset m (requests s)"
proof -
  have len: "k < length (waitingMsgs s)" using ok k by (simp add: bus_ok_def)
  have "\<forall>m'\<in>set (waitingMsgs s ! k). is_request m'" using ok len by (auto simp: bus_ok_def)
  then show "bus_ok c s1" using ok m set_update_subset_insert[of "waitingMsgs s" k]
    by (fastforce simp: bus_ok_def s1_def)
  have "mset (concat ((waitingMsgs s)[k := waitingMsgs s ! k @ [m]])) + mset (waitingMsgs s ! k) =
      add_mset m (mset (concat (waitingMsgs s))) + mset (waitingMsgs s ! k)"
    unfolding mset_concat_update[OF len] by simp
  then show "requests s1 = add_mset m (requests s)" by (simp add: requests_def s1_def)
qed

lemma SnoopyBus_RecvMsg_wp:
  assumes ok: "bus_ok c s" and m: "bus_legal c m k s"
  shows "returns (SnoopyBus_RecvMsg c m k s) (bus_ok c)"
proof (cases "IsResponse m")
  case True
  then obtain d where "pendingTransfers s (addr m) = Some d" using m by (auto simp: bus_legal_def)
  from ProcessResponse_wp[OF ok True _ this] m True show ?thesis
    by (auto simp: SnoopyBus_RecvMsg_def bus_legal_def elim!: returns_mono)
next
  case False
  then have "is_request m" "k < connectionCount c" using m by (auto simp: bus_legal_def is_request_def)
  note r = receive_wp(1)[OF ok this(2,1)]
  from AttemptTransfer_wp[OF r] r m False show ?thesis
    by (auto simp: SnoopyBus_RecvMsg_def bus_legal_def Let_def elim!: returns_mono)
qed

lemma bus_init_ok:
  assumes "bus_init c s"
  shows "bus_ok c s"
proof -
  from assms obtain em where "SnoopyBus_Initialize c em = Some s" by (auto simp: bus_init_def)
  then show ?thesis by (auto simp: SnoopyBus_Initialize_def DebugAssert_def bus_ok_def split: if_splits)
qed

interpretation snoopy: device "bus_init c" "bus_event c" "bus_legal c" "SnoopyBus_RecvMsg c" "bus_ok c" for c
proof
  show "bus_ok c s'" if "bus_ok c s" "bus_event c s s'" for s s'
    using that AttemptTransfer_wp[OF that(1)] by (auto simp: bus_event_def bus_ok_def elim!: returnsE)
qed (auto intro: bus_init_ok SnoopyBus_RecvMsg_wp)

abbreviation bus_reach :: "bus_config \<Rightarrow> bus \<Rightarrow> bool" where
  "bus_reach c \<equiv> device_reach (bus_init c) (bus_event c) (bus_legal c) (SnoopyBus_RecvMsg c)"

section \<open>Properties\<close>

definition demo_bus :: bus_config where
  "demo_bus = \<lparr>connectionCount = 3, remoteConnection = 0, arbitrator = RandomArbitration,
     latencyCalculator = ConstantLatencyCalculator 4, draws = (\<lambda>_. 0)\<rparr>"

definition demo_idle :: "bus_config \<Rightarrow> bus" where
  "demo_idle c = the (SnoopyBus_Initialize c \<lparr>currentTick = 0, currentMsgStamp = 1, events = []\<rparr>)"

lemma demo_idle_reach: "remoteConnection c < connectionCount c \<Longrightarrow> 1 < connectionCount c \<Longrightarrow> bus_reach c (demo_idle c)"
  by (rule device_init, unfold bus_init_def, rule exI[of _ "\<lparr>currentTick = 0, currentMsgStamp = 1, events = []\<rparr>"])
    (simp add: demo_idle_def SnoopyBus_Initialize_def DebugAssert_def)

text \<open>
  C25: In every state the snooping bus can reach, a message it accepts and an attempt to start a
  transfer are handled without a failed assertion; and no request is lost or duplicated: a request
  joins those that wait, starting a transfer moves it, and it leaves the bus only when its transfer ends.
\<close>

theorem bus_conserves_requests:
  assumes "bus_reach c s" and "bus_legal c m k s"
  shows "returns (AttemptTransfer c s) (\<lambda>s'. requests s' = requests s) \<and>
    returns (SnoopyBus_RecvMsg c m k s) (\<lambda>s'. if IsResponse m
      then if transfer_ends c (the (pendingTransfers s (addr m))) m
        then requests s = add_mset (solicitingMsg (the (pendingTransfers s (addr m)))) (requests s')
        else requests s' = requests s
      else requests s' = add_mset m (requests s))"
proof (intro conjI)
  have ok: "bus_ok c s" by (rule snoopy.reach_inv[OF assms(1)])
  show "returns (AttemptTransfer c s) (\<lambda>s'. requests s' = requests s)"
    by (rule returns_mono[OF AttemptTransfer_wp[OF ok]]) simp
  show "returns (SnoopyBus_RecvMsg c m k s) (\<lambda>s'. if IsResponse m
      then if transfer_ends c (the (pendingTransfers s (addr m))) m
        then requests s = add_mset (solicitingMsg (the (pendingTransfers s (addr m)))) (requests s')
        else requests s' = requests s
      else requests s' = add_mset m (requests s))"
  proof (cases "IsResponse m")
    case True
    then obtain d where d: "pendingTransfers s (addr m) = Some d" using assms(2) by (auto simp: bus_legal_def)
    from ProcessResponse_wp[OF ok True _ d] assms(2) True d show ?thesis
      by (auto simp: SnoopyBus_RecvMsg_def bus_legal_def elim!: returns_mono split: if_splits)
  next
    case False
    then have r: "is_request m" "k < connectionCount c" using assms(2) by (auto simp: bus_legal_def is_request_def)
    note q = receive_wp[OF ok r(2,1)]
    from AttemptTransfer_wp[OF q(1)] q(2) False r(2) show ?thesis
      by (auto simp: SnoopyBus_RecvMsg_def Let_def elim!: returns_mono)
  qed
qed

theorem bus_conserves_requests_witness:
  "returns (SnoopyBus_RecvMsg demo_bus (EvictionMsg 7 0 64 32 True) 1 (demo_idle demo_bus))
    (\<lambda>s'. requests s' = add_mset (EvictionMsg 7 0 64 32 True) (requests (demo_idle demo_bus)))"
proof -
  have "bus_reach demo_bus (demo_idle demo_bus)" by (rule demo_idle_reach) (simp_all add: demo_bus_def)
  from bus_conserves_requests[OF this, of "EvictionMsg 7 0 64 32 True" 1] show ?thesis
    by (simp add: bus_legal_def demo_bus_def)
qed

text \<open>
  A bus answers each request once: the requester gets the first response that satisfies its
  request, or else the last one that is due, and no other; a transfer that goes on counts the response.
\<close>

theorem bus_answers_once:
  assumes "bus_reach c s" and "bus_legal c m k s" and "IsResponse m" and "pendingTransfers s (addr m) = Some d"
  shows "returns (SnoopyBus_RecvMsg c m k s) (\<lambda>s'.
    responses_to (solicitingConnection d) s' = responses_to (solicitingConnection d) s @
      (if \<not> transferSatisfied d \<and> (satisfies m = Some True \<or> pendingResponses d = 1) then [m] else []) \<and>
    (if transfer_ends c d m then pendingTransfers s' (addr m) = None
     else \<exists>d'. pendingTransfers s' (addr m) = Some d' \<and>
       pendingResponses d' = pendingResponses d - 1 \<and> 0 < pendingResponses d' \<and>
       (transferSatisfied d' \<longleftrightarrow> transferSatisfied d \<or> satisfies m = Some True)))"
proof -
  have ok: "bus_ok c s" by (rule snoopy.reach_inv[OF assms(1)])
  have net: "is_protocol m" using assms(2) by (simp add: bus_legal_def)
  have run: "SnoopyBus_RecvMsg c m k s = ProcessResponse c m s"
    using assms(2,3) by (simp add: SnoopyBus_RecvMsg_def bus_legal_def DebugAssert_def)
  have pos: "0 < pendingResponses d - 1" if "\<not> transfer_ends c d m"
  proof -
    have "transfer_ok c (addr m) d" using ok assms(4) by (simp add: bus_ok_def)
    with that show ?thesis by (auto simp: transfer_ok_def transfer_ends_def)
  qed
  show ?thesis unfolding run
    by (rule returns_mono[OF ProcessResponse_wp[OF ok assms(3) net assms(4)]])
      (use pos in \<open>auto simp: answered_by_def split: if_splits\<close>)
qed

definition demo_transfer :: bus where
  "demo_transfer = the (SnoopyBus_RecvMsg demo_bus (ReadMsg 7 0 64 32 True False False False) 1 (demo_idle demo_bus))"

lemma demo_transfer:
  "SnoopyBus_RecvMsg demo_bus (ReadMsg 7 0 64 32 True False False False) 1 (demo_idle demo_bus) = Some demo_transfer"
  "pendingTransfers demo_transfer = (\<lambda>_. None)(64 := Some \<lparr>pendingResponses = 2,
     solicitingMsg = ReadMsg 7 0 64 32 True False False False, solicitingConnection = 1, transferSatisfied = False\<rparr>)"
  by (simp_all add: demo_transfer_def SnoopyBus_RecvMsg_def demo_idle_def SnoopyBus_Initialize_def demo_bus_def DebugAssert_def
      AttemptTransfer_def Let_def GetRelevantAddr_def SelectNext_def RandomArbitration_SelectNext_def BroadcastMsg_def
      broadcast_to_def upt_rec send_replica_def send_def numeral_nat replicate_Suc)

theorem bus_answers_once_witness:
  "returns (SnoopyBus_RecvMsg demo_bus (ReadResponseMsg 9 0 64 32 True True False True False 7) 2 demo_transfer)
    (\<lambda>s'. pendingTransfers s' 64 = None \<and>
      responses_to 1 s' = responses_to 1 demo_transfer @ [ReadResponseMsg 9 0 64 32 True True False True False 7])"
proof -
  have "bus_reach demo_bus (demo_idle demo_bus)" by (rule demo_idle_reach) (simp_all add: demo_bus_def)
  then have "bus_reach demo_bus demo_transfer"
    by (rule device_recv[where recv = "SnoopyBus_RecvMsg demo_bus", OF _ _ demo_transfer(1)]) (simp add: bus_legal_def demo_bus_def)
  from bus_answers_once[OF this, of "ReadResponseMsg 9 0 64 32 True True False True False 7" 2]
  show ?thesis by (auto simp: bus_legal_def demo_bus_def demo_transfer(2) transfer_ends_def elim!: returns_mono)
qed

text \<open>
  A bus with one cache never serves it. The request is sent to the other caches, of which there
  are none, and the next level is asked only when a response arrives: nothing is sent to anyone, while
  the transfer waits for one response.
\<close>

theorem bus_single_cache_starves:
  assumes "connectionCount c = 2" and "remoteConnection c < 2" and "k < 2" and "k \<noteq> remoteConnection c"
    and "arbitrator c = RandomArbitration" and "is_request m"
  shows "returns (SnoopyBus_RecvMsg c m k (demo_idle c)) (\<lambda>s'. events s' = events (demo_idle c) \<and>
    transferInProgress s' \<and> (\<exists>d. pendingTransfers s' (addr m) = Some d \<and> pendingResponses d = 1 \<and> \<not> transferSatisfied d))"
proof -
  have "\<not> IsResponse m" "is_protocol m" using assms(6) by (simp_all add: is_request_def)
  then show ?thesis using assms(1-5)
    by (cases "k = 0") (auto simp: SnoopyBus_RecvMsg_def demo_idle_def SnoopyBus_Initialize_def DebugAssert_def
      AttemptTransfer_def Let_def GetRelevantAddr_def SelectNext_def RandomArbitration_SelectNext_def BroadcastMsg_def
      broadcast_to_def upt_rec replicate_Suc numeral_2_eq_2 less_Suc_eq)
qed

theorem bus_single_cache_starves_witness:
  "returns (SnoopyBus_RecvMsg (demo_bus\<lparr>connectionCount := 2\<rparr>) (ReadMsg 7 0 64 32 True False False False) 1
     (demo_idle (demo_bus\<lparr>connectionCount := 2\<rparr>))) (\<lambda>s'. events s' = events (demo_idle (demo_bus\<lparr>connectionCount := 2\<rparr>)))"
  by (rule returns_mono[OF bus_single_cache_starves]) (simp_all add: demo_bus_def is_request_def)

text \<open>A response that satisfies nobody and is not the last one is neither passed on nor disposed of.\<close>

theorem bus_forgets_response:
  assumes "IsResponse m" and "is_protocol m" and "pendingTransfers s (addr m) = Some d"
    and "satisfies m = Some False" and "\<not> transferSatisfied d" and "2 < pendingResponses d"
  shows "returns (ProcessResponse c m s) (\<lambda>s'. events s' = events s)"
  using assms by (simp add: ProcessResponse_def GetRelevantAddr_def DebugAssert_def Let_def)

end
