(* ===== verification/MemNetwork.thy ===== *)
theory MemNetwork
  imports TestMemory "HOL-Library.Multiset"
begin

text \<open>
  The network between nodes (\<^verbatim>\<open>MemSys/Devices/RandomLoadNetwork.cpp\<close>) and the interface that connects
  the main memory to it (\<^verbatim>\<open>MemSys/Devices/NetworkMemoryInterface.cpp\<close>). Nodes are integers, the
  connections of the network are numbered; \<open>None\<close> is a failed assertion or an access outside a vector.
\<close>

section \<open>Delay calculators\<close>

text \<open>
  The loaded calculator multiplies the number of packets with a \<^verbatim>\<open>float\<close>: \<open>load n\<close> is the whole
  number of ticks that \<open>n\<close> packets in transit add.
\<close>

datatype MsgDelayCalculator =
    ConstantCalculator (timeTaken: nat) (perByte: nat)
  | RandomCalculator (initialTime: nat) (randomRange: nat) (perByte: nat) (enforceInOrder: bool)
  | RandomLoadedCalculator (initialTime: nat) (randomRange: nat) (perByte: nat) (enforceInOrder: bool) (load: "nat \<Rightarrow> nat")

record network_config =
  nodeToConnection :: "int \<Rightarrow> nat option"
  nodeCount :: nat
  delayCalc :: MsgDelayCalculator
  draws :: "nat \<Rightarrow> nat"

record network = "nat event_manager" +
  mostRecentMsg :: "nat list list"
  packetsInTransit :: nat
  drawn :: nat
  totalMessagesReceived :: nat
  totalLatency :: nat

text \<open>The time of the last arrival between two nodes, and the delay of the next message.\<close>

definition in_order :: "bool \<Rightarrow> nat \<Rightarrow> nat \<Rightarrow> nat \<Rightarrow> nat \<Rightarrow> nat \<Rightarrow> nat list list \<Rightarrow> (nat \<times> nat list list) option" where
  "in_order enforce dtBase dtPacket fromNode toNode time recent =
     (if enforce then do {
        DebugAssert (fromNode < length recent);
        DebugAssert (toNode < length (recent ! fromNode));
        let last = recent ! fromNode ! toNode;
        let dtBase = (if last > time + dtBase then last - (time + dtBase) else dtBase);
        Some (dtBase + dtPacket, recent[fromNode := (recent ! fromNode)[toNode := time + dtBase + dtPacket]]) }
      else Some (dtBase + dtPacket, recent))"

definition CalcTime :: "network_config \<Rightarrow> msg \<Rightarrow> nat \<Rightarrow> nat \<Rightarrow> nat \<Rightarrow> network \<Rightarrow> (nat \<times> network) option" where
  "CalcTime c m fromNode toNode time s = (case delayCalc c of
     ConstantCalculator taken per \<Rightarrow> Some (taken + MsgSize m * per, s)
   | RandomCalculator initial rng per enforce \<Rightarrow> do {
       let dtBase = initial + draws c (drawn s) mod rng;
       (d, recent) \<leftarrow> in_order enforce dtBase (per * MsgSize m) fromNode toNode time (mostRecentMsg s);
       Some (d, s\<lparr>drawn := drawn s + 1, mostRecentMsg := recent\<rparr>) }
   | RandomLoadedCalculator initial rng per enforce ld \<Rightarrow> do {
       let dtBase = initial + draws c (drawn s) mod rng + ld (packetsInTransit s);
       (d, recent) \<leftarrow> in_order enforce dtBase (per * MsgSize m) fromNode toNode time (mostRecentMsg s);
       Some (d, s\<lparr>drawn := drawn s + 1, mostRecentMsg := recent\<rparr>) })"

definition OnMsgSend :: "network_config \<Rightarrow> network \<Rightarrow> network" where
  "OnMsgSend c s = (case delayCalc c of
     RandomLoadedCalculator _ _ _ _ _ \<Rightarrow> s\<lparr>packetsInTransit := packetsInTransit s + 1\<rparr> | _ \<Rightarrow> s)"

definition OnMsgDelivered :: "network_config \<Rightarrow> network \<Rightarrow> network option" where
  "OnMsgDelivered c s = (case delayCalc c of
     RandomLoadedCalculator _ _ _ _ _ \<Rightarrow> do {
       DebugAssert (packetsInTransit s > 0);
       Some (s\<lparr>packetsInTransit := packetsInTransit s - 1\<rparr>) }
   | _ \<Rightarrow> Some s)"

section \<open>The network\<close>

definition Network_Initialize :: "network_config \<Rightarrow> nat event_manager \<Rightarrow> network" where
  "Network_Initialize c em = \<lparr>currentTick = currentTick em, currentMsgStamp = currentMsgStamp em, events = events em,
     mostRecentMsg = replicate (nodeCount c) (replicate (nodeCount c) 0), packetsInTransit = 0, drawn = 0,
     totalMessagesReceived = 0, totalLatency = 0\<rparr>"

definition Network_RecvMsg :: "network_config \<Rightarrow> msg \<Rightarrow> nat \<Rightarrow> network \<Rightarrow> network option" where
  "Network_RecvMsg c m connectionID s = do {
     DebugAssert (is_network m);
     fromNode \<leftarrow> nodeToConnection c (sourceNode m);
     toNode \<leftarrow> nodeToConnection c (destinationNode m);
     DebugAssert (fromNode = connectionID \<or> isOverrideSource m);
     (delay, s) \<leftarrow> CalcTime c m fromNode toNode (currentTick s) s;
     let s = OnMsgSend c s;
     let s = ScheduleEvent (CB_DeliverMsg m) delay s;
     Some (s\<lparr>totalMessagesReceived := totalMessagesReceived s + 1, totalLatency := totalLatency s + delay\<rparr>) }"

definition DeliverMsg :: "network_config \<Rightarrow> msg \<Rightarrow> network \<Rightarrow> network option" where
  "DeliverMsg c m s = do {
     fromNode \<leftarrow> nodeToConnection c (sourceNode m);
     toNode \<leftarrow> nodeToConnection c (destinationNode m);
     s \<leftarrow> OnMsgDelivered c s;
     Some (SendMsg toNode m 0 s) }"

section \<open>The interface of the main memory\<close>

datatype nmi_connection = NetworkConnection | MemoryConnection

record nmi = "nmi_connection event_manager" +
  sourceTable :: "nat \<Rightarrow> int option"

definition NMI_Initialize :: "nmi_connection event_manager \<Rightarrow> nmi" where
  "NMI_Initialize em = \<lparr>currentTick = currentTick em, currentMsgStamp = currentMsgStamp em, events = events em,
     sourceTable = (\<lambda>_. None)\<rparr>"

definition NMI_RecvMsg :: "int \<Rightarrow> msg \<Rightarrow> nmi_connection \<Rightarrow> nmi \<Rightarrow> nmi option" where
  "NMI_RecvMsg nodeID m k s = (case k of
     NetworkConnection \<Rightarrow> do {
       DebugAssert (is_network m);
       DebugAssert (destinationNode m = nodeID);
       let p = payloadMsg m;
       DebugAssert (sourceTable s (msgID p) = None);
       let s = s\<lparr>sourceTable := (sourceTable s)(msgID p := Some (sourceNode m))\<rparr>;
       Some (DisposeMsg m (SendMsg MemoryConnection p 0 s)) }
   | MemoryConnection \<Rightarrow> do {
       DebugAssert (IsResponse m);
       DebugAssert (is_read_response m \<or> is_write_response m);
       n \<leftarrow> sourceTable s (solicitingMessage m);
       let (net, s) = CreateMsg (\<lambda>k. NetworkMsg k (generatingPC m) nodeID n False m) s;
       let s = s\<lparr>sourceTable := (sourceTable s)(solicitingMessage m := None)\<rparr>;
       Some (SendMsg NetworkConnection net 0 s) })"

section \<open>Messages in transit\<close>

fun scheduled_msg :: "nat event \<Rightarrow> msg list" where
  "scheduled_msg (Scheduled (CB_DeliverMsg m) d) = [m]"
| "scheduled_msg _ = []"

fun sent_msg :: "nat event \<Rightarrow> msg list" where
  "sent_msg (Sent k m d) = [m]"
| "sent_msg _ = []"

text \<open>Accepted and not yet delivered.\<close>

definition transit :: "network \<Rightarrow> msg multiset" where
  "transit s = mset (concat (map scheduled_msg (events s))) - mset (concat (map sent_msg (events s)))"

definition routed :: "network_config \<Rightarrow> msg \<Rightarrow> bool" where
  "routed c m \<longleftrightarrow> is_network m \<and> nodeToConnection c (sourceNode m) \<noteq> None \<and> nodeToConnection c (destinationNode m) \<noteq> None"

definition network_config_ok :: "network_config \<Rightarrow> bool" where
  "network_config_ok c \<longleftrightarrow> (\<forall>n k. nodeToConnection c n = Some k \<longrightarrow> k < nodeCount c)"

fun loaded :: "MsgDelayCalculator \<Rightarrow> bool" where
  "loaded (RandomLoadedCalculator _ _ _ _ _) = True"
| "loaded _ = False"

definition network_ok :: "network_config \<Rightarrow> network \<Rightarrow> bool" where
  "network_ok c s \<longleftrightarrow> network_config_ok c \<and> length (mostRecentMsg s) = nodeCount c \<and>
     (\<forall>r\<in>set (mostRecentMsg s). length r = nodeCount c) \<and>
     mset (concat (map sent_msg (events s))) \<subseteq># mset (concat (map scheduled_msg (events s))) \<and>
     (\<forall>m\<in>#transit s. routed c m) \<and>
     packetsInTransit s = (if loaded (delayCalc c) then size (transit s) else 0)"

definition network_legal :: "network_config \<Rightarrow> msg \<Rightarrow> nat \<Rightarrow> network \<Rightarrow> bool" where
  "network_legal c m k s \<longleftrightarrow> routed c m \<and> (nodeToConnection c (sourceNode m) = Some k \<or> isOverrideSource m)"

text \<open>Besides new messages, a message in transit may be delivered, and time may pass.\<close>

definition network_event :: "network_config \<Rightarrow> network \<Rightarrow> network \<Rightarrow> bool" where
  "network_event c s s' \<longleftrightarrow> (\<exists>m\<in>#transit s. DeliverMsg c m s = Some s') \<or> (\<exists>n. s' = s\<lparr>currentTick := n\<rparr>)"

definition network_init :: "network_config \<Rightarrow> network \<Rightarrow> bool" where
  "network_init c s \<longleftrightarrow> network_config_ok c \<and> (\<exists>em. events em = [] \<and> s = Network_Initialize c em)"

lemma in_order_wp:
  assumes "fromNode < n" "toNode < n" "length recent = n" "\<forall>r\<in>set recent. length r = n"
  shows "returns (in_order e b p fromNode toNode t recent) (\<lambda>(d, recent'). length recent' = n \<and> (\<forall>r\<in>set recent'. length r = n))"
proof -
  have l: "length (recent ! fromNode) = n" using assms by simp
  have "\<forall>r\<in>set (recent[fromNode := (recent ! fromNode)[toNode := x]]). length r = n" for x
    using set_update_subset_insert[of recent fromNode "(recent ! fromNode)[toNode := x]"] l assms(4) by auto
  then show ?thesis using assms l by (simp add: in_order_def Let_def)
qed

lemma CalcTime_wp:
  assumes ok: "network_ok c s" and "fromNode < nodeCount c" "toNode < nodeCount c"
  shows "returns (CalcTime c m fromNode toNode t s) (\<lambda>(d, s'). network_ok c s' \<and> events s' = events s)"
proof -
  have r: "length (mostRecentMsg s) = nodeCount c" "\<forall>r\<in>set (mostRecentMsg s). length r = nodeCount c"
    using ok by (simp_all add: network_ok_def)
  have keep: "network_ok c (s\<lparr>drawn := k, mostRecentMsg := recent\<rparr>)"
    if "length recent = nodeCount c" "\<forall>r\<in>set recent. length r = nodeCount c" for k recent
    using ok that by (simp add: network_ok_def transit_def)
  show ?thesis using ok
    by (cases "delayCalc c") (auto simp: CalcTime_def Let_def wp intro!: returns_mono[OF in_order_wp[OF assms(2,3) r]] keep)
qed

lemma Network_RecvMsg_wp:
  assumes ok: "network_ok c s" and m: "network_legal c m k s"
  shows "returns (Network_RecvMsg c m k s) (\<lambda>s'. network_ok c s' \<and> transit s' = add_mset m (transit s))"
proof -
  from m obtain i j where ij: "nodeToConnection c (sourceNode m) = Some i" "nodeToConnection c (destinationNode m) = Some j"
    "is_network m" "i = k \<or> isOverrideSource m" by (auto simp: network_legal_def routed_def)
  have lt: "i < nodeCount c" "j < nodeCount c" using ok ij by (auto simp: network_ok_def network_config_ok_def)
  from CalcTime_wp[OF ok lt, of m "currentTick s"] obtain d s1 where
    s1: "CalcTime c m i j (currentTick s) s = Some (d, s1)" "network_ok c s1" "events s1 = events s"
    by (auto elim: returns_pairE)
  let ?s = "(ScheduleEvent (CB_DeliverMsg m) d (OnMsgSend c s1))\<lparr>totalMessagesReceived := totalMessagesReceived s1 + 1, totalLatency := totalLatency s1 + d\<rparr>"
  have ev: "events (OnMsgSend c s1) = events s" "mostRecentMsg (OnMsgSend c s1) = mostRecentMsg s1"
    "totalMessagesReceived (OnMsgSend c s1) = totalMessagesReceived s1" "totalLatency (OnMsgSend c s1) = totalLatency s1"
    "packetsInTransit (OnMsgSend c s1) = (if loaded (delayCalc c) then packetsInTransit s1 + 1 else packetsInTransit s1)"
    using s1(3) by (auto simp: OnMsgSend_def split: MsgDelayCalculator.split)
  have sub: "mset (concat (map sent_msg (events s))) \<subseteq># mset (concat (map scheduled_msg (events s)))"
    using ok by (simp add: network_ok_def)
  have tr: "transit ?s = add_mset m (transit s)"
    using subset_mset.add_diff_assoc2[OF sub, of "{#m#}"] by (simp add: transit_def ScheduleEvent_def ev(1))
  have "transit s1 = transit s" by (simp add: transit_def s1(3))
  moreover have "mset (concat (map sent_msg (events s))) \<subseteq># add_mset m (mset (concat (map scheduled_msg (events s))))"
    using sub by (metis add_mset_add_single mset_subset_eq_add_left subset_mset.order_trans)
  ultimately have "network_ok c ?s"
    using s1(2) m tr ev by (simp add: network_ok_def network_legal_def ScheduleEvent_def)
  moreover have "Network_RecvMsg c m k s = Some ?s"
    using ij s1(1) ev by (auto simp: Network_RecvMsg_def DebugAssert_def Let_def ScheduleEvent_def)
  ultimately show ?thesis using tr by simp
qed

lemma DeliverMsg_wp:
  assumes ok: "network_ok c s" and m: "m \<in># transit s"
  shows "returns (DeliverMsg c m s) (\<lambda>s'. network_ok c s' \<and> transit s = add_mset m (transit s') \<and>
    (\<exists>j. nodeToConnection c (destinationNode m) = Some j \<and> events s' = events s @ [Sent j m 0]))"
proof -
  from ok m have "routed c m" by (simp add: network_ok_def)
  then obtain i j where ij: "nodeToConnection c (sourceNode m) = Some i" "nodeToConnection c (destinationNode m) = Some j"
    by (auto simp: routed_def)
  have "transit s \<noteq> {#}" using m by auto
  then have n: "loaded (delayCalc c) \<Longrightarrow> 0 < packetsInTransit s" using ok by (simp add: network_ok_def nonempty_has_size)
  define s1 where "s1 = (if loaded (delayCalc c) then s\<lparr>packetsInTransit := packetsInTransit s - 1\<rparr> else s)"
  have d: "OnMsgDelivered c s = Some s1"
    using n by (cases "delayCalc c") (simp_all add: OnMsgDelivered_def s1_def DebugAssert_def)
  let ?A = "mset (concat (map scheduled_msg (events s)))" and ?B = "mset (concat (map sent_msg (events s)))"
  have sub: "?B \<subseteq># ?A" using ok by (simp add: network_ok_def)
  have m': "m \<in># ?A - ?B" using m by (simp add: transit_def)
  then have sub': "add_mset m ?B \<subseteq># ?A" using sub
    by (metis add_mset_add_single mset_subset_eq_single subset_mset.le_diff_conv2 union_commute)
  let ?s = "SendMsg j m 0 s1"
  have ev: "events ?s = events s @ [Sent j m 0]" by (simp add: SendMsg_def s1_def)
  have tr: "transit ?s = transit s - {#m#}" by (simp add: transit_def ev)
  then have tr': "transit s = add_mset m (transit ?s)" using m by simp
  have "packetsInTransit ?s = (if loaded (delayCalc c) then size (transit ?s) else 0)"
  proof -
    have sz: "size (transit ?s) = size (transit s) - 1" unfolding tr using m by (simp add: size_Diff_singleton)
    have p: "packetsInTransit ?s = (if loaded (delayCalc c) then packetsInTransit s - 1 else packetsInTransit s)"
      by (simp add: SendMsg_def s1_def)
    show ?thesis unfolding p sz using ok by (simp add: network_ok_def)
  qed
  moreover have "\<forall>m\<in>#transit ?s. routed c m"
    using ok unfolding network_ok_def tr by (auto dest: in_diffD)
  moreover have "mostRecentMsg ?s = mostRecentMsg s" by (simp add: SendMsg_def s1_def)
  ultimately have "network_ok c ?s" using ok sub' by (simp add: network_ok_def ev)
  moreover have "DeliverMsg c m s = Some ?s" using ij d by (simp add: DeliverMsg_def)
  ultimately show ?thesis using tr' ev ij(2) by simp
qed

lemma network_init_ok: "network_init c s \<Longrightarrow> network_ok c s"
  by (auto simp: network_init_def network_ok_def Network_Initialize_def transit_def)

interpretation net: device "network_init c" "network_event c" "network_legal c" "Network_RecvMsg c" "network_ok c" for c
proof
  show "network_ok c s'" if ok: "network_ok c s" and ev: "network_event c s s'" for s s'
    using ev unfolding network_event_def
  proof (elim disjE bexE exE)
    fix m assume "m \<in># transit s" "DeliverMsg c m s = Some s'"
    with DeliverMsg_wp[OF ok, of m] show ?thesis by simp
  next
    fix n assume "s' = s\<lparr>currentTick := n\<rparr>"
    with ok show ?thesis by (simp add: network_ok_def transit_def)
  qed
  show "returns (Network_RecvMsg c m k s) (network_ok c)" if "network_ok c s" "network_legal c m k s" for m k s
    using Network_RecvMsg_wp[OF that] by (auto elim: returns_mono)
qed (rule network_init_ok)

abbreviation network_reach :: "network_config \<Rightarrow> network \<Rightarrow> bool" where
  "network_reach c \<equiv> device_reach (network_init c) (network_event c) (network_legal c) (Network_RecvMsg c)"

section \<open>Properties\<close>

definition demo_net :: network_config where
  "demo_net = \<lparr>nodeToConnection = [0 \<mapsto> 0, 1 \<mapsto> 1], nodeCount = 2,
     delayCalc = RandomLoadedCalculator 10 11 0 True (\<lambda>n. n), draws = (\<lambda>n. if n = 0 then 10 else 0)\<rparr>"

definition demo_net_start :: network where
  "demo_net_start = Network_Initialize demo_net \<lparr>currentTick = 0, currentMsgStamp = 1, events = []\<rparr>"

lemma demo_net_reach: "network_reach demo_net demo_net_start"
proof (rule device_init)
  show "network_init demo_net demo_net_start" unfolding network_init_def demo_net_start_def
    by (intro conjI exI[of _ "\<lparr>currentTick = 0, currentMsgStamp = 1, events = []\<rparr>"])
      (auto simp: network_config_ok_def demo_net_def split: if_splits)
qed

text \<open>
  C27: In every state the network can reach it accepts every message between known nodes, which is then
  in transit once more; and every message in transit can be delivered, which takes it out of transit and sends
  it, and only it, to the connection of its destination. The counter of packets never goes below zero.
\<close>

theorem network_delivers:
  assumes "network_reach c s"
  shows "(network_legal c m k s \<longrightarrow> returns (Network_RecvMsg c m k s) (\<lambda>s'. transit s' = add_mset m (transit s))) \<and>
    (m \<in># transit s \<longrightarrow> returns (DeliverMsg c m s) (\<lambda>s'. transit s = add_mset m (transit s') \<and>
      (\<exists>j. nodeToConnection c (destinationNode m) = Some j \<and> events s' = events s @ [Sent j m 0]))) \<and>
    (loaded (delayCalc c) \<longrightarrow> packetsInTransit s = size (transit s))"
proof -
  have ok: "network_ok c s" by (rule net.reach_inv[OF assms])
  show ?thesis using Network_RecvMsg_wp[OF ok, of m k] DeliverMsg_wp[OF ok, of m] ok
    by (auto simp: network_ok_def elim!: returns_mono)
qed

theorem network_delivers_witness:
  "returns (Network_RecvMsg demo_net (NetworkMsg 3 0 0 1 False (InvalidateMsg 2 0 64 32)) 0 demo_net_start)
    (\<lambda>s'. transit s' = add_mset (NetworkMsg 3 0 0 1 False (InvalidateMsg 2 0 64 32)) (transit demo_net_start))"
  using network_delivers[OF demo_net_reach, of "NetworkMsg 3 0 0 1 False (InvalidateMsg 2 0 64 32)" 0]
  by (simp add: network_legal_def routed_def demo_net_def)

text \<open>
  With \<open>enforceInOrder\<close> the calculators still let a message overtake the one before it: when the
  message would arrive before the last one, its delay is set so that it arrives at the time of the
  last one less its own base delay, plus the time per byte.
\<close>

theorem enforced_order_overtaken:
  assumes "fromNode < length recent" and "toNode < length (recent ! fromNode)"
    and "time + dtBase < recent ! fromNode ! toNode" and "dtPacket < dtBase"
  shows "returns (in_order True dtBase dtPacket fromNode toNode time recent) (\<lambda>(d, _).
    time + d = recent ! fromNode ! toNode - dtBase + dtPacket \<and> time + d < recent ! fromNode ! toNode)"
  using assms by (simp add: in_order_def DebugAssert_def Let_def)

theorem enforced_order_overtaken_witness:
  "returns (Network_RecvMsg (demo_net\<lparr>delayCalc := RandomCalculator 10 11 0 True\<rparr>) (NetworkMsg 3 0 0 1 False (InvalidateMsg 2 0 64 32)) 0 demo_net_start)
    (\<lambda>s. events s = [Scheduled (CB_DeliverMsg (NetworkMsg 3 0 0 1 False (InvalidateMsg 2 0 64 32))) 20] \<and>
      returns (in_order True 10 0 0 1 (currentTick s) (mostRecentMsg s)) (\<lambda>(d, _). currentTick s + d < 20))"
proof -
  have "returns (in_order True 10 0 0 1 0 [[0, 20], [0, 0]]) (\<lambda>(d, _). 0 + d < 20)"
    by (rule returns_mono[OF enforced_order_overtaken]) auto
  then show ?thesis
    by (simp add: Network_RecvMsg_def CalcTime_def demo_net_def demo_net_start_def Network_Initialize_def DebugAssert_def
        OnMsgSend_def ScheduleEvent_def in_order_def Let_def numeral_2_eq_2)
qed

text \<open>
  C26: A request for the memory that comes from a node through the network, is handed to the memory and
  answered by it, goes back to that node; afterwards the interface remembers the same sources as before.
\<close>

theorem memory_roundtrip:
  assumes "is_network n" and "destinationNode n = node" and "is_read (payloadMsg n) \<or> is_write (payloadMsg n)"
    and "sourceTable s (msgID (payloadMsg n)) = None"
  shows "returns (NMI_RecvMsg node n NetworkConnection s) (\<lambda>s1.
    returns (TestMemory_RecvMsg mc (payloadMsg n) 0 mem) (\<lambda>mem'. \<exists>r d.
      Sent 0 r d \<in> set (drop (length (events mem)) (events mem')) \<and>
      returns (NMI_RecvMsg node r MemoryConnection s1) (\<lambda>s2. sourceTable s2 = sourceTable s \<and>
        events s2 = events s @ [Sent MemoryConnection (payloadMsg n) 0, Disposed (msgID n),
          Sent NetworkConnection (NetworkMsg (currentMsgStamp s) (generatingPC (payloadMsg n)) node (sourceNode n) False r) 0])))"
proof (cases "payloadMsg n")
  case (ReadMsg i pc a sz excl has dl cb)
  with assms show ?thesis
    by (auto simp: NMI_RecvMsg_def Let_def CreateMsg_def SignalComplete_def reply_to_def SendMsg_def DisposeMsg_def DebugAssert_def fun_upd_idem)
next
  case (WriteMsg i pc a sz cb)
  with assms show ?thesis
    by (auto simp: NMI_RecvMsg_def Let_def CreateMsg_def SignalComplete_def reply_to_def SendMsg_def DisposeMsg_def DebugAssert_def fun_upd_idem)
qed (use assms in simp_all)

theorem memory_roundtrip_witness:
  "returns (NMI_RecvMsg 4 (NetworkMsg 8 0 2 4 False (ReadMsg 7 0 64 32 True False False False)) NetworkConnection
      (NMI_Initialize \<lparr>currentTick = 0, currentMsgStamp = 1, events = []\<rparr>)) (\<lambda>s1.
    returns (TestMemory_RecvMsg \<lparr>readTime = 5, writeTime = 5\<rparr> (ReadMsg 7 0 64 32 True False False False) 0
      (TestMemory_Initialize \<lparr>currentTick = 0, currentMsgStamp = 1, events = []\<rparr>)) (\<lambda>mem'. \<exists>r d. Sent 0 r d \<in> set (events mem') \<and>
      returns (NMI_RecvMsg 4 r MemoryConnection s1) (\<lambda>s2. \<exists>n. last (events s2) = Sent NetworkConnection n 0 \<and> destinationNode n = 2)))"
proof -
  let ?em = "\<lparr>currentTick = 0, currentMsgStamp = 1, events = []\<rparr>"
  let ?n = "NetworkMsg 8 0 2 4 False (ReadMsg 7 0 64 32 True False False False)"
  from memory_roundtrip[of ?n 4 "NMI_Initialize ?em" "\<lparr>readTime = 5, writeTime = 5\<rparr>" "TestMemory_Initialize ?em"]
  show ?thesis
    by (fastforce simp: NMI_Initialize_def TestMemory_Initialize_def elim!: returns_mono)
qed

end
