(* ===== verification/Directory.thy ===== *)
theory Directory
  imports MemMessages
begin

text \<open>
  The directory of a node (\<^verbatim>\<open>MemSys/Devices/Directory.cpp\<close>), handler by handler. A node asks the home
  directory of an address for the block (\<open>directoryLookup\<close>); the home directory fetches it from the
  owner, a sharer or the memory, records who holds it, and grants it. \<open>None\<close> is a failed assertion.
\<close>

section \<open>State\<close>

definition InvalidNodeID :: int where
  "InvalidNodeID = -2"

record HashedPageCalculator =
  pageSize :: nat
  nodeSet :: "int list"

text \<open>
  The order in which the hash containers enumerate nodes and pending reads is up to them:
  \<open>order_nodes\<close> and \<open>order_reads\<close> rearrange a list after an insertion.
\<close>

record LookupData =
  ld_msg :: msg
  ld_source :: int

record BlockData =
  sharers :: "int list"
  owner :: int

record directory_config =
  localSendTime :: nat
  remoteSendTime :: nat
  lookupTime :: nat
  satisfyTime :: nat
  lookupRetryTime :: nat
  nodeID :: int
  directoryNodeCalc :: HashedPageCalculator
  memoryNodeCalc :: HashedPageCalculator
  order_nodes :: "int list \<Rightarrow> int list"
  order_reads :: "LookupData list \<Rightarrow> LookupData list"

datatype directory_counter = DirectoryRequests | DirectoryResponses | LocalEvictions | LocalInvalidateResponses
  | LocalReads | LocalReadResponses | LocalWrites | RemoteEvictions | RemoteEvictionResponses | RemoteInvalidates
  | RemoteInvalidateResponses | RemoteReads | RemoteReadResponses | RemoteWrites | RemoteWriteResponses | Messages

record directory = "connection event_manager" +
  received :: "directory_counter \<Rightarrow> nat"
  pendingLocalReads :: "nat \<Rightarrow> msg option"
  pendingRemoteReads :: "nat \<Rightarrow> LookupData option"
  pendingRemoteInvalidates :: "nat \<Rightarrow> LookupData option"
  pendingDirectorySharedReads :: "nat \<Rightarrow> LookupData list"
  pendingDirectoryExclusiveReads :: "nat \<Rightarrow> LookupData option"
  pendingEviction :: "nat set"
  directoryData :: "nat \<Rightarrow> BlockData option"

definition Directory_Initialize :: "connection event_manager \<Rightarrow> directory" where
  "Directory_Initialize em = \<lparr>currentTick = currentTick em, currentMsgStamp = currentMsgStamp em, events = events em,
     received = (\<lambda>_. 0), pendingLocalReads = (\<lambda>_. None), pendingRemoteReads = (\<lambda>_. None),
     pendingRemoteInvalidates = (\<lambda>_. None), pendingDirectorySharedReads = (\<lambda>_. []),
     pendingDirectoryExclusiveReads = (\<lambda>_. None), pendingEviction = {}, directoryData = (\<lambda>_. None)\<rparr>"

definition counted :: "directory_counter \<Rightarrow> directory \<Rightarrow> directory" where
  "counted k s = s\<lparr>received := (received s)(k := received s k + 1)\<rparr>"

text \<open>The quotient is cast to a signed 32-bit number, whose remainder has its sign. A division by zero stops the program.\<close>

definition CalcNodeID :: "HashedPageCalculator \<Rightarrow> nat \<Rightarrow> int option" where
  "CalcNodeID h a = do {
     _ \<leftarrow> (if pageSize h = 0 then None else Some ());
     let q = (int (a div pageSize h) + 2 ^ 31) mod 2 ^ 32 - 2 ^ 31;
     let n = int (length (nodeSet h));
     let index = (if 0 \<le> q then q mod n else - ((- q) mod n));
     DebugAssert (0 \<le> index \<and> index < n);
     Some (nodeSet h ! nat index) }"

text \<open>A message in a network message to another node.\<close>

definition send_net :: "directory_config \<Rightarrow> nat \<Rightarrow> int \<Rightarrow> msg \<Rightarrow> nat \<Rightarrow> directory \<Rightarrow> directory" where
  "send_net c pc dest payload delay s =
     send RemoteConnection (\<lambda>k. NetworkMsg k pc (nodeID c) dest False payload) delay s"

definition replicate_msg :: "msg \<Rightarrow> directory \<Rightarrow> msg \<times> directory" where
  "replicate_msg m s = CreateMsg (\<lambda>_. m) s"

section \<open>Sharers and owner\<close>

definition EraseDirectoryShare :: "nat \<Rightarrow> int \<Rightarrow> directory \<Rightarrow> directory option" where
  "EraseDirectoryShare a n s = do {
     b \<leftarrow> directoryData s a;
     if owner b = n then do {
       DebugAssert (n \<notin> set (sharers b));
       Some (s\<lparr>directoryData := (directoryData s)(a := Some (b\<lparr>owner := InvalidNodeID\<rparr>))\<rparr>) }
     else Some (s\<lparr>directoryData := (directoryData s)(a := Some (b\<lparr>sharers := removeAll n (sharers b)\<rparr>))\<rparr>) }"

definition AddDirectoryShare :: "directory_config \<Rightarrow> nat \<Rightarrow> int \<Rightarrow> bool \<Rightarrow> directory \<Rightarrow> directory option" where
  "AddDirectoryShare c a n exclusive s = do {
     b \<leftarrow> directoryData s a;
     DebugAssert (\<not> exclusive \<or> (sharers b = [] \<and> (owner b = n \<or> owner b = InvalidNodeID)));
     Some (if owner b = n \<or> owner b = InvalidNodeID
       then s\<lparr>directoryData := (directoryData s)(a := Some (b\<lparr>owner := n\<rparr>))\<rparr>
       else if n \<notin> set (sharers b)
       then s\<lparr>directoryData := (directoryData s)(a := Some (b\<lparr>sharers := order_nodes c (n # sharers b)\<rparr>))\<rparr>
       else s) }"

text \<open>What an eviction and an invalidation do to the record of a block.\<close>

definition drop_holder :: "int \<Rightarrow> BlockData \<Rightarrow> BlockData" where
  "drop_holder n b = (if owner b = n then b\<lparr>owner := InvalidNodeID\<rparr> else b\<lparr>sharers := removeAll n (sharers b)\<rparr>)"

text \<open>Data that come back are written to the memory.\<close>

definition write_back :: "directory_config \<Rightarrow> msg \<Rightarrow> directory \<Rightarrow> directory option" where
  "write_back c m s = (if blockAttached m then do {
     let (wm, s) = CreateMsg (\<lambda>k. WriteMsg k (generatingPC m) (addr m) (msize m) False) s;
     memoryNode \<leftarrow> CalcNodeID (memoryNodeCalc c) (addr m);
     Some (send_net c (generatingPC m) memoryNode wm (remoteSendTime c) s) }
   else Some s)"

section \<open>Requests of other nodes\<close>

definition Directory_OnRemoteRead :: "directory_config \<Rightarrow> msg \<Rightarrow> int \<Rightarrow> directory \<Rightarrow> directory option" where
  "Directory_OnRemoteRead c m src s = do {
     let s = counted RemoteReads s;
     DebugAssert (\<not> directoryLookup m);
     DebugAssert (pendingRemoteReads s (msgID m) = None);
     let s = s\<lparr>pendingRemoteReads := (pendingRemoteReads s)(msgID m := Some \<lparr>ld_msg = m, ld_source = src\<rparr>)\<rparr>;
     Some (send_replica LocalConnection m (localSendTime c) s) }"

text \<open>The read that fetches the block: no lookup, no callback, and the reader does not have the block.\<close>

fun fetch_msg :: "msg \<Rightarrow> msg" where
  "fetch_msg (ReadMsg n pc a sz excl has dl cb) = ReadMsg n pc a sz excl False False False"
| "fetch_msg m = m"

definition block_data :: "directory \<Rightarrow> nat \<Rightarrow> BlockData" where
  "block_data s a = (case directoryData s a of None \<Rightarrow> \<lparr>sharers = [], owner = InvalidNodeID\<rparr> | Some b \<Rightarrow> b)"

definition PerformDirectoryFetch :: "directory_config \<Rightarrow> nat \<Rightarrow> directory \<Rightarrow> directory option" where
  "PerformDirectoryFetch c a s = do {
     DebugAssert (pendingDirectorySharedReads s a \<noteq> [] \<or> pendingDirectoryExclusiveReads s a \<noteq> None);
     DebugAssert (pendingDirectorySharedReads s a = [] \<or> pendingDirectoryExclusiveReads s a = None);
     let m0 = (if pendingDirectorySharedReads s a \<noteq> [] then ld_msg (hd (pendingDirectorySharedReads s a))
       else ld_msg (the (pendingDirectoryExclusiveReads s a)));
     let (m, s) = replicate_msg m0 s;
     let m = fetch_msg m;
     let b = block_data s (addr m);
     let s = s\<lparr>directoryData := (directoryData s)(addr m := Some b)\<rparr>;
     target \<leftarrow> (if owner b \<noteq> InvalidNodeID then Some (owner b)
       else if sharers b \<noteq> [] then Some (hd (sharers b))
       else CalcNodeID (memoryNodeCalc c) a);
     if target = nodeID c then Directory_OnRemoteRead c m (nodeID c) s
     else Some (send_net c (generatingPC m) target m (lookupTime c + remoteSendTime c) s) }"

definition Directory_OnRemoteWrite :: "directory_config \<Rightarrow> msg \<Rightarrow> int \<Rightarrow> directory \<Rightarrow> directory option" where
  "Directory_OnRemoteWrite c m src s = do {
     let s = counted RemoteWrites s;
     home \<leftarrow> CalcNodeID (directoryNodeCalc c) (addr m);
     DebugAssert (nodeID c = home);
     memoryNode \<leftarrow> CalcNodeID (memoryNodeCalc c) (addr m);
     if src \<noteq> nodeID c then do {
       let (wrm, s) = CreateMsg (\<lambda>k. WriteResponseMsg k (generatingPC m) (addr m) (msize m) (msgID m)) s;
       let s = send_net c (generatingPC m) memoryNode m (remoteSendTime c) s;
       Some (send_net c (generatingPC m) src wrm (remoteSendTime c) s) }
     else Some s }"

definition Directory_OnRemoteWriteResponse :: "directory_config \<Rightarrow> msg \<Rightarrow> int \<Rightarrow> directory \<Rightarrow> directory option" where
  "Directory_OnRemoteWriteResponse c m src s = Some (DisposeMsg m (counted RemoteWriteResponses s))"

definition Directory_OnRemoteEviction :: "directory_config \<Rightarrow> msg \<Rightarrow> int \<Rightarrow> directory \<Rightarrow> directory option" where
  "Directory_OnRemoteEviction c m src s = do {
     let s = counted RemoteEvictions s;
     b \<leftarrow> directoryData s (addr m);
     let s = s\<lparr>directoryData := (directoryData s)(addr m := Some (drop_holder src b))\<rparr>;
     s \<leftarrow> (if src = nodeID c then do {
         DebugAssert (addr m \<in> pendingEviction s);
         Some (s\<lparr>pendingEviction := pendingEviction s - {addr m}\<rparr>) }
       else do {
         let (rm, s) = CreateMsg (\<lambda>k. EvictionResponseMsg k (generatingPC m) (addr m) (msize m) (msgID m)) s;
         Some (send_net c (generatingPC m) src rm (remoteSendTime c) s) });
     write_back c m s }"

definition Directory_OnRemoteEvictionResponse :: "directory_config \<Rightarrow> msg \<Rightarrow> int \<Rightarrow> directory \<Rightarrow> directory option" where
  "Directory_OnRemoteEvictionResponse c m src s = do {
     let s = counted RemoteEvictionResponses s;
     DebugAssert (addr m \<in> pendingEviction s);
     let s = s\<lparr>pendingEviction := pendingEviction s - {addr m}\<rparr>;
     Some (SendMsg LocalConnection m (localSendTime c) s) }"

definition Directory_OnRemoteInvalidate :: "directory_config \<Rightarrow> msg \<Rightarrow> int \<Rightarrow> directory \<Rightarrow> directory option" where
  "Directory_OnRemoteInvalidate c m src s = do {
     let s = counted RemoteInvalidates s;
     DebugAssert (pendingRemoteInvalidates s (addr m) = None);
     let s = s\<lparr>pendingRemoteInvalidates := (pendingRemoteInvalidates s)(addr m := Some \<lparr>ld_msg = m, ld_source = src\<rparr>)\<rparr>;
     Some (send_replica LocalConnection m (localSendTime c) s) }"

section \<open>Requests of the local side\<close>

text \<open>The read that asks the home directory.\<close>

fun lookup_msg :: "msg \<Rightarrow> msg" where
  "lookup_msg (ReadMsg n pc a sz excl has dl cb) = ReadMsg n pc a sz excl has True False"
| "lookup_msg m = m"

fun with_lookup :: "bool \<Rightarrow> msg \<Rightarrow> msg" where
  "with_lookup b (ReadResponseMsg n pc a sz sat att dl excl dirt sol) = ReadResponseMsg n pc a sz sat att b excl dirt sol"
| "with_lookup b m = m"

definition Directory_OnLocalRead :: "directory_config \<Rightarrow> msg \<Rightarrow> directory \<Rightarrow> directory option" where
  "Directory_OnLocalRead c m s = do {
     let s = counted LocalReads s;
     remoteNode \<leftarrow> CalcNodeID (directoryNodeCalc c) (addr m);
     DebugAssert (pendingLocalReads s (msgID m) = None);
     let s = s\<lparr>pendingLocalReads := (pendingLocalReads s)(msgID m := Some m)\<rparr>;
     let (forward, s) = replicate_msg m s;
     let forward = lookup_msg forward;
     Some (if remoteNode = nodeID c
       then ScheduleEvent (CB_OnDirectoryBlockRequest forward (nodeID c)) (localSendTime c) s
       else send_net c (generatingPC m) remoteNode forward (remoteSendTime c) s) }"

definition Directory_OnLocalReadResponse :: "directory_config \<Rightarrow> msg \<Rightarrow> directory \<Rightarrow> directory option" where
  "Directory_OnLocalReadResponse c m s = do {
     let s = counted LocalReadResponses s;
     d \<leftarrow> pendingRemoteReads s (solicitingMessage m);
     DebugAssert (msgID (ld_msg d) = solicitingMessage m);
     let (nm, s) = CreateMsg (\<lambda>k. NetworkMsg k (generatingPC (ld_msg d)) (nodeID c) (ld_source d) False (with_lookup False m)) s;
     let (_, s) = replicate_msg m s;
     let s = DisposeMsg m (DisposeMsg (ld_msg d) s);
     let s = s\<lparr>pendingRemoteReads := (pendingRemoteReads s)(msgID (ld_msg d) := None)\<rparr>;
     Some (SendMsg RemoteConnection nm (remoteSendTime c) s) }"

definition Directory_OnLocalWrite :: "directory_config \<Rightarrow> msg \<Rightarrow> directory \<Rightarrow> directory option" where
  "Directory_OnLocalWrite c m s = do {
     let s = counted LocalWrites s;
     home \<leftarrow> CalcNodeID (directoryNodeCalc c) (addr m);
     let s = send LocalConnection (\<lambda>k. WriteResponseMsg k (generatingPC m) (addr m) (msize m) (msgID m)) (localSendTime c) s;
     if home = nodeID c then Directory_OnRemoteWrite c m (nodeID c) s
     else Some (send_net c (generatingPC m) home m (remoteSendTime c) s) }"

definition Directory_OnLocalEviction :: "directory_config \<Rightarrow> msg \<Rightarrow> directory \<Rightarrow> directory option" where
  "Directory_OnLocalEviction c m s = do {
     let s = counted LocalEvictions s;
     DebugAssert (addr m \<notin> pendingEviction s);
     let s = s\<lparr>pendingEviction := insert (addr m) (pendingEviction s)\<rparr>;
     let s = send LocalConnection (\<lambda>k. EvictionResponseMsg k (generatingPC m) (addr m) (msize m) (msgID m)) (localSendTime c) s;
     home \<leftarrow> CalcNodeID (directoryNodeCalc c) (addr m);
     if home = nodeID c then Directory_OnRemoteEviction c m (nodeID c) s
     else Some (send_net c (generatingPC m) home m (remoteSendTime c) s) }"

section \<open>Answers to the directory\<close>

text \<open>The answer to a read of this node.\<close>

definition OnDirectoryBlockResponse :: "directory_config \<Rightarrow> msg \<Rightarrow> directory \<Rightarrow> directory option" where
  "OnDirectoryBlockResponse c m s = do {
     let s = counted DirectoryResponses s;
     ref \<leftarrow> pendingLocalReads s (solicitingMessage m);
     if \<not> satisfied m then
       Directory_OnLocalRead c ref (s\<lparr>pendingLocalReads := (pendingLocalReads s)(solicitingMessage m := None)\<rparr>)
     else do {
       let (r, s) = CreateMsg (\<lambda>k. ReadResponseMsg k (generatingPC ref) (addr ref) (msize ref) True (blockAttached m) False
         (exclusiveOwnership m) False (msgID ref)) s;
       let s = DisposeMsg ref s;
       let s = s\<lparr>pendingLocalReads := (pendingLocalReads s)(solicitingMessage m := None)\<rparr>;
       Some (SendMsg LocalConnection r (satisfyTime c + localSendTime c) (DisposeMsg m s)) } }"

text \<open>
  The loop over the pending shared reads of a block. The comparison
  \<^verbatim>\<open>equal_range(addr).first++ == equal_range(addr).second\<close> compares the two ends before the
  increment: it holds if there is no pending read.
\<close>

fun answer_shared :: "directory_config \<Rightarrow> msg \<Rightarrow> LookupData list \<Rightarrow> directory \<Rightarrow> directory option" where
  "answer_shared c m [] s = Some s"
| "answer_shared c m (d # ds) s = do {
     let only = (pendingDirectorySharedReads s (addr m) = []);
     let (r, s) = CreateMsg (\<lambda>k. ReadResponseMsg k (generatingPC (ld_msg d)) (addr m) (msize m) True True True only False
       (msgID (ld_msg d))) s;
     s \<leftarrow> AddDirectoryShare c (addr m) (ld_source d) False s;
     s \<leftarrow> (if ld_source d = nodeID c then OnDirectoryBlockResponse c r s
       else Some (send_net c (generatingPC (ld_msg d)) (ld_source d) r (remoteSendTime c + satisfyTime c) s));
     answer_shared c m ds (DisposeMsg (ld_msg d) s) }"

fun invalidate_sharers :: "directory_config \<Rightarrow> msg \<Rightarrow> int list \<Rightarrow> directory \<Rightarrow> directory option" where
  "invalidate_sharers c m [] s = Some s"
| "invalidate_sharers c m (n # ns) s = do {
     let (inv, s) = CreateMsg (\<lambda>k. InvalidateMsg k (generatingPC m) (addr m) (msize m)) s;
     s \<leftarrow> (if n \<noteq> nodeID c then Some (send_net c (generatingPC m) n inv (lookupTime c + remoteSendTime c) s)
       else Directory_OnRemoteInvalidate c inv (nodeID c) s);
     invalidate_sharers c m ns s }"

definition end_exclusive :: "directory_config \<Rightarrow> nat \<Rightarrow> LookupData \<Rightarrow> directory \<Rightarrow> directory option" where
  "end_exclusive c a e s = do {
     s \<leftarrow> AddDirectoryShare c a (ld_source e) True s;
     let s = DisposeMsg (ld_msg e) s;
     Some (s\<lparr>pendingDirectoryExclusiveReads := (pendingDirectoryExclusiveReads s)(a := None)\<rparr>) }"

text \<open>The answer of the last holder of a block that a node wants for itself.\<close>

definition answer_exclusive :: "directory_config \<Rightarrow> msg \<Rightarrow> int \<Rightarrow> directory \<Rightarrow> directory option" where
  "answer_exclusive c m src s = (let a = addr m in do {
     e \<leftarrow> pendingDirectoryExclusiveReads s a;
     DebugAssert (exclusiveOwnership m);
     DebugAssert (blockAttached m);
     b \<leftarrow> directoryData s a;
     DebugAssert (owner b = InvalidNodeID \<or> owner b = src);
     if sharers b = [] then do {
       let (response, s) = replicate_msg m s;
       let response = with_lookup True response;
       let s = (if ld_source e \<noteq> nodeID c
         then send_net c (generatingPC m) (ld_source e) response (lookupTime c + remoteSendTime c) s
         else SendMsg LocalConnection response (lookupTime c + localSendTime c) s);
       end_exclusive c a e s }
     else invalidate_sharers c m (sharers b) s })"

definition Directory_OnRemoteReadResponse :: "directory_config \<Rightarrow> msg \<Rightarrow> int \<Rightarrow> directory \<Rightarrow> directory option" where
  "Directory_OnRemoteReadResponse c m src s = (let a = addr m in do {
     let s = counted RemoteReadResponses s;
     DebugAssert (\<not> directoryLookup m);
     DebugAssert (pendingDirectorySharedReads s a \<noteq> [] \<or> pendingDirectoryExclusiveReads s a \<noteq> None);
     DebugAssert (pendingDirectorySharedReads s a = [] \<or> pendingDirectoryExclusiveReads s a = None);
     DebugAssert (directoryData s a \<noteq> None);
     if satisfied m then do {
       s \<leftarrow> (if exclusiveOwnership m then EraseDirectoryShare a src s else Some s);
       s \<leftarrow> (if pendingDirectorySharedReads s a \<noteq> [] then do {
           s \<leftarrow> answer_shared c m (pendingDirectorySharedReads s a) s;
           Some (s\<lparr>pendingDirectorySharedReads := (pendingDirectorySharedReads s)(a := [])\<rparr>) }
         else answer_exclusive c m src s);
       Some (DisposeMsg m s) }
     else do {
       s \<leftarrow> EraseDirectoryShare a src s;
       b \<leftarrow> directoryData s a;
       DebugAssert (owner b = InvalidNodeID);
       s \<leftarrow> PerformDirectoryFetch c a s;
       Some (DisposeMsg m s) } })"

text \<open>Whether the requester of an exclusive read is the only holder left.\<close>

definition invalidations_done :: "int \<Rightarrow> BlockData \<Rightarrow> bool" where
  "invalidations_done n b \<longleftrightarrow> (owner b = InvalidNodeID \<and> sharers b = []) \<or> (owner b = n \<and> sharers b = []) \<or>
     (owner b = InvalidNodeID \<and> length (sharers b) = 1 \<and> n \<in> set (sharers b))"

text \<open>The grant of an exclusive read, once the record of the block \<open>b\<close> says that the invalidations are done.\<close>

definition end_invalidations :: "directory_config \<Rightarrow> msg \<Rightarrow> BlockData \<Rightarrow> directory \<Rightarrow> directory option" where
  "end_invalidations c m b s = (case pendingDirectoryExclusiveReads s (addr m) of
     None \<Rightarrow> Some s
   | Some e \<Rightarrow> if invalidations_done (ld_source e) b then do {
       let s = s\<lparr>directoryData := (directoryData s)(addr m := Some \<lparr>sharers = [], owner = ld_source e\<rparr>)\<rparr>;
       let (rm, s) = CreateMsg (\<lambda>k. ReadResponseMsg k (generatingPC (ld_msg e)) (addr m) (msize m) True True True True False
         (msgID (ld_msg e))) s;
       let s = (if ld_source e = nodeID c then SendMsg LocalConnection rm (localSendTime c + satisfyTime c) s
         else send_net c (generatingPC (ld_msg e)) (ld_source e) rm (remoteSendTime c + satisfyTime c) s);
       end_exclusive c (addr m) e s }
     else Some s)"

definition Directory_OnRemoteInvalidateResponse :: "directory_config \<Rightarrow> msg \<Rightarrow> int \<Rightarrow> directory \<Rightarrow> directory option" where
  "Directory_OnRemoteInvalidateResponse c m src s = (let a = addr m in do {
     let s = counted RemoteInvalidateResponses s;
     b \<leftarrow> directoryData s a;
     DebugAssert (\<not> blockAttached m \<or> owner b = src \<or> owner b = InvalidNodeID);
     DebugAssert (blockAttached m \<or> src \<in> set (sharers b) \<or> owner b = src \<or> owner b = InvalidNodeID);
     let b = drop_holder src b;
     let s = s\<lparr>directoryData := (directoryData s)(a := Some b)\<rparr>;
     s \<leftarrow> write_back c m s;
     s \<leftarrow> end_invalidations c m b s;
     Some (DisposeMsg m s) })"

definition Directory_OnLocalInvalidateResponse :: "directory_config \<Rightarrow> msg \<Rightarrow> directory \<Rightarrow> directory option" where
  "Directory_OnLocalInvalidateResponse c m s = do {
     let s = counted LocalInvalidateResponses s;
     d \<leftarrow> pendingRemoteInvalidates s (addr m);
     DebugAssert (msgID (ld_msg d) = solicitingMessage m);
     s \<leftarrow> (if nodeID c \<noteq> ld_source d
       then Some (send_net c (generatingPC (ld_msg d)) (ld_source d) m (remoteSendTime c) s)
       else Directory_OnRemoteInvalidateResponse c m (nodeID c) s);
     let s = DisposeMsg (ld_msg d) s;
     Some (s\<lparr>pendingRemoteInvalidates := (pendingRemoteInvalidates s)(addr (ld_msg d) := None)\<rparr>) }"

text \<open>A node asks for a block.\<close>

definition OnDirectoryBlockRequest :: "directory_config \<Rightarrow> msg \<Rightarrow> int \<Rightarrow> directory \<Rightarrow> directory option" where
  "OnDirectoryBlockRequest c m src s = (let a = addr m in do {
     let s = counted DirectoryRequests s;
     if pendingDirectoryExclusiveReads s a \<noteq> None \<or> (requestingExclusive m \<and> pendingDirectorySharedReads s a \<noteq> []) then
       if src = nodeID c then Some (ScheduleEvent (CB_OnDirectoryBlockRequest m src) (lookupRetryTime c) s)
       else do {
         let (n, s) = CreateMsg (\<lambda>k. NetworkMsg k (generatingPC m) (nodeID c) src False
           (ReadResponseMsg (k + 1) (generatingPC m) a (msize m) False False True False False (msgID m))) s;
         let (_, s) = replicate_msg m s;
         let s = SendMsg RemoteConnection n (lookupTime c + remoteSendTime c) s;
         Some (DisposeMsg m s) }
     else do {
       let ld = \<lparr>ld_msg = m, ld_source = src\<rparr>;
       if requestingExclusive m then
         PerformDirectoryFetch c a (s\<lparr>pendingDirectoryExclusiveReads := (pendingDirectoryExclusiveReads s)(a := Some ld)\<rparr>)
       else do {
         let existingRequest = (pendingDirectorySharedReads s a \<noteq> []);
         let s = s\<lparr>pendingDirectorySharedReads := (pendingDirectorySharedReads s)
           (a := order_reads c (ld # pendingDirectorySharedReads s a))\<rparr>;
         if existingRequest then Some s else PerformDirectoryFetch c a s } } })"

section \<open>Dispatch\<close>

definition Directory_RecvMsg :: "directory_config \<Rightarrow> msg \<Rightarrow> connection \<Rightarrow> directory \<Rightarrow> directory option" where
  "Directory_RecvMsg c m k s =
     (let s = counted Messages s in
      case k of
        LocalConnection \<Rightarrow> (case m of
          ReadMsg _ _ _ _ _ _ _ _ \<Rightarrow> Directory_OnLocalRead c m s
        | ReadResponseMsg _ _ _ _ _ _ _ _ _ _ \<Rightarrow> Directory_OnLocalReadResponse c m s
        | WriteMsg _ _ _ _ _ \<Rightarrow> Directory_OnLocalWrite c m s
        | EvictionMsg _ _ _ _ _ \<Rightarrow> Directory_OnLocalEviction c m s
        | InvalidateResponseMsg _ _ _ _ _ _ \<Rightarrow> Directory_OnLocalInvalidateResponse c m s
        | _ \<Rightarrow> None)
      | RemoteConnection \<Rightarrow> (case m of
          NetworkMsg _ _ src dest _ p \<Rightarrow> do {
            DebugAssert (dest = nodeID c);
            let s = DisposeMsg m s;
            case p of
              ReadMsg _ _ _ _ _ _ dl _ \<Rightarrow> if dl then OnDirectoryBlockRequest c p src s else Directory_OnRemoteRead c p src s
            | ReadResponseMsg _ _ _ _ _ _ dl _ _ _ \<Rightarrow>
                if dl then OnDirectoryBlockResponse c p s else Directory_OnRemoteReadResponse c p src s
            | WriteResponseMsg _ _ _ _ _ \<Rightarrow> Directory_OnRemoteWriteResponse c p src s
            | EvictionMsg _ _ _ _ _ \<Rightarrow> Directory_OnRemoteEviction c p src s
            | EvictionResponseMsg _ _ _ _ _ \<Rightarrow> Directory_OnRemoteEvictionResponse c p src s
            | InvalidateMsg _ _ _ _ \<Rightarrow> Directory_OnRemoteInvalidate c p src s
            | InvalidateResponseMsg _ _ _ _ _ _ \<Rightarrow> Directory_OnRemoteInvalidateResponse c p src s
            | _ \<Rightarrow> None }
        | _ \<Rightarrow> None)
      | NoConnection \<Rightarrow> None)"

end
