(* ===== verification/DirectoryProps.thy ===== *)
theory DirectoryProps
  imports Directory "HOL-Library.Multiset"
begin

text \<open>
  What a directory promises: an invariant of its tables under any messages in any order, exclusive
  ownership granted only to a node that the records name as the only holder, the answers to a
  satisfied read; and what happens to writes.
\<close>

section \<open>Messages that the handlers emit\<close>

text \<open>A grant of exclusive ownership of a block to a node.\<close>

definition grants_exclusive :: "msg \<Rightarrow> bool" where
  "grants_exclusive m \<longleftrightarrow> is_read_response m \<and> satisfied m \<and> directoryLookup m \<and> exclusiveOwnership m"

fun grant_of :: "directory_config \<Rightarrow> connection event \<Rightarrow> (nat \<times> int) option" where
  "grant_of c (Sent RemoteConnection m d) = (if is_network m \<and> grants_exclusive (payloadMsg m)
     then Some (addr (payloadMsg m), destinationNode m) else None)"
| "grant_of c (Sent LocalConnection m d) = (if grants_exclusive m then Some (addr m, nodeID c) else None)"
| "grant_of c e = None"

text \<open>A call scheduled is a request of this node that asks for a block.\<close>

fun call_ok :: "directory_config \<Rightarrow> connection event \<Rightarrow> bool" where
  "call_ok c (Scheduled (CB_OnDirectoryBlockRequest m n) d) = (is_read m \<and> directoryLookup m \<and> n = nodeID c)"
| "call_ok c e = True"

definition quiet :: "directory_config \<Rightarrow> directory \<Rightarrow> directory \<Rightarrow> bool" where
  "quiet c s s' \<longleftrightarrow> (\<exists>es. events s' = events s @ es \<and> list_all (\<lambda>e. call_ok c e \<and> grant_of c e = None) es)"

lemma quietI: "events s' = events s @ es \<Longrightarrow> list_all (\<lambda>e. call_ok c e \<and> grant_of c e = None) es \<Longrightarrow> quiet c s s'"
  by (auto simp: quiet_def)

lemma quiet_refl [simp]: "quiet c s s"
  by (simp add: quiet_def)

lemma quiet_trans [trans]: "quiet c s s' \<Longrightarrow> quiet c s' s'' \<Longrightarrow> quiet c s s''"
  by (fastforce simp: quiet_def)

lemma grants_kind [simp]: "is_read m \<Longrightarrow> \<not> grants_exclusive m" "is_write m \<Longrightarrow> \<not> grants_exclusive m"
  "is_invalidate m \<Longrightarrow> \<not> grants_exclusive m" "is_eviction m \<Longrightarrow> \<not> grants_exclusive m"
  "is_network m \<Longrightarrow> \<not> grants_exclusive m" "\<not> is_read_response m \<Longrightarrow> \<not> grants_exclusive m"
  by (cases m; simp add: grants_exclusive_def)+

lemma with_lookup_False [simp]: "\<not> grants_exclusive (with_lookup False m)"
  by (cases m) (simp_all add: grants_exclusive_def)

lemma read_copies [simp]: "is_read (fetch_msg m) = is_read m" "is_read (lookup_msg m) = is_read m"
    "is_read m \<Longrightarrow> directoryLookup (lookup_msg m)" "is_read m \<Longrightarrow> \<not> directoryLookup (fetch_msg m)"
    "is_read m \<Longrightarrow> addr (fetch_msg m) = addr m" "is_read m \<Longrightarrow> msgID (fetch_msg m) = msgID m"
  by (cases m; simp)+

lemmas out_defs = counted_def send_net_def replicate_msg_def send_def send_replica_def SendMsg_def DisposeMsg_def
  ScheduleEvent_def CreateMsg_def

lemmas dir_defs = out_defs write_back_def grants_exclusive_def

lemmas dir_cases = Let_def Option.bind_eq_Some_conv DebugAssert_def

text \<open>The tables a handler leaves alone, whatever it sends.\<close>

definition same_tables :: "directory \<Rightarrow> directory \<Rightarrow> bool" where
  "same_tables s s' \<longleftrightarrow> pendingDirectorySharedReads s' = pendingDirectorySharedReads s \<and>
     pendingDirectoryExclusiveReads s' = pendingDirectoryExclusiveReads s \<and> directoryData s' = directoryData s"

lemma OnRemoteRead_quiet:
  "is_read m \<Longrightarrow> Directory_OnRemoteRead c m n s = Some s' \<Longrightarrow> quiet c s s' \<and> same_tables s s'"
  by (auto simp: Directory_OnRemoteRead_def dir_cases dir_defs same_tables_def split: if_splits intro!: quietI)

lemma OnRemoteInvalidate_quiet:
  "is_invalidate m \<Longrightarrow> Directory_OnRemoteInvalidate c m n s = Some s' \<Longrightarrow> quiet c s s' \<and> same_tables s s'"
  by (cases m) (auto simp: Directory_OnRemoteInvalidate_def dir_cases dir_defs same_tables_def split: if_splits intro!: quietI)

lemma write_back_quiet: "write_back c m s = Some s' \<Longrightarrow> quiet c s s' \<and> same_tables s s'"
  by (auto simp: dir_cases dir_defs same_tables_def split: if_splits intro!: quietI)

lemma OnRemoteWrite_quiet:
  "is_write m \<Longrightarrow> Directory_OnRemoteWrite c m n s = Some s' \<Longrightarrow> quiet c s s' \<and> same_tables s s'"
  by (cases m) (auto simp: Directory_OnRemoteWrite_def dir_cases dir_defs same_tables_def split: if_splits intro!: quietI)

lemma OnLocalRead_quiet:
  "is_read m \<Longrightarrow> Directory_OnLocalRead c m s = Some s' \<Longrightarrow> quiet c s s' \<and> same_tables s s'"
  by (cases m) (auto simp: Directory_OnLocalRead_def dir_cases dir_defs same_tables_def split: if_splits intro!: quietI)

section \<open>The tables\<close>

text \<open>
  The tables are keyed by what they hold, a block is not read shared and exclusive at once, and a
  block that is being fetched has a record.
\<close>

definition order_ok :: "directory_config \<Rightarrow> bool" where
  "order_ok c \<longleftrightarrow> (\<forall>xs. mset (order_nodes c xs) = mset xs) \<and> (\<forall>ds. mset (order_reads c ds) = mset ds)"

definition shared_ok :: "nat \<Rightarrow> LookupData list \<Rightarrow> bool" where
  "shared_ok a ds \<longleftrightarrow> (\<forall>d\<in>set ds. is_read (ld_msg d) \<and> addr (ld_msg d) = a \<and> \<not> requestingExclusive (ld_msg d))"

definition exclusive_ok :: "nat \<Rightarrow> LookupData option \<Rightarrow> bool" where
  "exclusive_ok a x \<longleftrightarrow> (\<forall>d. x = Some d \<longrightarrow> is_read (ld_msg d) \<and> addr (ld_msg d) = a \<and> requestingExclusive (ld_msg d))"

definition block_ok :: "LookupData list \<Rightarrow> LookupData option \<Rightarrow> BlockData option \<Rightarrow> bool" where
  "block_ok ds x b \<longleftrightarrow> (ds = [] \<or> x = None) \<and> (ds \<noteq> [] \<or> x \<noteq> None \<longrightarrow> b \<noteq> None) \<and>
     (\<forall>r. b = Some r \<longrightarrow> distinct (sharers r))"

definition blocks_ok :: "directory \<Rightarrow> bool" where
  "blocks_ok s \<longleftrightarrow> (\<forall>a. shared_ok a (pendingDirectorySharedReads s a) \<and>
     exclusive_ok a (pendingDirectoryExclusiveReads s a) \<and>
     block_ok (pendingDirectorySharedReads s a) (pendingDirectoryExclusiveReads s a) (directoryData s a))"

definition keys_ok :: "directory \<Rightarrow> bool" where
  "keys_ok s \<longleftrightarrow> (\<forall>n m. pendingLocalReads s n = Some m \<longrightarrow> is_read m \<and> msgID m = n) \<and>
     (\<forall>n d. pendingRemoteReads s n = Some d \<longrightarrow> is_read (ld_msg d) \<and> \<not> directoryLookup (ld_msg d) \<and> msgID (ld_msg d) = n) \<and>
     (\<forall>a d. pendingRemoteInvalidates s a = Some d \<longrightarrow> is_invalidate (ld_msg d) \<and> addr (ld_msg d) = a)"

definition dir_ok :: "directory_config \<Rightarrow> directory \<Rightarrow> bool" where
  "dir_ok c s \<longleftrightarrow> blocks_ok s \<and> keys_ok s \<and> list_all (call_ok c) (events s)"

text \<open>What a step may do: the grants it sends name the only holder.\<close>

definition grants_recorded :: "directory_config \<Rightarrow> directory \<Rightarrow> directory \<Rightarrow> bool" where
  "grants_recorded c s s' \<longleftrightarrow> (\<exists>es. events s' = events s @ es \<and> list_all (call_ok c) es \<and>
     (\<forall>a n. Some (a, n) \<in> grant_of c ` set es \<longrightarrow> directoryData s' a = Some \<lparr>sharers = [], owner = n\<rparr>))"

lemma quiet_grants_recorded: "quiet c s s' \<Longrightarrow> grants_recorded c s s'"
  by (fastforce simp: quiet_def grants_recorded_def list_all_iff)

lemma quiet_then_grants:
  assumes "quiet c s s'" and "grants_recorded c s' s''"
  shows "grants_recorded c s s''"
proof -
  obtain es where es: "events s' = events s @ es" "list_all (\<lambda>e. call_ok c e \<and> grant_of c e = None) es"
    using assms(1) by (auto simp: quiet_def)
  obtain fs where fs: "events s'' = events s' @ fs" "list_all (call_ok c) fs"
      "\<forall>a n. Some (a, n) \<in> grant_of c ` set fs \<longrightarrow> directoryData s'' a = Some \<lparr>sharers = [], owner = n\<rparr>"
    using assms(2) by (auto simp: grants_recorded_def)
  have "Some x \<notin> grant_of c ` set es" for x using es(2) by (fastforce simp: list_all_iff)
  with es fs show ?thesis
    unfolding grants_recorded_def by (intro exI[of _ "es @ fs"]) (auto simp: list_all_iff image_Un)
qed

lemma grants_then_quiet:
  assumes "grants_recorded c s s'" and "quiet c s' s''" and "directoryData s'' = directoryData s'"
  shows "grants_recorded c s s''"
proof -
  obtain es where es: "events s'' = events s' @ es" "list_all (\<lambda>e. call_ok c e \<and> grant_of c e = None) es"
    using assms(2) by (auto simp: quiet_def)
  obtain fs where fs: "events s' = events s @ fs" "list_all (call_ok c) fs"
      "\<forall>a n. Some (a, n) \<in> grant_of c ` set fs \<longrightarrow> directoryData s' a = Some \<lparr>sharers = [], owner = n\<rparr>"
    using assms(1) by (auto simp: grants_recorded_def)
  have "Some x \<notin> grant_of c ` set es" for x using es(2) by (fastforce simp: list_all_iff)
  with es fs assms(3) show ?thesis
    unfolding grants_recorded_def by (intro exI[of _ "fs @ es"]) (auto simp: list_all_iff image_Un)
qed

lemma dispose_quiet [simp]: "quiet c s (DisposeMsg m s)"
  by (auto simp: DisposeMsg_def intro!: quietI)

lemma dispose_tables [simp]: "directoryData (DisposeMsg m s) = directoryData s"
  "pendingDirectorySharedReads (DisposeMsg m s) = pendingDirectorySharedReads s"
  "pendingDirectoryExclusiveReads (DisposeMsg m s) = pendingDirectoryExclusiveReads s"
  "pendingLocalReads (DisposeMsg m s) = pendingLocalReads s"
  "pendingRemoteReads (DisposeMsg m s) = pendingRemoteReads s"
  "pendingRemoteInvalidates (DisposeMsg m s) = pendingRemoteInvalidates s"
  by (simp_all add: DisposeMsg_def)

text \<open>Records of a block.\<close>

lemma EraseDirectoryShare_eq:
  assumes "EraseDirectoryShare a n s = Some s'"
  obtains b where "directoryData s a = Some b" and "owner b = n \<longrightarrow> n \<notin> set (sharers b)"
    and "s' = s\<lparr>directoryData := (directoryData s)(a := Some (drop_holder n b))\<rparr>"
proof (cases "directoryData s a")
  case (Some b)
  with assms show ?thesis
    by (cases "owner b = n"; cases "n \<in> set (sharers b)") (auto simp: EraseDirectoryShare_def DebugAssert_def drop_holder_def intro!: that)
qed (use assms in \<open>simp add: EraseDirectoryShare_def\<close>)

definition added_holder :: "directory_config \<Rightarrow> int \<Rightarrow> BlockData \<Rightarrow> BlockData" where
  "added_holder c n b = (if owner b = n \<or> owner b = InvalidNodeID then b\<lparr>owner := n\<rparr>
     else if n \<notin> set (sharers b) then b\<lparr>sharers := order_nodes c (n # sharers b)\<rparr> else b)"

lemma AddDirectoryShare_eq:
  assumes "AddDirectoryShare c a n e s = Some s'"
  obtains b where "directoryData s a = Some b"
    and "e \<longrightarrow> sharers b = [] \<and> (owner b = n \<or> owner b = InvalidNodeID)"
    and "s' = s\<lparr>directoryData := (directoryData s)(a := Some (added_holder c n b))\<rparr>"
proof (cases "directoryData s a")
  case (Some b)
  have "s\<lparr>directoryData := directoryData s\<rparr> = s" by simp
  moreover have "(directoryData s)(a := Some b) = directoryData s" using Some by (simp add: fun_upd_idem)
  ultimately show ?thesis using assms Some
    by (intro that[of b]) (auto simp: AddDirectoryShare_def DebugAssert_def added_holder_def split: if_splits)
qed (use assms in \<open>simp add: AddDirectoryShare_def\<close>)

lemma distinct_drop [simp]: "distinct (sharers b) \<Longrightarrow> distinct (sharers (drop_holder n b))"
  by (simp add: drop_holder_def distinct_removeAll)

lemma order_nodes_distinct: "order_ok c \<Longrightarrow> distinct (order_nodes c ns) = distinct ns"
  using mset_eq_imp_distinct_iff[of "order_nodes c ns" ns] by (simp add: order_ok_def)

lemma distinct_added: "order_ok c \<Longrightarrow> distinct (sharers b) \<Longrightarrow> distinct (sharers (added_holder c n b))"
  by (simp add: added_holder_def order_nodes_distinct)

lemma added_alone: "sharers b = [] \<Longrightarrow> owner b = n \<or> owner b = InvalidNodeID \<Longrightarrow> added_holder c n b = \<lparr>sharers = [], owner = n\<rparr>"
  by (simp add: added_holder_def)

text \<open>Blocks whose record alone changes, and blocks that are no longer read.\<close>

lemma blocks_ok_same: "same_tables s s' \<Longrightarrow> blocks_ok s' = blocks_ok s"
  by (simp add: blocks_ok_def same_tables_def)

lemma blocks_ok_end:
  "blocks_ok s \<Longrightarrow> distinct (sharers b) \<Longrightarrow> pendingDirectorySharedReads s' = pendingDirectorySharedReads s \<Longrightarrow>
    pendingDirectoryExclusiveReads s' = (pendingDirectoryExclusiveReads s)(a := None) \<Longrightarrow>
    directoryData s' = (directoryData s)(a := Some b) \<Longrightarrow> blocks_ok s'"
  by (auto simp: blocks_ok_def block_ok_def exclusive_ok_def)

lemma blocks_ok_distinct: "blocks_ok s \<Longrightarrow> directoryData s a = Some b \<Longrightarrow> distinct (sharers b)"
  by (auto simp: blocks_ok_def block_ok_def)

text \<open>The keys.\<close>

lemma send_net_ok: "\<not> grants_exclusive m \<Longrightarrow> quiet c s (send_net c pc n m d s)"
  "same_tables s (send_net c pc n m d s)" "keys_ok (send_net c pc n m d s) = keys_ok s"
  by (auto simp: out_defs same_tables_def keys_ok_def intro!: quietI)

lemma OnRemoteRead_keys: "is_read m \<Longrightarrow> keys_ok s \<Longrightarrow> Directory_OnRemoteRead c m n s = Some s' \<Longrightarrow> keys_ok s'"
  by (auto simp: Directory_OnRemoteRead_def dir_cases dir_defs keys_ok_def split: if_splits)

lemma OnRemoteInvalidate_keys:
  "is_invalidate m \<Longrightarrow> keys_ok s \<Longrightarrow> Directory_OnRemoteInvalidate c m n s = Some s' \<Longrightarrow> keys_ok s'"
  by (auto simp: Directory_OnRemoteInvalidate_def dir_cases dir_defs keys_ok_def split: if_splits)

lemma write_back_keys: "write_back c m s = Some s' \<Longrightarrow> keys_ok s' = keys_ok s"
  by (auto simp: dir_cases dir_defs keys_ok_def split: if_splits)

lemma OnRemoteWrite_keys: "Directory_OnRemoteWrite c m n s = Some s' \<Longrightarrow> keys_ok s' = keys_ok s"
  by (auto simp: Directory_OnRemoteWrite_def dir_cases dir_defs keys_ok_def split: if_splits)

lemma OnLocalRead_keys: "is_read m \<Longrightarrow> keys_ok s \<Longrightarrow> Directory_OnLocalRead c m s = Some s' \<Longrightarrow> keys_ok s'"
  by (auto simp: Directory_OnLocalRead_def dir_cases dir_defs keys_ok_def split: if_splits)

lemma OnDirectoryBlockResponse_ok:
  assumes "OnDirectoryBlockResponse c m s = Some s'" and "keys_ok s"
  shows "keys_ok s' \<and> quiet c s s' \<and> same_tables s s'"
proof (cases "pendingLocalReads s (solicitingMessage m)")
  case (Some ref)
  with assms(2) have ref: "is_read ref" by (auto simp: keys_ok_def)
  show ?thesis
  proof (cases "satisfied m")
    case True
    with assms Some show ?thesis
      by (auto simp: OnDirectoryBlockResponse_def dir_defs Let_def same_tables_def keys_ok_def intro!: quietI split: if_splits)
  next
    case False
    let ?t = "(counted DirectoryResponses s)\<lparr>pendingLocalReads := (pendingLocalReads s)(solicitingMessage m := None)\<rparr>"
    have step: "Directory_OnLocalRead c ref ?t = Some s'"
      using assms(1) Some False by (simp add: OnDirectoryBlockResponse_def Let_def counted_def)
    have "keys_ok ?t" using assms(2) by (auto simp: keys_ok_def counted_def)
    moreover have "quiet c s ?t" and "same_tables s ?t" by (simp_all add: quiet_def counted_def same_tables_def)
    ultimately show ?thesis using OnLocalRead_keys[OF ref _ step] OnLocalRead_quiet[OF ref step]
      by (auto intro: quiet_trans simp: same_tables_def)
  qed
qed (use assms in \<open>simp add: OnDirectoryBlockResponse_def Let_def counted_def\<close>)

lemma OnLocalReadResponse_ok:
  assumes "Directory_OnLocalReadResponse c m s = Some s'" and "keys_ok s"
  shows "keys_ok s' \<and> quiet c s s' \<and> same_tables s s'"
proof (cases "pendingRemoteReads s (solicitingMessage m)")
  case (Some d)
  with assms show ?thesis
    by (auto simp: Directory_OnLocalReadResponse_def out_defs Let_def same_tables_def keys_ok_def
      DebugAssert_def split: if_splits intro!: quietI)
qed (use assms in \<open>simp add: Directory_OnLocalReadResponse_def Let_def counted_def\<close>)

lemma OnLocalWrite_ok:
  assumes "Directory_OnLocalWrite c m s = Some s'" and "is_write m" and "keys_ok s"
  shows "keys_ok s' \<and> quiet c s s' \<and> same_tables s s'"
proof -
  let ?t = "send LocalConnection (\<lambda>k. WriteResponseMsg k (generatingPC m) (addr m) (msize m) (msgID m)) (localSendTime c)
    (counted LocalWrites s)"
  have t: "keys_ok ?t" "quiet c s ?t" "same_tables s ?t"
    using assms(3) by (auto simp: dir_defs keys_ok_def same_tables_def intro!: quietI)
  obtain home where home: "CalcNodeID (directoryNodeCalc c) (addr m) = Some home"
    using assms(1) by (cases "CalcNodeID (directoryNodeCalc c) (addr m)") (auto simp: Directory_OnLocalWrite_def Let_def)
  show ?thesis
  proof (cases "home = nodeID c")
    case True
    with assms(1) home have step: "Directory_OnRemoteWrite c m (nodeID c) ?t = Some s'"
      by (simp add: Directory_OnLocalWrite_def Let_def)
    with t OnRemoteWrite_quiet[OF assms(2) step] OnRemoteWrite_keys[OF step] show ?thesis
      by (auto intro: quiet_trans simp: same_tables_def)
  next
    case False
    with assms(1) home have "s' = send_net c (generatingPC m) home m (remoteSendTime c) ?t"
      by (simp add: Directory_OnLocalWrite_def Let_def)
    with assms(2) t show ?thesis using send_net_ok[where m = m and c = c and s = ?t and n = home]
      by (auto intro: quiet_trans simp: same_tables_def)
  qed
qed

text \<open>The steps that change the record of one block and nothing else of the blocks.\<close>

definition records_block :: "nat \<Rightarrow> directory \<Rightarrow> directory \<Rightarrow> bool" where
  "records_block a s s' \<longleftrightarrow> pendingDirectorySharedReads s' = pendingDirectorySharedReads s \<and>
     pendingDirectoryExclusiveReads s' = pendingDirectoryExclusiveReads s \<and>
     directoryData s' a \<noteq> None \<and> (\<forall>x. x \<noteq> a \<longrightarrow> directoryData s' x = directoryData s x) \<and>
     (blocks_ok s \<longrightarrow> (\<forall>b. directoryData s' a = Some b \<longrightarrow> distinct (sharers b)))"

lemma records_blocks_ok:
  assumes "records_block a s s'" and "blocks_ok s"
  shows "blocks_ok s'"
  unfolding blocks_ok_def
proof
  fix x
  show "shared_ok x (pendingDirectorySharedReads s' x) \<and> exclusive_ok x (pendingDirectoryExclusiveReads s' x) \<and>
    block_ok (pendingDirectorySharedReads s' x) (pendingDirectoryExclusiveReads s' x) (directoryData s' x)"
    using assms by (cases "x = a") (auto simp: records_block_def blocks_ok_def block_ok_def)
qed

lemma records_same: "records_block a s s' \<Longrightarrow> same_tables s' s'' \<Longrightarrow> records_block a s s''"
  by (auto simp: records_block_def same_tables_def)

lemma same_records: "same_tables s s' \<Longrightarrow> records_block a s' s'' \<Longrightarrow> records_block a s s''"
  by (auto simp: records_block_def same_tables_def blocks_ok_def)

lemma OnRemoteEviction_ok:
  assumes "Directory_OnRemoteEviction c m n s = Some s'" and "keys_ok s"
  shows "keys_ok s' \<and> quiet c s s' \<and> records_block (addr m) s s'"
proof -
  define u where "u = counted RemoteEvictions s"
  obtain b where b: "directoryData s (addr m) = Some b"
    using assms(1) by (cases "directoryData s (addr m)") (auto simp: Directory_OnRemoteEviction_def Let_def counted_def)
  define t where "t = u\<lparr>directoryData := (directoryData u)(addr m := Some (drop_holder n b))\<rparr>"
  obtain t' where t': "write_back c m t' = Some s'" "keys_ok t'" "quiet c t t'" "same_tables t t'"
  proof (cases "n = nodeID c")
    case True
    with assms b that[of "t\<lparr>pendingEviction := pendingEviction t - {addr m}\<rparr>"] show ?thesis
      by (auto simp: Directory_OnRemoteEviction_def Let_def DebugAssert_def t_def u_def counted_def keys_ok_def quiet_def
        same_tables_def split: if_splits)
  next
    case False
    let ?rm = "\<lambda>k. EvictionResponseMsg k (generatingPC m) (addr m) (msize m) (msgID m)"
    let ?t = "send_net c (generatingPC m) n (fst (CreateMsg ?rm t)) (remoteSendTime c) (snd (CreateMsg ?rm t))"
    have "write_back c m ?t = Some s'"
      using False assms(1) b by (simp add: Directory_OnRemoteEviction_def Let_def t_def u_def counted_def CreateMsg_def)
    moreover have "keys_ok ?t" using assms(2) by (simp add: dir_defs keys_ok_def t_def u_def)
    moreover have "quiet c t ?t" and "same_tables t ?t" by (auto simp: dir_defs same_tables_def intro!: quietI)
    ultimately show ?thesis by (rule that)
  qed
  have "quiet c s t" by (auto simp: t_def u_def counted_def quiet_def)
  moreover have "records_block (addr m) s t"
    using b by (auto simp: records_block_def t_def u_def counted_def dest: blocks_ok_distinct)
  ultimately show ?thesis using t' write_back_quiet[OF t'(1)] write_back_keys[OF t'(1)]
    by (auto intro: quiet_trans records_same)
qed

lemma OnLocalEviction_ok:
  assumes "Directory_OnLocalEviction c m s = Some s'" and "is_eviction m" and "keys_ok s" and "blocks_ok s"
  shows "keys_ok s' \<and> quiet c s s' \<and> blocks_ok s'"
proof -
  let ?t = "send LocalConnection (\<lambda>k. EvictionResponseMsg k (generatingPC m) (addr m) (msize m) (msgID m)) (localSendTime c)
    ((counted LocalEvictions s)\<lparr>pendingEviction := insert (addr m) (pendingEviction s)\<rparr>)"
  have t: "keys_ok ?t" "quiet c s ?t" "same_tables s ?t"
    using assms(3) by (auto simp: dir_defs keys_ok_def same_tables_def intro!: quietI)
  obtain home where home: "CalcNodeID (directoryNodeCalc c) (addr m) = Some home"
    using assms(1) by (cases "CalcNodeID (directoryNodeCalc c) (addr m)")
      (auto simp: Directory_OnLocalEviction_def Let_def DebugAssert_def split: if_splits)
  show ?thesis
  proof (cases "home = nodeID c")
    case True
    with assms(1) home have step: "Directory_OnRemoteEviction c m (nodeID c) ?t = Some s'"
      by (simp add: Directory_OnLocalEviction_def Let_def DebugAssert_def counted_def split: if_splits)
    from t OnRemoteEviction_ok[OF step t(1)] assms(4) show ?thesis
      by (auto intro: quiet_trans same_records records_blocks_ok)
  next
    case False
    with assms(1) home have "s' = send_net c (generatingPC m) home m (remoteSendTime c) ?t"
      by (simp add: Directory_OnLocalEviction_def Let_def DebugAssert_def counted_def split: if_splits)
    with assms(2) t show ?thesis using send_net_ok[where m = m and c = c and s = ?t and n = home] assms(4)
        blocks_ok_same[OF t(3)] blocks_ok_same[OF send_net_ok(2)]
      by (auto intro: quiet_trans)
  qed
qed

text \<open>A block about to be fetched need not have a record yet.\<close>

definition fetching_ok :: "nat \<Rightarrow> directory \<Rightarrow> bool" where
  "fetching_ok a s \<longleftrightarrow> (\<forall>x. shared_ok x (pendingDirectorySharedReads s x) \<and> exclusive_ok x (pendingDirectoryExclusiveReads s x) \<and>
     (x \<noteq> a \<longrightarrow> block_ok (pendingDirectorySharedReads s x) (pendingDirectoryExclusiveReads s x) (directoryData s x))) \<and>
     (\<forall>r. directoryData s a = Some r \<longrightarrow> distinct (sharers r))"

lemma blocks_fetching: "blocks_ok s \<Longrightarrow> fetching_ok a s"
  by (auto simp: blocks_ok_def fetching_ok_def block_ok_def)

definition fetched_read :: "directory \<Rightarrow> nat \<Rightarrow> msg" where
  "fetched_read s a = fetch_msg (if pendingDirectorySharedReads s a \<noteq> [] then ld_msg (hd (pendingDirectorySharedReads s a))
     else ld_msg (the (pendingDirectoryExclusiveReads s a)))"

lemma fetched_read:
  assumes "fetching_ok a s" and "pendingDirectorySharedReads s a \<noteq> [] \<or> pendingDirectoryExclusiveReads s a \<noteq> None"
  shows "is_read (fetched_read s a) \<and> addr (fetched_read s a) = a"
proof -
  have "shared_ok a (pendingDirectorySharedReads s a)" and "exclusive_ok a (pendingDirectoryExclusiveReads s a)"
    using assms(1) by (auto simp: fetching_ok_def)
  with assms(2) show ?thesis by (auto simp: fetched_read_def shared_ok_def exclusive_ok_def)
qed

lemma PerformDirectoryFetch_ok:
  assumes "PerformDirectoryFetch c a s = Some s'" and "keys_ok s" and "fetching_ok a s"
  shows "keys_ok s' \<and> quiet c s s' \<and> blocks_ok s'"
proof -
  let ?m = "fetched_read s a"
  have pre: "pendingDirectorySharedReads s a \<noteq> [] \<or> pendingDirectoryExclusiveReads s a \<noteq> None"
      "pendingDirectorySharedReads s a = [] \<or> pendingDirectoryExclusiveReads s a = None"
    using assms(1) by (auto simp: PerformDirectoryFetch_def DebugAssert_def split: if_splits)
  have m: "is_read ?m" "addr ?m = a" using fetched_read[OF assms(3) pre(1)] by auto
  let ?t = "s\<lparr>currentMsgStamp := currentMsgStamp s + 1, directoryData := (directoryData s)(a := Some (block_data s a))\<rparr>"
  have t: "keys_ok ?t" "quiet c s ?t" using assms(2) by (auto simp: keys_ok_def quiet_def)
  have blocks: "blocks_ok ?t" using assms(3) pre
    by (auto simp: blocks_ok_def fetching_ok_def block_ok_def block_data_def split: option.splits)
  have data: "block_data (s\<lparr>currentMsgStamp := n\<rparr>) x = block_data s x" for n x by (simp add: block_data_def)
  have "\<exists>target. (if target = nodeID c then Directory_OnRemoteRead c ?m (nodeID c) ?t
      else Some (send_net c (generatingPC ?m) target ?m (lookupTime c + remoteSendTime c) ?t)) = Some s'"
    using assms(1) pre m
    by (auto simp: PerformDirectoryFetch_def DebugAssert_def Let_def replicate_msg_def CreateMsg_def fetched_read_def data
      Option.bind_eq_Some_conv split: if_splits)
  then obtain target where step: "(if target = nodeID c then Directory_OnRemoteRead c ?m (nodeID c) ?t
      else Some (send_net c (generatingPC ?m) target ?m (lookupTime c + remoteSendTime c) ?t)) = Some s'" by blast
  show ?thesis
  proof (cases "target = nodeID c")
    case True
    with step have step: "Directory_OnRemoteRead c ?m (nodeID c) ?t = Some s'" by simp
    from OnRemoteRead_quiet[OF m(1) step] OnRemoteRead_keys[OF m(1) t(1) step] t(2) blocks show ?thesis
      by (auto intro: quiet_trans simp: blocks_ok_same)
  next
    case False
    with step m t blocks show ?thesis
      by (auto simp: send_net_ok blocks_ok_same[OF send_net_ok(2)] intro: quiet_trans send_net_ok(1))
  qed
qed

lemma records_refl: "directoryData s a \<noteq> None \<Longrightarrow> records_block a s s"
  by (auto simp: records_block_def dest: blocks_ok_distinct)

lemma records_trans: "records_block a s s' \<Longrightarrow> records_block a s' s'' \<Longrightarrow> records_block a s s''"
  using records_blocks_ok[of a s s'] by (auto simp: records_block_def)

lemma Erase_records: "EraseDirectoryShare a n s = Some s' \<Longrightarrow> records_block a s s' \<and> keys_ok s' = keys_ok s \<and> quiet c s s'"
  by (erule EraseDirectoryShare_eq) (auto simp: records_block_def keys_ok_def quiet_def dest: blocks_ok_distinct)

lemma Add_records: "order_ok c \<Longrightarrow> AddDirectoryShare c a n e s = Some s' \<Longrightarrow>
    records_block a s s' \<and> keys_ok s' = keys_ok s \<and> quiet c s s'"
  by (erule AddDirectoryShare_eq) (auto simp: records_block_def keys_ok_def quiet_def distinct_added dest: blocks_ok_distinct)

text \<open>An answer to one pending shared read.\<close>

definition shared_answer :: "msg \<Rightarrow> LookupData \<Rightarrow> nat \<Rightarrow> msg" where
  "shared_answer m d k = ReadResponseMsg k (generatingPC (ld_msg d)) (addr m) (msize m) True True True False False (msgID (ld_msg d))"

lemma shared_answer_silent: "\<not> grants_exclusive (shared_answer m d k)"
  by (simp add: grants_exclusive_def shared_answer_def)

lemma keys_dispose [simp]: "keys_ok (DisposeMsg m s) = keys_ok s"
  by (simp add: keys_ok_def)

lemma same_dispose [simp]: "same_tables s (DisposeMsg m s)"
  by (simp add: same_tables_def)

lemma answer_shared_step:
  assumes "pendingDirectorySharedReads s (addr m) \<noteq> []"
  shows "answer_shared c m (d # ds) s =
    Option.bind (AddDirectoryShare c (addr m) (ld_source d) False (s\<lparr>currentMsgStamp := currentMsgStamp s + 1\<rparr>)) (\<lambda>t.
    Option.bind (if ld_source d = nodeID c then OnDirectoryBlockResponse c (shared_answer m d (currentMsgStamp s)) t
      else Some (send_net c (generatingPC (ld_msg d)) (ld_source d) (shared_answer m d (currentMsgStamp s))
        (remoteSendTime c + satisfyTime c) t)) (\<lambda>u.
    answer_shared c m ds (DisposeMsg (ld_msg d) u)))"
  using assms by (simp add: Let_def CreateMsg_def shared_answer_def cong: if_cong)

lemma answer_shared_ok:
  assumes "answer_shared c m ds s = Some s'" and "order_ok c" and "keys_ok s"
    and "pendingDirectorySharedReads s (addr m) \<noteq> []" and "directoryData s (addr m) \<noteq> None"
  shows "keys_ok s' \<and> quiet c s s' \<and> records_block (addr m) s s'"
  using assms
proof (induction ds arbitrary: s)
  case Nil
  then show ?case by (simp add: records_refl)
next
  case (Cons d ds)
  let ?r = "shared_answer m d (currentMsgStamp s)"
  let ?s = "s\<lparr>currentMsgStamp := currentMsgStamp s + 1\<rparr>"
  obtain t u where t: "AddDirectoryShare c (addr m) (ld_source d) False ?s = Some t"
    and u: "(if ld_source d = nodeID c then OnDirectoryBlockResponse c ?r t
      else Some (send_net c (generatingPC (ld_msg d)) (ld_source d) ?r (remoteSendTime c + satisfyTime c) t)) = Some u"
    and rest: "answer_shared c m ds (DisposeMsg (ld_msg d) u) = Some s'"
    using Cons.prems(1)[unfolded answer_shared_step[OF Cons.prems(4)] Option.bind_eq_Some_conv] by blast
  have s0: "keys_ok ?s" "quiet c s ?s" "same_tables s ?s"
    using Cons.prems(3) by (simp_all add: keys_ok_def quiet_def same_tables_def)
  have t1: "keys_ok t" "quiet c ?s t" "records_block (addr m) ?s t"
    using Add_records[OF Cons.prems(2) t] s0(1) by auto
  have u1: "keys_ok u \<and> quiet c t u \<and> same_tables t u"
  proof (cases "ld_source d = nodeID c")
    case True
    with u t1(1) show ?thesis using OnDirectoryBlockResponse_ok by auto
  next
    case False
    with u t1(1) show ?thesis by (auto simp: send_net_ok shared_answer_silent)
  qed
  let ?u = "DisposeMsg (ld_msg d) u"
  have "same_tables t ?u" using u1 by (simp add: same_tables_def)
  then have rec: "records_block (addr m) s ?u" by (rule same_records[OF s0(3) records_same[OF t1(3)]])
  have "keys_ok s' \<and> quiet c ?u s' \<and> records_block (addr m) ?u s'"
  proof (rule Cons.IH[OF rest Cons.prems(2)])
    show "keys_ok ?u" using u1 by simp
    show "pendingDirectorySharedReads ?u (addr m) \<noteq> []" and "directoryData ?u (addr m) \<noteq> None"
      using rec Cons.prems(4) by (simp_all add: records_block_def)
  qed
  moreover have "quiet c s ?u" using s0(2) t1(2) u1 by (meson dispose_quiet quiet_trans)
  ultimately show ?case using rec by (blast intro: quiet_trans records_trans)
qed

lemma invalidate_sharers_ok:
  assumes "invalidate_sharers c m ns s = Some s'" and "keys_ok s"
  shows "keys_ok s' \<and> quiet c s s' \<and> same_tables s s'"
  using assms
proof (induction ns arbitrary: s)
  case (Cons n ns)
  let ?i = "InvalidateMsg (currentMsgStamp s) (generatingPC m) (addr m) (msize m)"
  let ?s = "s\<lparr>currentMsgStamp := currentMsgStamp s + 1\<rparr>"
  have s0: "keys_ok ?s" "quiet c s ?s" "same_tables s ?s"
    using Cons.prems(2) by (simp_all add: keys_ok_def quiet_def same_tables_def)
  obtain t where t: "(if n \<noteq> nodeID c then Some (send_net c (generatingPC m) n ?i (lookupTime c + remoteSendTime c) ?s)
      else Directory_OnRemoteInvalidate c ?i (nodeID c) ?s) = Some t" and rest: "invalidate_sharers c m ns t = Some s'"
    using Cons.prems(1) by (auto simp: Let_def CreateMsg_def Option.bind_eq_Some_conv split: if_splits)
  have t1: "keys_ok t \<and> quiet c ?s t \<and> same_tables ?s t"
  proof (cases "n = nodeID c")
    case True
    with t s0(1) show ?thesis using OnRemoteInvalidate_quiet[of ?i c "nodeID c" ?s t] OnRemoteInvalidate_keys[of ?i ?s c "nodeID c" t]
      by simp
  next
    case False
    with t s0(1) show ?thesis by (auto simp: send_net_ok)
  qed
  from Cons.IH[OF rest] t1 s0 show ?case
    by (auto intro: quiet_trans simp: same_tables_def)
qed (simp add: same_tables_def)

lemma end_exclusive_eq:
  assumes "end_exclusive c a e s = Some s'"
  shows "s' = (DisposeMsg (ld_msg e) (s\<lparr>directoryData := (directoryData s)(a := Some \<lparr>sharers = [], owner = ld_source e\<rparr>)\<rparr>))
    \<lparr>pendingDirectoryExclusiveReads := (pendingDirectoryExclusiveReads s)(a := None)\<rparr>"
proof -
  obtain t where t: "AddDirectoryShare c a (ld_source e) True s = Some t"
    using assms by (cases "AddDirectoryShare c a (ld_source e) True s") (auto simp: end_exclusive_def)
  from AddDirectoryShare_eq[OF t] obtain b where "t = s\<lparr>directoryData := (directoryData s)(a := Some \<lparr>sharers = [], owner = ld_source e\<rparr>)\<rparr>"
    by (metis added_alone)
  with t assms show ?thesis by (simp add: end_exclusive_def Let_def DisposeMsg_def)
qed

text \<open>Sending the grant and ending the exclusive read.\<close>

definition grant_msg :: "directory_config \<Rightarrow> nat \<Rightarrow> LookupData \<Rightarrow> msg \<Rightarrow> nat \<Rightarrow> nat \<Rightarrow> directory \<Rightarrow> directory" where
  "grant_msg c pc e m dl dr s = (if ld_source e = nodeID c then SendMsg LocalConnection m dl s
     else send_net c pc (ld_source e) m dr s)"

lemma grant_ok:
  assumes "end_exclusive c a e (grant_msg c pc e m dl dr s) = Some s'" and "addr m = a"
    and "keys_ok s" and "blocks_ok s"
  shows "keys_ok s' \<and> blocks_ok s' \<and> grants_recorded c s s'"
proof -
  have "keys_ok s'" and "blocks_ok s'" unfolding end_exclusive_eq[OF assms(1)]
    using assms(3,4)
    by (auto simp: out_defs grant_msg_def keys_ok_def blocks_ok_def block_ok_def exclusive_ok_def split: if_splits)
  moreover have "grants_recorded c s s'" unfolding end_exclusive_eq[OF assms(1)] grants_recorded_def
    using assms(2) by (auto simp: out_defs grant_msg_def split: if_splits)
  ultimately show ?thesis by simp
qed

lemma counted_tables [simp]: "directoryData (counted k s) = directoryData s"
  "pendingDirectorySharedReads (counted k s) = pendingDirectorySharedReads s"
  "pendingDirectoryExclusiveReads (counted k s) = pendingDirectoryExclusiveReads s"
  by (simp_all add: counted_def)

lemma keys_counted [simp]: "keys_ok (counted k s) = keys_ok s"
  by (simp add: keys_ok_def counted_def)

lemma same_counted [simp]: "same_tables s (counted k s)"
  by (simp add: same_tables_def counted_def)

lemma quiet_counted [simp]: "quiet c s (counted k s)"
  by (simp add: quiet_def counted_def)

lemma blocks_dispose [simp]: "blocks_ok (DisposeMsg m s) = blocks_ok s"
  by (simp add: blocks_ok_def)

lemma blocks_counted [simp]: "blocks_ok (counted k s) = blocks_ok s"
  by (simp add: blocks_ok_def counted_def)

definition step_ok :: "directory_config \<Rightarrow> directory \<Rightarrow> directory \<Rightarrow> bool" where
  "step_ok c s s' \<longleftrightarrow> keys_ok s' \<and> blocks_ok s' \<and> grants_recorded c s s'"

lemma step_okI: "keys_ok s' \<Longrightarrow> blocks_ok s' \<Longrightarrow> quiet c s s' \<Longrightarrow> step_ok c s s'"
  by (simp add: step_ok_def quiet_grants_recorded)

lemma step_ok_before: "quiet c s s' \<Longrightarrow> step_ok c s' s'' \<Longrightarrow> step_ok c s s''"
  by (auto simp: step_ok_def intro: quiet_then_grants)

lemma step_ok_dispose: "step_ok c s s' \<Longrightarrow> step_ok c s (DisposeMsg m s')"
  by (auto simp: step_ok_def intro: grants_then_quiet)

lemma answer_exclusive_ok:
  assumes "answer_exclusive c m src s = Some s'" and "keys_ok s" and "blocks_ok s" and "is_read_response m"
  shows "step_ok c s s'"
proof -
  obtain e b where e: "pendingDirectoryExclusiveReads s (addr m) = Some e" and b: "directoryData s (addr m) = Some b"
    using assms(1) by (auto simp: answer_exclusive_def Let_def Option.bind_eq_Some_conv)
  show ?thesis
  proof (cases "sharers b = []")
    case True
    let ?s = "s\<lparr>currentMsgStamp := currentMsgStamp s + 1\<rparr>"
    have "end_exclusive c (addr m) e (grant_msg c (generatingPC m) e (with_lookup True m)
        (lookupTime c + localSendTime c) (lookupTime c + remoteSendTime c) ?s) = Some s'"
      using assms(1) e b True
      by (auto simp: answer_exclusive_def Let_def DebugAssert_def replicate_msg_def CreateMsg_def grant_msg_def split: if_splits)
    moreover have "addr (with_lookup True m) = addr m" by (cases m) simp_all
    moreover have "keys_ok ?s" and "blocks_ok ?s" and "quiet c s ?s" using assms(2,3) by (simp_all add: keys_ok_def blocks_ok_def quiet_def)
    ultimately show ?thesis using grant_ok step_ok_before[of c s ?s s'] by (auto simp: step_ok_def)
  next
    case False
    with assms(1) e b have "invalidate_sharers c m (sharers b) s = Some s'"
      by (auto simp: answer_exclusive_def Let_def DebugAssert_def split: if_splits)
    from invalidate_sharers_ok[OF this assms(2)] assms(3) show ?thesis
      by (auto intro: step_okI simp: blocks_ok_same)
  qed
qed

lemma OnRemoteReadResponse_ok:
  assumes "Directory_OnRemoteReadResponse c m src s = Some s'" and "is_read_response m" and "order_ok c"
    and "keys_ok s" and "blocks_ok s"
  shows "step_ok c s s'"
proof -
  let ?a = "addr m" and ?s = "counted RemoteReadResponses s"
  have s: "keys_ok ?s" "blocks_ok ?s" "quiet c s ?s" using assms(4,5) by simp_all
  have data: "directoryData ?s ?a \<noteq> None"
    using assms(1) by (auto simp: Directory_OnRemoteReadResponse_def Let_def DebugAssert_def split: if_splits)
  show ?thesis
  proof (cases "satisfied m")
    case True
    obtain t where t: "(if exclusiveOwnership m then EraseDirectoryShare ?a src ?s else Some ?s) = Some t"
      and rest: "returns (if pendingDirectorySharedReads t ?a \<noteq> [] then do {
           s \<leftarrow> answer_shared c m (pendingDirectorySharedReads t ?a) t;
           Some (s\<lparr>pendingDirectorySharedReads := (pendingDirectorySharedReads s)(?a := [])\<rparr>) }
         else answer_exclusive c m src t) (\<lambda>u. s' = DisposeMsg m u)"
      using assms(1) True
      by (auto simp: Directory_OnRemoteReadResponse_def Let_def DebugAssert_def Option.bind_eq_Some_conv returns_iff
        simp del: not_None_eq split: if_splits)
    have t': "keys_ok t \<and> blocks_ok t \<and> quiet c ?s t \<and> directoryData t ?a \<noteq> None"
    proof (cases "exclusiveOwnership m")
      case True
      with t have "EraseDirectoryShare ?a src ?s = Some t" by simp
      from Erase_records[OF this, of c] s records_blocks_ok[of ?a ?s t] show ?thesis by (auto simp: records_block_def)
    qed (use t s data in simp)
    have "returns (if pendingDirectorySharedReads t ?a \<noteq> [] then do {
           s \<leftarrow> answer_shared c m (pendingDirectorySharedReads t ?a) t;
           Some (s\<lparr>pendingDirectorySharedReads := (pendingDirectorySharedReads s)(?a := [])\<rparr>) }
         else answer_exclusive c m src t) (step_ok c t)"
    proof (cases "pendingDirectorySharedReads t ?a = []")
      case True
      with rest answer_exclusive_ok[of c m src t] t' assms(2) show ?thesis by (auto simp: returns_iff)
    next
      case False
      then obtain u where u: "answer_shared c m (pendingDirectorySharedReads t ?a) t = Some u"
        using rest by (auto simp: returns_iff Option.bind_eq_Some_conv)
      have ok: "keys_ok u \<and> quiet c t u \<and> records_block ?a t u"
        using answer_shared_ok[OF u assms(3)] False t' by blast
      then have "blocks_ok u" using t' records_blocks_ok by blast
      then have "blocks_ok (u\<lparr>pendingDirectorySharedReads := (pendingDirectorySharedReads u)(?a := [])\<rparr>)"
        using False ok t' by (auto simp: blocks_ok_def block_ok_def shared_ok_def records_block_def)
      then show ?thesis using False u ok by (auto intro!: step_okI simp: keys_ok_def quiet_def)
    qed
    with rest have "step_ok c t s'" by (auto simp: returns_iff intro: step_ok_dispose)
    then show ?thesis using t' s(3) by (blast intro: step_ok_before)
  next
    case False
    obtain t u where t: "EraseDirectoryShare ?a src ?s = Some t" and u: "PerformDirectoryFetch c ?a t = Some u"
      and s': "s' = DisposeMsg m u"
      using assms(1) False
      by (auto simp: Directory_OnRemoteReadResponse_def Let_def DebugAssert_def Option.bind_eq_Some_conv
        simp del: not_None_eq split: if_splits)
    have t': "keys_ok t" "blocks_ok t" "quiet c ?s t"
      using Erase_records[OF t, of c] s by (auto dest: records_blocks_ok)
    have "step_ok c t u" using PerformDirectoryFetch_ok[OF u t'(1) blocks_fetching[OF t'(2)]] by (auto intro: step_okI)
    then show ?thesis unfolding s' using t'(3) s(3) by (blast intro: step_ok_before step_ok_dispose)
  qed
qed

lemma end_invalidations_ok:
  assumes "end_invalidations c m b s = Some s'" and "keys_ok s" and "blocks_ok s"
  shows "step_ok c s s'"
proof (cases "pendingDirectoryExclusiveReads s (addr m)")
  case None
  with assms show ?thesis by (simp add: end_invalidations_def step_okI)
next
  case (Some e)
  show ?thesis
  proof (cases "invalidations_done (ld_source e) b")
    case True
    let ?rm = "ReadResponseMsg (currentMsgStamp s) (generatingPC (ld_msg e)) (addr m) (msize m) True True True True False
      (msgID (ld_msg e))"
    let ?t = "s\<lparr>directoryData := (directoryData s)(addr m := Some \<lparr>sharers = [], owner = ld_source e\<rparr>),
      currentMsgStamp := currentMsgStamp s + 1\<rparr>"
    have grant: "end_exclusive c (addr m) e (grant_msg c (generatingPC (ld_msg e)) e ?rm (localSendTime c + satisfyTime c)
        (remoteSendTime c + satisfyTime c) ?t) = Some s'"
      using assms(1) Some True by (auto simp: end_invalidations_def Let_def CreateMsg_def grant_msg_def split: if_splits)
    have "keys_ok ?t" and "quiet c s ?t" using assms(2) by (simp_all add: keys_ok_def quiet_def)
    moreover have "blocks_ok ?t" using assms(3) by (auto simp: blocks_ok_def block_ok_def)
    ultimately show ?thesis using grant_ok[OF grant] by (auto simp: step_ok_def intro: quiet_then_grants)
  qed (use assms Some in \<open>simp add: end_invalidations_def step_okI\<close>)
qed

lemma OnRemoteInvalidateResponse_ok:
  assumes "Directory_OnRemoteInvalidateResponse c m src s = Some s'" and "keys_ok s" and "blocks_ok s"
  shows "step_ok c s s'"
proof -
  let ?a = "addr m" and ?s = "counted RemoteInvalidateResponses s"
  obtain b where b: "directoryData s ?a = Some b"
    using assms(1) by (auto simp: Directory_OnRemoteInvalidateResponse_def Let_def Option.bind_eq_Some_conv counted_def)
  let ?t = "?s\<lparr>directoryData := (directoryData ?s)(?a := Some (drop_holder src b))\<rparr>"
  have t: "keys_ok ?t" "quiet c s ?t" "records_block ?a ?s ?t"
    using assms(2) b by (auto simp: keys_ok_def counted_def quiet_def records_block_def dest: blocks_ok_distinct)
  obtain u v where u: "write_back c m ?t = Some u" and v: "end_invalidations c m (drop_holder src b) u = Some v"
    and s': "s' = DisposeMsg m v"
    using assms(1) b
    by (auto simp: Directory_OnRemoteInvalidateResponse_def Let_def DebugAssert_def Option.bind_eq_Some_conv counted_def
      simp del: not_None_eq split: if_splits)
  have u': "keys_ok u" "quiet c ?t u" "same_tables ?t u"
    using write_back_quiet[OF u] write_back_keys[OF u] t(1) by simp_all
  then have "blocks_ok u" using records_same[OF t(3)] records_blocks_ok[of ?a ?s u] assms(3) by auto
  then have "step_ok c u s'" unfolding s' using end_invalidations_ok[OF v u'(1)] by (blast intro: step_ok_dispose)
  then show ?thesis using t(2) u'(2) by (blast intro: step_ok_before)
qed

lemma OnLocalInvalidateResponse_ok:
  assumes "Directory_OnLocalInvalidateResponse c m s = Some s'" and "\<not> is_read_response m"
    and "keys_ok s" and "blocks_ok s"
  shows "step_ok c s s'"
proof -
  let ?s = "counted LocalInvalidateResponses s"
  have s: "keys_ok ?s" "blocks_ok ?s" "quiet c s ?s" using assms(3,4) by simp_all
  obtain d t where d: "pendingRemoteInvalidates s (addr m) = Some d"
    and t: "(if nodeID c \<noteq> ld_source d then Some (send_net c (generatingPC (ld_msg d)) (ld_source d) m (remoteSendTime c) ?s)
      else Directory_OnRemoteInvalidateResponse c m (nodeID c) ?s) = Some t"
    and s': "s' = (DisposeMsg (ld_msg d) t)\<lparr>pendingRemoteInvalidates := (pendingRemoteInvalidates t)(addr (ld_msg d) := None)\<rparr>"
    using assms(1) unfolding Directory_OnLocalInvalidateResponse_def
    by (auto simp: Let_def DebugAssert_def Option.bind_eq_Some_conv counted_def split: if_splits)
  have "step_ok c ?s t"
  proof (cases "nodeID c = ld_source d")
    case True
    with t OnRemoteInvalidateResponse_ok[OF _ s(1,2)] show ?thesis by simp
  next
    case False
    with t assms(2) s show ?thesis
      by (auto simp: send_net_ok blocks_ok_same[OF send_net_ok(2)] intro!: step_okI send_net_ok(1))
  qed
  then have ok: "step_ok c s (DisposeMsg (ld_msg d) t)" using s(3) by (blast intro: step_ok_before step_ok_dispose)
  then show ?thesis unfolding s' by (auto simp: step_ok_def keys_ok_def blocks_ok_def grants_recorded_def)
qed

text \<open>A request that is taken up.\<close>

lemma OnDirectoryBlockRequest_ok:
  assumes "OnDirectoryBlockRequest c m src s = Some s'" and "is_read m" and "directoryLookup m" and "order_ok c"
    and "keys_ok s" and "blocks_ok s"
  shows "step_ok c s s'"
proof -
  let ?a = "addr m" and ?s = "counted DirectoryRequests s" and ?ld = "\<lparr>ld_msg = m, ld_source = src\<rparr>"
  have s: "keys_ok ?s" "blocks_ok ?s" "quiet c s ?s" using assms(5,6) by simp_all
  consider (retry) "pendingDirectoryExclusiveReads s ?a \<noteq> None \<or> (requestingExclusive m \<and> pendingDirectorySharedReads s ?a \<noteq> [])"
    | (excl) "pendingDirectoryExclusiveReads s ?a = None" "requestingExclusive m" "pendingDirectorySharedReads s ?a = []"
    | (shared) "pendingDirectoryExclusiveReads s ?a = None" "\<not> requestingExclusive m" by blast
  then show ?thesis
  proof cases
    case retry
    with assms show ?thesis
      by (auto simp: OnDirectoryBlockRequest_def Let_def out_defs keys_ok_def blocks_ok_def grants_exclusive_def
        split: if_splits intro!: step_okI quietI)
  next
    case excl
    let ?t = "?s\<lparr>pendingDirectoryExclusiveReads := (pendingDirectoryExclusiveReads ?s)(?a := Some ?ld)\<rparr>"
    have t: "keys_ok ?t" "quiet c ?s ?t" using s(1) by (simp_all add: keys_ok_def quiet_def)
    have f: "fetching_ok ?a ?t" using s(2) excl assms(2) by (auto simp: fetching_ok_def blocks_ok_def block_ok_def exclusive_ok_def)
    have "PerformDirectoryFetch c ?a ?t = Some s'"
      using assms(1) excl by (simp add: OnDirectoryBlockRequest_def Let_def counted_def)
    from PerformDirectoryFetch_ok[OF this t(1) f] t(2) s(3) show ?thesis by (blast intro: step_okI quiet_trans)
  next
    case shared
    let ?t = "?s\<lparr>pendingDirectorySharedReads := (pendingDirectorySharedReads ?s)
      (?a := order_reads c (?ld # pendingDirectorySharedReads ?s ?a))\<rparr>"
    have t: "keys_ok ?t" "quiet c ?s ?t" using s(1) by (simp_all add: keys_ok_def quiet_def)
    have m: "set (order_reads c ds) = set ds" for ds
      using assms(4) unfolding order_ok_def by (metis set_mset_mset)
    have "order_reads c (d # ds) \<noteq> []" for d ds using m[of "d # ds"] by auto
    then have f: "fetching_ok ?a ?t" and b: "pendingDirectorySharedReads s ?a \<noteq> [] \<Longrightarrow> blocks_ok ?t"
      using s(2) shared assms(2) m
      by (auto simp: fetching_ok_def blocks_ok_def block_ok_def shared_ok_def counted_def)
    show ?thesis
    proof (cases "pendingDirectorySharedReads s ?a = []")
      case True
      then have "PerformDirectoryFetch c ?a ?t = Some s'"
        using assms(1) shared by (simp add: OnDirectoryBlockRequest_def Let_def counted_def)
      from PerformDirectoryFetch_ok[OF this t(1) f] t(2) s(3) show ?thesis by (blast intro: step_okI quiet_trans)
    next
      case False
      then have "s' = ?t" using assms(1) shared by (simp add: OnDirectoryBlockRequest_def Let_def counted_def)
      with t b[OF False] s(3) show ?thesis by (blast intro: step_okI quiet_trans)
    qed
  qed
qed

section \<open>The directory as a whole\<close>

lemma RecvMsg_ok:
  assumes "Directory_RecvMsg c m k s = Some s'" and "order_ok c" and "keys_ok s" and "blocks_ok s"
  shows "step_ok c s s'"
proof -
  let ?s = "counted Messages s"
  have s: "keys_ok ?s" "blocks_ok ?s" using assms(3,4) by simp_all
  have same: "keys_ok t \<and> quiet c ?s t \<and> same_tables ?s t \<Longrightarrow> step_ok c ?s t" for t
    using s(2) by (auto intro: step_okI simp: blocks_ok_same)
  have "step_ok c ?s s'"
  proof (cases k)
    case LocalConnection
    show ?thesis
    proof (cases m)
      case ReadMsg
      with assms(1) LocalConnection have h: "Directory_OnLocalRead c m ?s = Some s'" by (simp add: Directory_RecvMsg_def)
      with ReadMsg s OnLocalRead_quiet[OF _ h] OnLocalRead_keys[OF _ s(1) h] show ?thesis by (intro same) auto
    next
      case ReadResponseMsg
      with assms(1) LocalConnection have h: "Directory_OnLocalReadResponse c m ?s = Some s'" by (simp add: Directory_RecvMsg_def)
      with OnLocalReadResponse_ok[OF h s(1)] show ?thesis by (rule_tac same)
    next
      case WriteMsg
      with assms(1) LocalConnection have h: "Directory_OnLocalWrite c m ?s = Some s'" by (simp add: Directory_RecvMsg_def)
      with WriteMsg OnLocalWrite_ok[OF h _ s(1)] show ?thesis by (intro same) auto
    next
      case EvictionMsg
      with assms(1) LocalConnection have h: "Directory_OnLocalEviction c m ?s = Some s'" by (simp add: Directory_RecvMsg_def)
      with EvictionMsg OnLocalEviction_ok[OF h _ s] show ?thesis by (auto intro: step_okI)
    next
      case InvalidateResponseMsg
      with assms(1) LocalConnection have h: "Directory_OnLocalInvalidateResponse c m ?s = Some s'"
        by (simp add: Directory_RecvMsg_def)
      with InvalidateResponseMsg OnLocalInvalidateResponse_ok[OF h _ s] show ?thesis by simp
    qed (use assms(1) LocalConnection in \<open>simp_all add: Directory_RecvMsg_def Let_def\<close>)
  next
    case RemoteConnection
    then obtain n pc src dest over p where m: "m = NetworkMsg n pc src dest over p"
      using assms(1) by (cases m) (simp_all add: Directory_RecvMsg_def Let_def)
    let ?t = "DisposeMsg m ?s"
    have t: "keys_ok ?t" "blocks_ok ?t" "quiet c ?s ?t" using s by simp_all
    have same: "keys_ok u \<and> quiet c ?t u \<and> same_tables ?t u \<Longrightarrow> step_ok c ?t u" for u
      using t(2) by (auto intro: step_okI simp: blocks_ok_same)
    have dest: "dest = nodeID c" using assms(1) RemoteConnection m by (simp add: Directory_RecvMsg_def Let_def DebugAssert_def split: if_splits)
    have "step_ok c ?t s'"
    proof (cases p)
      case (ReadMsg _ _ _ _ _ _ dl)
      show ?thesis
      proof (cases dl)
        case True
        with assms(1) RemoteConnection m dest ReadMsg have "OnDirectoryBlockRequest c p src ?t = Some s'"
          by (simp add: Directory_RecvMsg_def DebugAssert_def)
        from OnDirectoryBlockRequest_ok[OF this _ _ assms(2) t(1,2)] ReadMsg True show ?thesis by simp
      next
        case False
        with assms(1) RemoteConnection m dest ReadMsg have h: "Directory_OnRemoteRead c p src ?t = Some s'"
          by (simp add: Directory_RecvMsg_def DebugAssert_def)
        with ReadMsg OnRemoteRead_quiet[OF _ h] OnRemoteRead_keys[OF _ t(1) h] show ?thesis by (intro same) auto
      qed
    next
      case (ReadResponseMsg _ _ _ _ _ _ dl)
      show ?thesis
      proof (cases dl)
        case True
        with assms(1) RemoteConnection m dest ReadResponseMsg have h: "OnDirectoryBlockResponse c p ?t = Some s'"
          by (simp add: Directory_RecvMsg_def DebugAssert_def)
        from OnDirectoryBlockResponse_ok[OF h t(1)] show ?thesis by (rule same)
      next
        case False
        with assms(1) RemoteConnection m dest ReadResponseMsg have "Directory_OnRemoteReadResponse c p src ?t = Some s'"
          by (simp add: Directory_RecvMsg_def DebugAssert_def)
        from OnRemoteReadResponse_ok[OF this _ assms(2) t(1,2)] ReadResponseMsg show ?thesis by simp
      qed
    next
      case WriteResponseMsg
      with assms(1) RemoteConnection m dest have "s' = DisposeMsg p (counted RemoteWriteResponses ?t)"
        by (simp add: Directory_RecvMsg_def DebugAssert_def Directory_OnRemoteWriteResponse_def)
      with t show ?thesis by (auto intro!: step_okI intro: quiet_trans[OF quiet_counted dispose_quiet])
    next
      case EvictionMsg
      with assms(1) RemoteConnection m dest have h: "Directory_OnRemoteEviction c p src ?t = Some s'"
        by (simp add: Directory_RecvMsg_def DebugAssert_def)
      with OnRemoteEviction_ok[OF h t(1)] records_blocks_ok[OF _ t(2)] show ?thesis by (auto intro: step_okI)
    next
      case EvictionResponseMsg
      with assms(1) RemoteConnection m dest t(1,2) show ?thesis
        by (auto simp: Directory_RecvMsg_def DebugAssert_def Directory_OnRemoteEvictionResponse_def Let_def SendMsg_def counted_def
          DisposeMsg_def keys_ok_def blocks_ok_def intro!: step_okI quietI split: if_splits)
    next
      case InvalidateMsg
      with assms(1) RemoteConnection m dest have h: "Directory_OnRemoteInvalidate c p src ?t = Some s'"
        by (simp add: Directory_RecvMsg_def DebugAssert_def)
      with InvalidateMsg OnRemoteInvalidate_quiet[OF _ h] OnRemoteInvalidate_keys[OF _ t(1) h] show ?thesis by (intro same) auto
    next
      case InvalidateResponseMsg
      with assms(1) RemoteConnection m dest have "Directory_OnRemoteInvalidateResponse c p src ?t = Some s'"
        by (simp add: Directory_RecvMsg_def DebugAssert_def)
      from OnRemoteInvalidateResponse_ok[OF this t(1,2)] show ?thesis .
    qed (use assms(1) RemoteConnection m dest in \<open>simp_all add: Directory_RecvMsg_def Let_def DebugAssert_def\<close>)
    with t(3) show ?thesis by (blast intro: step_ok_before)
  qed (use assms(1) in \<open>simp add: Directory_RecvMsg_def Let_def\<close>)
  then show ?thesis by (rule step_ok_before[OF quiet_counted])
qed

text \<open>
  What happens to a directory: messages of any kind in any order, the calls it has scheduled (the
  model lets one happen at any later time), and the clock.
\<close>

inductive directory_step :: "directory_config \<Rightarrow> directory \<Rightarrow> directory \<Rightarrow> bool" for c where
  receives: "Directory_RecvMsg c m k s = Some s' \<Longrightarrow> directory_step c s s'"
| called: "Scheduled (CB_OnDirectoryBlockRequest m n) d \<in> set (events s) \<Longrightarrow> OnDirectoryBlockRequest c m n s = Some s' \<Longrightarrow>
    directory_step c s s'"
| ticks: "directory_step c s (s\<lparr>currentTick := t\<rparr>)"

inductive directory_reach :: "directory_config \<Rightarrow> directory \<Rightarrow> bool" for c where
  starts: "events em = [] \<Longrightarrow> directory_reach c (Directory_Initialize em)"
| steps: "directory_reach c s \<Longrightarrow> directory_step c s s' \<Longrightarrow> directory_reach c s'"

lemma directory_step_ok:
  assumes "directory_step c s s'" and "order_ok c" and "dir_ok c s"
  shows "step_ok c s s'"
  using assms(1)
proof cases
  case (receives m k)
  with assms(2,3) show ?thesis by (auto simp: dir_ok_def intro: RecvMsg_ok)
next
  case (called m n d)
  moreover have "is_read m" and "directoryLookup m" using called(1) assms(3) by (auto simp: dir_ok_def list_all_iff)
  ultimately show ?thesis using assms(2,3) by (auto simp: dir_ok_def intro: OnDirectoryBlockRequest_ok)
next
  case (ticks t)
  with assms(3) show ?thesis by (auto simp: dir_ok_def keys_ok_def blocks_ok_def quiet_def intro!: step_okI)
qed

lemma directory_reach_ok:
  assumes "directory_reach c s" and "order_ok c"
  shows "dir_ok c s"
  using assms(1)
proof induction
  case (starts em)
  then show ?case
    by (simp add: dir_ok_def blocks_ok_def keys_ok_def Directory_Initialize_def shared_ok_def exclusive_ok_def block_ok_def)
next
  case (steps s s')
  from directory_step_ok[OF steps(2) assms(2) steps(3)] steps(3) show ?case
    by (auto simp: step_ok_def dir_ok_def grants_recorded_def)
qed

section \<open>Answers to shared reads\<close>

text \<open>An answer: who gets it, which request it answers, and whether it gives exclusive ownership.\<close>

fun answer_of :: "directory_config \<Rightarrow> connection event \<Rightarrow> (int \<times> nat \<times> bool) list" where
  "answer_of c (Sent RemoteConnection (NetworkMsg _ _ _ n _ (ReadResponseMsg _ _ _ _ _ _ _ excl _ sol)) _) = [(n, sol, excl)]"
| "answer_of c (Sent LocalConnection (ReadResponseMsg _ _ _ _ _ _ _ excl _ sol) _) = [(nodeID c, sol, excl)]"
| "answer_of c _ = []"

definition holders :: "BlockData \<Rightarrow> int set" where
  "holders b = (if owner b = InvalidNodeID then {} else {owner b}) \<union> set (sharers b)"

definition awaited :: "directory_config \<Rightarrow> directory \<Rightarrow> LookupData list \<Rightarrow> bool" where
  "awaited c s ds \<longleftrightarrow> (\<forall>d\<in>set ds. ld_source d \<noteq> InvalidNodeID \<and>
       (ld_source d = nodeID c \<longrightarrow> pendingLocalReads s (msgID (ld_msg d)) \<noteq> None)) \<and>
     distinct (map (\<lambda>d. msgID (ld_msg d)) (filter (\<lambda>d. ld_source d = nodeID c) ds))"

lemma holders_added: "order_ok c \<Longrightarrow> n \<noteq> InvalidNodeID \<Longrightarrow> holders (added_holder c n b) = insert n (holders b)"
proof -
  assume "order_ok c"
  then have "set (order_nodes c ns) = set ns" for ns unfolding order_ok_def by (metis set_mset_mset)
  moreover assume "n \<noteq> InvalidNodeID"
  ultimately show ?thesis by (auto simp: holders_def added_holder_def)
qed

lemma AddDirectoryShare_shared: "directoryData s a = Some b \<Longrightarrow>
    AddDirectoryShare c a n False s = Some (s\<lparr>directoryData := (directoryData s)(a := Some (added_holder c n b))\<rparr>)"
  by (auto simp: AddDirectoryShare_def DebugAssert_def added_holder_def fun_upd_idem)

lemma OnDirectoryBlockResponse_answers:
  assumes "pendingLocalReads s (solicitingMessage m) = Some ref" and "satisfied m" and "keys_ok s"
  obtains s' es where "OnDirectoryBlockResponse c m s = Some s'" and "events s' = events s @ es"
    and "concat (map (answer_of c) es) = [(nodeID c, solicitingMessage m, exclusiveOwnership m)]" and "same_tables s s'"
    and "pendingLocalReads s' = (pendingLocalReads s)(solicitingMessage m := None)"
proof -
  have "msgID ref = solicitingMessage m" using assms(1,3) by (simp add: keys_ok_def)
  with assms(1,2) that show ?thesis by (simp add: OnDirectoryBlockResponse_def Let_def out_defs same_tables_def)
qed

lemma answer_shared_answers:
  assumes "order_ok c" and "keys_ok s" and "pendingDirectorySharedReads s (addr m) \<noteq> []" and "directoryData s (addr m) = Some b"
    and "awaited c s ds"
  shows "\<exists>s' es b'. answer_shared c m ds s = Some s' \<and> events s' = events s @ es \<and>
    concat (map (answer_of c) es) = map (\<lambda>d. (ld_source d, msgID (ld_msg d), False)) ds \<and>
    directoryData s' (addr m) = Some b' \<and> holders b' = holders b \<union> ld_source ` set ds \<and>
    pendingDirectorySharedReads s' = pendingDirectorySharedReads s"
  using assms(2-)
proof (induction ds arbitrary: s b)
  case (Cons d ds)
  let ?r = "shared_answer m d (currentMsgStamp s)" and ?s = "s\<lparr>currentMsgStamp := currentMsgStamp s + 1\<rparr>"
  let ?t = "?s\<lparr>directoryData := (directoryData ?s)(addr m := Some (added_holder c (ld_source d) b))\<rparr>"
  have t: "AddDirectoryShare c (addr m) (ld_source d) False ?s = Some ?t" "keys_ok ?t"
    using Cons.prems by (simp_all add: AddDirectoryShare_shared keys_ok_def)
  have r: "satisfied ?r" "solicitingMessage ?r = msgID (ld_msg d)" "exclusiveOwnership ?r = False"
    by (simp_all add: shared_answer_def)
  obtain u es where u: "(if ld_source d = nodeID c then OnDirectoryBlockResponse c ?r ?t
        else Some (send_net c (generatingPC (ld_msg d)) (ld_source d) ?r (remoteSendTime c + satisfyTime c) ?t)) = Some u"
      "events u = events s @ es" "concat (map (answer_of c) es) = [(ld_source d, msgID (ld_msg d), False)]" "same_tables ?t u"
      "awaited c u ds"
  proof (cases "ld_source d = nodeID c")
    case True
    with Cons.prems(4) obtain ref where "pendingLocalReads ?t (solicitingMessage ?r) = Some ref"
      by (auto simp: awaited_def r)
    from OnDirectoryBlockResponse_answers[OF this r(1) t(2)] obtain u es where
      "OnDirectoryBlockResponse c ?r ?t = Some u" "events u = events ?t @ es"
      "concat (map (answer_of c) es) = [(nodeID c, msgID (ld_msg d), False)]" "same_tables ?t u"
      "pendingLocalReads u = (pendingLocalReads ?t)(msgID (ld_msg d) := None)" unfolding r by metis
    moreover from this(5) True Cons.prems(4) have "awaited c u ds"
      unfolding awaited_def by (auto simp: image_iff)
    ultimately show ?thesis using True by (intro that[of u es]) auto
  next
    case False
    with Cons.prems(4) show ?thesis
      by (intro that[of "send_net c (generatingPC (ld_msg d)) (ld_source d) ?r (remoteSendTime c + satisfyTime c) ?t"])
        (auto simp: out_defs shared_answer_def same_tables_def awaited_def)
  qed
  let ?u = "DisposeMsg (ld_msg d) u"
  have keys: "keys_ok ?u"
  proof (cases "ld_source d = nodeID c")
    case True
    with u(1) OnDirectoryBlockResponse_ok[OF _ t(2)] show ?thesis by auto
  next
    case False
    with u(1) t(2) show ?thesis by (auto simp: send_net_ok)
  qed
  have "\<exists>s' fs b'. answer_shared c m ds ?u = Some s' \<and> events s' = events ?u @ fs \<and>
    concat (map (answer_of c) fs) = map (\<lambda>d. (ld_source d, msgID (ld_msg d), False)) ds \<and>
    directoryData s' (addr m) = Some b' \<and> holders b' = holders (added_holder c (ld_source d) b) \<union> ld_source ` set ds \<and>
    pendingDirectorySharedReads s' = pendingDirectorySharedReads ?u"
    by (rule Cons.IH[OF keys]) (use Cons.prems u(4,5) in \<open>auto simp: same_tables_def awaited_def\<close>)
  then obtain s' fs b' where ih: "answer_shared c m ds ?u = Some s'" "events s' = events ?u @ fs"
    "concat (map (answer_of c) fs) = map (\<lambda>d. (ld_source d, msgID (ld_msg d), False)) ds"
    "directoryData s' (addr m) = Some b'" "holders b' = holders (added_holder c (ld_source d) b) \<union> ld_source ` set ds"
    "pendingDirectorySharedReads s' = pendingDirectorySharedReads ?u" by blast
  have "ld_source d \<noteq> InvalidNodeID" using Cons.prems(4) by (simp add: awaited_def)
  then have "holders b' = holders b \<union> ld_source ` set (d # ds)" using ih(5) holders_added[OF assms(1)] by auto
  moreover have "answer_shared c m (d # ds) s = Some s'"
    unfolding answer_shared_step[OF Cons.prems(2)] Option.bind_eq_Some_conv using t(1) u(1) ih(1) by blast
  moreover have "events s' = events s @ es @ Disposed (msgID (ld_msg d)) # fs" using ih(2) u(2) by (simp add: DisposeMsg_def)
  moreover have "pendingDirectorySharedReads s' = pendingDirectorySharedReads s" using ih(6) u(4) by (simp add: same_tables_def)
  ultimately show ?case using ih(3,4) u(3)
    by (intro exI[of _ s'] exI[of _ "es @ Disposed (msgID (ld_msg d)) # fs"] exI[of _ b']) simp
qed (simp add: fun_upd_idem)

section \<open>An example run\<close>

text \<open>Node 0 is the home of every block, node 9 the memory.\<close>

definition demo_directory :: directory_config where
  "demo_directory = \<lparr>localSendTime = 1, remoteSendTime = 2, lookupTime = 3, satisfyTime = 4, lookupRetryTime = 5, nodeID = 0,
     directoryNodeCalc = \<lparr>pageSize = 64, nodeSet = [0]\<rparr>, memoryNodeCalc = \<lparr>pageSize = 64, nodeSet = [9]\<rparr>,
     order_nodes = (\<lambda>ns. ns), order_reads = (\<lambda>ds. ds)\<rparr>"

fun receive_all :: "directory_config \<Rightarrow> (msg \<times> connection) list \<Rightarrow> directory \<Rightarrow> directory option" where
  "receive_all c [] s = Some s"
| "receive_all c ((m, k) # ms) s = Option.bind (Directory_RecvMsg c m k s) (receive_all c ms)"

definition demo_begin :: directory where
  "demo_begin = Directory_Initialize \<lparr>currentTick = 0, currentMsgStamp = 100, events = []\<rparr>"

text \<open>Two nodes read block 64; a third asks for itself a block that nobody holds.\<close>

definition demo_readers :: "directory option" where
  "demo_readers = receive_all demo_directory
     [(NetworkMsg 20 0 1 0 False (ReadMsg 5 0 64 32 False False True False), RemoteConnection),
      (NetworkMsg 21 0 2 0 False (ReadMsg 6 0 64 32 False False True False), RemoteConnection)] demo_begin"

definition demo_writer :: "directory option" where
  "demo_writer = receive_all demo_directory
     [(NetworkMsg 20 0 1 0 False (ReadMsg 5 0 64 32 True False True False), RemoteConnection)] demo_begin"

lemma demo_order: "order_ok demo_directory"
  by (simp add: order_ok_def demo_directory_def)

lemma receive_all_reach: "directory_reach c s \<Longrightarrow> receive_all c ms s = Some s' \<Longrightarrow> directory_reach c s'"
  by (induction c ms s rule: receive_all.induct) (fastforce simp: Option.bind_eq_Some_conv intro: directory_reach.steps receives)+

lemma demo_begin_reach: "directory_reach c demo_begin"
  unfolding demo_begin_def by (rule starts) simp

lemma demo_run_reach: "receive_all c ms demo_begin = Some s \<Longrightarrow> directory_reach c s"
  by (rule receive_all_reach[OF demo_begin_reach])

lemmas demo_dir_eval = demo_readers_def demo_writer_def demo_begin_def demo_directory_def Directory_Initialize_def
  Directory_RecvMsg_def OnDirectoryBlockRequest_def PerformDirectoryFetch_def CalcNodeID_def block_data_def
  DebugAssert_def InvalidNodeID_def out_defs

lemma demo_readers_eval:
  obtains s where "demo_readers = Some s" and "directory_reach demo_directory s"
    and "pendingDirectorySharedReads s 64 = [\<lparr>ld_msg = ReadMsg 6 0 64 32 False False True False, ld_source = 2\<rparr>,
      \<lparr>ld_msg = ReadMsg 5 0 64 32 False False True False, ld_source = 1\<rparr>]"
    and "directoryData s 64 = Some \<lparr>sharers = [], owner = InvalidNodeID\<rparr>"
proof -
  obtain s where s: "demo_readers = Some s \<and> pendingDirectorySharedReads s 64 =
      [\<lparr>ld_msg = ReadMsg 6 0 64 32 False False True False, ld_source = 2\<rparr>,
      \<lparr>ld_msg = ReadMsg 5 0 64 32 False False True False, ld_source = 1\<rparr>] \<and>
      directoryData s 64 = Some \<lparr>sharers = [], owner = InvalidNodeID\<rparr>"
    by (simp add: demo_dir_eval Let_def)
  then show ?thesis using that[of s] demo_run_reach[of demo_directory _ s] unfolding demo_readers_def by blast
qed

lemma demo_writer_eval:
  obtains s where "demo_writer = Some s" and "directory_reach demo_directory s"
    and "pendingDirectorySharedReads s 64 = []"
    and "pendingDirectoryExclusiveReads s 64 = Some \<lparr>ld_msg = ReadMsg 5 0 64 32 True False True False, ld_source = 1\<rparr>"
    and "directoryData s 64 = Some \<lparr>sharers = [], owner = InvalidNodeID\<rparr>"
proof -
  obtain s where s: "demo_writer = Some s \<and> pendingDirectorySharedReads s 64 = [] \<and>
      pendingDirectoryExclusiveReads s 64 = Some \<lparr>ld_msg = ReadMsg 5 0 64 32 True False True False, ld_source = 1\<rparr> \<and>
      directoryData s 64 = Some \<lparr>sharers = [], owner = InvalidNodeID\<rparr>"
    by (simp add: demo_dir_eval Let_def)
  then show ?thesis using that[of s] demo_run_reach[of demo_directory _ s] unfolding demo_writer_def by blast
qed

section \<open>The properties\<close>

text \<open>
  C11: Whatever messages a directory receives, in any order, and whenever the calls it schedules
  happen: a block is never being read shared and exclusive at once, a block with a pending read has
  a record, no node is listed twice as a sharer, and every table is keyed by what it holds.
\<close>
theorem directory_tables:
  assumes "order_ok c" and "directory_reach c s"
  shows "blocks_ok s \<and> keys_ok s"
  using directory_reach_ok[OF assms(2,1)] by (simp add: dir_ok_def)

theorem directory_tables_witness: "\<exists>s. demo_readers = Some s \<and> blocks_ok s \<and> keys_ok s"
  using demo_readers_eval directory_tables[OF demo_order] by metis

text \<open>
  C10: At most one writer: whenever a step of a directory sends a node the grant of exclusive
  ownership of a block, the directory then records that node as the owner of the block and no sharer.
\<close>
theorem directory_exclusive_alone:
  assumes "order_ok c" and "directory_reach c s" and "directory_step c s s'"
    and "events s' = events s @ es" and "e \<in> set es" and "grant_of c e = Some (a, n)"
  shows "directoryData s' a = Some \<lparr>sharers = [], owner = n\<rparr>"
proof -
  have "step_ok c s s'" using directory_step_ok[OF assms(3,1) directory_reach_ok[OF assms(2,1)]] .
  with assms(4) have "\<forall>a n. Some (a, n) \<in> grant_of c ` set es \<longrightarrow> directoryData s' a = Some \<lparr>sharers = [], owner = n\<rparr>"
    by (auto simp: step_ok_def grants_recorded_def)
  moreover have "Some (a, n) \<in> grant_of c ` set es" using assms(5,6) by (metis image_eqI)
  ultimately show ?thesis by blast
qed

theorem directory_exclusive_alone_witness:
  "\<exists>s s'. demo_writer = Some s \<and> Directory_RecvMsg demo_directory
      (NetworkMsg 22 0 9 0 False (ReadResponseMsg 40 0 64 32 True True False True False 5)) RemoteConnection s = Some s' \<and>
    directoryData s' 64 = Some \<lparr>sharers = [], owner = 1\<rparr>"
proof -
  let ?m = "NetworkMsg 22 0 9 0 False (ReadResponseMsg 40 0 64 32 True True False True False 5)"
  obtain s where s: "demo_writer = Some s" "directory_reach demo_directory s" "pendingDirectorySharedReads s 64 = []"
      "pendingDirectoryExclusiveReads s 64 = Some \<lparr>ld_msg = ReadMsg 5 0 64 32 True False True False, ld_source = 1\<rparr>"
      "directoryData s 64 = Some \<lparr>sharers = [], owner = InvalidNodeID\<rparr>" by (rule demo_writer_eval)
  obtain s' es where s': "Directory_RecvMsg demo_directory ?m RemoteConnection s = Some s'" "events s' = events s @ es"
      "Some (64, 1) \<in> grant_of demo_directory ` set es"
    using s(3-5) by (simp add: Directory_RecvMsg_def Directory_OnRemoteReadResponse_def answer_exclusive_def end_exclusive_def
      AddDirectoryShare_def EraseDirectoryShare_def DebugAssert_def demo_directory_def Let_def out_defs InvalidNodeID_def
      grants_exclusive_def)
  then obtain e where e: "e \<in> set es" "grant_of demo_directory e = Some (64, 1)" by auto
  from directory_exclusive_alone[OF demo_order s(2) receives[OF s'(1)] s'(2) e] s(1) s'(1) show ?thesis by blast
qed

text \<open>
  C12: When the block comes, every pending shared reader is answered, in one pass: each gets one
  answer, which names its request and attaches the block; each is recorded as a holder beside those
  that were, and none is pending any more. No reader gets exclusive ownership, not even a sole one: the
  comment at \<^verbatim>\<open>Directory.cpp:353\<close> announces it for "only one reader", but the test there compares before it
  increments and is always false. The side conditions: every reader is a proper node and a read of this
  node is still pending here, once (\<open>awaited\<close>); an answer that gives up ownership does not come from an owner
  who is listed as a sharer too.
\<close>
theorem directory_answers_readers:
  assumes "order_ok c" and "directory_reach c s"
    and "m = ReadResponseMsg i pc a sz True att False excl dirty sol"
    and "pendingDirectorySharedReads s a = ds" and "ds \<noteq> []" and "awaited c s ds"
    and "directoryData s a = Some b" and "excl \<Longrightarrow> owner b = src \<Longrightarrow> src \<notin> set (sharers b)"
  shows "\<exists>s' es b'. Directory_RecvMsg c (NetworkMsg k pc' src (nodeID c) ov m) RemoteConnection s = Some s' \<and>
    events s' = events s @ es \<and> concat (map (answer_of c) es) = map (\<lambda>d. (ld_source d, msgID (ld_msg d), False)) ds \<and>
    pendingDirectorySharedReads s' a = [] \<and> directoryData s' a = Some b' \<and>
    holders b' = holders (if excl then drop_holder src b else b) \<union> ld_source ` set ds"
proof -
  let ?n = "NetworkMsg k pc' src (nodeID c) ov m"
  let ?s = "counted RemoteReadResponses (DisposeMsg ?n (counted Messages s))"
  let ?b = "if excl then drop_holder src b else b"
  have ok: "blocks_ok s" "keys_ok s" using directory_reach_ok[OF assms(2,1)] by (simp_all add: dir_ok_def)
  then have excl_none: "pendingDirectoryExclusiveReads s a = None" using assms(4,5) by (auto simp: blocks_ok_def block_ok_def)
  let ?t = "?s\<lparr>directoryData := (directoryData s)(a := Some ?b)\<rparr>"
  have same: "?s = ?s\<lparr>directoryData := directoryData s\<rparr>" by (simp add: out_defs)
  have t: "(if excl then EraseDirectoryShare a src ?s else Some ?s) = Some ?t"
    using assms(7,8) by (auto simp: EraseDirectoryShare_def DebugAssert_def drop_holder_def counted_def DisposeMsg_def fun_upd_idem)
  have keys: "keys_ok ?t" using ok(2) by (simp add: keys_ok_def out_defs)
  have m: "addr m = a" "satisfied m" "\<not> directoryLookup m" "exclusiveOwnership m = excl" using assms(3) by simp_all
  have "\<exists>u es b'. answer_shared c m ds ?t = Some u \<and> events u = events ?t @ es \<and>
    concat (map (answer_of c) es) = map (\<lambda>d. (ld_source d, msgID (ld_msg d), False)) ds \<and>
    directoryData u (addr m) = Some b' \<and> holders b' = holders ?b \<union> ld_source ` set ds \<and>
    pendingDirectorySharedReads u = pendingDirectorySharedReads ?t"
    by (rule answer_shared_answers[OF assms(1) keys]) (use assms(4-6) m in \<open>simp_all add: out_defs awaited_def\<close>)
  then obtain u es b' where u: "answer_shared c m ds ?t = Some u" "events u = events ?t @ es"
      "concat (map (answer_of c) es) = map (\<lambda>d. (ld_source d, msgID (ld_msg d), False)) ds"
      "directoryData u a = Some b'" "holders b' = holders ?b \<union> ld_source ` set ds" using m by auto
  let ?u = "DisposeMsg m (u\<lparr>pendingDirectorySharedReads := (pendingDirectorySharedReads u)(a := [])\<rparr>)"
  have "Directory_RecvMsg c ?n RemoteConnection s = Directory_OnRemoteReadResponse c m src (DisposeMsg ?n (counted Messages s))"
    using assms(3) by (simp add: Directory_RecvMsg_def DebugAssert_def)
  also have "\<dots> = Option.bind (if excl then EraseDirectoryShare a src ?s else Some ?s) (\<lambda>s.
      Option.bind (if pendingDirectorySharedReads s a \<noteq> [] then Option.bind (answer_shared c m (pendingDirectorySharedReads s a) s)
          (\<lambda>s. Some (s\<lparr>pendingDirectorySharedReads := (pendingDirectorySharedReads s)(a := [])\<rparr>))
        else answer_exclusive c m src s) (\<lambda>s. Some (DisposeMsg m s)))"
    using assms(4,5,7) m excl_none
    by (simp add: Directory_OnRemoteReadResponse_def DebugAssert_def Let_def cong: if_cong)
  also have "\<dots> = Some ?u" unfolding t using assms(4,5) u(1) by simp
  finally have "Directory_RecvMsg c ?n RemoteConnection s = Some ?u" .
  moreover have "events ?u = events s @ Disposed k # es @ [Disposed (msgID m)]" using u(2) by (simp add: out_defs)
  ultimately show ?thesis using u(3-5)
    by (intro exI[of _ ?u] exI[of _ "Disposed k # es @ [Disposed (msgID m)]"] exI[of _ b']) simp
qed

theorem directory_answers_readers_witness:
  "\<exists>s s' es b'. demo_readers = Some s \<and> Directory_RecvMsg demo_directory
      (NetworkMsg 22 0 9 0 False (ReadResponseMsg 40 0 64 32 True True False True False 6)) RemoteConnection s = Some s' \<and>
    events s' = events s @ es \<and> concat (map (answer_of demo_directory) es) = [(2, 6, False), (1, 5, False)] \<and>
    pendingDirectorySharedReads s' 64 = [] \<and> directoryData s' 64 = Some b' \<and> holders b' = {1, 2}"
proof -
  let ?ds = "[\<lparr>ld_msg = ReadMsg 6 0 64 32 False False True False, ld_source = 2\<rparr>,
    \<lparr>ld_msg = ReadMsg 5 0 64 32 False False True False, ld_source = 1\<rparr>]"
  obtain s where s: "demo_readers = Some s" "directory_reach demo_directory s" "pendingDirectorySharedReads s 64 = ?ds"
      "directoryData s 64 = Some \<lparr>sharers = [], owner = InvalidNodeID\<rparr>" by (rule demo_readers_eval)
  have n: "nodeID demo_directory = 0" by (simp add: demo_directory_def)
  have a: "awaited demo_directory s ?ds" by (simp add: awaited_def n InvalidNodeID_def)
  have "holders (if True then drop_holder 9 \<lparr>sharers = [], owner = InvalidNodeID\<rparr> else \<lparr>sharers = [], owner = InvalidNodeID\<rparr>)
      \<union> ld_source ` set ?ds = {1, 2}" by (auto simp: holders_def drop_holder_def InvalidNodeID_def)
  with directory_answers_readers[OF demo_order s(2) refl s(3) _ a s(4), where src = 9 and excl = True and k = 22 and pc' = 0
      and ov = False and i = 40 and pc = 0 and sz = 32 and att = True and dirty = False and sol = 6] s(1) show ?thesis
    unfolding n by (auto 0 3)
qed

text \<open>
  A write never reaches the memory through the directories: its writer is told at once that it
  is done; if the block's home is the writer's own node, nothing else is sent; if it is another
  node, the write is sent there and that directory fails, for it has no case for a write.
\<close>
theorem directory_writes_lost:
  assumes "m = WriteMsg i pc a sz cb" and "CalcNodeID (directoryNodeCalc c) a = Some home"
    and "CalcNodeID (memoryNodeCalc c) a = Some node"
  shows "\<exists>s'. Directory_RecvMsg c m LocalConnection s = Some s' \<and>
    (let answer = Sent LocalConnection (WriteResponseMsg (currentMsgStamp s) pc a sz i) (localSendTime c);
         forward = NetworkMsg (currentMsgStamp s + 1) pc (nodeID c) home False m in
     if home = nodeID c then events s' = events s @ [answer]
     else events s' = events s @ [answer, Sent RemoteConnection forward (remoteSendTime c)] \<and>
       (\<forall>c' t. Directory_RecvMsg c' forward RemoteConnection t = None))"
  using assms
  by (simp add: Directory_RecvMsg_def Directory_OnLocalWrite_def Directory_OnRemoteWrite_def DebugAssert_def Let_def out_defs)

theorem directory_writes_lost_witness:
  "\<exists>s'. Directory_RecvMsg demo_directory (WriteMsg 8 0 64 4 True) LocalConnection demo_begin = Some s' \<and>
    events s' = [Sent LocalConnection (WriteResponseMsg 100 0 64 4 8) 1]"
proof -
  have "CalcNodeID (directoryNodeCalc demo_directory) 64 = Some 0" and "CalcNodeID (memoryNodeCalc demo_directory) 64 = Some 9"
    by (simp_all add: demo_directory_def CalcNodeID_def DebugAssert_def)
  from directory_writes_lost[OF refl this, of 8 0 4 True demo_begin]
  show ?thesis by (auto simp: demo_directory_def demo_begin_def Directory_Initialize_def)
qed

text \<open>
  Node 1 reads the block, then nodes 2 and 3; node 2 wants it for itself, and the directory invalidates
  the sharers, node 2 among them.
\<close>

definition upgrade_run :: "(msg \<times> connection) list" where
  "upgrade_run = map (\<lambda>(k, n, p). (NetworkMsg k 0 n 0 False p, RemoteConnection))
     [(20, 1, ReadMsg 5 0 64 32 False False True False),
      (21, 9, ReadResponseMsg 30 0 64 32 True True False True False 5),
      (22, 2, ReadMsg 6 0 64 32 False False True False),
      (23, 1, ReadResponseMsg 31 0 64 32 True True False False False 6),
      (24, 3, ReadMsg 7 0 64 32 False False True False),
      (25, 1, ReadResponseMsg 32 0 64 32 True True False False False 7),
      (26, 2, ReadMsg 8 0 64 32 True True True False),
      (27, 1, ReadResponseMsg 33 0 64 32 True True False True False 8)]"

fun invalidates :: "connection event \<Rightarrow> (int \<times> nat) list" where
  "invalidates (Sent RemoteConnection (NetworkMsg _ _ _ n _ (InvalidateMsg i _ _ _)) _) = [(n, i)]"
| "invalidates _ = []"

abbreviation from_node :: "directory_config \<Rightarrow> int \<Rightarrow> nat \<Rightarrow> msg \<Rightarrow> msg \<times> connection" where
  "from_node c n k p \<equiv> (NetworkMsg k 0 n (nodeID c) False p, RemoteConnection)"

lemma removeAll_pair: "distinct ns \<Longrightarrow> set ns = {y, n} \<Longrightarrow> y \<noteq> n \<Longrightarrow> removeAll y ns = [n]"
proof -
  assume ns: "distinct ns" "set ns = {y, n}" "y \<noteq> n"
  have single: "distinct xs \<Longrightarrow> set xs = {n} \<Longrightarrow> xs = [n]" for xs :: "'a list"
    by (cases xs; cases "tl xs") auto
  show "removeAll y ns = [n]" by (rule single) (use ns in \<open>auto simp: distinct_removeAll\<close>)
qed

lemma answer_after_grant:
  assumes "pendingDirectoryExclusiveReads s a = None" and "directoryData s a = Some \<lparr>sharers = [], owner = n\<rparr>"
  obtains s' es where "receive_all c [from_node c n k (InvalidateResponseMsg i pc a sz False sol)] s = Some s'"
    and "events s' = events s @ es" and "List.map_filter (grant_of c) es = []" and "concat (map invalidates es) = []"
    and "pendingDirectoryExclusiveReads s' a = None" and "pendingDirectorySharedReads s' = pendingDirectorySharedReads s"
    and "directoryData s' a = Some \<lparr>sharers = [], owner = InvalidNodeID\<rparr>"
  using assms
  by (simp add: Directory_RecvMsg_def Directory_OnRemoteInvalidateResponse_def write_back_def end_invalidations_def
      drop_holder_def DebugAssert_def Let_def out_defs List.map_filter_simps)

lemma unheld_block_granted:
  assumes "pendingDirectoryExclusiveReads s a = None" and "pendingDirectorySharedReads s a = []"
    and "directoryData s a = Some \<lparr>sharers = [], owner = InvalidNodeID\<rparr>"
    and "CalcNodeID (memoryNodeCalc c) a = Some t" and "t \<noteq> nodeID c" and "z \<notin> {nodeID c, InvalidNodeID}"
  obtains s' es where "receive_all c [from_node c z k (ReadMsg i pc a sz True has True cb),
      from_node c t k' (ReadResponseMsg i' pc' a sz' True True False True dirty sol)] s = Some s'"
    and "events s' = events s @ es" and "List.map_filter (grant_of c) es = [(a, z)]" and "concat (map invalidates es) = []"
    and "directoryData s' a = Some \<lparr>sharers = [], owner = z\<rparr>"
  using assms
  by (cases "t = InvalidNodeID")
    (simp_all add: Directory_RecvMsg_def OnDirectoryBlockRequest_def PerformDirectoryFetch_def block_data_def
      Directory_OnRemoteReadResponse_def EraseDirectoryShare_def answer_exclusive_def
      end_exclusive_def AddDirectoryShare_def DebugAssert_def Let_def out_defs List.map_filter_simps grants_exclusive_def)

lemma answer_before_last:
  assumes "pendingDirectoryExclusiveReads s a = Some e" and "ld_source e \<notin> {y, nodeID c}"
    and "directoryData s a = Some \<lparr>sharers = ns, owner = InvalidNodeID\<rparr>"
    and "removeAll y ns = [ld_source e]" and "y \<in> set ns" and "y \<noteq> InvalidNodeID"
  obtains s' es where "receive_all c [from_node c y k (InvalidateResponseMsg i pc a sz False sol)] s = Some s'"
    and "events s' = events s @ es" and "List.map_filter (grant_of c) es = [(a, ld_source e)]" and "concat (map invalidates es) = []"
    and "pendingDirectoryExclusiveReads s' a = None" and "pendingDirectorySharedReads s' = pendingDirectorySharedReads s"
    and "directoryData s' a = Some \<lparr>sharers = [], owner = ld_source e\<rparr>"
  using assms
  by (simp add: Directory_RecvMsg_def Directory_OnRemoteInvalidateResponse_def write_back_def end_invalidations_def
      invalidations_done_def drop_holder_def end_exclusive_def AddDirectoryShare_def DebugAssert_def Let_def out_defs
      List.map_filter_simps grants_exclusive_def)

text \<open>
  C28: Two owners at once. In every reachable state in which the last holders of a block, nodes \<open>n\<close> and \<open>y\<close>,
  are being invalidated because \<open>n\<close> wants the block for itself: the answer of \<open>y\<close> makes the directory grant
  \<open>n\<close> exclusive ownership, though the answer of \<open>n\<close> to its own invalidation is still on the way; that answer
  then erases \<open>n\<close> from the records, and the next node \<open>z\<close> that asks is granted exclusive ownership too,
  without an invalidation of \<open>n\<close>.
\<close>
theorem directory_two_owners:
  assumes "order_ok c" and "directory_reach c s"
    and "pendingDirectoryExclusiveReads s a = Some e" and "ld_source e = n"
    and "directoryData s a = Some \<lparr>sharers = ns, owner = InvalidNodeID\<rparr>" and "set ns = {y, n}" and "y \<noteq> n"
    and "n \<noteq> nodeID c" and "y \<noteq> InvalidNodeID" and "z \<notin> {nodeID c, InvalidNodeID}"
    and "CalcNodeID (memoryNodeCalc c) a = Some t" and "t \<noteq> nodeID c"
  shows "\<exists>s' es. receive_all c
      [from_node c y k1 (InvalidateResponseMsg i1 pc1 a sz1 False sol1),
       from_node c n k2 (InvalidateResponseMsg i2 pc2 a sz2 False sol2),
       from_node c z k3 (ReadMsg i3 pc3 a sz3 True has True cb),
       from_node c t k4 (ReadResponseMsg i4 pc4 a sz4 True True False True dirty sol4)] s = Some s' \<and>
    events s' = events s @ es \<and> List.map_filter (grant_of c) es = [(a, n), (a, z)] \<and> concat (map invalidates es) = [] \<and>
    directoryData s' a = Some \<lparr>sharers = [], owner = z\<rparr>"
proof -
  have ok: "blocks_ok s" using directory_reach_ok[OF assms(2,1)] by (simp add: dir_ok_def)
  then have ns: "removeAll y ns = [n]" using removeAll_pair blocks_ok_distinct[OF ok assms(5)] assms(6,7) by force
  have shared: "pendingDirectorySharedReads s a = []" using ok assms(3) by (auto simp: blocks_ok_def block_ok_def)
  obtain s1 e1 where 1: "receive_all c [from_node c y k1 (InvalidateResponseMsg i1 pc1 a sz1 False sol1)] s = Some s1"
    "events s1 = events s @ e1" "List.map_filter (grant_of c) e1 = [(a, n)]" "concat (map invalidates e1) = []"
    "pendingDirectoryExclusiveReads s1 a = None" "pendingDirectorySharedReads s1 = pendingDirectorySharedReads s"
    "directoryData s1 a = Some \<lparr>sharers = [], owner = n\<rparr>"
    by (rule answer_before_last[OF assms(3) _ assms(5), of y c]) (use assms(4,6-9) ns in auto)
  obtain s2 e2 where 2: "receive_all c [from_node c n k2 (InvalidateResponseMsg i2 pc2 a sz2 False sol2)] s1 = Some s2"
    "events s2 = events s1 @ e2" "List.map_filter (grant_of c) e2 = []" "concat (map invalidates e2) = []"
    "pendingDirectoryExclusiveReads s2 a = None" "pendingDirectorySharedReads s2 = pendingDirectorySharedReads s1"
    "directoryData s2 a = Some \<lparr>sharers = [], owner = InvalidNodeID\<rparr>"
    by (rule answer_after_grant[OF 1(5,7)])
  obtain s3 e3 where 3: "receive_all c [from_node c z k3 (ReadMsg i3 pc3 a sz3 True has True cb),
      from_node c t k4 (ReadResponseMsg i4 pc4 a sz4 True True False True dirty sol4)] s2 = Some s3"
    "events s3 = events s2 @ e3" "List.map_filter (grant_of c) e3 = [(a, z)]" "concat (map invalidates e3) = []"
    "directoryData s3 a = Some \<lparr>sharers = [], owner = z\<rparr>"
    by (rule unheld_block_granted[OF 2(5) _ 2(7) assms(11,12,10)]) (use 1(6) 2(6) shared in auto)
  show ?thesis
    by (rule exI[of _ s3], rule exI[of _ "e1 @ e2 @ e3"])
      (use 1 2 3 in \<open>auto simp: Option.bind_eq_Some_conv List.map_filter_def\<close>)
qed

theorem directory_two_owners_witness:
  "\<exists>s s' es. receive_all demo_directory upgrade_run demo_begin = Some s \<and> receive_all demo_directory
      [from_node demo_directory 3 28 (InvalidateResponseMsg 34 0 64 32 False 114),
       from_node demo_directory 2 29 (InvalidateResponseMsg 35 0 64 32 False 116),
       from_node demo_directory 3 40 (ReadMsg 9 0 64 32 True False True False),
       from_node demo_directory 9 41 (ReadResponseMsg 36 0 64 32 True True False True False 9)] s = Some s' \<and>
    events s' = events s @ es \<and> List.map_filter (grant_of demo_directory) es = [(64, 2), (64, 3)]"
proof -
  have "returns (receive_all demo_directory upgrade_run demo_begin) (\<lambda>s.
      map_option ld_source (pendingDirectoryExclusiveReads s 64) = Some 2 \<and>
      map_option sharers (directoryData s 64) = Some [3, 2] \<and> map_option owner (directoryData s 64) = Some (-2) \<and>
      concat (map invalidates (events s)) = [(3, 114), (2, 116)])"
    by code_simp
  then obtain s e where s: "receive_all demo_directory upgrade_run demo_begin = Some s"
      "pendingDirectoryExclusiveReads s 64 = Some e" "ld_source e = 2"
      "directoryData s 64 = Some \<lparr>sharers = [3, 2], owner = InvalidNodeID\<rparr>"
    by (auto simp: InvalidNodeID_def elim!: returnsE)
  have "CalcNodeID (memoryNodeCalc demo_directory) 64 = Some 9"
    by (simp add: demo_directory_def CalcNodeID_def DebugAssert_def)
  then have "\<exists>s' es. receive_all demo_directory
      [from_node demo_directory 3 28 (InvalidateResponseMsg 34 0 64 32 False 114),
       from_node demo_directory 2 29 (InvalidateResponseMsg 35 0 64 32 False 116),
       from_node demo_directory 3 40 (ReadMsg 9 0 64 32 True False True False),
       from_node demo_directory 9 41 (ReadResponseMsg 36 0 64 32 True True False True False 9)] s = Some s' \<and>
    events s' = events s @ es \<and> List.map_filter (grant_of demo_directory) es = [(64, 2), (64, 3)] \<and>
    concat (map invalidates es) = [] \<and> directoryData s' 64 = Some \<lparr>sharers = [], owner = 3\<rparr>"
    by (intro directory_two_owners[OF demo_order demo_run_reach[OF s(1)] s(2-4)])
      (auto simp: InvalidNodeID_def demo_directory_def)
  with s(1) show ?thesis by blast
qed

end
