(* ===== verification/BIPDirectory.thy ===== *)
theory BIPDirectory
  imports Directory "HOL-Library.Word"
begin

text \<open>
  The directory of \<^verbatim>\<open>MemSys/Devices/BIPDirectory.cpp\<close>, handler by handler. It differs from
  \<^verbatim>\<open>Directory.cpp\<close> in three ways: the memory hangs on the home directory itself, an exclusive read
  counts the answers of the sharers it invalidates, and a holder that cannot answer a read makes the
  directory fetch the block again (\<open>DirectoryNakMsg\<close>). Fields and helper functions that both
  directories have in the same text are those of \<^verbatim>\<open>Directory\<close>.
\<close>

section \<open>State\<close>

datatype bip_connection = LocalCacheConnection | LocalMemoryConnection | RemoteNodeConnection

record BIPLookupData = LookupData +
  invalidateResponsesExpected :: nat
  invalidateResponsesReceived :: nat

record bip_config = directory_config +
  order_lookups :: "BIPLookupData list \<Rightarrow> BIPLookupData list"

record bip_directory = "bip_connection event_manager" +
  received :: "directory_counter \<Rightarrow> nat"
  remoteMessagesReceived :: "64 word"
  pendingLocalReads :: "nat \<Rightarrow> msg option"
  reversePendingLocalReads :: "nat \<Rightarrow> msg list"
  pendingRemoteReads :: "nat \<Rightarrow> LookupData option"
  pendingRemoteInvalidates :: "nat \<Rightarrow> LookupData option"
  pendingDirectorySharedReads :: "nat \<Rightarrow> BIPLookupData list"
  pendingDirectoryExclusiveReads :: "nat \<Rightarrow> BIPLookupData option"
  pendingEviction :: "nat set"
  pendingMemoryReadAccesses :: "nat \<Rightarrow> msg option"
  pendingMemoryWriteAccesses :: "nat \<Rightarrow> msg option"
  directoryData :: "nat \<Rightarrow> BlockData option"

definition BIPDirectory_Initialize :: "bip_connection event_manager \<Rightarrow> bip_directory" where
  "BIPDirectory_Initialize em = \<lparr>currentTick = currentTick em, currentMsgStamp = currentMsgStamp em, events = events em,
     received = (\<lambda>_. 0), remoteMessagesReceived = 0, pendingLocalReads = (\<lambda>_. None), reversePendingLocalReads = (\<lambda>_. []),
     pendingRemoteReads = (\<lambda>_. None), pendingRemoteInvalidates = (\<lambda>_. None), pendingDirectorySharedReads = (\<lambda>_. []),
     pendingDirectoryExclusiveReads = (\<lambda>_. None), pendingEviction = {}, pendingMemoryReadAccesses = (\<lambda>_. None),
     pendingMemoryWriteAccesses = (\<lambda>_. None), directoryData = (\<lambda>_. None)\<rparr>"

definition bip_counted :: "directory_counter \<Rightarrow> bip_directory \<Rightarrow> bip_directory" where
  "bip_counted k s = s\<lparr>received := (received s)(k := received s k + 1)\<rparr>"

definition bip_remote :: "bip_directory \<Rightarrow> bip_directory" where
  "bip_remote s = s\<lparr>remoteMessagesReceived := remoteMessagesReceived s + 1\<rparr>"

definition bip_send_net :: "bip_config \<Rightarrow> nat \<Rightarrow> int \<Rightarrow> msg \<Rightarrow> nat \<Rightarrow> bip_directory \<Rightarrow> bip_directory" where
  "bip_send_net c pc dest payload delay s =
     send RemoteNodeConnection (\<lambda>k. NetworkMsg k pc (nodeID c) dest False payload) delay s"

definition bip_replicate :: "msg \<Rightarrow> bip_directory \<Rightarrow> msg \<times> bip_directory" where
  "bip_replicate m s = CreateMsg (\<lambda>_. m) s"

section \<open>Sharers and owner\<close>

definition BIPDirectory_EraseDirectoryShare :: "msg \<Rightarrow> int \<Rightarrow> bip_directory \<Rightarrow> bip_directory option" where
  "BIPDirectory_EraseDirectoryShare m n s = do {
     b \<leftarrow> directoryData s (addr m);
     Some (s\<lparr>directoryData := (directoryData s)(addr m := Some (drop_holder n b))\<rparr>) }"

definition BIPDirectory_AddDirectoryShare :: "bip_config \<Rightarrow> nat \<Rightarrow> int \<Rightarrow> bool \<Rightarrow> bip_directory \<Rightarrow> bip_directory option" where
  "BIPDirectory_AddDirectoryShare c a n exclusive s = do {
     b \<leftarrow> directoryData s a;
     DebugAssert (\<not> exclusive \<or> (sharers b = [] \<and> (owner b = n \<or> owner b = InvalidNodeID)));
     Some (if owner b = n \<or> owner b = InvalidNodeID
       then s\<lparr>directoryData := (directoryData s)(a := Some (b\<lparr>owner := n\<rparr>))\<rparr>
       else if n \<notin> set (sharers b)
       then s\<lparr>directoryData := (directoryData s)(a := Some (b\<lparr>sharers := order_nodes c (n # sharers b)\<rparr>))\<rparr>
       else s) }"

section \<open>Messages to the memory and to other directories\<close>

definition SendReadRequestToMemory :: "bip_config \<Rightarrow> msg \<Rightarrow> bip_directory \<Rightarrow> bip_directory option" where
  "SendReadRequestToMemory c m s = do {
     DebugAssert (pendingMemoryReadAccesses s (msgID m) = None);
     let s = s\<lparr>pendingMemoryReadAccesses := (pendingMemoryReadAccesses s)(msgID m := Some m)\<rparr>;
     Some (send_replica LocalMemoryConnection m (localSendTime c) s) }"

definition SendWriteRequestToMemory :: "bip_config \<Rightarrow> msg \<Rightarrow> bip_directory \<Rightarrow> bip_directory option" where
  "SendWriteRequestToMemory c m s = do {
     DebugAssert (pendingMemoryWriteAccesses s (msgID m) = None);
     let s = s\<lparr>pendingMemoryWriteAccesses := (pendingMemoryWriteAccesses s)(msgID m := Some m)\<rparr>;
     Some (send_replica LocalMemoryConnection m (localSendTime c) s) }"

definition SendMessageToNetwork :: "bip_config \<Rightarrow> msg \<Rightarrow> int \<Rightarrow> bip_directory \<Rightarrow> bip_directory option" where
  "SendMessageToNetwork c m dest s = do {
     DebugAssert (dest \<noteq> nodeID c);
     Some (bip_send_net c (generatingPC m) dest m (remoteSendTime c) s) }"

definition SendDirectoryNak :: "bip_config \<Rightarrow> msg \<Rightarrow> bip_directory \<Rightarrow> bip_directory option" where
  "SendDirectoryNak c m s = do {
     dirNode \<leftarrow> CalcNodeID (directoryNodeCalc c) (addr m);
     DebugAssert (dirNode \<noteq> InvalidNodeID);
     if dirNode = nodeID c then Some (ScheduleEvent (CB_OnRemoteDirectoryNak m (nodeID c)) (localSendTime c) s)
     else SendMessageToNetwork c m dirNode s }"

text \<open>
  The overloaded variants create the message. Those for an invalidation and a read are only called
  under \<^verbatim>\<open>if(false)\<close>.
\<close>

definition SendDirectoryNak_InvalidateMsg :: "bip_config \<Rightarrow> msg \<Rightarrow> bip_directory \<Rightarrow> bip_directory option" where
  "SendDirectoryNak_InvalidateMsg c m s =
     (let (dnk, s) = CreateMsg (\<lambda>k. DirectoryNakMsg k (generatingPC m) (addr m) (msize m) True False (msgID m)) s in
      SendDirectoryNak c dnk s)"

definition SendDirectoryNak_ReadMsg :: "bip_config \<Rightarrow> msg \<Rightarrow> bip_directory \<Rightarrow> bip_directory option" where
  "SendDirectoryNak_ReadMsg c m s =
     (let (dnk, s) = CreateMsg (\<lambda>k. DirectoryNakMsg k (generatingPC m) (addr m) (msize m) False True (msgID m)) s in
      SendDirectoryNak c dnk s)"

definition SendDirectoryNak_ReadResponseMsg :: "bip_config \<Rightarrow> msg \<Rightarrow> bip_directory \<Rightarrow> bip_directory option" where
  "SendDirectoryNak_ReadResponseMsg c m s =
     (let (dnk, s) = CreateMsg (\<lambda>k. DirectoryNakMsg k (generatingPC m) (addr m) (msize m) False True (msgID m)) s in
      SendDirectoryNak c dnk s)"

text \<open>Data that come back are written to the memory of this node.\<close>

definition bip_write_back :: "bip_config \<Rightarrow> msg \<Rightarrow> bip_directory \<Rightarrow> bip_directory option" where
  "bip_write_back c m s = (if blockAttached m
     then let (wm, s) = CreateMsg (\<lambda>k. WriteMsg k (generatingPC m) (addr m) (msize m) False) s in SendWriteRequestToMemory c wm s
     else Some s)"

section \<open>Requests of other nodes\<close>

text \<open>The flags that the method computes from \<open>reversePendingLocalReads\<close> are not used.\<close>

definition BIPDirectory_OnRemoteReadCache :: "bip_config \<Rightarrow> msg \<Rightarrow> int \<Rightarrow> bip_directory \<Rightarrow> bip_directory option" where
  "BIPDirectory_OnRemoteReadCache c m src s = do {
     let s = bip_counted RemoteReads (bip_remote s);
     DebugAssert (\<not> directoryLookup m);
     DebugAssert (pendingRemoteReads s (msgID m) = None);
     let s = s\<lparr>pendingRemoteReads := (pendingRemoteReads s)(msgID m := Some \<lparr>ld_msg = m, ld_source = src\<rparr>)\<rparr>;
     Some (send_replica LocalCacheConnection m (localSendTime c) s) }"

definition bip_block_data :: "bip_directory \<Rightarrow> nat \<Rightarrow> BlockData" where
  "bip_block_data s a = (case directoryData s a of None \<Rightarrow> \<lparr>sharers = [], owner = InvalidNodeID\<rparr> | Some b \<Rightarrow> b)"

definition BIPDirectory_PerformDirectoryFetch :: "bip_config \<Rightarrow> nat \<Rightarrow> bip_directory \<Rightarrow> bip_directory option" where
  "BIPDirectory_PerformDirectoryFetch c a s = do {
     DebugAssert (pendingDirectorySharedReads s a \<noteq> [] \<or> pendingDirectoryExclusiveReads s a \<noteq> None);
     DebugAssert (pendingDirectorySharedReads s a = [] \<or> pendingDirectoryExclusiveReads s a = None);
     let ld = (if pendingDirectorySharedReads s a \<noteq> [] then hd (pendingDirectorySharedReads s a)
       else the (pendingDirectoryExclusiveReads s a));
     let (m, s) = bip_replicate (ld_msg ld) s;
     let m = fetch_msg m;
     let b = bip_block_data s (addr m);
     let s = s\<lparr>directoryData := (directoryData s)(addr m := Some b)\<rparr>;
     if owner b = InvalidNodeID \<and> sharers b = [] then
       if pendingMemoryReadAccesses s (msgID m) = None then SendReadRequestToMemory c m s else Some s
     else do {
       let target = (if owner b \<noteq> InvalidNodeID then owner b else hd (sharers b));
       if target = nodeID c then BIPDirectory_OnRemoteReadCache c m (nodeID c) s
       else Some (bip_send_net c (generatingPC m) target m (lookupTime c + remoteSendTime c) s) } }"

definition BIPDirectory_OnRemoteWrite :: "bip_config \<Rightarrow> msg \<Rightarrow> int \<Rightarrow> bip_directory \<Rightarrow> bip_directory option" where
  "BIPDirectory_OnRemoteWrite c m src s = do {
     let s = bip_counted RemoteWrites (bip_remote s);
     home \<leftarrow> CalcNodeID (directoryNodeCalc c) (addr m);
     DebugAssert (nodeID c = home);
     SendWriteRequestToMemory c m s }"

definition BIPDirectory_OnRemoteWriteResponse :: "bip_config \<Rightarrow> msg \<Rightarrow> int \<Rightarrow> bip_directory \<Rightarrow> bip_directory option" where
  "BIPDirectory_OnRemoteWriteResponse c m src s = Some (DisposeMsg m (bip_counted RemoteWriteResponses (bip_remote s)))"

definition BIPDirectory_OnRemoteEviction :: "bip_config \<Rightarrow> msg \<Rightarrow> int \<Rightarrow> bip_directory \<Rightarrow> bip_directory option" where
  "BIPDirectory_OnRemoteEviction c m src s = do {
     let s = bip_counted RemoteEvictions (bip_remote s);
     b \<leftarrow> directoryData s (addr m);
     let s = s\<lparr>directoryData := (directoryData s)(addr m := Some (drop_holder src b))\<rparr>;
     s \<leftarrow> (if src = nodeID c then do {
         DebugAssert (addr m \<in> pendingEviction s);
         Some (s\<lparr>pendingEviction := pendingEviction s - {addr m}\<rparr>) }
       else do {
         let (rm, s) = CreateMsg (\<lambda>k. EvictionResponseMsg k (generatingPC m) (addr m) (msize m) (msgID m)) s;
         Some (bip_send_net c (generatingPC m) src rm (remoteSendTime c) s) });
     bip_write_back c m s }"

definition BIPDirectory_OnRemoteEvictionResponse :: "bip_config \<Rightarrow> msg \<Rightarrow> int \<Rightarrow> bip_directory \<Rightarrow> bip_directory option" where
  "BIPDirectory_OnRemoteEvictionResponse c m src s = do {
     let s = bip_counted RemoteEvictionResponses (bip_remote s);
     DebugAssert (addr m \<in> pendingEviction s);
     let s = s\<lparr>pendingEviction := pendingEviction s - {addr m}\<rparr>;
     Some (SendMsg LocalCacheConnection m (localSendTime c) s) }"

definition BIPDirectory_OnRemoteInvalidate :: "bip_config \<Rightarrow> msg \<Rightarrow> int \<Rightarrow> bip_directory \<Rightarrow> bip_directory option" where
  "BIPDirectory_OnRemoteInvalidate c m src s = do {
     let s = bip_counted RemoteInvalidates (bip_remote s);
     DebugAssert (pendingRemoteInvalidates s (addr m) = None);
     let s = s\<lparr>pendingRemoteInvalidates := (pendingRemoteInvalidates s)(addr m := Some \<lparr>ld_msg = m, ld_source = src\<rparr>)\<rparr>;
     Some (send_replica LocalCacheConnection m (localSendTime c) s) }"

definition BIPDirectory_OnRemoteDirectoryNak :: "bip_config \<Rightarrow> msg \<Rightarrow> int \<Rightarrow> bip_directory \<Rightarrow> bip_directory option" where
  "BIPDirectory_OnRemoteDirectoryNak c m src s = do {
     let s = bip_remote s;
     if isReadResponse m then
       if pendingDirectorySharedReads s (addr m) \<noteq> [] \<or> pendingDirectoryExclusiveReads s (addr m) \<noteq> None then do {
         DebugAssert (pendingDirectorySharedReads s (addr m) = [] \<or> pendingDirectoryExclusiveReads s (addr m) = None);
         BIPDirectory_PerformDirectoryFetch c (addr m) s }
       else Some s
     else if isInvalidateResponse m then do {
       let (inv, s) = CreateMsg (\<lambda>k. InvalidateMsg k (generatingPC m) (addr m) (msize m)) s;
       if src \<noteq> nodeID c then Some (bip_send_net c (generatingPC m) src inv (lookupTime c + remoteSendTime c) s)
       else BIPDirectory_OnRemoteInvalidate c inv (nodeID c) s }
     else None }"

section \<open>Requests of the local side\<close>

definition BIPDirectory_OnLocalRead :: "bip_config \<Rightarrow> msg \<Rightarrow> bip_directory \<Rightarrow> bip_directory option" where
  "BIPDirectory_OnLocalRead c m s = do {
     remoteNode \<leftarrow> CalcNodeID (directoryNodeCalc c) (addr m);
     let s = bip_counted LocalReads s;
     DebugAssert (pendingLocalReads s (msgID m) = None);
     let s = s\<lparr>pendingLocalReads := (pendingLocalReads s)(msgID m := Some m),
       reversePendingLocalReads := (reversePendingLocalReads s)(addr m := m # reversePendingLocalReads s (addr m))\<rparr>;
     let (forward, s) = bip_replicate m s;
     let forward = lookup_msg forward;
     Some (if remoteNode = nodeID c
       then ScheduleEvent (CB_OnDirectoryBlockRequest forward (nodeID c)) (localSendTime c) s
       else bip_send_net c (generatingPC m) remoteNode forward (remoteSendTime c) s) }"

definition BIPDirectory_OnLocalReadResponse :: "bip_config \<Rightarrow> msg \<Rightarrow> bip_directory \<Rightarrow> bip_directory option" where
  "BIPDirectory_OnLocalReadResponse c m s = do {
     let s = bip_counted LocalReadResponses s;
     d \<leftarrow> pendingRemoteReads s (solicitingMessage m);
     DebugAssert (msgID (ld_msg d) = solicitingMessage m);
     if \<not> satisfied m then do {
       s \<leftarrow> SendDirectoryNak_ReadResponseMsg c m s;
       Some (s\<lparr>pendingRemoteReads := (pendingRemoteReads s)(msgID (ld_msg d) := None)\<rparr>) }
     else do {
       let (nm, s) = CreateMsg (\<lambda>k. NetworkMsg k (generatingPC (ld_msg d)) (nodeID c) (ld_source d) False (with_lookup False m)) s;
       let (_, s) = bip_replicate m s;
       let s = DisposeMsg m (DisposeMsg (ld_msg d) s);
       let s = s\<lparr>pendingRemoteReads := (pendingRemoteReads s)(msgID (ld_msg d) := None)\<rparr>;
       Some (SendMsg RemoteNodeConnection nm (remoteSendTime c) s) } }"

definition BIPDirectory_OnLocalWrite :: "bip_config \<Rightarrow> msg \<Rightarrow> bip_directory \<Rightarrow> bip_directory option" where
  "BIPDirectory_OnLocalWrite c m s = do {
     let s = bip_counted LocalWrites s;
     home \<leftarrow> CalcNodeID (directoryNodeCalc c) (addr m);
     let s = send LocalCacheConnection (\<lambda>k. WriteResponseMsg k (generatingPC m) (addr m) (msize m) (msgID m)) (localSendTime c) s;
     if home = nodeID c then BIPDirectory_OnRemoteWrite c m (nodeID c) s
     else Some (bip_send_net c (generatingPC m) home m (remoteSendTime c) s) }"

definition BIPDirectory_OnLocalEviction :: "bip_config \<Rightarrow> msg \<Rightarrow> bip_directory \<Rightarrow> bip_directory option" where
  "BIPDirectory_OnLocalEviction c m s = do {
     let s = bip_counted LocalEvictions s;
     if addr m \<notin> pendingEviction s then do {
       let s = s\<lparr>pendingEviction := insert (addr m) (pendingEviction s)\<rparr>;
       let s = send LocalCacheConnection (\<lambda>k. EvictionResponseMsg k (generatingPC m) (addr m) (msize m) (msgID m)) (localSendTime c) s;
       home \<leftarrow> CalcNodeID (directoryNodeCalc c) (addr m);
       if home = nodeID c then BIPDirectory_OnRemoteEviction c m (nodeID c) s
       else Some (bip_send_net c (generatingPC m) home m (remoteSendTime c) s) }
     else Some s }"

section \<open>Answers to the directory\<close>

text \<open>
  The read found in \<open>reversePendingLocalReads\<close> is erased; the code looks for its number among the reads
  of the block, whatever their order.
\<close>

fun erase_read :: "nat \<Rightarrow> msg list \<Rightarrow> msg list" where
  "erase_read n [] = []"
| "erase_read n (m # ms) = (if msgID m = n then ms else m # erase_read n ms)"

definition BIPDirectory_OnDirectoryBlockResponse :: "bip_config \<Rightarrow> msg \<Rightarrow> bip_directory \<Rightarrow> bip_directory option" where
  "BIPDirectory_OnDirectoryBlockResponse c m s = (let a = addr m; n = solicitingMessage m in do {
     let s = bip_counted DirectoryResponses s;
     ref \<leftarrow> pendingLocalReads s n;
     let erased = (reversePendingLocalReads s)(a := erase_read n (reversePendingLocalReads s a));
     if \<not> satisfied m then
       BIPDirectory_OnLocalRead c ref (s\<lparr>pendingLocalReads := (pendingLocalReads s)(n := None), reversePendingLocalReads := erased\<rparr>)
     else do {
       let (r, s) = CreateMsg (\<lambda>k. ReadResponseMsg k (generatingPC ref) (addr ref) (msize ref) True (blockAttached m) False
         (exclusiveOwnership m) False (msgID ref)) s;
       let s = DisposeMsg ref s;
       let s = s\<lparr>pendingLocalReads := (pendingLocalReads s)(n := None), reversePendingLocalReads := erased\<rparr>;
       let s = (if exclusiveOwnership m then s\<lparr>reversePendingLocalReads := (reversePendingLocalReads s)(a := [])\<rparr> else s);
       Some (SendMsg LocalCacheConnection r (satisfyTime c + localSendTime c) (DisposeMsg m s)) } })"

fun add_readers :: "bip_config \<Rightarrow> nat \<Rightarrow> BIPLookupData list \<Rightarrow> bip_directory \<Rightarrow> bip_directory option" where
  "add_readers c a [] s = Some s"
| "add_readers c a (d # ds) s = do { s \<leftarrow> BIPDirectory_AddDirectoryShare c a (ld_source d) False s; add_readers c a ds s }"

definition one_reader :: "BlockData \<Rightarrow> bool" where
  "one_reader b \<longleftrightarrow> (if owner b \<noteq> InvalidNodeID then 1 else 0) + length (sharers b) = 1"

fun answer_readers :: "bip_config \<Rightarrow> msg \<Rightarrow> bool \<Rightarrow> BIPLookupData list \<Rightarrow> bip_directory \<Rightarrow> bip_directory option" where
  "answer_readers c m isOneReader [] s = Some s"
| "answer_readers c m isOneReader (d # ds) s = do {
     let (r, s) = CreateMsg (\<lambda>k. ReadResponseMsg k (generatingPC (ld_msg d)) (addr m) (msize m) True True True isOneReader False
       (msgID (ld_msg d))) s;
     s \<leftarrow> (if ld_source d = nodeID c then BIPDirectory_OnDirectoryBlockResponse c r s
       else Some (bip_send_net c (generatingPC (ld_msg d)) (ld_source d) r (remoteSendTime c + satisfyTime c) s));
     answer_readers c m isOneReader ds (DisposeMsg (ld_msg d) s) }"

fun bip_invalidate_sharers :: "bip_config \<Rightarrow> msg \<Rightarrow> int list \<Rightarrow> bip_directory \<Rightarrow> bip_directory option" where
  "bip_invalidate_sharers c m [] s = Some s"
| "bip_invalidate_sharers c m (n # ns) s = do {
     let (inv, s) = CreateMsg (\<lambda>k. InvalidateMsg k (generatingPC m) (addr m) (msize m)) s;
     s \<leftarrow> (if n \<noteq> nodeID c then Some (bip_send_net c (generatingPC m) n inv (lookupTime c + remoteSendTime c) s)
       else BIPDirectory_OnRemoteInvalidate c inv (nodeID c) s);
     bip_invalidate_sharers c m ns s }"

definition bip_end_exclusive :: "bip_config \<Rightarrow> nat \<Rightarrow> BIPLookupData \<Rightarrow> bip_directory \<Rightarrow> bip_directory option" where
  "bip_end_exclusive c a e s = do {
     s \<leftarrow> BIPDirectory_AddDirectoryShare c a (ld_source e) True s;
     let s = DisposeMsg (ld_msg e) s;
     Some (s\<lparr>pendingDirectoryExclusiveReads := (pendingDirectoryExclusiveReads s)(a := None)\<rparr>) }"

text \<open>The readers of a block are all recorded before any of them is answered.\<close>

definition bip_answer_shared :: "bip_config \<Rightarrow> msg \<Rightarrow> bip_directory \<Rightarrow> bip_directory option" where
  "bip_answer_shared c m s = (let a = addr m; ds = pendingDirectorySharedReads s a in do {
     s \<leftarrow> add_readers c a ds s;
     b \<leftarrow> directoryData s a;
     s \<leftarrow> answer_readers c m (one_reader b) ds s;
     Some (s\<lparr>pendingDirectorySharedReads := (pendingDirectorySharedReads s)(a := [])\<rparr>) })"

definition bip_answer_exclusive :: "bip_config \<Rightarrow> msg \<Rightarrow> int \<Rightarrow> bip_directory \<Rightarrow> bip_directory option" where
  "bip_answer_exclusive c m src s = (let a = addr m in do {
     e \<leftarrow> pendingDirectoryExclusiveReads s a;
     DebugAssert (exclusiveOwnership m);
     DebugAssert (blockAttached m);
     b \<leftarrow> directoryData s a;
     DebugAssert (owner b = InvalidNodeID \<or> owner b = src \<or> src = InvalidNodeID);
     if sharers b = [] then do {
       let (response, s) = bip_replicate m s;
       let response = with_lookup True response;
       s \<leftarrow> (if ld_source e \<noteq> nodeID c
         then Some (bip_send_net c (generatingPC m) (ld_source e) response (lookupTime c + remoteSendTime c) s)
         else BIPDirectory_OnDirectoryBlockResponse c response s);
       bip_end_exclusive c a e s }
     else do {
       let e = e\<lparr>invalidateResponsesReceived := 0, invalidateResponsesExpected := length (sharers b)\<rparr>;
       let s = s\<lparr>pendingDirectoryExclusiveReads := (pendingDirectoryExclusiveReads s)(a := Some e)\<rparr>;
       bip_invalidate_sharers c m (sharers b) s } })"

definition BIPDirectory_OnRemoteReadResponse :: "bip_config \<Rightarrow> msg \<Rightarrow> int \<Rightarrow> bip_directory \<Rightarrow> bip_directory option" where
  "BIPDirectory_OnRemoteReadResponse c m src s = (let a = addr m in do {
     let s = bip_counted RemoteReadResponses (bip_remote s);
     DebugAssert (\<not> directoryLookup m);
     DebugAssert (pendingDirectorySharedReads s a \<noteq> [] \<or> pendingDirectoryExclusiveReads s a \<noteq> None);
     DebugAssert (pendingDirectorySharedReads s a = [] \<or> pendingDirectoryExclusiveReads s a = None);
     DebugAssert (directoryData s a \<noteq> None);
     if satisfied m then do {
       s \<leftarrow> (if exclusiveOwnership m then BIPDirectory_EraseDirectoryShare m src s else Some s);
       s \<leftarrow> (if pendingDirectorySharedReads s a \<noteq> [] then bip_answer_shared c m s else bip_answer_exclusive c m src s);
       Some (DisposeMsg m s) }
     else do {
       s \<leftarrow> BIPDirectory_EraseDirectoryShare m src s;
       b \<leftarrow> directoryData s a;
       DebugAssert (owner b = InvalidNodeID);
       s \<leftarrow> BIPDirectory_PerformDirectoryFetch c a s;
       Some (DisposeMsg m s) } })"

definition BIPDirectory_OnRemoteInvalidateResponse :: "bip_config \<Rightarrow> msg \<Rightarrow> int \<Rightarrow> bip_directory \<Rightarrow> bip_directory option" where
  "BIPDirectory_OnRemoteInvalidateResponse c m src s = (let a = addr m in do {
     let s = bip_counted RemoteInvalidateResponses (bip_remote s);
     b \<leftarrow> directoryData s a;
     DebugAssert (\<not> blockAttached m \<or> owner b = src \<or> owner b = InvalidNodeID);
     DebugAssert (blockAttached m \<or> src \<in> set (sharers b) \<or> owner b = src \<or> owner b = InvalidNodeID);
     let b = drop_holder src b;
     let s = s\<lparr>directoryData := (directoryData s)(a := Some b)\<rparr>;
     s \<leftarrow> bip_write_back c m s;
     e \<leftarrow> pendingDirectoryExclusiveReads s a;
     let e = e\<lparr>invalidateResponsesReceived := invalidateResponsesReceived e + 1\<rparr>;
     let s = s\<lparr>pendingDirectoryExclusiveReads := (pendingDirectoryExclusiveReads s)(a := Some e)\<rparr>;
     s \<leftarrow> (if invalidateResponsesExpected e = invalidateResponsesReceived e \<and> invalidations_done (ld_source e) b then do {
         let s = s\<lparr>directoryData := (directoryData s)(a := Some \<lparr>sharers = [], owner = ld_source e\<rparr>)\<rparr>;
         let (rm, s) = CreateMsg (\<lambda>k. ReadResponseMsg k (generatingPC (ld_msg e)) a (msize m) True True True True False
           (msgID (ld_msg e))) s;
         let s = (if ld_source e = nodeID c then SendMsg LocalCacheConnection rm (localSendTime c + satisfyTime c) s
           else bip_send_net c (generatingPC (ld_msg e)) (ld_source e) rm (remoteSendTime c + satisfyTime c) s);
         bip_end_exclusive c a e s }
       else Some s);
     Some (DisposeMsg m s) })"

definition BIPDirectory_OnLocalInvalidateResponse :: "bip_config \<Rightarrow> msg \<Rightarrow> bip_directory \<Rightarrow> bip_directory option" where
  "BIPDirectory_OnLocalInvalidateResponse c m s = do {
     let s = bip_counted LocalInvalidateResponses s;
     d \<leftarrow> pendingRemoteInvalidates s (addr m);
     DebugAssert (msgID (ld_msg d) = solicitingMessage m);
     s \<leftarrow> (if nodeID c \<noteq> ld_source d
       then Some (bip_send_net c (generatingPC (ld_msg d)) (ld_source d) m (remoteSendTime c) s)
       else BIPDirectory_OnRemoteInvalidateResponse c m (nodeID c) s);
     let s = DisposeMsg (ld_msg d) s;
     Some (s\<lparr>pendingRemoteInvalidates := (pendingRemoteInvalidates s)(addr (ld_msg d) := None)\<rparr>) }"

definition BIPDirectory_OnDirectoryBlockRequest :: "bip_config \<Rightarrow> msg \<Rightarrow> int \<Rightarrow> bip_directory \<Rightarrow> bip_directory option" where
  "BIPDirectory_OnDirectoryBlockRequest c m src s = (let a = addr m in do {
     let s = bip_counted DirectoryRequests s;
     if pendingDirectoryExclusiveReads s a \<noteq> None \<or> (requestingExclusive m \<and> pendingDirectorySharedReads s a \<noteq> []) then
       if src = nodeID c then Some (ScheduleEvent (CB_OnDirectoryBlockRequest m src) (lookupRetryTime c) s)
       else do {
         let (n, s) = CreateMsg (\<lambda>k. NetworkMsg k (generatingPC m) (nodeID c) src False
           (ReadResponseMsg (k + 1) (generatingPC m) a (msize m) False False True False False (msgID m))) s;
         let (_, s) = bip_replicate m s;
         let s = SendMsg RemoteNodeConnection n (lookupTime c + remoteSendTime c) s;
         Some (DisposeMsg m s) }
     else do {
       let ld = \<lparr>ld_msg = m, ld_source = src, invalidateResponsesExpected = 0, invalidateResponsesReceived = 0\<rparr>;
       if requestingExclusive m then
         BIPDirectory_PerformDirectoryFetch c a
           (s\<lparr>pendingDirectoryExclusiveReads := (pendingDirectoryExclusiveReads s)(a := Some ld)\<rparr>)
       else do {
         let existingRequest = (pendingDirectorySharedReads s a \<noteq> []);
         let s = s\<lparr>pendingDirectorySharedReads := (pendingDirectorySharedReads s)
           (a := order_lookups c (ld # pendingDirectorySharedReads s a))\<rparr>;
         if existingRequest then Some s else BIPDirectory_PerformDirectoryFetch c a s } } })"

section \<open>Answers of the memory\<close>

definition OnLocalMemoryReadResponse :: "bip_config \<Rightarrow> msg \<Rightarrow> bip_directory \<Rightarrow> bip_directory option" where
  "OnLocalMemoryReadResponse c m s = do {
     let s = s\<lparr>remoteMessagesReceived := remoteMessagesReceived s - 1\<rparr>;
     DebugAssert (pendingMemoryReadAccesses s (solicitingMessage m) \<noteq> None);
     let s = s\<lparr>pendingMemoryReadAccesses := (pendingMemoryReadAccesses s)(solicitingMessage m := None)\<rparr>;
     BIPDirectory_OnRemoteReadResponse c m InvalidNodeID s }"

definition OnLocalMemoryWriteResponse :: "bip_config \<Rightarrow> msg \<Rightarrow> bip_directory \<Rightarrow> bip_directory option" where
  "OnLocalMemoryWriteResponse c m s = do {
     let s = s\<lparr>remoteMessagesReceived := remoteMessagesReceived s - 1\<rparr>;
     DebugAssert (pendingMemoryWriteAccesses s (solicitingMessage m) \<noteq> None);
     let s = s\<lparr>pendingMemoryWriteAccesses := (pendingMemoryWriteAccesses s)(solicitingMessage m := None)\<rparr>;
     BIPDirectory_OnRemoteWriteResponse c m InvalidNodeID s }"

section \<open>Dispatch\<close>

definition BIPDirectory_RecvMsg :: "bip_config \<Rightarrow> msg \<Rightarrow> bip_connection \<Rightarrow> bip_directory \<Rightarrow> bip_directory option" where
  "BIPDirectory_RecvMsg c m k s =
     (let s = bip_counted Messages s in
      case k of
        LocalCacheConnection \<Rightarrow> (case m of
          ReadMsg _ _ _ _ _ _ _ _ \<Rightarrow> BIPDirectory_OnLocalRead c m s
        | ReadResponseMsg _ _ _ _ _ _ _ _ _ _ \<Rightarrow> BIPDirectory_OnLocalReadResponse c m s
        | WriteMsg _ _ _ _ _ \<Rightarrow> BIPDirectory_OnLocalWrite c m s
        | EvictionMsg _ _ _ _ _ \<Rightarrow> BIPDirectory_OnLocalEviction c m s
        | InvalidateResponseMsg _ _ _ _ _ _ \<Rightarrow> BIPDirectory_OnLocalInvalidateResponse c m s
        | _ \<Rightarrow> None)
      | LocalMemoryConnection \<Rightarrow> (case m of
          ReadResponseMsg _ _ _ _ _ _ _ _ _ _ \<Rightarrow> OnLocalMemoryReadResponse c m s
        | WriteResponseMsg _ _ _ _ _ \<Rightarrow> OnLocalMemoryWriteResponse c m s
        | _ \<Rightarrow> None)
      | RemoteNodeConnection \<Rightarrow> (case m of
          NetworkMsg _ _ src dest _ p \<Rightarrow> do {
            let s = bip_remote s;
            DebugAssert (dest = nodeID c);
            let s = DisposeMsg m s;
            case p of
              DirectoryNakMsg _ _ _ _ _ _ _ \<Rightarrow> BIPDirectory_OnRemoteDirectoryNak c p src s
            | ReadMsg _ _ _ _ _ _ dl _ \<Rightarrow>
                if dl then BIPDirectory_OnDirectoryBlockRequest c p src s else BIPDirectory_OnRemoteReadCache c p src s
            | ReadResponseMsg _ _ _ _ _ _ dl _ _ _ \<Rightarrow>
                if dl then BIPDirectory_OnDirectoryBlockResponse c p s else BIPDirectory_OnRemoteReadResponse c p src s
            | WriteResponseMsg _ _ _ _ _ \<Rightarrow> BIPDirectory_OnRemoteWriteResponse c p src s
            | EvictionMsg _ _ _ _ _ \<Rightarrow> BIPDirectory_OnRemoteEviction c p src s
            | EvictionResponseMsg _ _ _ _ _ \<Rightarrow> BIPDirectory_OnRemoteEvictionResponse c p src s
            | InvalidateMsg _ _ _ _ \<Rightarrow> BIPDirectory_OnRemoteInvalidate c p src s
            | InvalidateResponseMsg _ _ _ _ _ _ \<Rightarrow> BIPDirectory_OnRemoteInvalidateResponse c p src s
            | _ \<Rightarrow> None }
        | _ \<Rightarrow> None))"

end
