(* ===== verification/BIPDirectoryProps.thy ===== *)
theory BIPDirectoryProps
  imports BIPDirectory "HOL-Library.Multiset"
begin

text \<open>
  What the BIP directory promises: an exclusive read that must invalidate sharers is granted once, by the
  last of their answers, in whatever order they come; readers are answered once, and a reader gets
  exclusive ownership exactly if it is recorded as the only holder; a read that its holder refuses is
  fetched again.
\<close>

section \<open>What a directory sends\<close>

lemmas bip_out = bip_counted_def bip_remote_def bip_send_net_def bip_replicate_def send_def send_replica_def SendMsg_def
  DisposeMsg_def ScheduleEvent_def CreateMsg_def

lemma bip_tables [simp]:
  "directoryData (bip_counted k s) = directoryData s" "directoryData (bip_remote s) = directoryData s"
  "directoryData (DisposeMsg m s) = directoryData s"
  "pendingDirectorySharedReads (bip_counted k s) = pendingDirectorySharedReads s"
  "pendingDirectorySharedReads (bip_remote s) = pendingDirectorySharedReads s"
  "pendingDirectorySharedReads (DisposeMsg m s) = pendingDirectorySharedReads s"
  "pendingDirectoryExclusiveReads (bip_counted k s) = pendingDirectoryExclusiveReads s"
  "pendingDirectoryExclusiveReads (bip_remote s) = pendingDirectoryExclusiveReads s"
  "pendingDirectoryExclusiveReads (DisposeMsg m s) = pendingDirectoryExclusiveReads s"
  "pendingLocalReads (bip_counted k s) = pendingLocalReads s" "pendingLocalReads (bip_remote s) = pendingLocalReads s"
  "pendingLocalReads (DisposeMsg m s) = pendingLocalReads s"
  "events (bip_counted k s) = events s" "events (bip_remote s) = events s"
  "events (DisposeMsg m s) = events s @ [Disposed (msgID m)]"
  by (simp_all add: bip_out)

text \<open>Answers to reads: who gets it, for which request, and whether it gives exclusive ownership; and invalidations.\<close>

fun bip_answer_of :: "bip_config \<Rightarrow> bip_connection event \<Rightarrow> (int \<times> nat \<times> bool) list" where
  "bip_answer_of c (Sent RemoteNodeConnection (NetworkMsg _ _ _ n _ (ReadResponseMsg _ _ _ _ _ _ _ excl _ sol)) _) = [(n, sol, excl)]"
| "bip_answer_of c (Sent LocalCacheConnection (ReadResponseMsg _ _ _ _ _ _ _ excl _ sol) _) = [(nodeID c, sol, excl)]"
| "bip_answer_of c _ = []"

fun bip_invalidates :: "bip_connection event \<Rightarrow> int list" where
  "bip_invalidates (Sent RemoteNodeConnection (NetworkMsg _ _ _ n _ (InvalidateMsg _ _ _ _)) _) = [n]"
| "bip_invalidates _ = []"

definition bip_answers :: "bip_config \<Rightarrow> bip_directory \<Rightarrow> (int \<times> nat \<times> bool) list" where
  "bip_answers c s = concat (map (bip_answer_of c) (events s))"

fun bip_receive_all :: "bip_config \<Rightarrow> (msg \<times> bip_connection) list \<Rightarrow> bip_directory \<Rightarrow> bip_directory option" where
  "bip_receive_all c [] s = Some s"
| "bip_receive_all c ((m, k) # ms) s = Option.bind (BIPDirectory_RecvMsg c m k s) (bip_receive_all c ms)"

section \<open>Invalidations\<close>

text \<open>The block is being invalidated at the nodes \<open>ns\<close>; \<open>k\<close> of the answers expected have come.\<close>

definition invalidating :: "nat \<Rightarrow> BIPLookupData \<Rightarrow> nat \<Rightarrow> int list \<Rightarrow> bip_directory \<Rightarrow> bool" where
  "invalidating a e k ns s \<longleftrightarrow> directoryData s a = Some \<lparr>sharers = ns, owner = InvalidNodeID\<rparr> \<and> distinct ns \<and>
     InvalidNodeID \<notin> set ns \<and>
     pendingDirectoryExclusiveReads s a =
       Some (e\<lparr>invalidateResponsesExpected := k + length ns, invalidateResponsesReceived := k\<rparr>)"

text \<open>The answer of a sharer that gives up a clean copy.\<close>

definition gives_up :: "bip_config \<Rightarrow> nat \<Rightarrow> nat \<times> nat \<times> nat \<Rightarrow> int \<Rightarrow> msg \<times> bip_connection" where
  "gives_up c a r n = (case r of (k, i, sol) \<Rightarrow>
     (NetworkMsg k 0 n (nodeID c) False (InvalidateResponseMsg i 0 a 32 False sol), RemoteNodeConnection))"

definition granted_to :: "nat \<Rightarrow> BIPLookupData \<Rightarrow> bip_directory \<Rightarrow> bool" where
  "granted_to a e s \<longleftrightarrow> directoryData s a = Some \<lparr>sharers = [], owner = ld_source e\<rparr> \<and> pendingDirectoryExclusiveReads s a = None"

lemma removeAll_single:
  assumes "distinct ns" and "n \<in> set ns"
  shows "removeAll n ns = [] \<longleftrightarrow> ns = [n]"
proof
  assume "removeAll n ns = []"
  then have "set ns = {n}" using assms(2) by (metis Diff_eq_empty_iff set_empty set_removeAll subset_singletonD empty_iff)
  then have "length ns = 1" using distinct_card[OF assms(1)] by simp
  with assms(2) show "ns = [n]" by (cases ns) auto
qed simp

lemma gives_up_step:
  assumes inv: "invalidating a e k ns s" and n: "n \<in> set ns"
  shows "\<exists>s'. BIPDirectory_RecvMsg c (fst (gives_up c a r n)) (snd (gives_up c a r n)) s = Some s' \<and>
    (if ns = [n] then granted_to a e s' \<and> bip_answers c s' = bip_answers c s @ [(ld_source e, msgID (ld_msg e), True)]
      else invalidating a e (k + 1) (removeAll n ns) s' \<and> bip_answers c s' = bip_answers c s)"
proof -
  obtain j i sol where r: "r = (j, i, sol)" by (cases r) auto
  let ?im = "InvalidateResponseMsg i 0 a 32 False sol" and ?nm = "NetworkMsg j 0 n (nodeID c) False (InvalidateResponseMsg i 0 a 32 False sol)"
  let ?s = "DisposeMsg ?nm (bip_remote (bip_counted Messages s))"
  let ?t = "(bip_counted RemoteInvalidateResponses (bip_remote ?s))\<lparr>directoryData := (directoryData s)(a := Some \<lparr>sharers = removeAll n ns, owner = InvalidNodeID\<rparr>)\<rparr>"
  let ?e = "e\<lparr>invalidateResponsesExpected := k + length ns, invalidateResponsesReceived := k + 1\<rparr>"
  let ?u = "?t\<lparr>pendingDirectoryExclusiveReads := (pendingDirectoryExclusiveReads s)(a := Some ?e)\<rparr>"
  have d: "directoryData s a = Some \<lparr>sharers = ns, owner = InvalidNodeID\<rparr>" and dist: "distinct ns" and ni: "n \<noteq> InvalidNodeID"
    and e: "pendingDirectoryExclusiveReads s a = Some (e\<lparr>invalidateResponsesExpected := k + length ns, invalidateResponsesReceived := k\<rparr>)"
    using inv n by (auto simp: invalidating_def)
  have len: "length (removeAll n ns) = length ns - 1" "0 < length ns" using dist n
    by (auto simp: distinct_remove1_removeAll[symmetric] length_remove1)
  have run: "BIPDirectory_RecvMsg c (fst (gives_up c a r n)) (snd (gives_up c a r n)) s =
      Option.bind (if k + length ns = k + 1 \<and> invalidations_done (ld_source e) \<lparr>sharers = removeAll n ns, owner = InvalidNodeID\<rparr>
        then do {
         let s = ?u\<lparr>directoryData := (directoryData ?u)(a := Some \<lparr>sharers = [], owner = ld_source e\<rparr>)\<rparr>;
         let (rm, s) = CreateMsg (\<lambda>k. ReadResponseMsg k (generatingPC (ld_msg e)) a 32 True True True True False
           (msgID (ld_msg e))) s;
         let s = (if ld_source e = nodeID c then SendMsg LocalCacheConnection rm (localSendTime c + satisfyTime c) s
           else bip_send_net c (generatingPC (ld_msg e)) (ld_source e) rm (remoteSendTime c + satisfyTime c) s);
         bip_end_exclusive c a ?e s } else Some ?u) (\<lambda>s. Some (DisposeMsg ?im s))"
    using n ni d e
    by (simp add: r gives_up_def BIPDirectory_RecvMsg_def BIPDirectory_OnRemoteInvalidateResponse_def DebugAssert_def drop_holder_def
      bip_write_back_def Let_def cong: if_cong)
  show ?thesis
  proof (cases "ns = [n]")
    case True
    then show ?thesis unfolding run
      by (auto simp: invalidations_done_def Let_def CreateMsg_def SendMsg_def bip_send_net_def send_def bip_end_exclusive_def
        BIPDirectory_AddDirectoryShare_def DebugAssert_def granted_to_def bip_answers_def)
  next
    case False
    then have "length ns \<noteq> 1" using n by (cases ns) auto
    then show ?thesis unfolding run using len dist e n False inv
      by (simp add: invalidating_def bip_answers_def distinct_removeAll)
  qed
qed

definition give_up_all :: "bip_config \<Rightarrow> nat \<Rightarrow> ((nat \<times> nat \<times> nat) \<times> int) list \<Rightarrow> (msg \<times> bip_connection) list" where
  "give_up_all c a rs = map (\<lambda>(r, n). gives_up c a r n) rs"

lemma give_up_all_run:
  assumes "invalidating a e k ns s" and "ns \<noteq> []" and "distinct (map snd rs)" and "snd ` set rs \<subseteq> set ns"
  shows "\<exists>s'. bip_receive_all c (give_up_all c a rs) s = Some s' \<and>
    (if snd ` set rs = set ns then granted_to a e s' \<and> bip_answers c s' = bip_answers c s @ [(ld_source e, msgID (ld_msg e), True)]
     else (\<exists>k ms. invalidating a e k ms s') \<and> bip_answers c s' = bip_answers c s)"
  using assms
proof (induction rs arbitrary: k ns s)
  case Nil
  then show ?case by (auto simp: give_up_all_def)
next
  case (Cons p rs)
  obtain r n where p: "p = (r, n)" by (cases p)
  have n: "n \<in> set ns" using Cons.prems(4) by (simp add: p)
  from gives_up_step[OF Cons.prems(1) n, where r = r] obtain t where
    t: "BIPDirectory_RecvMsg c (fst (gives_up c a r n)) (snd (gives_up c a r n)) s = Some t"
    and post: "if ns = [n] then granted_to a e t \<and> bip_answers c t = bip_answers c s @ [(ld_source e, msgID (ld_msg e), True)]
      else invalidating a e (k + 1) (removeAll n ns) t \<and> bip_answers c t = bip_answers c s" by blast
  have run: "bip_receive_all c (give_up_all c a (p # rs)) s = bip_receive_all c (give_up_all c a rs) t"
    using t by (cases "gives_up c a r n") (simp add: give_up_all_def p)
  show ?case
  proof (cases "ns = [n]")
    case True
    with Cons.prems(3,4) p have "rs = []" by (cases rs) auto
    with True post run p show ?thesis by (simp add: give_up_all_def)
  next
    case False
    have dist: "distinct ns" using Cons.prems(1) by (simp add: invalidating_def)
    have ne: "removeAll n ns \<noteq> []" using removeAll_single[OF dist n] False by simp
    have sub: "snd ` set rs \<subseteq> set (removeAll n ns)" using Cons.prems(3,4) p by auto
    have eq: "snd ` set (p # rs) = set ns \<longleftrightarrow> snd ` set rs = set (removeAll n ns)" using Cons.prems(3) p n by auto
    have inv: "invalidating a e (k + 1) (removeAll n ns) t" using post False by simp
    have "distinct (map snd rs)" using Cons.prems(3) by simp
    from Cons.IH[OF inv ne this sub] obtain s' where
      s': "bip_receive_all c (give_up_all c a rs) t = Some s'"
      "if snd ` set rs = set (removeAll n ns) then granted_to a e s' \<and> bip_answers c s' = bip_answers c t @ [(ld_source e, msgID (ld_msg e), True)]
       else (\<exists>k ms. invalidating a e k ms s') \<and> bip_answers c s' = bip_answers c t" by blast
    then show ?thesis unfolding run eq using post False by auto
  qed
qed

text \<open>The answer of the owner starts the invalidations.\<close>

lemma bip_invalidate_sharers_remote:
  assumes "nodeID c \<notin> set ns"
  shows "\<exists>s' es. bip_invalidate_sharers c m ns s = Some s' \<and> events s' = events s @ es \<and> concat (map bip_invalidates es) = ns \<and>
    concat (map (bip_answer_of c) es) = [] \<and> directoryData s' = directoryData s \<and>
    pendingDirectoryExclusiveReads s' = pendingDirectoryExclusiveReads s"
  using assms
proof (induction ns arbitrary: s)
  case (Cons n ns)
  let ?t = "bip_send_net c (generatingPC m) n (InvalidateMsg (currentMsgStamp s) (generatingPC m) (addr m) (msize m))
    (lookupTime c + remoteSendTime c) (s\<lparr>currentMsgStamp := currentMsgStamp s + 1\<rparr>)"
  from Cons.IH[of ?t] Cons.prems obtain s' es where ih: "bip_invalidate_sharers c m ns ?t = Some s'" "events s' = events ?t @ es"
    "concat (map bip_invalidates es) = ns" "concat (map (bip_answer_of c) es) = []" "directoryData s' = directoryData ?t"
    "pendingDirectoryExclusiveReads s' = pendingDirectoryExclusiveReads ?t" by auto
  from Cons.prems ih(1) have "bip_invalidate_sharers c m (n # ns) s = Some s'" by (simp add: Let_def CreateMsg_def)
  with ih(2-) show ?case by (simp add: bip_send_net_def send_def)
qed simp

lemma invalidations_start:
  assumes "pendingDirectorySharedReads s a = []" and "pendingDirectoryExclusiveReads s a = Some e"
    and "directoryData s a = Some \<lparr>sharers = ns, owner = src\<rparr>" and "ns \<noteq> []" and "distinct ns"
    and "InvalidNodeID \<notin> set ns" and "nodeID c \<notin> set ns"
  shows "\<exists>s' es. BIPDirectory_RecvMsg c (NetworkMsg k pc src (nodeID c) ov (ReadResponseMsg i pc' a sz True True False True dirty sol))
      RemoteNodeConnection s = Some s' \<and> events s' = events s @ es \<and> concat (map bip_invalidates es) = ns \<and>
    bip_answers c s' = bip_answers c s \<and> invalidating a e 0 ns s'"
proof -
  let ?m = "ReadResponseMsg i pc' a sz True True False True dirty sol" and ?nm = "NetworkMsg k pc src (nodeID c) ov (ReadResponseMsg i pc' a sz True True False True dirty sol)"
  let ?s = "bip_counted RemoteReadResponses (bip_remote (DisposeMsg ?nm (bip_remote (bip_counted Messages s))))"
  let ?e = "e\<lparr>invalidateResponsesReceived := 0, invalidateResponsesExpected := length ns\<rparr>"
  let ?t = "?s\<lparr>directoryData := (directoryData s)(a := Some \<lparr>sharers = ns, owner = InvalidNodeID\<rparr>),
    pendingDirectoryExclusiveReads := (pendingDirectoryExclusiveReads s)(a := Some ?e)\<rparr>"
  from bip_invalidate_sharers_remote[OF assms(7), of ?m ?t] obtain u es where
    u: "bip_invalidate_sharers c ?m ns ?t = Some u" "events u = events ?t @ es" "concat (map bip_invalidates es) = ns"
      "concat (map (bip_answer_of c) es) = []" "directoryData u = directoryData ?t"
      "pendingDirectoryExclusiveReads u = pendingDirectoryExclusiveReads ?t" by auto
  have "BIPDirectory_RecvMsg c ?nm RemoteNodeConnection s = Some (DisposeMsg ?m u)"
    using assms u(1)
    by (simp add: BIPDirectory_RecvMsg_def BIPDirectory_OnRemoteReadResponse_def BIPDirectory_EraseDirectoryShare_def
      bip_answer_exclusive_def DebugAssert_def drop_holder_def Let_def)
  with u(2-) assms(5,6) show ?thesis by (simp add: invalidating_def bip_answers_def)
qed

section \<open>Readers\<close>

text \<open>The nodes that a record names.\<close>

definition bip_holders :: "BlockData \<Rightarrow> int set" where
  "bip_holders b = (if owner b = InvalidNodeID then {} else {owner b}) \<union> set (sharers b)"

definition bip_order_ok :: "bip_config \<Rightarrow> bool" where
  "bip_order_ok c \<longleftrightarrow> (\<forall>ns. mset (order_nodes c ns) = mset ns)"

text \<open>The requests of this node among those pending are requests that it waits for.\<close>

definition bip_awaited :: "bip_config \<Rightarrow> bip_directory \<Rightarrow> BIPLookupData list \<Rightarrow> bool" where
  "bip_awaited c s ds \<longleftrightarrow> (\<forall>d\<in>set ds. ld_source d \<noteq> InvalidNodeID \<and> (ld_source d = nodeID c \<longrightarrow>
       (\<exists>ref. pendingLocalReads s (msgID (ld_msg d)) = Some ref \<and> msgID ref = msgID (ld_msg d)))) \<and>
     distinct (map (\<lambda>d. msgID (ld_msg d)) (filter (\<lambda>d. ld_source d = nodeID c) ds))"

definition bip_added :: "bip_config \<Rightarrow> int \<Rightarrow> BlockData \<Rightarrow> BlockData" where
  "bip_added c n b = (if owner b = n \<or> owner b = InvalidNodeID then b\<lparr>owner := n\<rparr>
     else if n \<notin> set (sharers b) then b\<lparr>sharers := order_nodes c (n # sharers b)\<rparr> else b)"

lemma bip_holders_added: "bip_order_ok c \<Longrightarrow> n \<noteq> InvalidNodeID \<Longrightarrow> bip_holders (bip_added c n b) = insert n (bip_holders b)"
proof -
  assume "bip_order_ok c"
  then have "set (order_nodes c ns) = set ns" for ns unfolding bip_order_ok_def by (metis set_mset_mset)
  moreover assume "n \<noteq> InvalidNodeID"
  ultimately show ?thesis by (auto simp: bip_holders_def bip_added_def)
qed

lemma bip_AddDirectoryShare_shared: "directoryData s a = Some b \<Longrightarrow>
    BIPDirectory_AddDirectoryShare c a n False s = Some (s\<lparr>directoryData := (directoryData s)(a := Some (bip_added c n b))\<rparr>)"
  by (auto simp: BIPDirectory_AddDirectoryShare_def DebugAssert_def bip_added_def fun_upd_idem)

definition all_added :: "bip_config \<Rightarrow> BIPLookupData list \<Rightarrow> BlockData \<Rightarrow> BlockData" where
  "all_added c ds b = fold (\<lambda>d. bip_added c (ld_source d)) ds b"

lemma add_readers_run:
  "directoryData s a = Some b \<Longrightarrow> add_readers c a ds s = Some (s\<lparr>directoryData := (directoryData s)(a := Some (all_added c ds b))\<rparr>)"
proof (induction ds arbitrary: s b)
  case (Cons d ds)
  let ?t = "s\<lparr>directoryData := (directoryData s)(a := Some (bip_added c (ld_source d) b))\<rparr>"
  have "add_readers c a ds ?t =
    Some (?t\<lparr>directoryData := (directoryData ?t)(a := Some (all_added c ds (bip_added c (ld_source d) b)))\<rparr>)"
    by (rule Cons.IH) simp
  also have "?t\<lparr>directoryData := (directoryData ?t)(a := v)\<rparr> = s\<lparr>directoryData := (directoryData s)(a := v)\<rparr>" for v by simp
  finally have "add_readers c a ds ?t =
    Some (s\<lparr>directoryData := (directoryData s)(a := Some (all_added c ds (bip_added c (ld_source d) b)))\<rparr>)" .
  then show ?case by (simp add: bip_AddDirectoryShare_shared[OF Cons.prems] all_added_def fun_upd_def)
qed (simp add: all_added_def fun_upd_idem)

lemma all_added_holders: "bip_order_ok c \<Longrightarrow> \<forall>d\<in>set ds. ld_source d \<noteq> InvalidNodeID \<Longrightarrow>
    bip_holders (all_added c ds b) = bip_holders b \<union> ld_source ` set ds"
  by (induction ds arbitrary: b) (auto simp: all_added_def bip_holders_added)

lemma owner_added: "owner (bip_added c n b) = (if owner b = InvalidNodeID then n else owner b)"
  by (simp add: bip_added_def)

lemma owner_all_added: "owner b \<noteq> InvalidNodeID \<Longrightarrow> owner (all_added c ds b) = owner b"
  by (induction ds arbitrary: b) (auto simp: all_added_def owner_added)

lemma all_added_owned: "ds \<noteq> [] \<Longrightarrow> \<forall>d\<in>set ds. ld_source d \<noteq> InvalidNodeID \<Longrightarrow> owner (all_added c ds b) \<noteq> InvalidNodeID"
  by (cases ds) (auto simp: all_added_def owner_added owner_all_added[unfolded all_added_def])

text \<open>One answer for each reader.\<close>

lemma OnDirectoryBlockResponse_run:
  assumes "pendingLocalReads s n = Some ref" and "msgID ref = n"
  shows "\<exists>s' es. BIPDirectory_OnDirectoryBlockResponse c (ReadResponseMsg k pc a sz True att dl excl dirty n) s = Some s' \<and>
    events s' = events s @ es \<and> concat (map (bip_answer_of c) es) = [(nodeID c, n, excl)] \<and>
    directoryData s' = directoryData s \<and> pendingDirectorySharedReads s' = pendingDirectorySharedReads s \<and>
    pendingLocalReads s' = (pendingLocalReads s)(n := None)"
  using assms by (simp add: BIPDirectory_OnDirectoryBlockResponse_def Let_def bip_out)

lemma answer_readers_run:
  "bip_awaited c s ds \<Longrightarrow> \<exists>s' es. answer_readers c m one ds s = Some s' \<and> events s' = events s @ es \<and>
    concat (map (bip_answer_of c) es) = map (\<lambda>d. (ld_source d, msgID (ld_msg d), one)) ds \<and>
    directoryData s' = directoryData s \<and> pendingDirectorySharedReads s' = pendingDirectorySharedReads s"
proof (induction ds arbitrary: s)
  case (Cons d ds)
  let ?s = "s\<lparr>currentMsgStamp := currentMsgStamp s + 1\<rparr>"
  let ?r = "ReadResponseMsg (currentMsgStamp s) (generatingPC (ld_msg d)) (addr m) (msize m) True True True one False (msgID (ld_msg d))"
  obtain u es where u: "(if ld_source d = nodeID c then BIPDirectory_OnDirectoryBlockResponse c ?r ?s
      else Some (bip_send_net c (generatingPC (ld_msg d)) (ld_source d) ?r (remoteSendTime c + satisfyTime c) ?s)) = Some u"
    "events u = events s @ es" "concat (map (bip_answer_of c) es) = [(ld_source d, msgID (ld_msg d), one)]"
    "directoryData u = directoryData s" "pendingDirectorySharedReads u = pendingDirectorySharedReads s" "bip_awaited c u ds"
  proof (cases "ld_source d = nodeID c")
    case True
    with Cons.prems obtain ref where "pendingLocalReads ?s (msgID (ld_msg d)) = Some ref" "msgID ref = msgID (ld_msg d)"
      by (auto simp: bip_awaited_def)
    from OnDirectoryBlockResponse_run[OF this] obtain u es where
      "BIPDirectory_OnDirectoryBlockResponse c ?r ?s = Some u" "events u = events s @ es"
      "concat (map (bip_answer_of c) es) = [(nodeID c, msgID (ld_msg d), one)]" "directoryData u = directoryData s"
      "pendingDirectorySharedReads u = pendingDirectorySharedReads s"
      "pendingLocalReads u = (pendingLocalReads s)(msgID (ld_msg d) := None)" by fastforce
    moreover from this(6) True Cons.prems have "bip_awaited c u ds" unfolding bip_awaited_def by (auto simp: image_iff)
    ultimately show ?thesis using True by (intro that[of u es]) auto
  next
    case False
    with Cons.prems show ?thesis
      by (intro that[of "bip_send_net c (generatingPC (ld_msg d)) (ld_source d) ?r (remoteSendTime c + satisfyTime c) ?s"])
        (auto simp: bip_send_net_def send_def bip_awaited_def)
  qed
  let ?u = "DisposeMsg (ld_msg d) u"
  from u(6) have "bip_awaited c ?u ds" by (simp add: bip_awaited_def)
  from Cons.IH[OF this] obtain s' fs where ih: "answer_readers c m one ds ?u = Some s'" "events s' = events ?u @ fs"
    "concat (map (bip_answer_of c) fs) = map (\<lambda>d. (ld_source d, msgID (ld_msg d), one)) ds"
    "directoryData s' = directoryData s" "pendingDirectorySharedReads s' = pendingDirectorySharedReads s" using u(4,5) by auto
  have "answer_readers c m one (d # ds) s =
    Option.bind (if ld_source d = nodeID c then BIPDirectory_OnDirectoryBlockResponse c ?r ?s
      else Some (bip_send_net c (generatingPC (ld_msg d)) (ld_source d) ?r (remoteSendTime c + satisfyTime c) ?s))
    (\<lambda>u. answer_readers c m one ds (DisposeMsg (ld_msg d) u))" by (simp add: Let_def CreateMsg_def cong: if_cong)
  also have "\<dots> = Some s'" unfolding u(1) using ih(1) by simp
  finally show ?case using ih(2-) u(2,3) by (intro exI[of _ s'] exI[of _ "es @ Disposed (msgID (ld_msg d)) # fs"]) simp
qed simp


lemma one_reader_alone:
  assumes "one_reader (all_added c ds b)" and "bip_order_ok c" and "ds \<noteq> []" and "\<forall>d\<in>set ds. ld_source d \<noteq> InvalidNodeID"
  shows "sharers (all_added c ds b) = [] \<and> (\<forall>d\<in>set ds. ld_source d = owner (all_added c ds b))"
proof -
  have own: "owner (all_added c ds b) \<noteq> InvalidNodeID" using all_added_owned assms(3,4) by blast
  with assms(1) have none: "sharers (all_added c ds b) = []" by (simp add: one_reader_def)
  have "bip_holders (all_added c ds b) = bip_holders b \<union> ld_source ` set ds" by (rule all_added_holders[OF assms(2,4)])
  then have "ld_source ` set ds \<subseteq> {owner (all_added c ds b)}" using own none by (auto simp: bip_holders_def)
  with none show ?thesis by auto
qed

lemma bip_answer_shared_run:
  assumes "pendingDirectorySharedReads s a = ds" and "ds \<noteq> []" and "bip_awaited c s ds" and "directoryData s a = Some b" and "addr m = a"
  shows "\<exists>s' es. bip_answer_shared c m s = Some s' \<and> events s' = events s @ es \<and>
    concat (map (bip_answer_of c) es) = map (\<lambda>d. (ld_source d, msgID (ld_msg d), one_reader (all_added c ds b))) ds \<and>
    directoryData s' a = Some (all_added c ds b) \<and> pendingDirectorySharedReads s' a = []"
proof -
  let ?t = "s\<lparr>directoryData := (directoryData s)(a := Some (all_added c ds b))\<rparr>"
  have "bip_awaited c ?t ds" using assms(3) by (simp add: bip_awaited_def)
  from answer_readers_run[OF this, of m "one_reader (all_added c ds b)"] obtain u es where
    u: "answer_readers c m (one_reader (all_added c ds b)) ds ?t = Some u" "events u = events ?t @ es"
    "concat (map (bip_answer_of c) es) = map (\<lambda>d. (ld_source d, msgID (ld_msg d), one_reader (all_added c ds b))) ds"
    "directoryData u = directoryData ?t" by blast
  have "bip_answer_shared c m s = Some (u\<lparr>pendingDirectorySharedReads := (pendingDirectorySharedReads u)(a := [])\<rparr>)"
    using assms(1,5) u(1) by (simp add: bip_answer_shared_def Let_def add_readers_run[OF assms(4)])
  with u(2-4) show ?thesis by simp
qed

section \<open>The properties\<close>

definition demo_bip :: bip_config where
  "demo_bip = \<lparr>localSendTime = 1, remoteSendTime = 2, lookupTime = 3, satisfyTime = 4, lookupRetryTime = 5, nodeID = 0,
     directoryNodeCalc = \<lparr>pageSize = 64, nodeSet = [0]\<rparr>, memoryNodeCalc = \<lparr>pageSize = 64, nodeSet = [0]\<rparr>,
     order_nodes = (\<lambda>ns. ns), order_reads = (\<lambda>ds. ds), order_lookups = (\<lambda>ds. ds)\<rparr>"

definition demo_bip_begin :: bip_directory where
  "demo_bip_begin = BIPDirectory_Initialize \<lparr>currentTick = 0, currentMsgStamp = 100, events = []\<rparr>"

definition demo_bip_run :: "(nat \<times> int \<times> msg) list \<Rightarrow> bip_directory option" where
  "demo_bip_run ms = bip_receive_all demo_bip
     (map (\<lambda>(k, n, p). if n = InvalidNodeID then (p, LocalMemoryConnection) else (NetworkMsg k 0 n 0 False p, RemoteNodeConnection)) ms)
     demo_bip_begin"

text \<open>Node 1 reads the block, nodes 2 and 3 share it with node 1; then node 4 wants it for itself.\<close>

definition demo_bip_sharers :: "bip_directory option" where
  "demo_bip_sharers = demo_bip_run
     [(20, 1, ReadMsg 5 0 64 32 False False True False),
      (21, InvalidNodeID, ReadResponseMsg 30 0 64 32 True True False True False 5),
      (22, 2, ReadMsg 6 0 64 32 False False True False),
      (23, 1, ReadResponseMsg 31 0 64 32 True True False False False 6),
      (24, 3, ReadMsg 7 0 64 32 False False True False),
      (25, 1, ReadResponseMsg 32 0 64 32 True True False False False 7),
      (26, 4, ReadMsg 8 0 64 32 True False True False)]"

text \<open>
  C13: An exclusive read of a shared block is granted by the last invalidation. When the owner's
  answer comes, the directory invalidates every sharer and answers nobody; whatever the order in
  which sharers then give up their copies, the reader is granted exclusive ownership, once, exactly
  when all of them have, and it is then the only holder; until then the read stays pending.
\<close>
theorem bip_exclusive_granted_last:
  assumes "pendingDirectorySharedReads s a = []" and "pendingDirectoryExclusiveReads s a = Some e"
    and "directoryData s a = Some \<lparr>sharers = ns, owner = src\<rparr>" and "ns \<noteq> []" and "distinct ns"
    and "InvalidNodeID \<notin> set ns" and "nodeID c \<notin> set ns"
    and "distinct (map snd rs)" and "snd ` set rs \<subseteq> set ns"
  shows "\<exists>t t' es. BIPDirectory_RecvMsg c (NetworkMsg k pc src (nodeID c) ov (ReadResponseMsg i pc' a sz True True False True dirty sol))
      RemoteNodeConnection s = Some t \<and> events t = events s @ es \<and> concat (map bip_invalidates es) = ns \<and>
    bip_answers c t = bip_answers c s \<and> bip_receive_all c (give_up_all c a rs) t = Some t' \<and>
    (if snd ` set rs = set ns
     then directoryData t' a = Some \<lparr>sharers = [], owner = ld_source e\<rparr> \<and> pendingDirectoryExclusiveReads t' a = None \<and>
       bip_answers c t' = bip_answers c s @ [(ld_source e, msgID (ld_msg e), True)]
     else pendingDirectoryExclusiveReads t' a \<noteq> None \<and> bip_answers c t' = bip_answers c s)"
proof -
  from invalidations_start[OF assms(1-7)] obtain t es where
    t: "BIPDirectory_RecvMsg c (NetworkMsg k pc src (nodeID c) ov (ReadResponseMsg i pc' a sz True True False True dirty sol))
      RemoteNodeConnection s = Some t" "events t = events s @ es" "concat (map bip_invalidates es) = ns"
      "bip_answers c t = bip_answers c s" "invalidating a e 0 ns t" by blast
  from give_up_all_run[OF t(5) assms(4,8,9)] obtain t' where
    t': "bip_receive_all c (give_up_all c a rs) t = Some t'"
    "if snd ` set rs = set ns then granted_to a e t' \<and> bip_answers c t' = bip_answers c t @ [(ld_source e, msgID (ld_msg e), True)]
     else (\<exists>k ms. invalidating a e k ms t') \<and> bip_answers c t' = bip_answers c t" by blast
  have "pendingDirectoryExclusiveReads t' a \<noteq> None" if "invalidating a e k ms t'" for k ms using that by (simp add: invalidating_def)
  with t t' show ?thesis by (auto simp: granted_to_def split: if_splits)
qed

theorem bip_exclusive_granted_last_witness:
  "\<exists>s t t'. demo_bip_sharers = Some s \<and> directoryData s 64 = Some \<lparr>sharers = [3, 2], owner = 1\<rparr> \<and>
    BIPDirectory_RecvMsg demo_bip (NetworkMsg 27 0 1 0 False (ReadResponseMsg 33 0 64 32 True True False True True 8))
      RemoteNodeConnection s = Some t \<and>
    bip_receive_all demo_bip (give_up_all demo_bip 64 [((28, 34, 1), 2), ((29, 35, 2), 3)]) t = Some t' \<and>
    directoryData t' 64 = Some \<lparr>sharers = [], owner = 4\<rparr>"
proof -
  let ?e = "\<lparr>ld_msg = ReadMsg 8 0 64 32 True False True False, ld_source = 4, invalidateResponsesExpected = 0, invalidateResponsesReceived = 0\<rparr>"
  have "returns demo_bip_sharers (\<lambda>s. directoryData s 64 = Some \<lparr>sharers = [3, 2], owner = 1\<rparr> \<and>
      pendingDirectorySharedReads s 64 = [] \<and> pendingDirectoryExclusiveReads s 64 = Some ?e)" by code_simp
  then obtain s where s: "demo_bip_sharers = Some s" "directoryData s 64 = Some \<lparr>sharers = [3, 2], owner = 1\<rparr>"
      "pendingDirectorySharedReads s 64 = []" "pendingDirectoryExclusiveReads s 64 = Some ?e" by (auto simp: returns_def split: option.splits)
  have n: "nodeID demo_bip = 0" by (simp add: demo_bip_def)
  from bip_exclusive_granted_last[OF s(3,4,2), of demo_bip "[((28, 34, 1), 2), ((29, 35, 2), 3)]" 27 0 False 33 0 32 True 8] s(1,2)
  show ?thesis unfolding n by (auto simp: InvalidNodeID_def insert_commute)
qed

text \<open>
  C14: When the block comes, every pending shared reader is recorded as a holder, then answered, once,
  for its own request. The answers give exclusive ownership only if the directory then knows a single
  holder, and then every reader answered is that holder; none is pending any more.
\<close>
theorem bip_answers_readers:
  assumes "bip_order_ok c" and "m = ReadResponseMsg i pc a sz True att False excl dirty sol"
    and "pendingDirectorySharedReads s a = ds" and "ds \<noteq> []" and "pendingDirectoryExclusiveReads s a = None"
    and "bip_awaited c s ds" and "directoryData s a = Some b"
  shows "\<exists>s' es b'. BIPDirectory_RecvMsg c (NetworkMsg k pc' src (nodeID c) ov m) RemoteNodeConnection s = Some s' \<and>
    events s' = events s @ es \<and>
    concat (map (bip_answer_of c) es) = map (\<lambda>d. (ld_source d, msgID (ld_msg d), one_reader b')) ds \<and>
    pendingDirectorySharedReads s' a = [] \<and> directoryData s' a = Some b' \<and>
    bip_holders b' = bip_holders (if excl then drop_holder src b else b) \<union> ld_source ` set ds \<and>
    (one_reader b' \<longrightarrow> sharers b' = [] \<and> (\<forall>d\<in>set ds. ld_source d = owner b'))"
proof -
  let ?n = "NetworkMsg k pc' src (nodeID c) ov m"
  let ?s = "bip_counted RemoteReadResponses (bip_remote (DisposeMsg ?n (bip_remote (bip_counted Messages s))))"
  let ?b = "if excl then drop_holder src b else b"
  let ?t = "?s\<lparr>directoryData := (directoryData s)(a := Some ?b)\<rparr>"
  have t: "(if excl then BIPDirectory_EraseDirectoryShare m src ?s else Some ?s) = Some ?t"
    using assms(2,7) by (auto simp: BIPDirectory_EraseDirectoryShare_def fun_upd_idem bip_out)
  have "bip_awaited c ?t ds" using assms(6) by (simp add: bip_awaited_def)
  from bip_answer_shared_run[OF _ assms(4) this, where a = a and m = m and b = ?b] assms(2,3) obtain u es where
    u: "bip_answer_shared c m ?t = Some u" "events u = events ?t @ es"
      "concat (map (bip_answer_of c) es) = map (\<lambda>d. (ld_source d, msgID (ld_msg d), one_reader (all_added c ds ?b))) ds"
      "directoryData u a = Some (all_added c ds ?b)" "pendingDirectorySharedReads u a = []" by auto
  have m: "addr m = a" "satisfied m" "\<not> directoryLookup m" "exclusiveOwnership m = excl" using assms(2) by simp_all
  have "BIPDirectory_RecvMsg c ?n RemoteNodeConnection s =
      BIPDirectory_OnRemoteReadResponse c m src (DisposeMsg ?n (bip_remote (bip_counted Messages s)))"
    using assms(2) by (simp add: BIPDirectory_RecvMsg_def DebugAssert_def)
  also have "\<dots> = Option.bind (if excl then BIPDirectory_EraseDirectoryShare m src ?s else Some ?s) (\<lambda>s.
      Option.bind (if pendingDirectorySharedReads s a \<noteq> [] then bip_answer_shared c m s else bip_answer_exclusive c m src s)
        (\<lambda>s. Some (DisposeMsg m s)))"
    using assms(3,4,5,7) m by (simp add: BIPDirectory_OnRemoteReadResponse_def DebugAssert_def Let_def cong: if_cong)
  also have "\<dots> = Some (DisposeMsg m u)" unfolding t using assms(3,4) u(1) by simp
  finally have "BIPDirectory_RecvMsg c ?n RemoteNodeConnection s = Some (DisposeMsg m u)" .
  moreover have "events (DisposeMsg m u) = events s @ Disposed k # es @ [Disposed (msgID m)]" using u(2) by simp
  moreover have src: "\<forall>d\<in>set ds. ld_source d \<noteq> InvalidNodeID" using assms(6) by (simp add: bip_awaited_def)
  moreover note all_added_holders[OF assms(1) src, of ?b] one_reader_alone[OF _ assms(1,4) src, of ?b]
  ultimately show ?thesis using u(3-5)
    by (intro exI[of _ "DisposeMsg m u"] exI[of _ "Disposed k # es @ [Disposed (msgID m)]"] exI[of _ "all_added c ds ?b"]) simp
qed

definition demo_bip_reader :: "bip_directory option" where
  "demo_bip_reader = demo_bip_run [(20, 1, ReadMsg 5 0 64 32 False False True False)]"

theorem bip_answers_readers_witness:
  "\<exists>s s' es b'. demo_bip_reader = Some s \<and> BIPDirectory_RecvMsg demo_bip
      (NetworkMsg 21 0 9 0 False (ReadResponseMsg 30 0 64 32 True True False True False 5)) RemoteNodeConnection s = Some s' \<and>
    events s' = events s @ es \<and> directoryData s' 64 = Some b' \<and> bip_holders b' = {1} \<and>
    concat (map (bip_answer_of demo_bip) es) = [(1, 5, one_reader b')]"
proof -
  let ?d = "\<lparr>ld_msg = ReadMsg 5 0 64 32 False False True False, ld_source = 1, invalidateResponsesExpected = 0, invalidateResponsesReceived = 0\<rparr>"
  have "returns demo_bip_reader (\<lambda>s. directoryData s 64 = Some \<lparr>sharers = [], owner = InvalidNodeID\<rparr> \<and>
      pendingDirectorySharedReads s 64 = [?d] \<and> pendingDirectoryExclusiveReads s 64 = None)" by code_simp
  then obtain s where s: "demo_bip_reader = Some s" "directoryData s 64 = Some \<lparr>sharers = [], owner = InvalidNodeID\<rparr>"
      "pendingDirectorySharedReads s 64 = [?d]" "pendingDirectoryExclusiveReads s 64 = None" by (auto simp: returns_def split: option.splits)
  have n: "nodeID demo_bip = 0" by (simp add: demo_bip_def)
  have o: "bip_order_ok demo_bip" by (simp add: bip_order_ok_def demo_bip_def)
  have w: "bip_awaited demo_bip s [?d]" by (simp add: bip_awaited_def n InvalidNodeID_def)
  have h: "bip_holders (drop_holder 9 \<lparr>sharers = [], owner = InvalidNodeID\<rparr>) \<union> {1} = {1}"
    by (simp add: bip_holders_def drop_holder_def InvalidNodeID_def)
  from bip_answers_readers[OF o refl s(3) _ s(4) w s(2), of 21 0 9 False 30 0 32 True True False 5] s(1) h
  show ?thesis unfolding n by (auto 0 3)
qed

text \<open>
  C15: A read that its holder refuses is not lost: the holder's directory forgets it and sends the home
  of the block a nak; the home, on that message, asks the holder again for the block on behalf of
  the first pending reader, answers nobody and keeps every read pending. If no read of the block is pending any
  more, the nak changes nothing.
\<close>
theorem bip_nak_refetches:
  assumes "m = ReadResponseMsg i pc a sz False att dl excl dirty n"
    and "pendingRemoteReads t n = Some d" and "msgID (ld_msg d) = n"
    and "CalcNodeID (directoryNodeCalc ch) a = Some (nodeID c)" and "nodeID c \<noteq> InvalidNodeID" and "nodeID c \<noteq> nodeID ch"
    and "directoryData s a = Some b" and "owner b = nodeID ch" and "nodeID ch \<noteq> InvalidNodeID"
    and "pendingDirectoryExclusiveReads s a = None" and "\<forall>d\<in>set (pendingDirectorySharedReads s a). addr (ld_msg d) = a \<and> is_read (ld_msg d)"
  shows "\<exists>t' k nak s'. BIPDirectory_RecvMsg ch m LocalCacheConnection t = Some t' \<and> pendingRemoteReads t' n = None \<and>
    events t' = events t @ [Sent RemoteNodeConnection (NetworkMsg k pc (nodeID ch) (nodeID c) False nak) (remoteSendTime ch)] \<and>
    BIPDirectory_RecvMsg c (NetworkMsg k pc (nodeID ch) (nodeID c) False nak) RemoteNodeConnection s = Some s' \<and>
    pendingDirectorySharedReads s' = pendingDirectorySharedReads s \<and> directoryData s' = directoryData s \<and>
    (case pendingDirectorySharedReads s a of
       [] \<Rightarrow> events s' = events s @ [Disposed k]
     | d # _ \<Rightarrow> events s' = events s @ [Disposed k, Sent RemoteNodeConnection (NetworkMsg (currentMsgStamp s + 1) (generatingPC (ld_msg d))
         (nodeID c) (nodeID ch) False (fetch_msg (ld_msg d))) (lookupTime c + remoteSendTime c)])"
proof -
  let ?t = "bip_counted LocalReadResponses (bip_counted Messages t)"
  let ?nak = "DirectoryNakMsg (currentMsgStamp t) pc a sz False True i"
  let ?k = "currentMsgStamp t + 1"
  let ?n = "NetworkMsg ?k pc (nodeID ch) (nodeID c) False ?nak"
  let ?s = "DisposeMsg ?n (bip_remote (bip_counted Messages s))"
  obtain t' where holder: "BIPDirectory_RecvMsg ch m LocalCacheConnection t = Some t'" "pendingRemoteReads t' n = None"
      "events t' = events t @ [Sent RemoteNodeConnection ?n (remoteSendTime ch)]"
    using assms(1-6)
    by (simp add: BIPDirectory_RecvMsg_def BIPDirectory_OnLocalReadResponse_def SendDirectoryNak_ReadResponseMsg_def SendDirectoryNak_def
      SendMessageToNetwork_def DebugAssert_def Let_def bip_out)
  have home: "BIPDirectory_RecvMsg c ?n RemoteNodeConnection s = BIPDirectory_OnRemoteDirectoryNak c ?nak (nodeID ch) ?s"
    by (simp add: BIPDirectory_RecvMsg_def DebugAssert_def)
  show ?thesis
  proof (cases "pendingDirectorySharedReads s a")
    case Nil
    then have "BIPDirectory_OnRemoteDirectoryNak c ?nak (nodeID ch) ?s = Some (bip_remote ?s)"
      using assms(10) by (simp add: BIPDirectory_OnRemoteDirectoryNak_def)
    with holder home Nil show ?thesis
      by (intro exI[of _ t'] exI[of _ ?k] exI[of _ ?nak] exI[of _ "bip_remote ?s"]) simp
  next
    case (Cons r rs)
    with assms(11) have r: "addr (ld_msg r) = a" "is_read (ld_msg r)" by auto
    then obtain j q z re wr dk so where m: "ld_msg r = ReadMsg j q a z re wr dk so" by (cases "ld_msg r") auto
    obtain s' where "BIPDirectory_OnRemoteDirectoryNak c ?nak (nodeID ch) ?s = Some s'"
        "pendingDirectorySharedReads s' = pendingDirectorySharedReads s" "directoryData s' = directoryData s"
        "events s' = events s @ [Disposed ?k, Sent RemoteNodeConnection (NetworkMsg (currentMsgStamp s + 1) (generatingPC (ld_msg r))
         (nodeID c) (nodeID ch) False (fetch_msg (ld_msg r))) (lookupTime c + remoteSendTime c)]"
      using assms(5-10) Cons m
      by (simp add: BIPDirectory_OnRemoteDirectoryNak_def BIPDirectory_PerformDirectoryFetch_def DebugAssert_def Let_def bip_out
        bip_block_data_def fun_upd_idem)
    with holder home Cons show ?thesis by (intro exI[of _ t'] exI[of _ ?k] exI[of _ ?nak] exI[of _ s']) simp
  qed
qed

definition demo_bip_fetching :: "bip_directory option" where
  "demo_bip_fetching = demo_bip_run
     [(20, 1, ReadMsg 5 0 64 32 False False True False),
      (21, InvalidNodeID, ReadResponseMsg 30 0 64 32 True True False True False 5),
      (22, 2, ReadMsg 6 0 64 32 False False True False)]"

definition demo_bip_holder :: "bip_directory option" where
  "demo_bip_holder = bip_receive_all (demo_bip\<lparr>nodeID := 1\<rparr>)
     [(NetworkMsg 23 0 0 1 False (ReadMsg 6 0 64 32 False False False False), RemoteNodeConnection)] demo_bip_begin"

theorem bip_nak_refetches_witness:
  "\<exists>s t t' k nak s'. demo_bip_fetching = Some s \<and> demo_bip_holder = Some t \<and>
    BIPDirectory_RecvMsg (demo_bip\<lparr>nodeID := 1\<rparr>) (ReadResponseMsg 31 0 64 32 False False False False False 6) LocalCacheConnection t = Some t' \<and>
    BIPDirectory_RecvMsg demo_bip (NetworkMsg k 0 1 0 False nak) RemoteNodeConnection s = Some s' \<and>
    pendingDirectorySharedReads s' = pendingDirectorySharedReads s"
proof -
  let ?r = "ReadMsg 6 0 64 32 False False False False" and ?q = "ReadMsg 6 0 64 32 False False True False"
  let ?h = "demo_bip\<lparr>nodeID := 1\<rparr>"
  have "returns demo_bip_fetching (\<lambda>s. directoryData s 64 = Some \<lparr>sharers = [], owner = 1\<rparr> \<and> map ld_msg (pendingDirectorySharedReads s 64) = [?q] \<and>
      pendingDirectoryExclusiveReads s 64 = None)" by code_simp
  then obtain s where s: "demo_bip_fetching = Some s" "directoryData s 64 = Some \<lparr>sharers = [], owner = 1\<rparr>"
      "map ld_msg (pendingDirectorySharedReads s 64) = [?q]" "pendingDirectoryExclusiveReads s 64 = None"
    by (auto simp: returns_def split: option.splits)
  have "returns demo_bip_holder (\<lambda>t. pendingRemoteReads t 6 = Some \<lparr>ld_msg = ?r, ld_source = 0\<rparr>)" by code_simp
  then obtain t where t: "demo_bip_holder = Some t" "pendingRemoteReads t 6 = Some \<lparr>ld_msg = ?r, ld_source = 0\<rparr>"
    by (auto simp: returns_def split: option.splits)
  have n: "nodeID demo_bip = 0" "nodeID ?h = 1" "CalcNodeID (directoryNodeCalc ?h) 64 = Some (nodeID demo_bip)"
    by (simp_all add: demo_bip_def CalcNodeID_def DebugAssert_def)
  have reads: "\<forall>d\<in>set (pendingDirectorySharedReads s 64). addr (ld_msg d) = 64 \<and> is_read (ld_msg d)" using s(3) by auto
  from bip_nak_refetches[OF refl t(2) _ n(3) _ _ s(2) _ _ s(4) reads, of 31 0 32 False False False False] n(1,2)
  obtain t' k nak s' where
    "BIPDirectory_RecvMsg ?h (ReadResponseMsg 31 0 64 32 False False False False False 6) LocalCacheConnection t = Some t'"
    "BIPDirectory_RecvMsg demo_bip (NetworkMsg k 0 1 0 False nak) RemoteNodeConnection s = Some s'"
    "pendingDirectorySharedReads s' = pendingDirectorySharedReads s" by (auto simp: InvalidNodeID_def)
  with s(1) t(1) show ?thesis by blast
qed

end
