(* ===== verification/OriginMessages.thy ===== *)
theory OriginMessages
  imports Directory
begin

text \<open>
  The messages of the protocol of the SGI Origin, as \<^verbatim>\<open>MemSys/Devices/OriginDirectory.cpp\<close> uses them,
  and the functions of \<^verbatim>\<open>MemSys/EventManager.cpp\<close> that create and initialize them. The classes of
  \<^verbatim>\<open>MemSys/Messages\<close> inherit from each other and the code casts a message to the class that
  \<open>Type\<close> tells, so a message is one record with the type and the fields of all classes.

  Messages come from pools. An object of a pool keeps the fields it had when it was returned, so what
  a function does not set is left over: the objects that a pool hands out are a parameter.
\<close>

section \<open>Messages\<close>

datatype MsgType = mt_Read | mt_Write | mt_Invalidate | mt_Eviction | mt_ReadResponse | mt_WriteResponse
  | mt_InvalidateResponse | mt_EvictionResponse | mt_Network | mt_CacheNak | mt_DirectoryNak | mt_Intervention
  | mt_InvalidateAck | mt_ReadReply | mt_SpeculativeReply | mt_Transfer | mt_Writeback | mt_WritebackAck
  | mt_WritebackRequest

record message =
  Type :: MsgType
  msgID :: nat
  deviceID :: nat
  generatingPC :: nat
  isCache :: bool
  isDirectory :: bool
  addr :: nat
  msize :: nat
  solicitingMessage :: nat
  requestingExclusive :: bool
  alreadyHasBlock :: bool
  directoryLookup :: bool
  originalRequestingNode :: int
  onCompleted :: bool
  newOwner :: int
  satisfied :: bool
  blockAttached :: bool
  exclusiveOwnership :: bool
  interventionMessage :: nat
  isDirty :: bool
  isShared :: bool
  pendingInvalidates :: int
  isBusy :: bool
  isExclusive :: bool
  isInvalidateResponse :: bool
  isReadResponse :: bool

section \<open>New messages\<close>

definition SetIDInfo :: "nat \<Rightarrow> nat \<Rightarrow> nat \<Rightarrow> message \<Rightarrow> message" where
  "SetIDInfo k dev pc m = m\<lparr>msgID := k, deviceID := dev, generatingPC := pc\<rparr>"

text \<open>\<open>Fill...Msg\<close>: what the creation of a message sets besides its number.\<close>

definition FillBaseNakMsg :: "message \<Rightarrow> message" where
  "FillBaseNakMsg m = m\<lparr>isCache := False, isDirectory := False, addr := 0, solicitingMessage := 0\<rparr>"

definition FillEvictionMsg :: "message \<Rightarrow> message" where
  "FillEvictionMsg m = m\<lparr>isCache := False, isDirectory := False, addr := 0, blockAttached := False, msize := 0\<rparr>"

definition FillEvictionResponseMsg :: "message \<Rightarrow> message" where
  "FillEvictionResponseMsg m = m\<lparr>isCache := False, isDirectory := False, addr := 0, msize := 0, solicitingMessage := 0\<rparr>"

definition FillInvalidateMsg :: "message \<Rightarrow> message" where
  "FillInvalidateMsg m = m\<lparr>isCache := False, isDirectory := False, newOwner := InvalidNodeID\<rparr>"

definition FillInvalidateResponseMsg :: "message \<Rightarrow> message" where
  "FillInvalidateResponseMsg m = m\<lparr>isCache := False, isDirectory := False\<rparr>"

definition FillReadMsg :: "message \<Rightarrow> message" where
  "FillReadMsg m = m\<lparr>isCache := False, isDirectory := False, directoryLookup := False, originalRequestingNode := InvalidNodeID,
     onCompleted := False\<rparr>"

definition FillReadResponseMsg :: "message \<Rightarrow> message" where
  "FillReadResponseMsg m = m\<lparr>isCache := False, isDirectory := False, directoryLookup := False, exclusiveOwnership := False,
     interventionMessage := 0, isDirty := False, solicitingMessage := 0\<rparr>"

text \<open>\<open>Create...Msg\<close> for each type.\<close>

definition Create :: "MsgType \<Rightarrow> message \<Rightarrow> message" where
  "Create t m = (case t of
     mt_Read \<Rightarrow> FillReadMsg m
   | mt_Write \<Rightarrow> m\<lparr>onCompleted := False\<rparr>
   | mt_Invalidate \<Rightarrow> FillInvalidateMsg m
   | mt_Eviction \<Rightarrow> FillEvictionMsg m
   | mt_ReadResponse \<Rightarrow> FillReadResponseMsg m
   | mt_InvalidateResponse \<Rightarrow> FillInvalidateResponseMsg m
   | mt_EvictionResponse \<Rightarrow> FillEvictionResponseMsg m
   | mt_CacheNak \<Rightarrow> (FillBaseNakMsg m)\<lparr>interventionMessage := 0\<rparr>
   | mt_DirectoryNak \<Rightarrow> (FillBaseNakMsg m)\<lparr>isInvalidateResponse := False, isReadResponse := False, msize := 0\<rparr>
   | mt_Intervention \<Rightarrow> (FillReadMsg m)\<lparr>newOwner := InvalidNodeID, solicitingMessage := 0\<rparr>
   | mt_InvalidateAck \<Rightarrow> FillInvalidateResponseMsg m
   | mt_ReadReply \<Rightarrow> (FillReadResponseMsg m)\<lparr>pendingInvalidates := 0\<rparr>
   | mt_SpeculativeReply \<Rightarrow> FillReadResponseMsg m
   | mt_Transfer \<Rightarrow> (FillEvictionMsg m)\<lparr>isDirty := False, isShared := False\<rparr>
   | mt_Writeback \<Rightarrow> (FillEvictionMsg m)\<lparr>isDirty := False, isShared := False\<rparr>
   | mt_WritebackAck \<Rightarrow> (FillEvictionResponseMsg m)\<lparr>isBusy := False, isExclusive := False\<rparr>
   | mt_WritebackRequest \<Rightarrow> FillEvictionMsg m
   | _ \<Rightarrow> m)"

section \<open>Initialization from another message\<close>

text \<open>The overloaded functions are told apart by the class of the original.\<close>

definition InitializeBaseNakMsg_Intervention :: "message \<Rightarrow> message \<Rightarrow> message" where
  "InitializeBaseNakMsg_Intervention copy m = copy\<lparr>addr := addr m, msize := msize m, solicitingMessage := solicitingMessage m\<rparr>"

definition InitializeBaseNakMsg_Read :: "message \<Rightarrow> message \<Rightarrow> message" where
  "InitializeBaseNakMsg_Read copy m = copy\<lparr>addr := addr m, msize := msize m, solicitingMessage := msgID m\<rparr>"

definition InitializeEvictionMsg_Eviction :: "message \<Rightarrow> message \<Rightarrow> message" where
  "InitializeEvictionMsg_Eviction copy m = copy\<lparr>addr := addr m, blockAttached := blockAttached m, msize := of_bool (blockAttached m)\<rparr>"

definition InitializeEvictionMsg_Read :: "message \<Rightarrow> message \<Rightarrow> message" where
  "InitializeEvictionMsg_Read copy m = copy\<lparr>addr := addr m, msize := msize m\<rparr>"

definition InitializeEvictionResponseMsg_Eviction :: "message \<Rightarrow> message \<Rightarrow> message" where
  "InitializeEvictionResponseMsg_Eviction copy m = copy\<lparr>addr := addr m, msize := msize m, solicitingMessage := msgID m\<rparr>"

definition InitializeEvictionResponseMsg_EvictionResponse :: "message \<Rightarrow> message \<Rightarrow> message" where
  "InitializeEvictionResponseMsg_EvictionResponse copy m =
     copy\<lparr>addr := addr m, msize := msize m, solicitingMessage := solicitingMessage m\<rparr>"

definition InitializeEvictionResponseMsg_Read :: "message \<Rightarrow> message \<Rightarrow> message" where
  "InitializeEvictionResponseMsg_Read copy m = copy\<lparr>addr := addr m, msize := msize m, solicitingMessage := msgID m\<rparr>"

definition InitializeInvalidateMsg :: "message \<Rightarrow> message \<Rightarrow> message" where
  "InitializeInvalidateMsg copy m = copy\<lparr>addr := addr m, msize := msize m\<rparr>"

definition InitializeInvalidateResponseMsg_Invalidate :: "message \<Rightarrow> message \<Rightarrow> message" where
  "InitializeInvalidateResponseMsg_Invalidate copy m = copy\<lparr>addr := addr m, msize := msize m, solicitingMessage := msgID m\<rparr>"

definition InitializeInvalidateResponseMsg_InvalidateResponse :: "message \<Rightarrow> message \<Rightarrow> message" where
  "InitializeInvalidateResponseMsg_InvalidateResponse copy m =
     copy\<lparr>addr := addr m, blockAttached := blockAttached m, msize := msize m, solicitingMessage := solicitingMessage m\<rparr>"

definition InitializeReadMsg_Read :: "message \<Rightarrow> message \<Rightarrow> message" where
  "InitializeReadMsg_Read copy m = copy\<lparr>addr := addr m, alreadyHasBlock := alreadyHasBlock m, directoryLookup := directoryLookup m,
     onCompleted := onCompleted m, requestingExclusive := requestingExclusive m, msize := msize m\<rparr>"

definition InitializeReadMsg_ReadResponse :: "message \<Rightarrow> message \<Rightarrow> message" where
  "InitializeReadMsg_ReadResponse copy m = copy\<lparr>addr := addr m, msize := msize m\<rparr>"

definition InitializeReadResponseMsg_Intervention :: "message \<Rightarrow> message \<Rightarrow> message" where
  "InitializeReadResponseMsg_Intervention copy m = copy\<lparr>addr := addr m, msize := msize m, solicitingMessage := solicitingMessage m\<rparr>"

definition InitializeReadResponseMsg_Read :: "message \<Rightarrow> message \<Rightarrow> message" where
  "InitializeReadResponseMsg_Read copy m = copy\<lparr>addr := addr m, msize := msize m, solicitingMessage := msgID m\<rparr>"

definition InitializeReadResponseMsg_ReadResponse :: "message \<Rightarrow> message \<Rightarrow> message" where
  "InitializeReadResponseMsg_ReadResponse copy m = copy\<lparr>addr := addr m, blockAttached := blockAttached m,
     directoryLookup := directoryLookup m, exclusiveOwnership := exclusiveOwnership m, isDirty := isDirty m,
     satisfied := satisfied m, msize := msize m, solicitingMessage := solicitingMessage m\<rparr>"

definition InitializeWriteMsg_Eviction :: "message \<Rightarrow> message \<Rightarrow> message" where
  "InitializeWriteMsg_Eviction copy m = copy\<lparr>addr := addr m, msize := msize m\<rparr>"

definition InitializeWriteMsg_ReadResponse :: "message \<Rightarrow> message \<Rightarrow> message" where
  "InitializeWriteMsg_ReadResponse copy m = copy\<lparr>addr := addr m, msize := msize m\<rparr>"

lemmas Fill_defs = FillBaseNakMsg_def FillEvictionMsg_def FillEvictionResponseMsg_def FillInvalidateMsg_def
  FillInvalidateResponseMsg_def FillReadMsg_def FillReadResponseMsg_def

lemmas Initialize_defs = InitializeBaseNakMsg_Intervention_def InitializeBaseNakMsg_Read_def InitializeEvictionMsg_Eviction_def
  InitializeEvictionMsg_Read_def InitializeEvictionResponseMsg_Eviction_def InitializeEvictionResponseMsg_EvictionResponse_def
  InitializeEvictionResponseMsg_Read_def InitializeInvalidateMsg_def InitializeInvalidateResponseMsg_Invalidate_def
  InitializeInvalidateResponseMsg_InvalidateResponse_def InitializeReadMsg_Read_def InitializeReadMsg_ReadResponse_def
  InitializeReadResponseMsg_Intervention_def InitializeReadResponseMsg_Read_def InitializeReadResponseMsg_ReadResponse_def
  InitializeWriteMsg_Eviction_def InitializeWriteMsg_ReadResponse_def

end
