(* ===== verification/OriginState.thy ===== *)
theory OriginState
  imports OriginMessages "HOL-Library.Word"
begin

text \<open>
  The state of \<^verbatim>\<open>MemSys/Devices/OriginDirectory.cpp\<close> and what its handlers share: access to the data of
  a block, the sending of messages, and the checks of answers from the memory. One device is both the
  cache side of its node (\<open>CacheData\<close> for each block) and the home of some blocks (\<open>DirectoryData\<close>).
\<close>

section \<open>State\<close>

datatype CacheState = cs_Exclusive | cs_ExclusiveInterventionEviction | cs_ExclusiveWaitingForSpeculativeReply
  | cs_Invalid | cs_Shared | cs_SharedWaitingForSpeculativeReply | cs_WaitingForIntervention
  | cs_WaitingForExclusiveReadResponse | cs_WaitingForExclusiveResponseAck | cs_WaitingForKInvalidatesJInvalidatesReceived
  | cs_WaitingForSharedReadResponse | cs_WaitingForSharedResponseAck | cs_WaitingForWritebackBusyAck
  | cs_WaitingForWritebackResponse

datatype ReadRequestState = rrs_NoPendingReads | rrs_PendingExclusiveRead | rrs_PendingSharedRead
  | rrs_PendingSharedReadExclusiveRead

datatype DirectoryState = ds_BusyExclusive | ds_BusyExclusiveMemoryAccess | ds_BusyExclusiveMemoryAccessWritebackRequest
  | ds_BusyShared | ds_BusySharedMemoryAccess | ds_BusySharedMemoryAccessWritebackRequest | ds_Exclusive
  | ds_ExclusiveMemoryAccess | ds_Shared | ds_SharedMemoryAccess | ds_SharedExclusiveMemoryAccess
  | ds_SharedMemoryAccessWritebackRequest | ds_Unowned

record CacheData =
  cacheState :: CacheState
  readRequestState :: ReadRequestState
  isCanceledReadRequest :: bool
  currentMessage :: nat
  previousMessage :: nat
  firstReply :: "message option"
  firstReplySrc :: int
  secondReply :: "message option"
  invalidAcksReceived :: int
  cacheDataPendingLocalReads :: "message list"

text \<open>The references of \<open>DirectoryData\<close> to the last two messages are only for debugging.\<close>

record OriginLookupData =
  lookup_read :: message
  lookup_source :: int

record DirectoryData =
  firstRequest :: "message option"
  firstRequestSrc :: int
  owner :: int
  previousOwner :: int
  sharers :: "int list"
  secondRequest :: "message option"
  secondRequestSrc :: int
  pendingSharedReads :: "OriginLookupData list"
  state :: DirectoryState

text \<open>Calls made later, what the device does to the outside, and what it receives.\<close>

datatype origin_call = CBRecvMsgDirectory message int bool | CBRecvMsgCache message int

datatype origin_event = SentLocalCache message nat | SentLocalMemory message nat
  | SentRemote (network_id: nat) (network_source: int) (network_destination: int) (network_payload: message) (network_delay: nat)
  | ScheduledCall origin_call nat | DisposedOf nat

datatype origin_input = FromLocalCache message | FromLocalMemory message | FromRemote (origin_source: int) (origin_destination: int) message

text \<open>The counters that \<open>DumpStats\<close> prints.\<close>

datatype origin_counter = messagesReceived | cacheNaksReceived | cacheEvictionsReceived | cacheInterventionsReceived
  | cacheInvalidatesReceived | cacheInvalidateAcksReceived | cacheInvalidateResponsesReceived | cacheSpeculativeRepliesReceived
  | cacheReadsReceived | cacheReadResponsesReceived | cacheReadRepliesReceived | directoryNaksReceived | directoryReadsReceived
  | directoryWritebacksReceived | directoryWritebackRequestsReceived

record origin_config =
  localSendTime :: nat
  remoteSendTime :: nat
  lookupRetryTime :: nat
  nodeID :: int
  GetDeviceID :: nat
  directoryNodeCalc :: HashedPageCalculator
  order_nodes :: "int list \<Rightarrow> int list"
  pool :: "MsgType \<Rightarrow> nat \<Rightarrow> message"

record origin =
  currentMsgStamp :: nat
  events :: "origin_event list"
  received :: "origin_counter \<Rightarrow> nat"
  remoteMessagesReceived :: "64 word"
  pendingLocalReads :: "nat \<Rightarrow> message option"
  pendingRemoteReads :: "nat \<Rightarrow> message option"
  pendingRemoteInvalidates :: "nat \<Rightarrow> message option"
  pendingMemoryReadAccesses :: "nat \<Rightarrow> message option"
  pendingMemoryWriteAccesses :: "nat \<Rightarrow> message option"
  pendingEviction :: "nat \<Rightarrow> message option"
  directoryDataMap :: "nat \<Rightarrow> DirectoryData"
  cacheDataMap :: "nat \<Rightarrow> CacheData"

text \<open>The data of a block that is not yet in a map.\<close>

definition new_CacheData :: CacheData where
  "new_CacheData = \<lparr>cacheState = cs_Invalid, readRequestState = rrs_NoPendingReads, isCanceledReadRequest = False,
     currentMessage = 0, previousMessage = 0, firstReply = None, firstReplySrc = InvalidNodeID, secondReply = None,
     invalidAcksReceived = 0, cacheDataPendingLocalReads = []\<rparr>"

definition new_DirectoryData :: DirectoryData where
  "new_DirectoryData = \<lparr>firstRequest = None, firstRequestSrc = InvalidNodeID, owner = InvalidNodeID, previousOwner = InvalidNodeID,
     sharers = [], secondRequest = None, secondRequestSrc = InvalidNodeID, pendingSharedReads = [], state = ds_Unowned\<rparr>"

definition Origin_Initialize :: "nat \<Rightarrow> origin" where
  "Origin_Initialize k = \<lparr>currentMsgStamp = k, events = [], received = (\<lambda>_. 0), remoteMessagesReceived = 0,
     pendingLocalReads = (\<lambda>_. None), pendingRemoteReads = (\<lambda>_. None), pendingRemoteInvalidates = (\<lambda>_. None),
     pendingMemoryReadAccesses = (\<lambda>_. None), pendingMemoryWriteAccesses = (\<lambda>_. None), pendingEviction = (\<lambda>_. None),
     directoryDataMap = (\<lambda>_. new_DirectoryData), cacheDataMap = (\<lambda>_. new_CacheData)\<rparr>"

section \<open>Access to the data of a block\<close>

definition on_cache :: "nat \<Rightarrow> (CacheData \<Rightarrow> CacheData) \<Rightarrow> origin \<Rightarrow> origin" where
  "on_cache a f s = s\<lparr>cacheDataMap := (cacheDataMap s)(a := f (cacheDataMap s a))\<rparr>"

definition on_directory :: "nat \<Rightarrow> (DirectoryData \<Rightarrow> DirectoryData) \<Rightarrow> origin \<Rightarrow> origin" where
  "on_directory a f s = s\<lparr>directoryDataMap := (directoryDataMap s)(a := f (directoryDataMap s a))\<rparr>"

definition SetCacheState :: "nat \<Rightarrow> CacheState \<Rightarrow> origin \<Rightarrow> origin" where
  "SetCacheState a st = on_cache a (\<lambda>d. d\<lparr>cacheState := st\<rparr>)"

definition set_first_reply :: "nat \<Rightarrow> message \<Rightarrow> int \<Rightarrow> origin \<Rightarrow> origin" where
  "set_first_reply a m src = on_cache a (\<lambda>d. d\<lparr>firstReply := Some m, firstReplySrc := src\<rparr>)"

definition set_state :: "nat \<Rightarrow> DirectoryState \<Rightarrow> origin \<Rightarrow> origin" where
  "set_state a st = on_directory a (\<lambda>d. d\<lparr>state := st\<rparr>)"

definition ClearTempCacheData :: "nat \<Rightarrow> origin \<Rightarrow> origin" where
  "ClearTempCacheData a = on_cache a (\<lambda>d. d\<lparr>firstReply := None, firstReplySrc := InvalidNodeID, invalidAcksReceived := 0,
     secondReply := None\<rparr>)"

definition ClearTempDirectoryData :: "nat \<Rightarrow> origin \<Rightarrow> origin" where
  "ClearTempDirectoryData a = on_directory a (\<lambda>d. d\<lparr>firstRequest := None, firstRequestSrc := InvalidNodeID,
     previousOwner := InvalidNodeID, secondRequest := None, secondRequestSrc := InvalidNodeID\<rparr>)"

definition origin_counted :: "origin_counter \<Rightarrow> origin \<Rightarrow> origin" where
  "origin_counted k s = s\<lparr>received := (received s)(k := received s k + 1)\<rparr>"

section \<open>Sending\<close>

definition emit :: "origin_event \<Rightarrow> origin \<Rightarrow> origin" where
  "emit e s = s\<lparr>events := events s @ [e]\<rparr>"

definition new_msg :: "origin_config \<Rightarrow> MsgType \<Rightarrow> nat \<Rightarrow> origin \<Rightarrow> message \<times> origin" where
  "new_msg c t pc s = (let k = currentMsgStamp s in
     (Create t (SetIDInfo k (GetDeviceID c) pc ((pool c t k)\<lparr>Type := t\<rparr>)), s\<lparr>currentMsgStamp := k + 1\<rparr>))"

text \<open>\<open>ReplicateMsg\<close> takes a number, and then copies the whole message.\<close>

definition Replicate :: "message \<Rightarrow> origin \<Rightarrow> message \<times> origin" where
  "Replicate m s = (m, s\<lparr>currentMsgStamp := currentMsgStamp s + 1\<rparr>)"

definition Origin_SendMessageToNetwork :: "origin_config \<Rightarrow> message \<Rightarrow> int \<Rightarrow> origin \<Rightarrow> origin option" where
  "Origin_SendMessageToNetwork c m dest s = do {
     DebugAssert (dest \<noteq> nodeID c);
     let (nm, s) = new_msg c mt_Network (generatingPC m) s;
     Some (emit (SentRemote (msgID nm) (nodeID c) dest m (remoteSendTime c)) s) }"

definition SendMessageToRemoteCache :: "origin_config \<Rightarrow> message \<Rightarrow> int \<Rightarrow> origin \<Rightarrow> origin option" where
  "SendMessageToRemoteCache c msgIn dest s = do {
     DebugAssert (dest \<noteq> InvalidNodeID);
     let (m, s) = Replicate msgIn s;
     let m = m\<lparr>isCache := True\<rparr>;
     if dest = nodeID c then Some (emit (ScheduledCall (CBRecvMsgCache m (nodeID c)) (localSendTime c)) s)
     else Origin_SendMessageToNetwork c m dest s }"

definition SendMessageToLocalCache :: "origin_config \<Rightarrow> message \<Rightarrow> origin \<Rightarrow> origin" where
  "SendMessageToLocalCache c msg s = (let (m, s) = new_msg c mt_ReadResponse (generatingPC msg) s;
     m = InitializeReadResponseMsg_ReadResponse m msg in
     emit (DisposedOf (msgID msg)) (emit (SentLocalCache m (localSendTime c)) s))"

definition SendMessageToDirectory :: "origin_config \<Rightarrow> message \<Rightarrow> bool \<Rightarrow> origin \<Rightarrow> origin option" where
  "SendMessageToDirectory c m isFromMemory s = do {
     dirNode \<leftarrow> CalcNodeID (directoryNodeCalc c) (addr m);
     DebugAssert (dirNode \<noteq> InvalidNodeID);
     let m = m\<lparr>isDirectory := True\<rparr>;
     if dirNode = nodeID c
     then Some (emit (ScheduledCall (CBRecvMsgDirectory m (nodeID c) isFromMemory) (localSendTime c)) s)
     else Origin_SendMessageToNetwork c m dirNode s }"

definition ResendRequestToDirectory :: "origin_config \<Rightarrow> message \<Rightarrow> origin \<Rightarrow> origin option" where
  "ResendRequestToDirectory c m s = do {
     dirNode \<leftarrow> CalcNodeID (directoryNodeCalc c) (addr m);
     let m = m\<lparr>isDirectory := True\<rparr>;
     if dirNode = nodeID c
     then Some (emit (ScheduledCall (CBRecvMsgDirectory m (nodeID c) False) (lookupRetryTime c)) s)
     else Origin_SendMessageToNetwork c m dirNode s }"

definition SendRequestToMemory :: "origin_config \<Rightarrow> message \<Rightarrow> origin \<Rightarrow> origin option" where
  "SendRequestToMemory c m s =
     (if Type m = mt_Read then do {
        DebugAssert (pendingMemoryReadAccesses s (msgID m) = None);
        let s = s\<lparr>pendingMemoryReadAccesses := (pendingMemoryReadAccesses s)(msgID m := Some m)\<rparr>;
        let (forward, s) = Replicate m s;
        Some (emit (SentLocalMemory forward (localSendTime c)) s) }
      else if Type m = mt_Write then do {
        DebugAssert (pendingMemoryWriteAccesses s (msgID m) = None);
        let s = s\<lparr>pendingMemoryWriteAccesses := (pendingMemoryWriteAccesses s)(msgID m := Some m)\<rparr>;
        let (forward, s) = Replicate m s;
        Some (emit (SentLocalMemory forward (localSendTime c)) s) }
      else None)"

definition SendCacheNak_Intervention :: "origin_config \<Rightarrow> message \<Rightarrow> origin \<Rightarrow> origin option" where
  "SendCacheNak_Intervention c m s = (let (cnk, s) = new_msg c mt_CacheNak (generatingPC m) s;
     cnk = (InitializeBaseNakMsg_Intervention cnk m)\<lparr>interventionMessage := msgID m\<rparr> in
     SendMessageToRemoteCache c cnk (newOwner m) s)"

definition SendCacheNak_Read :: "origin_config \<Rightarrow> message \<Rightarrow> int \<Rightarrow> origin \<Rightarrow> origin option" where
  "SendCacheNak_Read c m dest s = (let (cnk, s) = new_msg c mt_CacheNak (generatingPC m) s in
     SendMessageToRemoteCache c (InitializeBaseNakMsg_Read cnk m) dest s)"

definition Origin_SendDirectoryNak :: "origin_config \<Rightarrow> message \<Rightarrow> origin \<Rightarrow> origin option" where
  "Origin_SendDirectoryNak c m s = (let (dnk, s) = new_msg c mt_DirectoryNak (generatingPC m) s in
     SendMessageToDirectory c (InitializeBaseNakMsg_Intervention dnk m) False s)"

definition SendInterventionNaks :: "origin_config \<Rightarrow> message \<Rightarrow> origin \<Rightarrow> origin option" where
  "SendInterventionNaks c im s = do {
     DebugAssert (newOwner im \<noteq> InvalidNodeID);
     s \<leftarrow> Origin_SendDirectoryNak c im s;
     SendCacheNak_Intervention c im s }"

definition SendInvalidateMsg :: "origin_config \<Rightarrow> message \<Rightarrow> int \<Rightarrow> int \<Rightarrow> origin \<Rightarrow> origin option" where
  "SendInvalidateMsg c m dest newOwn s = (let (im, s) = new_msg c mt_Invalidate (generatingPC m) s;
     im = (InitializeInvalidateMsg im m)\<lparr>newOwner := newOwn\<rparr> in
     SendMessageToRemoteCache c im dest s)"

section \<open>Answers of the memory\<close>

definition PerformMemoryReadResponseCheck :: "message \<Rightarrow> int \<Rightarrow> origin \<Rightarrow> origin option" where
  "PerformMemoryReadResponseCheck m src s = do {
     DebugAssert (src = InvalidNodeID);
     DebugAssert (pendingMemoryReadAccesses s (solicitingMessage m) \<noteq> None);
     Some (s\<lparr>pendingMemoryReadAccesses := (pendingMemoryReadAccesses s)(solicitingMessage m := None)\<rparr>) }"

definition PerformMemoryWriteResponseCheck :: "message \<Rightarrow> int \<Rightarrow> origin \<Rightarrow> origin option" where
  "PerformMemoryWriteResponseCheck m src s = do {
     DebugAssert (src = InvalidNodeID);
     DebugAssert (pendingMemoryWriteAccesses s (solicitingMessage m) \<noteq> None);
     Some (s\<lparr>pendingMemoryWriteAccesses := (pendingMemoryWriteAccesses s)(solicitingMessage m := None)\<rparr>) }"

end
