(* ===== verification/OriginCache.thy ===== *)
theory OriginCache
  imports OriginState
begin

text \<open>
  The cache side of \<^verbatim>\<open>MemSys/Devices/OriginDirectory.cpp\<close>: the handlers \<^verbatim>\<open>OnCache...\<close>, one for each
  state of a block. The parameter \<open>a\<close> is the address whose \<open>CacheData\<close> the code passes by reference.
  A failed assertion and a message that a state does not handle (\<open>PrintError\<close>) give \<open>None\<close>.
\<close>

section \<open>Local reads\<close>

text \<open>\<open>ProcessReadResponse\<close> up to the reads that wait behind the one answered.\<close>

definition pop_local_read :: "nat \<Rightarrow> message \<Rightarrow> origin \<Rightarrow> origin option" where
  "pop_local_read a m s = do {
     DebugAssert (pendingLocalReads s (solicitingMessage m) \<noteq> None);
     let s = s\<lparr>pendingLocalReads := (pendingLocalReads s)(solicitingMessage m := None)\<rparr>;
     let rs = cacheDataPendingLocalReads (cacheDataMap s a);
     DebugAssert (rs \<noteq> []);
     DebugAssert (msgID (hd rs) = solicitingMessage m);
     let s = emit (DisposedOf (msgID (hd rs))) s;
     Some (on_cache a (\<lambda>d. d\<lparr>cacheDataPendingLocalReads := tl rs\<rparr>) s) }"

text \<open>\<open>OnCache\<close> notes the message before it looks at the state of the block.\<close>

definition note_message :: "nat \<Rightarrow> message \<Rightarrow> origin \<Rightarrow> origin" where
  "note_message a m = on_cache a (\<lambda>d. d\<lparr>previousMessage := currentMessage d, currentMessage := msgID m\<rparr>)"

text \<open>A read when the block is invalid, shared or exclusive.\<close>

definition read_while_invalid :: "origin_config \<Rightarrow> nat \<Rightarrow> message \<Rightarrow> int \<Rightarrow> origin \<Rightarrow> origin option" where
  "read_while_invalid c a m src s = do {
     DebugAssert (src = InvalidNodeID);
     let s = SetCacheState a (if requestingExclusive m then cs_WaitingForExclusiveReadResponse
       else cs_WaitingForSharedReadResponse) s;
     let (forward, s) = Replicate m s;
     SendMessageToDirectory c forward False s }"

definition read_while_shared :: "origin_config \<Rightarrow> nat \<Rightarrow> message \<Rightarrow> origin \<Rightarrow> origin option" where
  "read_while_shared c a m s = do {
     DebugAssert (requestingExclusive m);
     let s = SetCacheState a cs_WaitingForExclusiveReadResponse s;
     let (forward, s) = Replicate m s;
     SendMessageToDirectory c forward False s }"

definition read_while_exclusive :: "origin_config \<Rightarrow> nat \<Rightarrow> message \<Rightarrow> origin \<Rightarrow> origin option" where
  "read_while_exclusive c a m s = (let (forward, s) = new_msg c mt_ReadResponse (generatingPC m) s in
     pop_local_read a (InitializeReadResponseMsg_Read forward m) s)"

text \<open>
  \<open>ProcessRemainingPendingLocalReads\<close> calls \<open>OnCache\<close> with the first waiting read, which in an
  exclusive block is dropped at once and gives way to the next one: the recursion is on the reads that wait.
\<close>

fun serve_reads :: "origin_config \<Rightarrow> nat \<Rightarrow> message list \<Rightarrow> origin \<Rightarrow> origin option" where
  "serve_reads c a [] s = Some s"
| "serve_reads c a (r # rs) s =
     (let s = note_message a r s in
      case cacheState (cacheDataMap s a) of
        cs_Exclusive \<Rightarrow> do { s \<leftarrow> read_while_exclusive c a r s; serve_reads c a rs s }
      | cs_Invalid \<Rightarrow> read_while_invalid c a r InvalidNodeID s
      | cs_Shared \<Rightarrow> read_while_shared c a r s
      | _ \<Rightarrow> None)"

definition ProcessRemainingPendingLocalReads :: "origin_config \<Rightarrow> nat \<Rightarrow> origin \<Rightarrow> origin option" where
  "ProcessRemainingPendingLocalReads c a s = serve_reads c a (cacheDataPendingLocalReads (cacheDataMap s a)) s"

definition ProcessReadResponse :: "origin_config \<Rightarrow> nat \<Rightarrow> message \<Rightarrow> origin \<Rightarrow> origin option" where
  "ProcessReadResponse c a m s = do { s \<leftarrow> pop_local_read a m s; ProcessRemainingPendingLocalReads c a s }"

section \<open>Interventions and invalidations\<close>

text \<open>A block that is given to another node: the answer to it, and the word to the directory.\<close>

definition answer_intervention :: "origin_config \<Rightarrow> message \<Rightarrow> bool \<Rightarrow> bool \<Rightarrow> origin \<Rightarrow> origin option" where
  "answer_intervention c m attached named s = (let (rrm, s) = new_msg c mt_ReadResponse (generatingPC m) s;
     rrm = (InitializeReadResponseMsg_Intervention rrm m)\<lparr>blockAttached := attached, exclusiveOwnership := requestingExclusive m,
       satisfied := True\<rparr>;
     rrm = (if named then rrm\<lparr>interventionMessage := msgID m\<rparr> else rrm) in
     SendMessageToRemoteCache c rrm (newOwner m) s)"

definition send_transfer :: "origin_config \<Rightarrow> message \<Rightarrow> origin \<Rightarrow> origin option" where
  "send_transfer c m s = (let (tm, s) = new_msg c mt_Transfer (generatingPC m) s;
     tm = (InitializeEvictionMsg_Read tm m)\<lparr>blockAttached := False\<rparr>;
     tm = (if requestingExclusive m then tm\<lparr>isDirty := True\<rparr> else tm\<lparr>isShared := True\<rparr>) in
     SendMessageToDirectory c tm False s)"

definition send_writeback :: "origin_config \<Rightarrow> message \<Rightarrow> origin \<Rightarrow> origin option" where
  "send_writeback c m s = (let (wm, s) = new_msg c mt_Writeback (generatingPC m) s;
     wm = (InitializeEvictionMsg_Read wm m)\<lparr>blockAttached := True, isShared := True\<rparr> in
     SendMessageToDirectory c wm False s)"

definition ProcessInterventionWhileInvalid :: "origin_config \<Rightarrow> message \<Rightarrow> int \<Rightarrow> origin \<Rightarrow> origin option" where
  "ProcessInterventionWhileInvalid c m src s = do {
     dirNode \<leftarrow> CalcNodeID (directoryNodeCalc c) (addr m);
     DebugAssert (src = dirNode);
     DebugAssert (newOwner m \<noteq> InvalidNodeID);
     s \<leftarrow> answer_intervention c m False False s;
     send_transfer c m s }"

definition ProcessInvalidateWhileInvalid :: "origin_config \<Rightarrow> message \<Rightarrow> int \<Rightarrow> origin \<Rightarrow> origin option" where
  "ProcessInvalidateWhileInvalid c m src s = do {
     dirNode \<leftarrow> CalcNodeID (directoryNodeCalc c) (addr m);
     DebugAssert (src = dirNode);
     let (iam, s) = new_msg c mt_InvalidateAck (generatingPC m) s;
     let iam = (InitializeInvalidateResponseMsg_Invalidate iam m)\<lparr>blockAttached := False\<rparr>;
     SendMessageToRemoteCache c iam (newOwner m) s }"

text \<open>The answer of the local cache to an invalidation, passed on to the new owner.\<close>

definition send_ack :: "origin_config \<Rightarrow> message \<Rightarrow> message \<Rightarrow> origin \<Rightarrow> origin option" where
  "send_ack c first m s = do {
     let (iam, s) = new_msg c mt_InvalidateAck (generatingPC m) s;
     DebugAssert (newOwner first \<noteq> InvalidNodeID);
     SendMessageToRemoteCache c (InitializeInvalidateResponseMsg_InvalidateResponse iam m) (newOwner first) s }"

definition send_eviction_response :: "origin_config \<Rightarrow> nat \<Rightarrow> (message \<Rightarrow> message) \<Rightarrow> origin \<Rightarrow> origin" where
  "send_eviction_response c pc init s = (let (erm, s) = new_msg c mt_EvictionResponse pc s in
     emit (SentLocalCache (init erm) (localSendTime c)) s)"

section \<open>Exclusive blocks\<close>

definition OnCacheCleanExclusive :: "origin_config \<Rightarrow> nat \<Rightarrow> message \<Rightarrow> int \<Rightarrow> origin \<Rightarrow> origin option" where
  "OnCacheCleanExclusive c a m src s =
     (if Type m = mt_Eviction then do {
        DebugAssert (pendingEviction s (addr m) = None);
        DebugAssert (firstReply (cacheDataMap s a) = None);
        DebugAssert (src = InvalidNodeID);
        let s = send_eviction_response c (generatingPC m) (\<lambda>erm. InitializeEvictionResponseMsg_Eviction erm m) s;
        Some (SetCacheState a cs_Invalid s) }
      else if Type m = mt_Intervention then do {
        dirNode \<leftarrow> CalcNodeID (directoryNodeCalc c) (addr m);
        DebugAssert (src = dirNode);
        DebugAssert (pendingEviction s (addr m) = None);
        s \<leftarrow> answer_intervention c m False True s;
        s \<leftarrow> send_transfer c m s;
        let s = ClearTempCacheData a s;
        Some (SetCacheState a (if requestingExclusive m then cs_Invalid else cs_Shared) s) }
      else None)"

definition OnCacheDirtyExclusive :: "origin_config \<Rightarrow> nat \<Rightarrow> message \<Rightarrow> int \<Rightarrow> origin \<Rightarrow> origin option" where
  "OnCacheDirtyExclusive c a m src s = do {
     DebugAssert (pendingEviction s (addr m) = None);
     if Type m = mt_Eviction then do {
        DebugAssert (firstReply (cacheDataMap s a) = None);
        DebugAssert (src = InvalidNodeID);
        let s = SetCacheState a cs_WaitingForWritebackResponse s;
        let (wrm, s) = new_msg c mt_WritebackRequest (generatingPC m) s;
        s \<leftarrow> SendMessageToDirectory c (InitializeEvictionMsg_Eviction wrm m) False s;
        Some (s\<lparr>pendingEviction := (pendingEviction s)(addr m := Some m)\<rparr>) }
     else if Type m = mt_Intervention then do {
        dirNode \<leftarrow> CalcNodeID (directoryNodeCalc c) (addr m);
        DebugAssert (src = dirNode);
        if requestingExclusive m then do {
          let s = SetCacheState a cs_Invalid s;
          s \<leftarrow> answer_intervention c m True True s;
          s \<leftarrow> send_transfer c m s;
          Some (ClearTempCacheData a s) }
        else do {
          let s = SetCacheState a cs_Shared s;
          s \<leftarrow> answer_intervention c m True True s;
          s \<leftarrow> send_writeback c m s;
          Some (ClearTempCacheData a s) } }
     else None }"

definition OnCacheExclusive :: "origin_config \<Rightarrow> nat \<Rightarrow> message \<Rightarrow> int \<Rightarrow> origin \<Rightarrow> origin option" where
  "OnCacheExclusive c a m src s = (let d = cacheDataMap s a in
     if Type m = mt_Intervention then do {
        DebugAssert (firstReply d = None);
        DebugAssert (firstReplySrc d = InvalidNodeID);
        dirNode \<leftarrow> CalcNodeID (directoryNodeCalc c) (addr m);
        DebugAssert (src = dirNode);
        DebugAssert (newOwner m \<noteq> InvalidNodeID);
        let s = set_first_reply a m src s;
        if requestingExclusive m then do {
          let (im, s) = new_msg c mt_Invalidate (generatingPC m) s;
          let im = InitializeInvalidateMsg im m;
          DebugAssert (pendingRemoteInvalidates s (msgID im) = None);
          let s = s\<lparr>pendingRemoteInvalidates := (pendingRemoteInvalidates s)(msgID im := Some im)\<rparr>;
          let (forward, s) = Replicate im s;
          Some (emit (SentLocalCache forward (localSendTime c)) s) }
        else do {
          let (rm, s) = new_msg c mt_Read (generatingPC m) s;
          let rm = InitializeReadMsg_Read rm m;
          DebugAssert (pendingRemoteReads s (msgID rm) = None);
          let s = s\<lparr>pendingRemoteReads := (pendingRemoteReads s)(msgID rm := Some rm)\<rparr>;
          let (forward, s) = Replicate rm s;
          Some (emit (SentLocalCache forward (localSendTime c)) s) } }
     else if Type m = mt_Eviction then do {
        DebugAssert (src = InvalidNodeID);
        case firstReply d of
          None \<Rightarrow> if blockAttached m then OnCacheDirtyExclusive c a m src s else OnCacheCleanExclusive c a m src s
        | Some first \<Rightarrow> do {
            DebugAssert (Type first = mt_Intervention);
            let s = on_cache a (\<lambda>d. d\<lparr>secondReply := Some m\<rparr>) s;
            Some (SetCacheState a cs_ExclusiveInterventionEviction s) } }
     else if Type m = mt_InvalidateResponse then do {
        first \<leftarrow> firstReply d;
        dirNode \<leftarrow> CalcNodeID (directoryNodeCalc c) (addr m);
        DebugAssert (firstReplySrc d = dirNode);
        DebugAssert (pendingRemoteInvalidates s (solicitingMessage m) \<noteq> None);
        let s = s\<lparr>pendingRemoteInvalidates := (pendingRemoteInvalidates s)(solicitingMessage m := None)\<rparr>;
        if blockAttached m then OnCacheDirtyExclusive c a first (firstReplySrc d) s
        else OnCacheCleanExclusive c a first (firstReplySrc d) s }
     else if Type m = mt_ReadResponse then do {
        first \<leftarrow> firstReply d;
        dirNode \<leftarrow> CalcNodeID (directoryNodeCalc c) (addr m);
        DebugAssert (firstReplySrc d = dirNode);
        DebugAssert (pendingRemoteReads s (solicitingMessage m) \<noteq> None);
        let s = s\<lparr>pendingRemoteReads := (pendingRemoteReads s)(solicitingMessage m := None)\<rparr>;
        if isDirty m then OnCacheDirtyExclusive c a first (firstReplySrc d) s
        else OnCacheCleanExclusive c a first (firstReplySrc d) s }
     else if Type m = mt_Read then do {
        let (forward, s) = new_msg c mt_ReadResponse (generatingPC m) s;
        ProcessReadResponse c a (InitializeReadResponseMsg_Read forward m) s }
     else None)"

text \<open>The local cache evicted the block while it was asked to give it up.\<close>

definition OnCacheExclusiveInterventionEviction :: "origin_config \<Rightarrow> nat \<Rightarrow> message \<Rightarrow> int \<Rightarrow> origin \<Rightarrow> origin option" where
  "OnCacheExclusiveInterventionEviction c a m src s = (let d = cacheDataMap s a in do {
     second \<leftarrow> secondReply d;
     if Type m = mt_InvalidateResponse then do {
        DebugAssert (pendingRemoteInvalidates s (solicitingMessage m) \<noteq> None);
        let s = s\<lparr>pendingRemoteInvalidates := (pendingRemoteInvalidates s)(solicitingMessage m := None)\<rparr>;
        let s = send_eviction_response c (generatingPC m) (\<lambda>erm. InitializeEvictionResponseMsg_Eviction erm second) s;
        first \<leftarrow> firstReply d;
        DebugAssert (Type first = mt_Intervention);
        dirNode \<leftarrow> CalcNodeID (directoryNodeCalc c) (addr m);
        DebugAssert (firstReplySrc d = dirNode);
        DebugAssert (requestingExclusive first);
        DebugAssert (pendingEviction s (addr m) = None);
        s \<leftarrow> answer_intervention c first (blockAttached second) True s;
        s \<leftarrow> send_transfer c first s;
        let s = emit (DisposedOf (msgID second)) s;
        let s = ClearTempCacheData a s;
        Some (SetCacheState a cs_Invalid s) }
     else if Type m = mt_ReadResponse then do {
        DebugAssert (pendingRemoteReads s (solicitingMessage m) \<noteq> None);
        let s = s\<lparr>pendingRemoteReads := (pendingRemoteReads s)(solicitingMessage m := None)\<rparr>;
        let s = send_eviction_response c (generatingPC m) (\<lambda>erm. InitializeEvictionResponseMsg_Eviction erm second) s;
        first \<leftarrow> firstReply d;
        DebugAssert (Type first = mt_Intervention);
        dirNode \<leftarrow> CalcNodeID (directoryNodeCalc c) (addr m);
        DebugAssert (firstReplySrc d = dirNode);
        DebugAssert (\<not> requestingExclusive first);
        DebugAssert (pendingEviction s (addr m) = None);
        s \<leftarrow> answer_intervention c first (blockAttached second) True s;
        s \<leftarrow> (if blockAttached second then send_writeback c first s else send_transfer c first s);
        let s = emit (DisposedOf (msgID second)) s;
        let s = ClearTempCacheData a s;
        Some (SetCacheState a cs_Invalid s) }
     else None })"

end
