(* ===== verification/OriginWaiting.thy ===== *)
theory OriginWaiting
  imports OriginCache
begin

text \<open>
  The cache side of \<^verbatim>\<open>MemSys/Devices/OriginDirectory.cpp\<close>, continued: blocks that are invalid, shared
  or waiting for messages, and the dispatch of messages by the state of their block.
\<close>

section \<open>Invalid and shared blocks\<close>

definition OnCacheInvalid :: "origin_config \<Rightarrow> nat \<Rightarrow> message \<Rightarrow> int \<Rightarrow> origin \<Rightarrow> origin option" where
  "OnCacheInvalid c a m src s =
     (if Type m = mt_Intervention then ProcessInterventionWhileInvalid c m src s
      else if Type m = mt_Read then read_while_invalid c a m src s
      else if Type m = mt_Invalidate then ProcessInvalidateWhileInvalid c m src s
      else None)"

definition OnCacheShared :: "origin_config \<Rightarrow> nat \<Rightarrow> message \<Rightarrow> int \<Rightarrow> origin \<Rightarrow> origin option" where
  "OnCacheShared c a m src s = (let d = cacheDataMap s a in
     if Type m = mt_Invalidate then do {
        dirNode \<leftarrow> CalcNodeID (directoryNodeCalc c) (addr m);
        DebugAssert (src = dirNode);
        DebugAssert (firstReply d = None);
        DebugAssert (firstReplySrc d = InvalidNodeID);
        let s = set_first_reply a m (newOwner m) s;
        let (forward, s) = Replicate m s;
        Some (emit (SentLocalCache forward (localSendTime c)) s) }
     else if Type m = mt_InvalidateResponse then do {
        DebugAssert (src = InvalidNodeID);
        first \<leftarrow> firstReply d;
        DebugAssert (Type first = mt_Invalidate);
        DebugAssert (firstReplySrc d \<noteq> InvalidNodeID);
        DebugAssert (solicitingMessage m = msgID first);
        let s = SetCacheState a cs_Invalid s;
        s \<leftarrow> send_ack c first m s;
        Some (ClearTempCacheData a s) }
     else if Type m = mt_Read then read_while_shared c a m s
     else if Type m = mt_Eviction then do {
        s \<leftarrow> (case firstReply d of
            Some first \<Rightarrow> do { DebugAssert (Type first = mt_Invalidate); Some s }
          | None \<Rightarrow> Some (SetCacheState a cs_Invalid s));
        let s = send_eviction_response c (deviceID m) (\<lambda>erm. InitializeEvictionResponseMsg_Eviction erm m) s;
        Some (emit (DisposedOf (msgID m)) s) }
     else None)"

section \<open>Waiting for the answer to an exclusive read\<close>

definition resend_first_read :: "origin_config \<Rightarrow> message \<Rightarrow> origin \<Rightarrow> origin option" where
  "resend_first_read c r s = (let (forward, s) = Replicate r s in ResendRequestToDirectory c forward s)"

definition OnCacheWaitingForExclusiveReadResponse :: "origin_config \<Rightarrow> nat \<Rightarrow> message \<Rightarrow> int \<Rightarrow> origin \<Rightarrow> origin option" where
  "OnCacheWaitingForExclusiveReadResponse c a m src s = (let d = cacheDataMap s a in do {
     DebugAssert (cacheDataPendingLocalReads d \<noteq> []);
     let pendingRead = hd (cacheDataPendingLocalReads d);
     if Type m = mt_CacheNak then do {
        DebugAssert (solicitingMessage m = msgID pendingRead);
        case firstReply d of
          None \<Rightarrow> do {
            DebugAssert (firstReplySrc d = InvalidNodeID);
            if interventionMessage m = 0 then do {
              s \<leftarrow> resend_first_read c pendingRead s;
              Some (emit (DisposedOf (msgID m)) s) }
            else Some (on_cache a (\<lambda>d. d\<lparr>firstReply := Some m\<rparr>) s) }
        | Some first \<Rightarrow> do {
            DebugAssert (Type first = mt_Invalidate);
            DebugAssert (firstReplySrc d \<noteq> InvalidNodeID);
            DebugAssert (\<not> isCanceledReadRequest d);
            Some (on_cache a (\<lambda>d. d\<lparr>isCanceledReadRequest := True\<rparr>) s) } }
     else if Type m = mt_Invalidate then do {
        DebugAssert (firstReply d = None);
        DebugAssert (firstReplySrc d = InvalidNodeID);
        DebugAssert (src \<noteq> InvalidNodeID);
        let s = set_first_reply a m src s;
        let (forward, s) = Replicate m s;
        Some (emit (SentLocalCache forward (localSendTime c)) s) }
     else if Type m = mt_InvalidateResponse then do {
        first \<leftarrow> firstReply d;
        DebugAssert (Type first = mt_Invalidate);
        DebugAssert (firstReplySrc d \<noteq> InvalidNodeID);
        DebugAssert (src = InvalidNodeID);
        DebugAssert (solicitingMessage m = msgID first);
        s \<leftarrow> send_ack c first m s;
        let s = ClearTempCacheData a s;
        if isCanceledReadRequest d
        then resend_first_read c pendingRead (on_cache a (\<lambda>d. d\<lparr>isCanceledReadRequest := False\<rparr>) s)
        else Some s }
     else if Type m = mt_ReadReply then do {
        DebugAssert (firstReply d = None);
        DebugAssert (firstReplySrc d = InvalidNodeID);
        DebugAssert (src \<noteq> InvalidNodeID);
        DebugAssert (exclusiveOwnership m);
        DebugAssert (0 \<le> pendingInvalidates m);
        if pendingInvalidates m = 0 then do {
          let s = SetCacheState a cs_Exclusive s;
          let s = SendMessageToLocalCache c m s;
          ProcessReadResponse c a m s }
        else do {
          let s = SetCacheState a cs_WaitingForKInvalidatesJInvalidatesReceived s;
          Some (set_first_reply a m src s) } }
     else if Type m = mt_InvalidateAck then do {
        DebugAssert (firstReply d = None);
        DebugAssert (firstReplySrc d = InvalidNodeID);
        DebugAssert (invalidAcksReceived d = 0);
        let s = on_cache a (\<lambda>d. d\<lparr>invalidAcksReceived := invalidAcksReceived d + 1\<rparr>) s;
        Some (SetCacheState a cs_WaitingForKInvalidatesJInvalidatesReceived s) }
     else if Type m = mt_SpeculativeReply then do {
        dirNode \<leftarrow> CalcNodeID (directoryNodeCalc c) (addr m);
        DebugAssert (src = dirNode);
        case firstReply d of
          None \<Rightarrow> Some (set_first_reply a m src (SetCacheState a cs_WaitingForExclusiveResponseAck s))
        | Some first \<Rightarrow> do {
            DebugAssert (Type first = mt_CacheNak);
            s \<leftarrow> resend_first_read c pendingRead s;
            let s = emit (DisposedOf (msgID m)) s;
            Some (ClearTempCacheData a s) } }
     else if Type m = mt_ReadResponse then do {
        DebugAssert (src \<noteq> InvalidNodeID);
        DebugAssert (exclusiveOwnership m);
        Some (set_first_reply a m src (SetCacheState a cs_ExclusiveWaitingForSpeculativeReply s)) }
     else if Type m = mt_Intervention then do {
        DebugAssert (firstReply d = None);
        DebugAssert (firstReplySrc d = InvalidNodeID);
        SendInterventionNaks c m s }
     else None })"

definition OnCacheExclusiveWaitingForSpeculativeReply :: "origin_config \<Rightarrow> nat \<Rightarrow> message \<Rightarrow> int \<Rightarrow> origin \<Rightarrow> origin option" where
  "OnCacheExclusiveWaitingForSpeculativeReply c a m src s = (let d = cacheDataMap s a in do {
     first \<leftarrow> firstReply d;
     DebugAssert (Type first = mt_ReadResponse);
     DebugAssert (firstReplySrc d \<noteq> InvalidNodeID);
     if Type m = mt_SpeculativeReply then do {
        DebugAssert (solicitingMessage m = solicitingMessage first);
        let s = SetCacheState a cs_Exclusive s;
        let (rrm, s) = new_msg c mt_ReadResponse (generatingPC m) s;
        let rrm = (InitializeReadResponseMsg_ReadResponse rrm m)\<lparr>blockAttached := True, exclusiveOwnership := True\<rparr>;
        let s = emit (SentLocalCache rrm (localSendTime c)) s;
        let s = ClearTempCacheData a s;
        ProcessReadResponse c a first s }
     else if Type m = mt_Invalidate then ProcessInvalidateWhileInvalid c m src s
     else None })"

definition OnCacheWaitingForExclusiveResponseAck :: "origin_config \<Rightarrow> nat \<Rightarrow> message \<Rightarrow> int \<Rightarrow> origin \<Rightarrow> origin option" where
  "OnCacheWaitingForExclusiveResponseAck c a m src s = (let d = cacheDataMap s a in do {
     DebugAssert (firstReply d \<noteq> None);
     DebugAssert (firstReplySrc d \<noteq> InvalidNodeID);
     if Type m = mt_ReadResponse then do {
        DebugAssert (exclusiveOwnership m);
        let s = SetCacheState a cs_Exclusive s;
        let (rrm, s) = Replicate m s;
        let rrm = rrm\<lparr>blockAttached := True, exclusiveOwnership := True\<rparr>;
        let s = emit (SentLocalCache rrm (localSendTime c)) s;
        let s = ClearTempCacheData a s;
        ProcessReadResponse c a m s }
     else if Type m = mt_CacheNak then do {
        DebugAssert (cacheDataPendingLocalReads d \<noteq> []);
        let ref = hd (cacheDataPendingLocalReads d);
        DebugAssert (msgID ref = solicitingMessage m);
        s \<leftarrow> resend_first_read c ref s;
        let s = ClearTempCacheData a s;
        Some (SetCacheState a cs_WaitingForExclusiveReadResponse s) }
     else if Type m = mt_Intervention then SendInterventionNaks c m s
     else if Type m = mt_Invalidate then ProcessInvalidateWhileInvalid c m src s
     else None })"

text \<open>Some of the sharers, or the reply that says how many there are, have not answered yet.\<close>

definition OnCacheWaitingForKInvalidatesJInvalidatesReceived :: "origin_config \<Rightarrow> nat \<Rightarrow> message \<Rightarrow> int \<Rightarrow> origin \<Rightarrow> origin option" where
  "OnCacheWaitingForKInvalidatesJInvalidatesReceived c a m src s = (let d = cacheDataMap s a in
     if Type m = mt_Intervention then SendInterventionNaks c m s
     else if Type m = mt_InvalidateAck then (case firstReply d of
          Some first \<Rightarrow> do {
            DebugAssert (Type first = mt_ReadReply);
            DebugAssert (exclusiveOwnership first);
            DebugAssert (invalidAcksReceived d < pendingInvalidates first);
            let s = on_cache a (\<lambda>d. d\<lparr>invalidAcksReceived := invalidAcksReceived d + 1\<rparr>) s;
            if pendingInvalidates first = invalidAcksReceived d + 1 then do {
              let s = SetCacheState a cs_Exclusive s;
              let s = SendMessageToLocalCache c first s;
              let s = ClearTempCacheData a s;
              ProcessReadResponse c a first s }
            else Some s }
        | None \<Rightarrow> Some (on_cache a (\<lambda>d. d\<lparr>invalidAcksReceived := invalidAcksReceived d + 1\<rparr>) s))
     else if Type m = mt_ReadReply then do {
        DebugAssert (exclusiveOwnership m);
        DebugAssert (0 < pendingInvalidates m);
        DebugAssert (firstReply d = None);
        DebugAssert (firstReplySrc d = InvalidNodeID);
        if pendingInvalidates m = invalidAcksReceived d then do {
          let s = SetCacheState a cs_Exclusive s;
          let s = SendMessageToLocalCache c m s;
          let s = ClearTempCacheData a s;
          ProcessReadResponse c a m s }
        else Some (set_first_reply a m src s) }
     else None)"

section \<open>Waiting for the answer to a shared read\<close>

definition OnCacheWaitingForSharedReadResponse :: "origin_config \<Rightarrow> nat \<Rightarrow> message \<Rightarrow> int \<Rightarrow> origin \<Rightarrow> origin option" where
  "OnCacheWaitingForSharedReadResponse c a m src s = (let d = cacheDataMap s a in do {
     DebugAssert (cacheDataPendingLocalReads d \<noteq> []);
     let pendingRead = hd (cacheDataPendingLocalReads d);
     if Type m = mt_CacheNak then do {
        DebugAssert (solicitingMessage m = msgID pendingRead);
        DebugAssert (firstReply d = None);
        DebugAssert (firstReplySrc d = InvalidNodeID);
        if interventionMessage m = 0 then do {
          s \<leftarrow> resend_first_read c pendingRead s;
          Some (emit (DisposedOf (msgID m)) s) }
        else Some (on_cache a (\<lambda>d. d\<lparr>firstReply := Some m\<rparr>) s) }
     else if Type m = mt_ReadReply then do {
        DebugAssert (firstReply d = None);
        DebugAssert (firstReplySrc d = InvalidNodeID);
        let s = SetCacheState a (if exclusiveOwnership m then cs_Exclusive else cs_Shared) s;
        let s = SendMessageToLocalCache c m s;
        ProcessReadResponse c a m s }
     else if Type m = mt_ReadResponse then do {
        DebugAssert (\<not> exclusiveOwnership m);
        DebugAssert (firstReply d = None);
        DebugAssert (firstReplySrc d = InvalidNodeID);
        Some (set_first_reply a m src (SetCacheState a cs_SharedWaitingForSpeculativeReply s)) }
     else if Type m = mt_SpeculativeReply then do {
        dirNode \<leftarrow> CalcNodeID (directoryNodeCalc c) (addr m);
        DebugAssert (src = dirNode);
        case firstReply d of
          None \<Rightarrow> Some (set_first_reply a m src (SetCacheState a cs_WaitingForSharedResponseAck s))
        | Some first \<Rightarrow> do {
            DebugAssert (Type first = mt_CacheNak);
            s \<leftarrow> resend_first_read c pendingRead s;
            let s = emit (DisposedOf (msgID m)) s;
            Some (ClearTempCacheData a s) } }
     else if Type m = mt_Intervention then do {
        DebugAssert (firstReply d = None);
        DebugAssert (firstReplySrc d = InvalidNodeID);
        SendInterventionNaks c m s }
     else if Type m = mt_Invalidate then ProcessInvalidateWhileInvalid c m src s
     else None })"

definition OnCacheSharedWaitingForSpeculativeReply :: "origin_config \<Rightarrow> nat \<Rightarrow> message \<Rightarrow> int \<Rightarrow> origin \<Rightarrow> origin option" where
  "OnCacheSharedWaitingForSpeculativeReply c a m src s = (let d = cacheDataMap s a in do {
     first \<leftarrow> firstReply d;
     DebugAssert (Type first = mt_ReadResponse);
     DebugAssert (firstReplySrc d \<noteq> InvalidNodeID);
     if Type m = mt_SpeculativeReply then do {
        DebugAssert (solicitingMessage m = solicitingMessage first);
        let s = SetCacheState a cs_Shared s;
        let (rrm, s) = new_msg c mt_ReadResponse (generatingPC m) s;
        let rrm = (InitializeReadResponseMsg_ReadResponse rrm m)\<lparr>blockAttached := True, exclusiveOwnership := False\<rparr>;
        let s = emit (SentLocalCache rrm (localSendTime c)) s;
        let s = ClearTempCacheData a s;
        ProcessReadResponse c a first s }
     else if Type m = mt_Invalidate then ProcessInvalidateWhileInvalid c m src s
     else None })"

definition OnCacheWaitingForSharedResponseAck :: "origin_config \<Rightarrow> nat \<Rightarrow> message \<Rightarrow> int \<Rightarrow> origin \<Rightarrow> origin option" where
  "OnCacheWaitingForSharedResponseAck c a m src s = (let d = cacheDataMap s a in do {
     DebugAssert (firstReply d \<noteq> None);
     DebugAssert (firstReplySrc d \<noteq> InvalidNodeID);
     if Type m = mt_ReadResponse then do {
        DebugAssert (\<not> exclusiveOwnership m);
        let s = SetCacheState a cs_Shared s;
        let (rrm, s) = Replicate m s;
        let rrm = rrm\<lparr>blockAttached := True, exclusiveOwnership := False\<rparr>;
        let s = emit (SentLocalCache rrm (localSendTime c)) s;
        let s = ClearTempCacheData a s;
        ProcessReadResponse c a m s }
     else if Type m = mt_CacheNak then do {
        DebugAssert (cacheDataPendingLocalReads d \<noteq> []);
        let ref = hd (cacheDataPendingLocalReads d);
        DebugAssert (msgID ref = solicitingMessage m);
        s \<leftarrow> resend_first_read c ref s;
        let s = ClearTempCacheData a s;
        Some (SetCacheState a cs_WaitingForSharedReadResponse s) }
     else if Type m = mt_Intervention then SendInterventionNaks c m s
     else if Type m = mt_Invalidate then ProcessInvalidateWhileInvalid c m src s
     else None })"

section \<open>Waiting for the end of an eviction\<close>

definition OnCacheWaitingForIntervention :: "origin_config \<Rightarrow> nat \<Rightarrow> message \<Rightarrow> int \<Rightarrow> origin \<Rightarrow> origin option" where
  "OnCacheWaitingForIntervention c a m src s = (let d = cacheDataMap s a in do {
     first \<leftarrow> firstReply d;
     DebugAssert (Type first = mt_WritebackAck);
     DebugAssert (isBusy first);
     DebugAssert (firstReplySrc d \<noteq> InvalidNodeID);
     if Type m = mt_Intervention then do {
        DebugAssert (newOwner m \<noteq> InvalidNodeID);
        DebugAssert (pendingEviction s (addr first) \<noteq> None);
        let s = s\<lparr>pendingEviction := (pendingEviction s)(addr first := None)\<rparr>;
        let s = SetCacheState a cs_Invalid s;
        let s = send_eviction_response c (generatingPC m) (\<lambda>erm. InitializeEvictionResponseMsg_Read erm m) s;
        let s = ClearTempCacheData a s;
        ProcessRemainingPendingLocalReads c a s }
     else None })"

definition OnCacheWaitingForWritebackBusyAck :: "origin_config \<Rightarrow> nat \<Rightarrow> message \<Rightarrow> int \<Rightarrow> origin \<Rightarrow> origin option" where
  "OnCacheWaitingForWritebackBusyAck c a m src s = (let d = cacheDataMap s a in do {
     first \<leftarrow> firstReply d;
     DebugAssert (Type first = mt_Intervention);
     DebugAssert (firstReplySrc d \<noteq> InvalidNodeID);
     if Type m = mt_WritebackAck then do {
        DebugAssert (isBusy m \<and> \<not> isExclusive m);
        DebugAssert (pendingEviction s (addr m) \<noteq> None);
        let s = s\<lparr>pendingEviction := (pendingEviction s)(addr m := None)\<rparr>;
        let s = SetCacheState a cs_Invalid s;
        let s = send_eviction_response c (generatingPC m) (\<lambda>erm. InitializeEvictionResponseMsg_EvictionResponse erm m) s;
        let s = ClearTempCacheData a s;
        ProcessRemainingPendingLocalReads c a s }
     else None })"

definition OnCacheWaitingForWritebackResponse :: "origin_config \<Rightarrow> nat \<Rightarrow> message \<Rightarrow> int \<Rightarrow> origin \<Rightarrow> origin option" where
  "OnCacheWaitingForWritebackResponse c a m src s = (let d = cacheDataMap s a in do {
     DebugAssert (firstReply d = None);
     DebugAssert (firstReplySrc d = InvalidNodeID);
     DebugAssert (pendingEviction s (addr m) \<noteq> None);
     if Type m = mt_WritebackAck then do {
        DebugAssert ((isBusy m \<and> \<not> isExclusive m) \<or> (\<not> isBusy m \<and> isExclusive m));
        if isExclusive m then do {
          let s = SetCacheState a cs_Invalid s;
          let s = send_eviction_response c (generatingPC m) (\<lambda>erm. InitializeEvictionResponseMsg_EvictionResponse erm m) s;
          let s = s\<lparr>pendingEviction := (pendingEviction s)(addr m := None)\<rparr>;
          ProcessRemainingPendingLocalReads c a s }
        else Some (set_first_reply a m src (SetCacheState a cs_WaitingForIntervention s)) }
     else if Type m = mt_Intervention then do {
        DebugAssert (newOwner m \<noteq> InvalidNodeID);
        Some (set_first_reply a m (newOwner m) (SetCacheState a cs_WaitingForWritebackBusyAck s)) }
     else None })"

section \<open>Dispatch\<close>

definition OnCache :: "origin_config \<Rightarrow> nat \<Rightarrow> message \<Rightarrow> int \<Rightarrow> origin \<Rightarrow> origin option" where
  "OnCache c a m src s = (let s = note_message a m s in
     case cacheState (cacheDataMap s a) of
       cs_Exclusive \<Rightarrow> OnCacheExclusive c a m src s
     | cs_ExclusiveInterventionEviction \<Rightarrow> OnCacheExclusiveInterventionEviction c a m src s
     | cs_ExclusiveWaitingForSpeculativeReply \<Rightarrow> OnCacheExclusiveWaitingForSpeculativeReply c a m src s
     | cs_Invalid \<Rightarrow> OnCacheInvalid c a m src s
     | cs_Shared \<Rightarrow> OnCacheShared c a m src s
     | cs_SharedWaitingForSpeculativeReply \<Rightarrow> OnCacheSharedWaitingForSpeculativeReply c a m src s
     | cs_WaitingForExclusiveReadResponse \<Rightarrow> OnCacheWaitingForExclusiveReadResponse c a m src s
     | cs_WaitingForExclusiveResponseAck \<Rightarrow> OnCacheWaitingForExclusiveResponseAck c a m src s
     | cs_WaitingForIntervention \<Rightarrow> OnCacheWaitingForIntervention c a m src s
     | cs_WaitingForKInvalidatesJInvalidatesReceived \<Rightarrow> OnCacheWaitingForKInvalidatesJInvalidatesReceived c a m src s
     | cs_WaitingForSharedReadResponse \<Rightarrow> OnCacheWaitingForSharedReadResponse c a m src s
     | cs_WaitingForSharedResponseAck \<Rightarrow> OnCacheWaitingForSharedResponseAck c a m src s
     | cs_WaitingForWritebackBusyAck \<Rightarrow> OnCacheWaitingForWritebackBusyAck c a m src s
     | cs_WaitingForWritebackResponse \<Rightarrow> OnCacheWaitingForWritebackResponse c a m src s)"

definition OnCacheCacheNak :: "origin_config \<Rightarrow> message \<Rightarrow> int \<Rightarrow> origin \<Rightarrow> origin option" where
  "OnCacheCacheNak c m src s = OnCache c (addr m) m src (origin_counted cacheNaksReceived s)"

definition OnCacheEviction :: "origin_config \<Rightarrow> message \<Rightarrow> int \<Rightarrow> origin \<Rightarrow> origin option" where
  "OnCacheEviction c m src s = OnCache c (addr m) m src (origin_counted cacheEvictionsReceived s)"

definition OnCacheIntervention :: "origin_config \<Rightarrow> message \<Rightarrow> int \<Rightarrow> origin \<Rightarrow> origin option" where
  "OnCacheIntervention c m src s = OnCache c (addr m) m src (origin_counted cacheInterventionsReceived s)"

definition OnCacheInvalidate :: "origin_config \<Rightarrow> message \<Rightarrow> int \<Rightarrow> origin \<Rightarrow> origin option" where
  "OnCacheInvalidate c m src s = OnCache c (addr m) m src (origin_counted cacheInvalidatesReceived s)"

definition OnCacheInvalidateAck :: "origin_config \<Rightarrow> message \<Rightarrow> int \<Rightarrow> origin \<Rightarrow> origin option" where
  "OnCacheInvalidateAck c m src s = OnCache c (addr m) m src (origin_counted cacheInvalidateAcksReceived s)"

definition OnCacheInvalidateResponse :: "origin_config \<Rightarrow> message \<Rightarrow> int \<Rightarrow> origin \<Rightarrow> origin option" where
  "OnCacheInvalidateResponse c m src s = OnCache c (addr m) m src (origin_counted cacheInvalidateResponsesReceived s)"

definition OnCacheReadReply :: "origin_config \<Rightarrow> message \<Rightarrow> int \<Rightarrow> origin \<Rightarrow> origin option" where
  "OnCacheReadReply c m src s = OnCache c (addr m) m src (origin_counted cacheReadRepliesReceived s)"

definition OnCacheReadResponse :: "origin_config \<Rightarrow> message \<Rightarrow> int \<Rightarrow> origin \<Rightarrow> origin option" where
  "OnCacheReadResponse c m src s = OnCache c (addr m) m src (origin_counted cacheReadResponsesReceived s)"

definition OnCacheSpeculativeReply :: "origin_config \<Rightarrow> message \<Rightarrow> int \<Rightarrow> origin \<Rightarrow> origin option" where
  "OnCacheSpeculativeReply c m src s = OnCache c (addr m) m src (origin_counted cacheSpeculativeRepliesReceived s)"

definition OnCacheWritebackAck :: "origin_config \<Rightarrow> message \<Rightarrow> int \<Rightarrow> origin \<Rightarrow> origin option" where
  "OnCacheWritebackAck c m src s = OnCache c (addr m) m src s"

definition OnCacheRead :: "origin_config \<Rightarrow> message \<Rightarrow> origin \<Rightarrow> origin option" where
  "OnCacheRead c m s = do {
     let s = origin_counted cacheReadsReceived s;
     DebugAssert (pendingLocalReads s (msgID m) = None);
     let s = s\<lparr>pendingLocalReads := (pendingLocalReads s)(msgID m := Some m)\<rparr>;
     let st = cacheState (cacheDataMap s (addr m));
     let s = on_cache (addr m) (\<lambda>d. d\<lparr>cacheDataPendingLocalReads := cacheDataPendingLocalReads d @ [m]\<rparr>) s;
     if st = cs_Invalid \<or> st = cs_Exclusive \<or> st = cs_Shared
     then let (forward, s) = Replicate m s in OnCache c (addr m) forward InvalidNodeID s
     else Some s }"

definition RecvMsgCache :: "origin_config \<Rightarrow> message \<Rightarrow> int \<Rightarrow> origin \<Rightarrow> origin option" where
  "RecvMsgCache c m src s = (let r = s\<lparr>remoteMessagesReceived := remoteMessagesReceived s + 1\<rparr> in
     case Type m of
       mt_CacheNak \<Rightarrow> OnCacheCacheNak c m src r
     | mt_Eviction \<Rightarrow> do { DebugAssert (src = InvalidNodeID); OnCacheEviction c m src s }
     | mt_Intervention \<Rightarrow> OnCacheIntervention c m src r
     | mt_Invalidate \<Rightarrow> OnCacheInvalidate c m src r
     | mt_InvalidateAck \<Rightarrow> OnCacheInvalidateAck c m src r
     | mt_InvalidateResponse \<Rightarrow> OnCacheInvalidateResponse c m src r
     | mt_Read \<Rightarrow> do { DebugAssert (src = InvalidNodeID); OnCacheRead c m s }
     | mt_SpeculativeReply \<Rightarrow> OnCacheSpeculativeReply c m src r
     | mt_ReadResponse \<Rightarrow> OnCacheReadResponse c m src r
     | mt_ReadReply \<Rightarrow> OnCacheReadReply c m src r
     | mt_WritebackAck \<Rightarrow> OnCacheWritebackAck c m src r
     | _ \<Rightarrow> OnCache c (addr m) m src r)"

end
