(* ===== verification/OriginDirectory.thy ===== *)
theory OriginDirectory
  imports OriginWaiting
begin

text \<open>
  The home side of \<^verbatim>\<open>MemSys/Devices/OriginDirectory.cpp\<close>: the handlers \<^verbatim>\<open>OnDirectory...\<close>, one for each
  state of a block, and the dispatch of all messages.
\<close>

section \<open>Replies\<close>

text \<open>The speculative reply and the intervention that follow a read of the memory.\<close>

definition intervene :: "origin_config \<Rightarrow> message \<Rightarrow> message \<Rightarrow> int \<Rightarrow> int \<Rightarrow> bool \<Rightarrow> origin \<Rightarrow> origin option" where
  "intervene c m first firstSrc prevOwner excl s = do {
     let (im, s) = new_msg c mt_Intervention (generatingPC m) s;
     let im = (InitializeReadMsg_ReadResponse im m)\<lparr>alreadyHasBlock := False, newOwner := firstSrc, requestingExclusive := excl,
       solicitingMessage := msgID first\<rparr>;
     s \<leftarrow> SendMessageToRemoteCache c im prevOwner s;
     let (srm, s) = new_msg c mt_SpeculativeReply (generatingPC m) s;
     let srm = (InitializeReadResponseMsg_Read srm first)\<lparr>blockAttached := True, satisfied := True\<rparr>;
     SendMessageToRemoteCache c srm firstSrc s }"

definition write_to_memory :: "origin_config \<Rightarrow> nat \<Rightarrow> (message \<Rightarrow> message) \<Rightarrow> origin \<Rightarrow> origin option" where
  "write_to_memory c pc init s = (let (wm, s) = new_msg c mt_Write pc s in SendRequestToMemory c (init wm) s)"

definition insert_sharer :: "origin_config \<Rightarrow> int \<Rightarrow> int list \<Rightarrow> int list" where
  "insert_sharer c n ns = (if n \<in> set ns then ns else order_nodes c (n # ns))"

definition set_first_request :: "nat \<Rightarrow> message \<Rightarrow> int \<Rightarrow> origin \<Rightarrow> origin" where
  "set_first_request a m src = on_directory a (\<lambda>d. d\<lparr>firstRequest := Some m, firstRequestSrc := src\<rparr>)"

section \<open>Busy blocks\<close>

definition OnDirectoryBusyExclusive :: "origin_config \<Rightarrow> nat \<Rightarrow> message \<Rightarrow> int \<Rightarrow> origin \<Rightarrow> origin option" where
  "OnDirectoryBusyExclusive c a m src s = (let d = directoryDataMap s a in do {
     first \<leftarrow> firstRequest d;
     DebugAssert (firstRequestSrc d \<noteq> InvalidNodeID);
     DebugAssert (previousOwner d \<noteq> InvalidNodeID);
     DebugAssert (sharers d = []);
     if Type m = mt_Read then SendCacheNak_Read c m src s
     else if Type m = mt_WritebackRequest then do {
        DebugAssert (src = previousOwner d);
        let s = set_state a ds_Exclusive s;
        let (rrm, s) = new_msg c mt_ReadResponse (generatingPC m) s;
        let rrm = (InitializeReadResponseMsg_Read rrm first)\<lparr>blockAttached := True, exclusiveOwnership := True, satisfied := True\<rparr>;
        s \<leftarrow> SendMessageToRemoteCache c rrm (owner d) s;
        let (wam, s) = new_msg c mt_WritebackAck (generatingPC m) s;
        let wam = (InitializeEvictionResponseMsg_Eviction wam m)\<lparr>isBusy := True\<rparr>;
        s \<leftarrow> SendMessageToRemoteCache c wam src s;
        s \<leftarrow> write_to_memory c (generatingPC m) (\<lambda>wm. InitializeWriteMsg_Eviction wm m) s;
        Some (ClearTempDirectoryData a s) }
     else if Type m = mt_Transfer then do {
        DebugAssert (src = previousOwner d);
        DebugAssert (isDirty m);
        Some (ClearTempDirectoryData a (set_state a ds_Exclusive s)) }
     else if Type m = mt_DirectoryNak then
        Some (ClearTempDirectoryData a (on_directory a (\<lambda>d. d\<lparr>state := ds_Exclusive, owner := previousOwner d\<rparr>) s))
     else None })"

definition OnDirectoryBusyExclusiveMemoryAccess :: "origin_config \<Rightarrow> nat \<Rightarrow> message \<Rightarrow> int \<Rightarrow> bool \<Rightarrow> origin \<Rightarrow> origin option" where
  "OnDirectoryBusyExclusiveMemoryAccess c a m src isFromMemory s = (let d = directoryDataMap s a in do {
     first \<leftarrow> firstRequest d;
     DebugAssert (firstRequestSrc d \<noteq> InvalidNodeID);
     DebugAssert (secondRequest d = None);
     DebugAssert (secondRequestSrc d = InvalidNodeID);
     DebugAssert (previousOwner d \<noteq> InvalidNodeID);
     if Type m = mt_WritebackRequest then
        Some (on_directory a (\<lambda>d. d\<lparr>state := ds_BusyExclusiveMemoryAccessWritebackRequest, secondRequest := Some m,
          secondRequestSrc := src\<rparr>) s)
     else if Type m = mt_Read then SendCacheNak_Read c m src s
     else if isFromMemory then do {
        DebugAssert (Type m = mt_ReadResponse);
        s \<leftarrow> PerformMemoryReadResponseCheck m src s;
        let s = set_state a ds_BusyExclusive s;
        intervene c m first (firstRequestSrc d) (previousOwner d) True s }
     else None })"

definition OnDirectoryBusyExclusiveMemoryAccessWritebackRequest :: "origin_config \<Rightarrow> nat \<Rightarrow> message \<Rightarrow> int \<Rightarrow> bool \<Rightarrow> origin \<Rightarrow> origin option" where
  "OnDirectoryBusyExclusiveMemoryAccessWritebackRequest c a m src isFromMemory s = (let d = directoryDataMap s a in do {
     first \<leftarrow> firstRequest d;
     DebugAssert (firstRequestSrc d \<noteq> InvalidNodeID);
     second \<leftarrow> secondRequest d;
     DebugAssert (secondRequestSrc d \<noteq> InvalidNodeID);
     if Type m = mt_Read then SendCacheNak_Read c m src s
     else if isFromMemory then do {
        DebugAssert (Type m = mt_ReadResponse);
        s \<leftarrow> PerformMemoryReadResponseCheck m src s;
        DebugAssert (solicitingMessage m = msgID first);
        let s = set_state a ds_Exclusive s;
        let (rrm, s) = new_msg c mt_ReadReply (generatingPC m) s;
        let rrm = (InitializeReadResponseMsg_Read rrm first)\<lparr>blockAttached := True, exclusiveOwnership := True, satisfied := True\<rparr>;
        s \<leftarrow> SendMessageToRemoteCache c rrm (owner d) s;
        let (wam, s) = new_msg c mt_WritebackAck (generatingPC m) s;
        let wam = (InitializeEvictionResponseMsg_Eviction wam second)\<lparr>isExclusive := True\<rparr>;
        s \<leftarrow> SendMessageToRemoteCache c wam (secondRequestSrc d) s;
        s \<leftarrow> write_to_memory c (generatingPC m) (\<lambda>wm. InitializeWriteMsg_ReadResponse wm m) s;
        Some (ClearTempDirectoryData a s) }
     else None })"

definition OnDirectoryBusyShared :: "origin_config \<Rightarrow> nat \<Rightarrow> message \<Rightarrow> int \<Rightarrow> origin \<Rightarrow> origin option" where
  "OnDirectoryBusyShared c a m src s = (let d = directoryDataMap s a in do {
     first \<leftarrow> firstRequest d;
     DebugAssert (firstRequestSrc d \<noteq> InvalidNodeID);
     DebugAssert (previousOwner d \<noteq> InvalidNodeID);
     if Type m = mt_Writeback then do {
        DebugAssert (src = previousOwner d);
        let s = set_state a ds_Shared s;
        s \<leftarrow> write_to_memory c (generatingPC m) (\<lambda>wm. InitializeWriteMsg_Eviction wm m) s;
        Some (ClearTempDirectoryData a s) }
     else if Type m = mt_Transfer then do {
        DebugAssert (src = previousOwner d);
        Some (ClearTempDirectoryData a (set_state a ds_Shared s)) }
     else if Type m = mt_Read then SendCacheNak_Read c m src s
     else if Type m = mt_WritebackRequest then do {
        DebugAssert (src = previousOwner d);
        let s = set_state a ds_Shared s;
        DebugAssert (owner d \<noteq> InvalidNodeID);
        let (rrm, s) = new_msg c mt_ReadResponse (generatingPC m) s;
        let rrm = (InitializeReadResponseMsg_Read rrm first)\<lparr>exclusiveOwnership := False, satisfied := True\<rparr>;
        s \<leftarrow> SendMessageToRemoteCache c rrm (owner d) s;
        let (wam, s) = new_msg c mt_WritebackAck (generatingPC m) s;
        let wam = (InitializeEvictionResponseMsg_Eviction wam m)\<lparr>isBusy := True\<rparr>;
        s \<leftarrow> SendMessageToRemoteCache c wam src s;
        s \<leftarrow> write_to_memory c (generatingPC m) (\<lambda>wm. InitializeWriteMsg_Eviction wm m) s;
        Some (ClearTempDirectoryData a s) }
     else if Type m = mt_DirectoryNak then do {
        DebugAssert (src = previousOwner d);
        Some (ClearTempDirectoryData a
          (on_directory a (\<lambda>d. d\<lparr>state := ds_Exclusive, owner := previousOwner d, sharers := []\<rparr>) s)) }
     else None })"

definition OnDirectoryBusySharedMemoryAccess :: "origin_config \<Rightarrow> nat \<Rightarrow> message \<Rightarrow> int \<Rightarrow> bool \<Rightarrow> origin \<Rightarrow> origin option" where
  "OnDirectoryBusySharedMemoryAccess c a m src isFromMemory s = (let d = directoryDataMap s a in do {
     first \<leftarrow> firstRequest d;
     DebugAssert (firstRequestSrc d \<noteq> InvalidNodeID);
     DebugAssert (secondRequest d = None);
     DebugAssert (secondRequestSrc d = InvalidNodeID);
     if isFromMemory then do {
        DebugAssert (Type m = mt_ReadResponse);
        s \<leftarrow> PerformMemoryReadResponseCheck m src s;
        let s = set_state a ds_BusyShared s;
        DebugAssert (previousOwner d \<noteq> InvalidNodeID);
        intervene c m first (firstRequestSrc d) (previousOwner d) False s }
     else if Type m = mt_Read then SendCacheNak_Read c m src s
     else if Type m = mt_WritebackRequest then
        Some (on_directory a (\<lambda>d. d\<lparr>state := ds_BusySharedMemoryAccessWritebackRequest, secondRequest := Some m,
          secondRequestSrc := src\<rparr>) s)
     else None })"

definition OnDirectoryBusySharedMemoryAccessWritebackRequest :: "origin_config \<Rightarrow> nat \<Rightarrow> message \<Rightarrow> int \<Rightarrow> bool \<Rightarrow> origin \<Rightarrow> origin option" where
  "OnDirectoryBusySharedMemoryAccessWritebackRequest c a m src isFromMemory s = (let d = directoryDataMap s a in do {
     first \<leftarrow> firstRequest d;
     DebugAssert (firstRequestSrc d \<noteq> InvalidNodeID);
     second \<leftarrow> secondRequest d;
     DebugAssert (secondRequestSrc d \<noteq> InvalidNodeID);
     if Type m = mt_Read then SendCacheNak_Read c m src s
     else if isFromMemory then do {
        DebugAssert (Type m = mt_ReadResponse);
        s \<leftarrow> PerformMemoryReadResponseCheck m src s;
        DebugAssert (solicitingMessage m = msgID first);
        let s = set_state a ds_Shared s;
        let (rrm, s) = new_msg c mt_ReadReply (generatingPC m) s;
        let rrm = (InitializeReadResponseMsg_Read rrm first)\<lparr>exclusiveOwnership := False\<rparr>;
        s \<leftarrow> SendMessageToRemoteCache c rrm (owner d) s;
        let (wam, s) = new_msg c mt_WritebackAck (generatingPC m) s;
        let wam = (InitializeEvictionResponseMsg_Eviction wam second)\<lparr>isExclusive := True\<rparr>;
        s \<leftarrow> SendMessageToRemoteCache c wam (secondRequestSrc d) s;
        s \<leftarrow> write_to_memory c (generatingPC m) (\<lambda>wm. InitializeWriteMsg_ReadResponse wm m) s;
        Some (ClearTempDirectoryData a s) }
     else None })"

section \<open>Blocks with an owner\<close>

definition OnDirectoryExclusive :: "origin_config \<Rightarrow> nat \<Rightarrow> message \<Rightarrow> int \<Rightarrow> origin \<Rightarrow> origin option" where
  "OnDirectoryExclusive c a m src s = (let d = directoryDataMap s a in do {
     DebugAssert (firstRequest d = None);
     DebugAssert (firstRequestSrc d = InvalidNodeID);
     DebugAssert (sharers d = []);
     if Type m = mt_Read then
        if owner d = src then
          SendRequestToMemory c m (set_first_request a m src (set_state a ds_ExclusiveMemoryAccess s))
        else if requestingExclusive m then do {
          s \<leftarrow> SendRequestToMemory c m (set_state a ds_BusyExclusiveMemoryAccess s);
          Some (set_first_request a m src (on_directory a (\<lambda>d. d\<lparr>previousOwner := owner d, owner := src\<rparr>) s)) }
        else do {
          s \<leftarrow> SendRequestToMemory c m (set_state a ds_BusySharedMemoryAccess s);
          Some (set_first_request a m src (on_directory a (\<lambda>d. d\<lparr>previousOwner := owner d,
            sharers := insert_sharer c (owner d) (sharers d), owner := src\<rparr>) s)) }
     else if Type m = mt_WritebackRequest then do {
        DebugAssert (owner d = src);
        let s = on_directory a (\<lambda>d. d\<lparr>state := ds_Unowned, owner := InvalidNodeID\<rparr>) s;
        let (wam, s) = new_msg c mt_WritebackAck (generatingPC m) s;
        let wam = (InitializeEvictionResponseMsg_Eviction wam m)\<lparr>isExclusive := True\<rparr>;
        s \<leftarrow> SendMessageToRemoteCache c wam src s;
        write_to_memory c (generatingPC m) (\<lambda>wm. InitializeWriteMsg_Eviction wm m) s }
     else None })"

definition OnDirectoryExclusiveMemoryAccess :: "origin_config \<Rightarrow> nat \<Rightarrow> message \<Rightarrow> int \<Rightarrow> bool \<Rightarrow> origin \<Rightarrow> origin option" where
  "OnDirectoryExclusiveMemoryAccess c a m src isFromMemory s = (let d = directoryDataMap s a in do {
     first \<leftarrow> firstRequest d;
     DebugAssert (firstRequestSrc d \<noteq> InvalidNodeID);
     if Type m = mt_Read then SendCacheNak_Read c m src s
     else if isFromMemory then do {
        DebugAssert (Type m = mt_ReadResponse);
        let s = set_state a ds_Exclusive s;
        let (rrm, s) = new_msg c mt_ReadReply (generatingPC m) s;
        let rrm = (InitializeReadResponseMsg_Read rrm first)\<lparr>blockAttached := True, exclusiveOwnership := True, satisfied := True\<rparr>;
        s \<leftarrow> SendMessageToRemoteCache c rrm (firstRequestSrc d) s;
        Some (ClearTempDirectoryData a s) }
     else None })"

section \<open>Shared blocks\<close>

definition origin_read :: "message \<Rightarrow> int \<Rightarrow> OriginLookupData" where
  "origin_read m src = \<lparr>lookup_read = m, lookup_source = src\<rparr>"

text \<open>Invalidations of the sharers of a block that a node, itself a holder, wants for itself.\<close>

fun upgrade_invalidates :: "origin_config \<Rightarrow> message \<Rightarrow> int \<Rightarrow> int \<Rightarrow> int list \<Rightarrow> int \<Rightarrow> origin \<Rightarrow> (int \<times> origin) option" where
  "upgrade_invalidates c m own src [] k s = Some (k, s)"
| "upgrade_invalidates c m own src (n # ns) k s = do {
     DebugAssert (n \<noteq> InvalidNodeID);
     if n \<noteq> src \<and> n \<noteq> own then do {
       s \<leftarrow> SendInvalidateMsg c m n src s;
       upgrade_invalidates c m own src ns (k + 1) s }
     else upgrade_invalidates c m own src ns k s }"

definition OnDirectoryShared :: "origin_config \<Rightarrow> nat \<Rightarrow> message \<Rightarrow> int \<Rightarrow> origin \<Rightarrow> origin option" where
  "OnDirectoryShared c a m src s = (let d = directoryDataMap s a in do {
     DebugAssert (firstRequest d = None);
     DebugAssert (firstRequestSrc d = InvalidNodeID);
     DebugAssert (owner d \<noteq> InvalidNodeID);
     DebugAssert (pendingSharedReads d = []);
     DebugAssert (sharers d \<noteq> []);
     if Type m = mt_Read then
        if \<not> requestingExclusive m then
          SendRequestToMemory c m (on_directory a (\<lambda>d. d\<lparr>state := ds_SharedMemoryAccess,
            sharers := insert_sharer c src (sharers d), pendingSharedReads := pendingSharedReads d @ [origin_read m src]\<rparr>) s)
        else if owner d \<noteq> src \<and> src \<notin> set (sharers d) then
          SendRequestToMemory c m (set_first_request a m src (set_state a ds_SharedExclusiveMemoryAccess s))
        else do {
          let s = set_state a ds_Exclusive s;
          (k, s) \<leftarrow> (if owner d \<noteq> src then do { s \<leftarrow> SendInvalidateMsg c m (owner d) src s; Some (1, s) } else Some (0, s));
          (k, s) \<leftarrow> upgrade_invalidates c m (owner d) src (sharers d) k s;
          let (rrm, s) = new_msg c mt_ReadReply (generatingPC m) s;
          let rrm = (InitializeReadResponseMsg_Read rrm m)\<lparr>blockAttached := False, exclusiveOwnership := True, satisfied := True,
            pendingInvalidates := k\<rparr>;
          s \<leftarrow> SendMessageToRemoteCache c rrm src s;
          Some (on_directory a (\<lambda>d. d\<lparr>owner := src, sharers := []\<rparr>) s) }
     else None })"

text \<open>Invalidations of the sharers of a block that another node wants for itself: the owner is not left out.\<close>

fun fetch_invalidates :: "origin_config \<Rightarrow> message \<Rightarrow> int \<Rightarrow> int list \<Rightarrow> int \<Rightarrow> origin \<Rightarrow> (int \<times> origin) option" where
  "fetch_invalidates c m src [] k s = Some (k, s)"
| "fetch_invalidates c m src (n # ns) k s =
     (if n \<noteq> src then do {
       s \<leftarrow> SendInvalidateMsg c m n src s;
       fetch_invalidates c m src ns (k + 1) s }
     else fetch_invalidates c m src ns k s)"

definition OnDirectorySharedExclusiveMemoryAccess :: "origin_config \<Rightarrow> nat \<Rightarrow> message \<Rightarrow> int \<Rightarrow> bool \<Rightarrow> origin \<Rightarrow> origin option" where
  "OnDirectorySharedExclusiveMemoryAccess c a m src isFromMemory s = (let d = directoryDataMap s a in do {
     first \<leftarrow> firstRequest d;
     DebugAssert (firstRequestSrc d \<noteq> InvalidNodeID);
     if isFromMemory then do {
        DebugAssert (Type m = mt_ReadResponse);
        s \<leftarrow> PerformMemoryReadResponseCheck m src s;
        let s = set_state a ds_Exclusive s;
        (k, s) \<leftarrow> (if owner d \<noteq> firstRequestSrc d
          then do { s \<leftarrow> SendInvalidateMsg c first (owner d) (firstRequestSrc d) s; Some (1, s) } else Some (0, s));
        (k, s) \<leftarrow> fetch_invalidates c first (firstRequestSrc d) (sharers d) k s;
        let (rrm, s) = new_msg c mt_ReadReply (generatingPC m) s;
        let rrm = (InitializeReadResponseMsg_Read rrm first)\<lparr>exclusiveOwnership := True, pendingInvalidates := k, satisfied := True\<rparr>;
        s \<leftarrow> SendMessageToRemoteCache c rrm (firstRequestSrc d) s;
        let s = on_directory a (\<lambda>d. d\<lparr>sharers := [], owner := firstRequestSrc d\<rparr>) s;
        Some (ClearTempDirectoryData a s) }
     else if Type m = mt_Read then SendCacheNak_Read c m src s
     else None })"

fun reply_to_readers :: "origin_config \<Rightarrow> message \<Rightarrow> OriginLookupData list \<Rightarrow> origin \<Rightarrow> origin option" where
  "reply_to_readers c m [] s = Some s"
| "reply_to_readers c m (ld # lds) s = do {
     let (rrm, s) = new_msg c mt_ReadReply (generatingPC m) s;
     let rrm = (InitializeReadResponseMsg_Read rrm (lookup_read ld))\<lparr>blockAttached := True, exclusiveOwnership := False, satisfied := True\<rparr>;
     s \<leftarrow> SendMessageToRemoteCache c rrm (lookup_source ld) s;
     reply_to_readers c m lds s }"

definition OnDirectorySharedMemoryAccess :: "origin_config \<Rightarrow> nat \<Rightarrow> message \<Rightarrow> int \<Rightarrow> bool \<Rightarrow> origin \<Rightarrow> origin option" where
  "OnDirectorySharedMemoryAccess c a m src isFromMemory s = (let d = directoryDataMap s a in do {
     DebugAssert (pendingSharedReads d \<noteq> []);
     DebugAssert (sharers d \<noteq> []);
     if Type m = mt_Read then
        if \<not> requestingExclusive m then
          Some (on_directory a (\<lambda>d. d\<lparr>sharers := insert_sharer c src (sharers d),
            pendingSharedReads := pendingSharedReads d @ [origin_read m src]\<rparr>) s)
        else SendCacheNak_Read c m src s
     else if isFromMemory then do {
        DebugAssert (Type m = mt_ReadResponse);
        s \<leftarrow> PerformMemoryReadResponseCheck m src s;
        let s = set_state a ds_Shared s;
        s \<leftarrow> reply_to_readers c m (pendingSharedReads d) s;
        Some (on_directory a (\<lambda>d. d\<lparr>pendingSharedReads := []\<rparr>) s) }
     else None })"

definition OnDirectoryUnowned :: "origin_config \<Rightarrow> nat \<Rightarrow> message \<Rightarrow> int \<Rightarrow> origin \<Rightarrow> origin option" where
  "OnDirectoryUnowned c a m src s = (let d = directoryDataMap s a in do {
     DebugAssert (firstRequest d = None);
     DebugAssert (firstRequestSrc d = InvalidNodeID);
     if Type m = mt_Read then do {
        let s = set_first_request a m src (set_state a ds_ExclusiveMemoryAccess s);
        s \<leftarrow> SendRequestToMemory c m s;
        DebugAssert (owner d = InvalidNodeID);
        Some (on_directory a (\<lambda>d. d\<lparr>owner := src\<rparr>) s) }
     else None })"

section \<open>Dispatch\<close>

text \<open>A block is never in the state \<open>ds_SharedMemoryAccessWritebackRequest\<close>, which has no case.\<close>

definition OnDirectory :: "origin_config \<Rightarrow> nat \<Rightarrow> message \<Rightarrow> int \<Rightarrow> bool \<Rightarrow> origin \<Rightarrow> origin option" where
  "OnDirectory c a m src isFromMemory s = (case state (directoryDataMap s a) of
       ds_BusyExclusiveMemoryAccess \<Rightarrow> OnDirectoryBusyExclusiveMemoryAccess c a m src isFromMemory s
     | ds_BusyExclusive \<Rightarrow> OnDirectoryBusyExclusive c a m src s
     | ds_BusyExclusiveMemoryAccessWritebackRequest \<Rightarrow>
         OnDirectoryBusyExclusiveMemoryAccessWritebackRequest c a m src isFromMemory s
     | ds_BusyShared \<Rightarrow> OnDirectoryBusyShared c a m src s
     | ds_BusySharedMemoryAccess \<Rightarrow> OnDirectoryBusySharedMemoryAccess c a m src isFromMemory s
     | ds_BusySharedMemoryAccessWritebackRequest \<Rightarrow>
         OnDirectoryBusySharedMemoryAccessWritebackRequest c a m src isFromMemory s
     | ds_ExclusiveMemoryAccess \<Rightarrow> OnDirectoryExclusiveMemoryAccess c a m src isFromMemory s
     | ds_Exclusive \<Rightarrow> OnDirectoryExclusive c a m src s
     | ds_Shared \<Rightarrow> OnDirectoryShared c a m src s
     | ds_SharedExclusiveMemoryAccess \<Rightarrow> OnDirectorySharedExclusiveMemoryAccess c a m src isFromMemory s
     | ds_SharedMemoryAccess \<Rightarrow> OnDirectorySharedMemoryAccess c a m src isFromMemory s
     | ds_Unowned \<Rightarrow> OnDirectoryUnowned c a m src s
     | ds_SharedMemoryAccessWritebackRequest \<Rightarrow> None)"

definition OnDirectoryDirectoryNak :: "origin_config \<Rightarrow> message \<Rightarrow> int \<Rightarrow> origin \<Rightarrow> origin option" where
  "OnDirectoryDirectoryNak c m src s = OnDirectory c (addr m) m src False (origin_counted directoryNaksReceived s)"

definition OnDirectoryRead :: "origin_config \<Rightarrow> message \<Rightarrow> int \<Rightarrow> origin \<Rightarrow> origin option" where
  "OnDirectoryRead c m src s = OnDirectory c (addr m) m src False (origin_counted directoryReadsReceived s)"

definition OnDirectoryWriteback :: "origin_config \<Rightarrow> message \<Rightarrow> int \<Rightarrow> origin \<Rightarrow> origin option" where
  "OnDirectoryWriteback c m src s = OnDirectory c (addr m) m src False (origin_counted directoryWritebacksReceived s)"

definition OnDirectoryWritebackRequest :: "origin_config \<Rightarrow> message \<Rightarrow> int \<Rightarrow> origin \<Rightarrow> origin option" where
  "OnDirectoryWritebackRequest c m src s = OnDirectory c (addr m) m src False (origin_counted directoryWritebackRequestsReceived s)"

definition RecvMsgDirectory :: "origin_config \<Rightarrow> message \<Rightarrow> int \<Rightarrow> bool \<Rightarrow> origin \<Rightarrow> origin option" where
  "RecvMsgDirectory c m src isFromMemory s = (let r = s\<lparr>remoteMessagesReceived := remoteMessagesReceived s + 1\<rparr> in
     case Type m of
       mt_DirectoryNak \<Rightarrow> do { DebugAssert (\<not> isFromMemory); OnDirectoryDirectoryNak c m src r }
     | mt_Read \<Rightarrow> do { DebugAssert (\<not> isFromMemory); OnDirectoryRead c m src r }
     | mt_ReadResponse \<Rightarrow> do { DebugAssert isFromMemory; OnDirectory c (addr m) m src isFromMemory s }
     | mt_Transfer \<Rightarrow> OnDirectory c (addr m) m src isFromMemory r
     | mt_Writeback \<Rightarrow> do { DebugAssert (\<not> isFromMemory); OnDirectoryWriteback c m src r }
     | mt_WritebackRequest \<Rightarrow> do { DebugAssert (\<not> isFromMemory); OnDirectoryWritebackRequest c m src r }
     | mt_WriteResponse \<Rightarrow> do { DebugAssert isFromMemory; PerformMemoryWriteResponseCheck m src r }
     | _ \<Rightarrow> OnDirectory c (addr m) m src isFromMemory r)"

definition Origin_RecvMsg :: "origin_config \<Rightarrow> origin_input \<Rightarrow> origin \<Rightarrow> origin option" where
  "Origin_RecvMsg c i s = (let s = origin_counted messagesReceived s in
     case i of
       FromLocalCache m \<Rightarrow> RecvMsgCache c m InvalidNodeID s
     | FromLocalMemory m \<Rightarrow> RecvMsgDirectory c m InvalidNodeID True s
     | FromRemote src dest m \<Rightarrow> do {
         DebugAssert (dest = nodeID c);
         DebugAssert (src \<noteq> InvalidNodeID);
         if isCache m then RecvMsgCache c m src s
         else if isDirectory m then RecvMsgDirectory c m src False s
         else None })"

text \<open>The calls that the device scheduled.\<close>

definition origin_called :: "origin_config \<Rightarrow> origin_call \<Rightarrow> origin \<Rightarrow> origin option" where
  "origin_called c f s = (case f of
     CBRecvMsgDirectory m src isFromMemory \<Rightarrow> RecvMsgDirectory c m src isFromMemory s
   | CBRecvMsgCache m src \<Rightarrow> RecvMsgCache c m src s)"

end
