(* ===== verification/OriginProps.thy ===== *)
theory OriginProps
  imports OriginDirectory
begin

text \<open>
  What the Origin protocol promises at a node: an exclusive reader collects the reply of the home and the
  acknowledgements of the sharers in any order; the two messages of an intervention, and the two that end
  an eviction which crosses one, may come in either order.
\<close>

section \<open>What a step changes\<close>

lemmas origin_upd = on_cache_def on_directory_def SetCacheState_def set_first_reply_def set_state_def ClearTempCacheData_def
  ClearTempDirectoryData_def origin_counted_def emit_def note_message_def set_first_request_def

lemma Create_keeps [simp]: "msgID (Create t m) = msgID m" "generatingPC (Create t m) = generatingPC m" "Type (Create t m) = Type m"
  by (simp_all add: Create_def Fill_defs split: MsgType.splits)

text \<open>A new message, given its number.\<close>

definition fresh :: "origin_config \<Rightarrow> MsgType \<Rightarrow> nat \<Rightarrow> nat \<Rightarrow> message" where
  "fresh c t pc k = Create t (SetIDInfo k (GetDeviceID c) pc ((pool c t k)\<lparr>Type := t\<rparr>))"

lemma fresh_keeps [simp]: "msgID (fresh c t pc k) = k" "Type (fresh c t pc k) = t" "generatingPC (fresh c t pc k) = pc"
  by (simp_all add: fresh_def SetIDInfo_def)

lemma new_msg_let: "(case new_msg c t pc s of (m, s) \<Rightarrow> f m s) = f (fresh c t pc (currentMsgStamp s)) (s\<lparr>currentMsgStamp := currentMsgStamp s + 1\<rparr>)"
  by (simp add: new_msg_def Let_def fresh_def)

lemma Initialize_Type [simp]: "Type (InitializeReadResponseMsg_Read x m) = Type x" "Type (InitializeEvictionResponseMsg_Eviction x m) = Type x"
  "Type (InitializeWriteMsg_Eviction x m) = Type x" "Type (InitializeWriteMsg_ReadResponse x m) = Type x"
  "Type (InitializeInvalidateMsg x m) = Type x" "Type (InitializeReadMsg_ReadResponse x m) = Type x"
  "Type (InitializeBaseNakMsg_Read x m) = Type x" "Type (InitializeReadMsg_Read x m) = Type x"
  "Type (InitializeReadResponseMsg_Intervention x m) = Type x" "Type (InitializeEvictionMsg_Read x m) = Type x"
  "Type (InitializeReadResponseMsg_ReadResponse x m) = Type x"
  by (simp_all add: Initialize_defs)

text \<open>A message on its way to the cache side of a node, the node's own included.\<close>

definition cache_event :: "origin_config \<Rightarrow> message \<Rightarrow> int \<Rightarrow> nat \<Rightarrow> origin_event" where
  "cache_event c m dest k = (if dest = nodeID c then ScheduledCall (CBRecvMsgCache (m\<lparr>isCache := True\<rparr>) (nodeID c)) (localSendTime c)
     else SentRemote k (nodeID c) dest (m\<lparr>isCache := True\<rparr>) (remoteSendTime c))"

fun to_cache :: "origin_event \<Rightarrow> (int \<times> message) list" where
  "to_cache (ScheduledCall (CBRecvMsgCache m n) _) = [(n, m)]"
| "to_cache (SentRemote _ _ n m _) = (if isCache m then [(n, m)] else [])"
| "to_cache _ = []"

lemma to_cache_event [simp]: "to_cache (cache_event c m dest k) = [(dest, m\<lparr>isCache := True\<rparr>)]"
  by (simp add: cache_event_def)

text \<open>The numbers that such a message takes.\<close>

definition stamps :: "origin_config \<Rightarrow> int \<Rightarrow> nat" where
  "stamps c dest = (if dest = nodeID c then 1 else 2)"

lemma SendMessageToRemoteCache_eq: "dest \<noteq> InvalidNodeID \<Longrightarrow> SendMessageToRemoteCache c m dest s =
    Some (s\<lparr>currentMsgStamp := currentMsgStamp s + stamps c dest,
      events := events s @ [cache_event c m dest (currentMsgStamp s + 1)]\<rparr>)"
  by (simp add: SendMessageToRemoteCache_def DebugAssert_def Replicate_def Origin_SendMessageToNetwork_def emit_def cache_event_def new_msg_let stamps_def)

text \<open>The answers to local reads.\<close>

fun local_answer :: "origin_event \<Rightarrow> message list" where
  "local_answer (SentLocalCache m _) = (if Type m = mt_ReadResponse then [m] else [])"
| "local_answer _ = []"

definition local_answers :: "origin \<Rightarrow> (nat \<times> bool) list" where
  "local_answers s = map (\<lambda>m. (solicitingMessage m, exclusiveOwnership m)) (concat (map local_answer (events s)))"

fun origin_receive_all :: "origin_config \<Rightarrow> origin_input list \<Rightarrow> origin \<Rightarrow> origin option" where
  "origin_receive_all c [] s = Some s"
| "origin_receive_all c (i # is) s = Option.bind (Origin_RecvMsg c i s) (origin_receive_all c is)"

section \<open>Collecting acknowledgements\<close>

text \<open>
  The node waits with the exclusive read \<open>r\<close>; of the \<open>K\<close> acknowledgements \<open>k\<close> have come, and the reply if
  \<open>rep\<close> is one.
\<close>

definition collecting :: "nat \<Rightarrow> message \<Rightarrow> nat \<Rightarrow> message option \<Rightarrow> origin \<Rightarrow> bool" where
  "collecting a r k rep s \<longleftrightarrow> (let d = cacheDataMap s a in
     cacheState d = (if k = 0 \<and> rep = None then cs_WaitingForExclusiveReadResponse else cs_WaitingForKInvalidatesJInvalidatesReceived) \<and>
     cacheDataPendingLocalReads d = [r] \<and> pendingLocalReads s (msgID r) \<noteq> None \<and> invalidAcksReceived d = int k \<and>
     firstReply d = rep \<and> (rep = None \<longrightarrow> firstReplySrc d = InvalidNodeID))"

definition grants_read :: "nat \<Rightarrow> message \<Rightarrow> nat \<Rightarrow> message \<Rightarrow> bool" where
  "grants_read a r K m \<longleftrightarrow> Type m = mt_ReadReply \<and> isCache m \<and> addr m = a \<and> exclusiveOwnership m \<and>
     pendingInvalidates m = int K \<and> solicitingMessage m = msgID r"

definition acknowledges :: "nat \<Rightarrow> message \<Rightarrow> bool" where
  "acknowledges a m \<longleftrightarrow> Type m = mt_InvalidateAck \<and> isCache m \<and> addr m = a"

definition exclusive_now :: "nat \<Rightarrow> origin \<Rightarrow> bool" where
  "exclusive_now a s \<longleftrightarrow> cacheState (cacheDataMap s a) = cs_Exclusive \<and> cacheDataPendingLocalReads (cacheDataMap s a) = [] \<and>
     firstReply (cacheDataMap s a) = None"

lemmas collect_eval = Origin_RecvMsg_def RecvMsgCache_def OnCacheInvalidateAck_def OnCacheReadReply_def OnCache_def
  OnCacheWaitingForExclusiveReadResponse_def OnCacheWaitingForKInvalidatesJInvalidatesReceived_def DebugAssert_def
  origin_upd ProcessReadResponse_def pop_local_read_def ProcessRemainingPendingLocalReads_def SendMessageToLocalCache_def
  new_msg_let local_answers_def InitializeReadResponseMsg_ReadResponse_def

lemma ack_step:
  assumes "collecting a r k rep s" and "acknowledges a m" and "src \<noteq> InvalidNodeID" and "k < K" and "rep \<noteq> None \<longrightarrow> grants_read a r K (the rep)"
  shows "\<exists>s'. Origin_RecvMsg c (FromRemote src (nodeID c) m) s = Some s' \<and>
    (if rep \<noteq> None \<and> k + 1 = K then exclusive_now a s' \<and> local_answers s' = local_answers s @ [(msgID r, True)]
     else collecting a r (k + 1) rep s' \<and> local_answers s' = local_answers s)"
proof (cases rep)
  case None
  then show ?thesis using assms
    by (cases "k = 0") (simp_all add: collecting_def acknowledges_def collect_eval Let_def)
next
  case (Some first)
  then show ?thesis using assms
    by (simp add: collecting_def acknowledges_def grants_read_def exclusive_now_def collect_eval Let_def)
qed

lemma reply_step:
  assumes "collecting a r k None s" and "grants_read a r K m" and "src \<noteq> InvalidNodeID" and "k \<le> K"
  shows "\<exists>s'. Origin_RecvMsg c (FromRemote src (nodeID c) m) s = Some s' \<and>
    (if k = K then exclusive_now a s' \<and> local_answers s' = local_answers s @ [(msgID r, True)]
     else collecting a r k (Some m) s' \<and> local_answers s' = local_answers s)"
  using assms
  by (cases "k = 0"; cases "k = K")
    (simp_all add: collecting_def grants_read_def exclusive_now_def collect_eval Let_def)


text \<open>Acknowledgements of sharers and the reply of the home, from the nodes they come from, in any order.\<close>

definition collected :: "nat \<Rightarrow> message \<Rightarrow> nat \<Rightarrow> (int \<times> message) list \<Rightarrow> bool" where
  "collected a r K ms \<longleftrightarrow> (\<forall>(n, m)\<in>set ms. n \<noteq> InvalidNodeID \<and> (acknowledges a m \<or> grants_read a r K m))"

definition acks :: "(int \<times> message) list \<Rightarrow> nat" where
  "acks ms = length (filter (\<lambda>(n, m). Type m = mt_InvalidateAck) ms)"

definition replies :: "(int \<times> message) list \<Rightarrow> nat" where
  "replies ms = length (filter (\<lambda>(n, m). Type m = mt_ReadReply) ms)"

definition from_nodes :: "origin_config \<Rightarrow> (int \<times> message) list \<Rightarrow> origin_input list" where
  "from_nodes c ms = map (\<lambda>(n, m). FromRemote n (nodeID c) m) ms"

lemma collecting_not_exclusive: "collecting a r k rep s \<Longrightarrow> cacheState (cacheDataMap s a) \<noteq> cs_Exclusive"
  by (auto simp: collecting_def Let_def split: if_splits)

lemma collect_run:
  assumes "collecting a r k rep s" and "collected a r K ms" and "k + acks ms \<le> K" and "of_bool (rep \<noteq> None) + replies ms \<le> 1"
    and "rep \<noteq> None \<longrightarrow> grants_read a r K (the rep) \<and> k < K"
  shows "\<exists>s'. origin_receive_all c (from_nodes c ms) s = Some s' \<and>
    (if k + acks ms = K \<and> of_bool (rep \<noteq> None) + replies ms = (1::nat)
     then exclusive_now a s' \<and> local_answers s' = local_answers s @ [(msgID r, True)]
     else cacheState (cacheDataMap s' a) \<noteq> cs_Exclusive \<and> local_answers s' = local_answers s)"
  using assms
proof (induction ms arbitrary: k rep s)
  case Nil
  then show ?case
    by (cases rep) (auto simp: from_nodes_def acks_def replies_def dest: collecting_not_exclusive)
next
  case (Cons p ms)
  obtain n m where p: "p = (n, m)" by (cases p)
  have n: "n \<noteq> InvalidNodeID" and rest: "collected a r K ms" using Cons.prems(2) by (auto simp: collected_def p)
  have run: "origin_receive_all c (from_nodes c (p # ms)) s =
      Option.bind (Origin_RecvMsg c (FromRemote n (nodeID c) m) s) (origin_receive_all c (from_nodes c ms))"
    by (simp add: from_nodes_def p)
  have empty: "ms = []" if "acks ms = 0" and "replies ms = 0"
    using that rest by (cases ms) (auto simp: acks_def replies_def collected_def acknowledges_def grants_read_def)
  from Cons.prems(2) consider "acknowledges a m" | "grants_read a r K m" by (auto simp: collected_def p)
  then show ?case
  proof cases
    case 1
    then have cnt: "acks (p # ms) = acks ms + 1" "replies (p # ms) = replies ms"
      by (simp_all add: acks_def replies_def p acknowledges_def)
    with Cons.prems(3) have "k < K" by simp
    from ack_step[OF Cons.prems(1) 1 n this] Cons.prems(5) obtain t where
      t: "Origin_RecvMsg c (FromRemote n (nodeID c) m) s = Some t" and
      post: "if rep \<noteq> None \<and> k + 1 = K then exclusive_now a t \<and> local_answers t = local_answers s @ [(msgID r, True)]
        else collecting a r (k + 1) rep t \<and> local_answers t = local_answers s" by blast
    show ?thesis
    proof (cases "rep \<noteq> None \<and> k + 1 = K")
      case True
      then have "acks ms = 0" "replies ms = 0" using Cons.prems(3,4) cnt by auto
      with empty True post t run cnt show ?thesis by (auto simp: from_nodes_def)
    next
      case False
      with post have c: "collecting a r (k + 1) rep t" and e: "local_answers t = local_answers s" by auto
      have "k + 1 + acks ms \<le> K" and "of_bool (rep \<noteq> None) + replies ms \<le> 1" using Cons.prems(3,4) cnt by auto
      moreover have "rep \<noteq> None \<longrightarrow> grants_read a r K (the rep) \<and> k + 1 < K" using Cons.prems(5) False by auto
      ultimately show ?thesis using Cons.IH[OF c rest] unfolding run t cnt e by simp
    qed
  next
    case 2
    then have cnt: "acks (p # ms) = acks ms" "replies (p # ms) = replies ms + 1"
      by (simp_all add: acks_def replies_def p grants_read_def)
    with Cons.prems(4) have rep: "rep = None" and none: "replies ms = 0" by (cases rep; simp)+
    have le: "k \<le> K" using Cons.prems(3) by simp
    from reply_step[OF Cons.prems(1)[unfolded rep] 2 n le] obtain t where
      t: "Origin_RecvMsg c (FromRemote n (nodeID c) m) s = Some t" and
      post: "if k = K then exclusive_now a t \<and> local_answers t = local_answers s @ [(msgID r, True)]
        else collecting a r k (Some m) t \<and> local_answers t = local_answers s" by blast
    show ?thesis
    proof (cases "k = K")
      case True
      then have "acks ms = 0" using Cons.prems(3) cnt by simp
      with empty none True post t run cnt rep show ?thesis by (auto simp: from_nodes_def)
    next
      case False
      with post have c: "collecting a r k (Some m) t" and e: "local_answers t = local_answers s" by auto
      have "k + acks ms \<le> K" using Cons.prems(3) cnt by simp
      moreover have "of_bool (Some m \<noteq> None) + replies ms \<le> 1" using none by simp
      ultimately show ?thesis using Cons.IH[OF c rest] 2 False le unfolding run t cnt e by (simp add: rep)
    qed
  qed
qed

end
