(* ===== verification/OriginInv.thy ===== *)
theory OriginInv
  imports OriginProps "HOL-Library.Multiset"
begin

text \<open>
  The invariant of the home side of the Origin protocol: whatever messages come, in whatever order, the
  entry of a block is consistent in each of its states.
\<close>

section \<open>Handlers that leave the entries alone\<close>

text \<open>Every call that the device schedules comes from its own node, and none of them from the memory.\<close>

fun origin_call_ok :: "origin_config \<Rightarrow> origin_event \<Rightarrow> bool" where
  "origin_call_ok c (ScheduledCall (CBRecvMsgDirectory m n b) _) = (n = nodeID c \<and> \<not> b)"
| "origin_call_ok c (ScheduledCall (CBRecvMsgCache m n) _) = (n = nodeID c)"
| "origin_call_ok c _ = True"

definition calm :: "origin_config \<Rightarrow> ((nat \<Rightarrow> DirectoryData) \<Rightarrow> bool) \<Rightarrow> origin \<Rightarrow> bool" where
  "calm c P s \<longleftrightarrow> P (directoryDataMap s) \<and> (\<forall>e\<in>set (events s). origin_call_ok c e)"

definition keeps :: "(origin \<Rightarrow> bool) \<Rightarrow> origin option \<Rightarrow> bool" where
  "keeps I r \<longleftrightarrow> (\<forall>s. r = Some s \<longrightarrow> I s)"

lemma keeps_simps [simp]: "keeps I None" "keeps I (Some s) = I s"
  "keeps I (Option.bind (DebugAssert b) f) = (b \<longrightarrow> keeps I (f ()))"
  "keeps I (Option.bind (x :: message option) g) = (\<forall>m. x = Some m \<longrightarrow> keeps I (g m))"
  "keeps I (Option.bind (y :: int option) h) = (\<forall>n. y = Some n \<longrightarrow> keeps I (h n))"
  by (auto simp: keeps_def DebugAssert_def Option.bind_eq_Some_conv)

lemma keeps_bind: "keeps J r \<Longrightarrow> (\<And>s. J s \<Longrightarrow> keeps I (f s)) \<Longrightarrow> keeps I (Option.bind r f)"
  by (auto simp: keeps_def Option.bind_eq_Some_conv)

lemma calm_simps [simp]:
  "calm c P (s\<lparr>currentMsgStamp := k\<rparr>) = calm c P s" "calm c P (s\<lparr>remoteMessagesReceived := w\<rparr>) = calm c P s"
  "calm c P (s\<lparr>pendingLocalReads := p\<rparr>) = calm c P s" "calm c P (s\<lparr>pendingRemoteReads := p\<rparr>) = calm c P s"
  "calm c P (s\<lparr>pendingRemoteInvalidates := p\<rparr>) = calm c P s" "calm c P (s\<lparr>pendingMemoryReadAccesses := p\<rparr>) = calm c P s"
  "calm c P (s\<lparr>pendingMemoryWriteAccesses := p\<rparr>) = calm c P s" "calm c P (s\<lparr>pendingEviction := p\<rparr>) = calm c P s"
  "calm c P (on_cache a f s) = calm c P s" "calm c P (SetCacheState a st s) = calm c P s"
  "calm c P (set_first_reply a m n s) = calm c P s" "calm c P (ClearTempCacheData a s) = calm c P s"
  "calm c P (origin_counted x s) = calm c P s" "calm c P (note_message a m s) = calm c P s"
  "calm c P (emit e s) = (origin_call_ok c e \<and> calm c P s)"
  by (auto simp: calm_def origin_upd)

lemma SendMessageToNetwork_calm: "calm c P s \<Longrightarrow> keeps (calm c P) (Origin_SendMessageToNetwork c m n s)"
  by (simp add: Let_def Origin_SendMessageToNetwork_def new_msg_let)

lemma SendMessageToRemoteCache_calm: "calm c P s \<Longrightarrow> keeps (calm c P) (SendMessageToRemoteCache c m n s)"
  by (simp add: Let_def SendMessageToRemoteCache_def Replicate_def SendMessageToNetwork_calm)

lemma SendMessageToLocalCache_calm [simp]: "calm c P (SendMessageToLocalCache c m s) = calm c P s"
  by (simp add: SendMessageToLocalCache_def new_msg_let Let_def)

lemma SendMessageToDirectory_calm: "calm c P s \<Longrightarrow> keeps (calm c P) (SendMessageToDirectory c m False s)"
  by (simp add: Let_def SendMessageToDirectory_def SendMessageToNetwork_calm)

lemma ResendRequestToDirectory_calm: "calm c P s \<Longrightarrow> keeps (calm c P) (ResendRequestToDirectory c m s)"
  by (simp add: Let_def ResendRequestToDirectory_def SendMessageToNetwork_calm)

lemma SendRequestToMemory_calm: "calm c P s \<Longrightarrow> keeps (calm c P) (SendRequestToMemory c m s)"
  by (simp add: Let_def SendRequestToMemory_def Replicate_def)

lemma SendCacheNak_Intervention_calm: "calm c P s \<Longrightarrow> keeps (calm c P) (SendCacheNak_Intervention c m s)"
  by (simp add: SendCacheNak_Intervention_def new_msg_let SendMessageToRemoteCache_calm Let_def)

lemma SendCacheNak_Read_calm: "calm c P s \<Longrightarrow> keeps (calm c P) (SendCacheNak_Read c m n s)"
  by (simp add: Let_def SendCacheNak_Read_def new_msg_let SendMessageToRemoteCache_calm)

lemma SendDirectoryNak_calm: "calm c P s \<Longrightarrow> keeps (calm c P) (Origin_SendDirectoryNak c m s)"
  by (simp add: Let_def Origin_SendDirectoryNak_def new_msg_let SendMessageToDirectory_calm)

lemma SendInterventionNaks_calm: "calm c P s \<Longrightarrow> keeps (calm c P) (SendInterventionNaks c m s)"
  by (auto simp: Let_def SendInterventionNaks_def intro!: keeps_bind SendDirectoryNak_calm SendCacheNak_Intervention_calm)

lemma SendInvalidateMsg_calm: "calm c P s \<Longrightarrow> keeps (calm c P) (SendInvalidateMsg c m n k s)"
  by (simp add: SendInvalidateMsg_def new_msg_let SendMessageToRemoteCache_calm Let_def)

lemma pop_local_read_calm: "calm c P s \<Longrightarrow> keeps (calm c P) (pop_local_read a m s)"
  by (simp add: Let_def pop_local_read_def)

lemma read_while_invalid_calm: "calm c P s \<Longrightarrow> keeps (calm c P) (read_while_invalid c a m n s)"
  by (simp add: Let_def read_while_invalid_def Replicate_def SendMessageToDirectory_calm)

lemma read_while_shared_calm: "calm c P s \<Longrightarrow> keeps (calm c P) (read_while_shared c a m s)"
  by (simp add: Let_def read_while_shared_def Replicate_def SendMessageToDirectory_calm)

lemma read_while_exclusive_calm: "calm c P s \<Longrightarrow> keeps (calm c P) (read_while_exclusive c a m s)"
  by (simp add: Let_def read_while_exclusive_def new_msg_let pop_local_read_calm)

lemma serve_reads_calm: "calm c P s \<Longrightarrow> keeps (calm c P) (serve_reads c a rs s)"
proof (induction rs arbitrary: s)
  case (Cons r rs)
  then show ?case
    by (auto simp: Let_def intro!: read_while_invalid_calm read_while_shared_calm keeps_bind[OF read_while_exclusive_calm] split: CacheState.split)
qed simp

lemma ProcessRemainingPendingLocalReads_calm: "calm c P s \<Longrightarrow> keeps (calm c P) (ProcessRemainingPendingLocalReads c a s)"
  by (simp add: Let_def ProcessRemainingPendingLocalReads_def serve_reads_calm)

lemma ProcessReadResponse_calm: "calm c P s \<Longrightarrow> keeps (calm c P) (ProcessReadResponse c a m s)"
  by (auto simp: Let_def ProcessReadResponse_def intro!: keeps_bind pop_local_read_calm ProcessRemainingPendingLocalReads_calm)

lemma answer_intervention_calm: "calm c P s \<Longrightarrow> keeps (calm c P) (answer_intervention c m x y s)"
  by (simp add: answer_intervention_def new_msg_let SendMessageToRemoteCache_calm Let_def)

lemma send_transfer_calm: "calm c P s \<Longrightarrow> keeps (calm c P) (send_transfer c m s)"
  by (simp add: send_transfer_def new_msg_let SendMessageToDirectory_calm Let_def)

lemma send_writeback_calm: "calm c P s \<Longrightarrow> keeps (calm c P) (send_writeback c m s)"
  by (simp add: send_writeback_def new_msg_let SendMessageToDirectory_calm Let_def)

lemma send_ack_calm: "calm c P s \<Longrightarrow> keeps (calm c P) (send_ack c f m s)"
  by (simp add: Let_def send_ack_def new_msg_let SendMessageToRemoteCache_calm)

lemma send_eviction_response_calm [simp]: "calm c P (send_eviction_response c pc f s) = calm c P s"
  by (simp add: Let_def send_eviction_response_def new_msg_let)

lemma resend_first_read_calm: "calm c P s \<Longrightarrow> keeps (calm c P) (resend_first_read c r s)"
  by (simp add: Let_def resend_first_read_def Replicate_def ResendRequestToDirectory_calm)

lemmas calm_rules = SendMessageToRemoteCache_calm SendMessageToDirectory_calm SendInterventionNaks_calm ProcessReadResponse_calm
  ProcessRemainingPendingLocalReads_calm answer_intervention_calm send_transfer_calm send_writeback_calm send_ack_calm
  resend_first_read_calm read_while_invalid_calm read_while_shared_calm

lemma ProcessInterventionWhileInvalid_calm: "calm c P s \<Longrightarrow> keeps (calm c P) (ProcessInterventionWhileInvalid c m n s)"
  by (auto simp: Let_def ProcessInterventionWhileInvalid_def intro!: keeps_bind calm_rules)

lemma ProcessInvalidateWhileInvalid_calm: "calm c P s \<Longrightarrow> keeps (calm c P) (ProcessInvalidateWhileInvalid c m n s)"
  by (auto simp: Let_def ProcessInvalidateWhileInvalid_def new_msg_let intro!: calm_rules)

lemma OnCacheCleanExclusive_calm: "calm c P s \<Longrightarrow> keeps (calm c P) (OnCacheCleanExclusive c a m n s)"
  by (auto simp: Let_def OnCacheCleanExclusive_def intro!: keeps_bind[OF answer_intervention_calm] keeps_bind[OF send_transfer_calm])

lemma OnCacheDirtyExclusive_calm: "calm c P s \<Longrightarrow> keeps (calm c P) (OnCacheDirtyExclusive c a m n s)"
  by (auto simp: Let_def OnCacheDirtyExclusive_def new_msg_let intro!: keeps_bind[OF answer_intervention_calm]
    keeps_bind[OF send_transfer_calm] keeps_bind[OF send_writeback_calm] keeps_bind[OF SendMessageToDirectory_calm])

lemma OnCacheExclusive_calm: "calm c P s \<Longrightarrow> keeps (calm c P) (OnCacheExclusive c a m n s)"
  by (auto simp: OnCacheExclusive_def new_msg_let Replicate_def Let_def intro!: OnCacheDirtyExclusive_calm OnCacheCleanExclusive_calm
    ProcessReadResponse_calm split: option.split)

lemma OnCacheExclusiveInterventionEviction_calm:
  assumes "calm c P s" shows "keeps (calm c P) (OnCacheExclusiveInterventionEviction c a m n s)"
proof -
  have "keeps (calm c P) (Option.bind (if b then send_writeback c f t else send_transfer c f t) h)"
    if "calm c P t" and "\<And>t. calm c P t \<Longrightarrow> keeps (calm c P) (h t)" for b f t h
    using that by (auto intro!: keeps_bind[OF send_writeback_calm] keeps_bind[OF send_transfer_calm])
  then show ?thesis using assms
    by (auto simp: OnCacheExclusiveInterventionEviction_def Let_def intro!: keeps_bind[OF answer_intervention_calm] keeps_bind[OF send_transfer_calm]
      keeps_bind[OF send_writeback_calm])
qed

lemma OnCacheInvalid_calm: "calm c P s \<Longrightarrow> keeps (calm c P) (OnCacheInvalid c a m n s)"
  by (auto simp: Let_def OnCacheInvalid_def intro!: ProcessInterventionWhileInvalid_calm ProcessInvalidateWhileInvalid_calm calm_rules)

lemma OnCacheShared_calm: "calm c P s \<Longrightarrow> keeps (calm c P) (OnCacheShared c a m n s)"
  by (auto simp: OnCacheShared_def Let_def Replicate_def intro!: keeps_bind[OF send_ack_calm] calm_rules split: option.split)


lemmas waiting_rules = calm_rules ProcessInvalidateWhileInvalid_calm keeps_bind[OF send_ack_calm] keeps_bind[OF resend_first_read_calm]

lemma OnCacheWaitingForExclusiveReadResponse_calm: "calm c P s \<Longrightarrow> keeps (calm c P) (OnCacheWaitingForExclusiveReadResponse c a m n s)"
  by (auto simp: OnCacheWaitingForExclusiveReadResponse_def Let_def Replicate_def new_msg_let intro!: waiting_rules split: option.split)

lemma OnCacheExclusiveWaitingForSpeculativeReply_calm: "calm c P s \<Longrightarrow> keeps (calm c P) (OnCacheExclusiveWaitingForSpeculativeReply c a m n s)"
  by (auto simp: OnCacheExclusiveWaitingForSpeculativeReply_def Let_def Replicate_def new_msg_let intro!: waiting_rules split: option.split)

lemma OnCacheWaitingForExclusiveResponseAck_calm: "calm c P s \<Longrightarrow> keeps (calm c P) (OnCacheWaitingForExclusiveResponseAck c a m n s)"
  by (auto simp: OnCacheWaitingForExclusiveResponseAck_def Let_def Replicate_def new_msg_let intro!: waiting_rules split: option.split)

lemma OnCacheWaitingForKInvalidatesJInvalidatesReceived_calm: "calm c P s \<Longrightarrow> keeps (calm c P) (OnCacheWaitingForKInvalidatesJInvalidatesReceived c a m n s)"
  by (auto simp: OnCacheWaitingForKInvalidatesJInvalidatesReceived_def Let_def Replicate_def new_msg_let intro!: waiting_rules split: option.split)

lemma OnCacheWaitingForSharedReadResponse_calm: "calm c P s \<Longrightarrow> keeps (calm c P) (OnCacheWaitingForSharedReadResponse c a m n s)"
  by (auto simp: OnCacheWaitingForSharedReadResponse_def Let_def Replicate_def new_msg_let intro!: waiting_rules split: option.split)

lemma OnCacheSharedWaitingForSpeculativeReply_calm: "calm c P s \<Longrightarrow> keeps (calm c P) (OnCacheSharedWaitingForSpeculativeReply c a m n s)"
  by (auto simp: OnCacheSharedWaitingForSpeculativeReply_def Let_def Replicate_def new_msg_let intro!: waiting_rules split: option.split)

lemma OnCacheWaitingForSharedResponseAck_calm: "calm c P s \<Longrightarrow> keeps (calm c P) (OnCacheWaitingForSharedResponseAck c a m n s)"
  by (auto simp: OnCacheWaitingForSharedResponseAck_def Let_def Replicate_def new_msg_let intro!: waiting_rules split: option.split)

lemma OnCacheWaitingForIntervention_calm: "calm c P s \<Longrightarrow> keeps (calm c P) (OnCacheWaitingForIntervention c a m n s)"
  by (auto simp: OnCacheWaitingForIntervention_def Let_def Replicate_def new_msg_let intro!: waiting_rules split: option.split)

lemma OnCacheWaitingForWritebackBusyAck_calm: "calm c P s \<Longrightarrow> keeps (calm c P) (OnCacheWaitingForWritebackBusyAck c a m n s)"
  by (auto simp: OnCacheWaitingForWritebackBusyAck_def Let_def Replicate_def new_msg_let intro!: waiting_rules split: option.split)

lemma OnCacheWaitingForWritebackResponse_calm: "calm c P s \<Longrightarrow> keeps (calm c P) (OnCacheWaitingForWritebackResponse c a m n s)"
  by (auto simp: OnCacheWaitingForWritebackResponse_def Let_def Replicate_def new_msg_let intro!: waiting_rules split: option.split)

lemma OnCache_calm: "calm c P s \<Longrightarrow> keeps (calm c P) (OnCache c a m n s)"
  by (auto simp: OnCache_def Let_def intro!: OnCacheExclusive_calm OnCacheExclusiveInterventionEviction_calm OnCacheInvalid_calm
    OnCacheShared_calm OnCacheWaitingForExclusiveReadResponse_calm OnCacheExclusiveWaitingForSpeculativeReply_calm OnCacheWaitingForExclusiveResponseAck_calm OnCacheWaitingForKInvalidatesJInvalidatesReceived_calm OnCacheWaitingForSharedReadResponse_calm OnCacheSharedWaitingForSpeculativeReply_calm OnCacheWaitingForSharedResponseAck_calm OnCacheWaitingForIntervention_calm OnCacheWaitingForWritebackBusyAck_calm OnCacheWaitingForWritebackResponse_calm split: CacheState.split)

lemma RecvMsgCache_calm: "calm c P s \<Longrightarrow> keeps (calm c P) (RecvMsgCache c m n s)"
  by (auto simp: RecvMsgCache_def OnCacheCacheNak_def OnCacheEviction_def OnCacheIntervention_def OnCacheInvalidate_def
    OnCacheInvalidateAck_def OnCacheInvalidateResponse_def OnCacheReadReply_def OnCacheReadResponse_def OnCacheSpeculativeReply_def
    OnCacheWritebackAck_def OnCacheRead_def Replicate_def Let_def intro!: OnCache_calm split: MsgType.split)


section \<open>The entries of the home\<close>

definition no_request :: "DirectoryData \<Rightarrow> bool" where
  "no_request d \<longleftrightarrow> firstRequest d = None \<and> firstRequestSrc d = InvalidNodeID \<and> previousOwner d = InvalidNodeID"

definition no_second :: "DirectoryData \<Rightarrow> bool" where
  "no_second d \<longleftrightarrow> secondRequest d = None \<and> secondRequestSrc d = InvalidNodeID"

text \<open>A request is being served for the node that the entry already names as the owner.\<close>

definition serving :: "DirectoryData \<Rightarrow> bool" where
  "serving d \<longleftrightarrow> firstRequest d \<noteq> None \<and> owner d \<noteq> InvalidNodeID \<and> firstRequestSrc d = owner d"

definition taking_over :: "DirectoryData \<Rightarrow> bool" where
  "taking_over d \<longleftrightarrow> serving d \<and> previousOwner d \<noteq> InvalidNodeID \<and> previousOwner d \<noteq> owner d"

definition second_waits :: "DirectoryData \<Rightarrow> bool" where
  "second_waits d \<longleftrightarrow> secondRequest d \<noteq> None \<and> secondRequestSrc d \<noteq> InvalidNodeID"

definition shared_entry :: "DirectoryData \<Rightarrow> bool" where
  "shared_entry d \<longleftrightarrow> owner d \<noteq> InvalidNodeID \<and> sharers d \<noteq> [] \<and> distinct (sharers d) \<and> InvalidNodeID \<notin> set (sharers d)"

definition entry_ok :: "DirectoryData \<Rightarrow> bool" where
  "entry_ok d \<longleftrightarrow> (case state d of
     ds_Unowned \<Rightarrow> no_request d \<and> no_second d \<and> owner d = InvalidNodeID \<and> sharers d = [] \<and> pendingSharedReads d = []
   | ds_Exclusive \<Rightarrow> no_request d \<and> no_second d \<and> owner d \<noteq> InvalidNodeID \<and> sharers d = [] \<and> pendingSharedReads d = []
   | ds_ExclusiveMemoryAccess \<Rightarrow> serving d \<and> previousOwner d = InvalidNodeID \<and> no_second d \<and> sharers d = [] \<and> pendingSharedReads d = []
   | ds_BusyExclusiveMemoryAccess \<Rightarrow> taking_over d \<and> no_second d \<and> sharers d = [] \<and> pendingSharedReads d = []
   | ds_BusyExclusive \<Rightarrow> taking_over d \<and> no_second d \<and> sharers d = [] \<and> pendingSharedReads d = []
   | ds_BusyExclusiveMemoryAccessWritebackRequest \<Rightarrow> taking_over d \<and> second_waits d \<and> sharers d = [] \<and> pendingSharedReads d = []
   | ds_BusySharedMemoryAccess \<Rightarrow> taking_over d \<and> no_second d \<and> sharers d = [previousOwner d] \<and> pendingSharedReads d = []
   | ds_BusyShared \<Rightarrow> taking_over d \<and> no_second d \<and> sharers d = [previousOwner d] \<and> pendingSharedReads d = []
   | ds_BusySharedMemoryAccessWritebackRequest \<Rightarrow> taking_over d \<and> second_waits d \<and> sharers d = [previousOwner d] \<and> pendingSharedReads d = []
   | ds_Shared \<Rightarrow> no_request d \<and> no_second d \<and> shared_entry d \<and> pendingSharedReads d = []
   | ds_SharedMemoryAccess \<Rightarrow> no_request d \<and> no_second d \<and> shared_entry d \<and> pendingSharedReads d \<noteq> [] \<and>
       (\<forall>ld\<in>set (pendingSharedReads d). lookup_source ld \<in> set (sharers d))
   | ds_SharedExclusiveMemoryAccess \<Rightarrow> no_second d \<and> shared_entry d \<and> pendingSharedReads d = [] \<and> firstRequest d \<noteq> None \<and>
       firstRequestSrc d \<noteq> InvalidNodeID \<and> firstRequestSrc d \<noteq> owner d \<and> firstRequestSrc d \<notin> set (sharers d) \<and>
       previousOwner d = InvalidNodeID
   | ds_SharedMemoryAccessWritebackRequest \<Rightarrow> False)"

lemmas entry_defs = no_request_def no_second_def serving_def taking_over_def second_waits_def shared_entry_def

definition home_ok :: "origin_config \<Rightarrow> origin \<Rightarrow> bool" where
  "home_ok c = calm c (\<lambda>D. \<forall>a. entry_ok (D a))"

definition orders :: "origin_config \<Rightarrow> bool" where
  "orders c \<longleftrightarrow> (\<forall>ns. mset (order_nodes c ns) = mset ns)"

lemma all_upd: "(\<forall>b. P ((f(a := x)) b)) = (P x \<and> (\<forall>b. b \<noteq> a \<longrightarrow> P (f b)))"
  by auto

lemma orders_set: "orders c \<Longrightarrow> set (order_nodes c ns) = set ns"
  unfolding orders_def by (metis set_mset_mset)

lemma order_nil: "orders c \<Longrightarrow> order_nodes c (n # ns) \<noteq> []"
  using orders_set[of c "n # ns"] by auto

lemma set_insert_sharer: "orders c \<Longrightarrow> set (insert_sharer c n ns) = insert n (set ns)"
  by (auto simp: insert_sharer_def orders_set)

lemma insert_sharer_nil: "orders c \<Longrightarrow> insert_sharer c n ns \<noteq> []"
  by (auto simp: insert_sharer_def order_nil)

lemma distinct_insert_sharer: "orders c \<Longrightarrow> distinct ns \<Longrightarrow> distinct (insert_sharer c n ns)"
  using mset_eq_imp_distinct_iff[of "order_nodes c (n # ns)" "n # ns"] by (auto simp: insert_sharer_def orders_def)

lemma insert_sharer_first: "orders c \<Longrightarrow> insert_sharer c n [] = [n]"
  unfolding insert_sharer_def orders_def by (drule spec[of _ "[n]"]) simp

lemma cache_event_ok [simp]: "origin_call_ok c (cache_event c m n k)"
  by (simp add: cache_event_def)

lemma SendMessageToRemoteCache_if: "SendMessageToRemoteCache c m dest s = (if dest = InvalidNodeID then None else
    Some (s\<lparr>currentMsgStamp := currentMsgStamp s + stamps c dest,
      events := events s @ [cache_event c m dest (currentMsgStamp s + 1)]\<rparr>))"
  using SendMessageToRemoteCache_eq[of dest c m s] by (simp add: SendMessageToRemoteCache_def DebugAssert_def)

lemma home_entry: "home_ok c s \<Longrightarrow> entry_ok (directoryDataMap s a)"
  by (simp add: home_ok_def calm_def)

lemma home_calls: "home_ok c s \<Longrightarrow> \<forall>e\<in>set (events s). origin_call_ok c e"
  by (simp add: home_ok_def calm_def)

lemma home_same: "home_ok c s \<Longrightarrow> \<forall>b. entry_ok (directoryDataMap s b)"
  by (simp add: home_ok_def calm_def)

lemmas home_eval = origin_upd Let_def new_msg_let DebugAssert_def home_ok_def calm_def
  SendMessageToRemoteCache_if SendCacheNak_Read_def SendRequestToMemory_def Replicate_def write_to_memory_def
  PerformMemoryReadResponseCheck_def PerformMemoryWriteResponseCheck_def intervene_def

lemmas entry_okI = entry_ok_def[THEN iffD2]

text \<open>The memory sends no reads and no requests to write back.\<close>

definition from_home :: "message \<Rightarrow> int \<Rightarrow> bool \<Rightarrow> bool" where
  "from_home m n b \<longleftrightarrow> b = (n = InvalidNodeID) \<and> (b \<longrightarrow> Type m \<noteq> mt_Read \<and> Type m \<noteq> mt_WritebackRequest)"

lemma OnDirectoryBusyExclusive_ok:
  assumes h: "home_ok c s" and st: "state (directoryDataMap s a) = ds_BusyExclusive" and b: "from_home m n b"
  shows "keeps (home_ok c) (OnDirectoryBusyExclusive c a m n s)"
proof -
  note d = home_entry[OF h, of a, unfolded entry_ok_def st DirectoryState.case entry_defs]
  show ?thesis using d st home_calls[OF h] b
    by (auto simp: OnDirectoryBusyExclusive_def home_eval home_entry[OF h] entry_defs from_home_def intro!: entry_okI)
qed

lemma OnDirectoryBusyExclusiveMemoryAccess_ok:
  assumes h: "home_ok c s" and st: "state (directoryDataMap s a) = ds_BusyExclusiveMemoryAccess" and b: "from_home m n b"
  shows "keeps (home_ok c) (OnDirectoryBusyExclusiveMemoryAccess c a m n b s)"
proof -
  note d = home_entry[OF h, of a, unfolded entry_ok_def st DirectoryState.case entry_defs]
  show ?thesis using d st home_calls[OF h] b
    by (auto simp: OnDirectoryBusyExclusiveMemoryAccess_def home_eval home_entry[OF h] entry_defs from_home_def intro!: entry_okI)
qed

lemma OnDirectoryBusyExclusiveMemoryAccessWritebackRequest_ok:
  assumes h: "home_ok c s" and st: "state (directoryDataMap s a) = ds_BusyExclusiveMemoryAccessWritebackRequest" and b: "from_home m n b"
  shows "keeps (home_ok c) (OnDirectoryBusyExclusiveMemoryAccessWritebackRequest c a m n b s)"
proof -
  note d = home_entry[OF h, of a, unfolded entry_ok_def st DirectoryState.case entry_defs]
  show ?thesis using d st home_calls[OF h] b
    by (auto simp: OnDirectoryBusyExclusiveMemoryAccessWritebackRequest_def home_eval home_entry[OF h] entry_defs from_home_def intro!: entry_okI)
qed

lemma OnDirectoryBusyShared_ok:
  assumes h: "home_ok c s" and st: "state (directoryDataMap s a) = ds_BusyShared" and b: "from_home m n b"
  shows "keeps (home_ok c) (OnDirectoryBusyShared c a m n s)"
proof -
  note d = home_entry[OF h, of a, unfolded entry_ok_def st DirectoryState.case entry_defs]
  show ?thesis using d st home_calls[OF h] b
    by (auto simp: OnDirectoryBusyShared_def home_eval home_entry[OF h] entry_defs from_home_def intro!: entry_okI)
qed

lemma OnDirectoryBusySharedMemoryAccess_ok:
  assumes h: "home_ok c s" and st: "state (directoryDataMap s a) = ds_BusySharedMemoryAccess" and b: "from_home m n b"
  shows "keeps (home_ok c) (OnDirectoryBusySharedMemoryAccess c a m n b s)"
proof -
  note d = home_entry[OF h, of a, unfolded entry_ok_def st DirectoryState.case entry_defs]
  show ?thesis using d st home_calls[OF h] b
    by (auto simp: OnDirectoryBusySharedMemoryAccess_def home_eval home_entry[OF h] entry_defs from_home_def intro!: entry_okI)
qed

lemma OnDirectoryBusySharedMemoryAccessWritebackRequest_ok:
  assumes h: "home_ok c s" and st: "state (directoryDataMap s a) = ds_BusySharedMemoryAccessWritebackRequest" and b: "from_home m n b"
  shows "keeps (home_ok c) (OnDirectoryBusySharedMemoryAccessWritebackRequest c a m n b s)"
proof -
  note d = home_entry[OF h, of a, unfolded entry_ok_def st DirectoryState.case entry_defs]
  show ?thesis using d st home_calls[OF h] b
    by (auto simp: OnDirectoryBusySharedMemoryAccessWritebackRequest_def home_eval home_entry[OF h] entry_defs from_home_def intro!: entry_okI)
qed

lemma OnDirectoryExclusiveMemoryAccess_ok:
  assumes h: "home_ok c s" and st: "state (directoryDataMap s a) = ds_ExclusiveMemoryAccess" and b: "from_home m n b"
  shows "keeps (home_ok c) (OnDirectoryExclusiveMemoryAccess c a m n b s)"
proof -
  note d = home_entry[OF h, of a, unfolded entry_ok_def st DirectoryState.case entry_defs]
  show ?thesis using d st home_calls[OF h] b
    by (auto simp: OnDirectoryExclusiveMemoryAccess_def home_eval home_entry[OF h] entry_defs from_home_def intro!: entry_okI)
qed

lemma OnDirectoryUnowned_ok:
  assumes h: "home_ok c s" and st: "state (directoryDataMap s a) = ds_Unowned" and b: "from_home m n b"
  shows "keeps (home_ok c) (OnDirectoryUnowned c a m n s)"
proof -
  note d = home_entry[OF h, of a, unfolded entry_ok_def st DirectoryState.case entry_defs]
  show ?thesis using d st home_calls[OF h] b
    by (auto simp: OnDirectoryUnowned_def home_eval home_entry[OF h] entry_defs from_home_def intro!: entry_okI)
qed

lemma OnDirectoryExclusive_ok:
  assumes h: "home_ok c s" and st: "state (directoryDataMap s a) = ds_Exclusive" and b: "from_home m n b" and o: "orders c"
  shows "keeps (home_ok c) (OnDirectoryExclusive c a m n s)"
proof -
  note d = home_entry[OF h, of a, unfolded entry_ok_def st DirectoryState.case entry_defs]
  show ?thesis using d st home_calls[OF h] b insert_sharer_first[OF o]
    by (auto simp: OnDirectoryExclusive_def home_eval home_entry[OF h] entry_defs from_home_def intro!: entry_okI)
qed

text \<open>The loops over sharers and readers.\<close>

lemma upgrade_invalidates_calm: "upgrade_invalidates c m own src ns k s = Some (j, t) \<Longrightarrow> calm c P s \<Longrightarrow> calm c P t"
proof (induction ns arbitrary: k s)
  case (Cons n ns)
  then show ?case
    using SendInvalidateMsg_calm[of c P s m n src] by (auto simp: Option.bind_eq_Some_conv keeps_def split: if_splits)
qed simp

lemma fetch_invalidates_calm: "fetch_invalidates c m src ns k s = Some (j, t) \<Longrightarrow> calm c P s \<Longrightarrow> calm c P t"
proof (induction ns arbitrary: k s)
  case (Cons n ns)
  then show ?case
    using SendInvalidateMsg_calm[of c P s m n src] by (auto simp: Option.bind_eq_Some_conv keeps_def split: if_splits)
qed simp

lemma reply_to_readers_calm: "calm c P s \<Longrightarrow> keeps (calm c P) (reply_to_readers c m lds s)"
  by (induction lds arbitrary: s) (auto simp: new_msg_let Let_def intro!: keeps_bind[OF SendMessageToRemoteCache_calm])

lemma keeps_pair: "(\<And>k t. r = Some (k, t) \<Longrightarrow> keeps I (f k t)) \<Longrightarrow> keeps I (Option.bind r (\<lambda>(k, t). f k t))"
  by (auto simp: keeps_def Option.bind_eq_Some_conv)

lemma home_calm: "home_ok c s \<Longrightarrow> calm c (\<lambda>D. D = (directoryDataMap s)(a := d)) (on_directory a (\<lambda>_. d) s)"
  by (simp add: home_ok_def calm_def origin_upd)

lemma home_calmI:
  assumes "home_ok c s" and "calm c (\<lambda>D. D = (directoryDataMap s)(a := d)) t" and "entry_ok (f d)"
  shows "home_ok c (on_directory a f t)"
  using assms by (auto simp: home_ok_def calm_def origin_upd)

lemma owner_invalidate_calm:
  "(if b then Option.bind (SendInvalidateMsg c m n own s) (\<lambda>s. Some (1, s)) else Some (0, s)) = Some (k, t) \<Longrightarrow> calm c P s \<Longrightarrow> calm c P t"
  using SendInvalidateMsg_calm[of c P s m n own] by (auto simp: Option.bind_eq_Some_conv keeps_def split: if_splits)

lemma upgrade_ok:
  assumes h: "home_ok c s" and st: "state (directoryDataMap s a) = ds_Shared" and n: "n \<noteq> InvalidNodeID"
  shows "keeps (home_ok c) (Option.bind (if x then Option.bind (SendInvalidateMsg c m own n (set_state a ds_Exclusive s)) (\<lambda>s. Some (1, s))
      else Some (0, set_state a ds_Exclusive s)) (\<lambda>(k, s). Option.bind (upgrade_invalidates c m own n ns k s) (\<lambda>(k, s).
      case new_msg c mt_ReadReply pc s of (rrm, s) \<Rightarrow>
        Option.bind (SendMessageToRemoteCache c ((InitializeReadResponseMsg_Read rrm m)\<lparr>blockAttached := False, exclusiveOwnership := True,
            satisfied := True, pendingInvalidates := k\<rparr>) n s)
          (\<lambda>s. Some (on_directory a (\<lambda>d. d\<lparr>owner := n, sharers := []\<rparr>) s)))))"
proof (intro keeps_pair)
  let ?d = "(directoryDataMap s a)\<lparr>state := ds_Exclusive\<rparr>" let ?P = "\<lambda>D. D = (directoryDataMap s)(a := ?d)"
  note d = home_entry[OF h, of a, unfolded entry_ok_def st DirectoryState.case entry_defs]
  fix j t k u
  assume 1: "(if x then Option.bind (SendInvalidateMsg c m own n (set_state a ds_Exclusive s)) (\<lambda>s. Some (1, s))
      else Some (0, set_state a ds_Exclusive s)) = Some (j, t)" and 2: "upgrade_invalidates c m own n ns j t = Some (k, u)"
  have "calm c ?P (set_state a ds_Exclusive s)" using home_calls[OF h] by (simp add: calm_def origin_upd)
  from upgrade_invalidates_calm[OF 2 owner_invalidate_calm[OF 1 this]] have u: "calm c ?P u" .
  have e: "entry_ok (?d\<lparr>owner := n, sharers := []\<rparr>)" using d n by (simp add: entry_ok_def entry_defs)
  show "keeps (home_ok c) (case new_msg c mt_ReadReply pc u of (rrm, s) \<Rightarrow>
        Option.bind (SendMessageToRemoteCache c ((InitializeReadResponseMsg_Read rrm m)\<lparr>blockAttached := False, exclusiveOwnership := True,
            satisfied := True, pendingInvalidates := k\<rparr>) n s)
          (\<lambda>s. Some (on_directory a (\<lambda>d. d\<lparr>owner := n, sharers := []\<rparr>) s)))"
    unfolding new_msg_let
    by (rule keeps_bind[where J = "calm c ?P"], rule SendMessageToRemoteCache_calm) (use u e in \<open>auto intro!: home_calmI[OF h]\<close>)
qed

lemma OnDirectoryShared_ok:
  assumes h: "home_ok c s" and st: "state (directoryDataMap s a) = ds_Shared" and b: "from_home m n b" and o: "orders c"
  shows "keeps (home_ok c) (OnDirectoryShared c a m n s)"
proof -
  note d = home_entry[OF h, of a, unfolded entry_ok_def st DirectoryState.case entry_defs]
  show ?thesis
  proof (cases "Type m = mt_Read \<and> requestingExclusive m \<and> (owner (directoryDataMap s a) = n \<or> n \<in> set (sharers (directoryDataMap s a)))")
    case True
    with b have "n \<noteq> InvalidNodeID" by (auto simp: from_home_def)
    from upgrade_ok[OF h st this] True show ?thesis by (simp add: OnDirectoryShared_def Let_def) blast
  next
    case False
    show ?thesis using d st home_calls[OF h] b False
      by (auto simp: OnDirectoryShared_def home_eval home_entry[OF h] entry_defs from_home_def set_insert_sharer[OF o] insert_sharer_nil[OF o] distinct_insert_sharer[OF o]
        origin_read_def intro!: entry_okI)
  qed
qed

lemma OnDirectorySharedExclusiveMemoryAccess_ok:
  assumes h: "home_ok c s" and st: "state (directoryDataMap s a) = ds_SharedExclusiveMemoryAccess" and b: "from_home m n b"
  shows "keeps (home_ok c) (OnDirectorySharedExclusiveMemoryAccess c a m n b s)"
proof -
  note d = home_entry[OF h, of a, unfolded entry_ok_def st DirectoryState.case entry_defs]
  show ?thesis
  proof (cases b)
    case True
    let ?d = "(directoryDataMap s a)\<lparr>state := ds_Exclusive\<rparr>" let ?P = "\<lambda>D. D = (directoryDataMap s)(a := ?d)"
    from d obtain first where first: "firstRequest (directoryDataMap s a) = Some first" by auto
    have *: "home_ok c (ClearTempDirectoryData a (on_directory a (\<lambda>d. d\<lparr>sharers := [], owner := firstRequestSrc d\<rparr>) t))" if "calm c ?P t" for t
    proof -
      have "entry_ok (?d\<lparr>sharers := [], owner := firstRequestSrc ?d, firstRequest := None, firstRequestSrc := InvalidNodeID,
          previousOwner := InvalidNodeID, secondRequest := None, secondRequestSrc := InvalidNodeID\<rparr>)"
        using d by (simp add: entry_ok_def entry_defs)
      then show ?thesis using that home_calls[OF h] by (auto simp: home_ok_def calm_def origin_upd home_entry[OF h])
    qed
    have calm: "calm c ?P (set_state a ds_Exclusive (s\<lparr>pendingMemoryReadAccesses := p\<rparr>))" for p
      using home_calls[OF h] by (simp add: calm_def origin_upd)
    have "keeps (home_ok c) (Option.bind (if x then Option.bind (SendInvalidateMsg c first own n' s0) (\<lambda>s. Some (1, s)) else Some (0, s0))
      (\<lambda>(k, s). Option.bind (fetch_invalidates c first n' ns k s) (\<lambda>(k, s). case new_msg c mt_ReadReply pc s of (rrm, s) \<Rightarrow>
        Option.bind (SendMessageToRemoteCache c ((InitializeReadResponseMsg_Read rrm first)\<lparr>exclusiveOwnership := True,
            pendingInvalidates := k, satisfied := True\<rparr>) n' s)
          (\<lambda>s. Some (ClearTempDirectoryData a (on_directory a (\<lambda>d. d\<lparr>sharers := [], owner := firstRequestSrc d\<rparr>) s))))))"
      if s0: "calm c ?P s0" for x own n' ns pc s0
    proof (intro keeps_pair)
      fix j t k u
      assume 1: "(if x then Option.bind (SendInvalidateMsg c first own n' s0) (\<lambda>s. Some (1, s)) else Some (0, s0)) = Some (j, t)"
        and 2: "fetch_invalidates c first n' ns j t = Some (k, u)"
      note u = fetch_invalidates_calm[OF 2 owner_invalidate_calm[OF 1 s0]]
      show "keeps (home_ok c) (case new_msg c mt_ReadReply pc u of (rrm, s) \<Rightarrow>
        Option.bind (SendMessageToRemoteCache c ((InitializeReadResponseMsg_Read rrm first)\<lparr>exclusiveOwnership := True,
            pendingInvalidates := k, satisfied := True\<rparr>) n' s)
          (\<lambda>s. Some (ClearTempDirectoryData a (on_directory a (\<lambda>d. d\<lparr>sharers := [], owner := firstRequestSrc d\<rparr>) s))))"
        unfolding new_msg_let
        by (rule keeps_bind[where J = "calm c ?P"], rule SendMessageToRemoteCache_calm) (use u * in auto)
    qed
    from this[OF calm] show ?thesis using True first
      by (simp add: OnDirectorySharedExclusiveMemoryAccess_def Let_def PerformMemoryReadResponseCheck_def)
  next
    case False
    then show ?thesis using d st home_calls[OF h] b
      by (auto simp: OnDirectorySharedExclusiveMemoryAccess_def home_eval home_entry[OF h] entry_defs from_home_def intro!: entry_okI)
  qed
qed

lemma OnDirectorySharedMemoryAccess_ok:
  assumes h: "home_ok c s" and st: "state (directoryDataMap s a) = ds_SharedMemoryAccess" and b: "from_home m n b" and o: "orders c"
  shows "keeps (home_ok c) (OnDirectorySharedMemoryAccess c a m n b s)"
proof -
  note d = home_entry[OF h, of a, unfolded entry_ok_def st DirectoryState.case entry_defs]
  show ?thesis
  proof (cases b)
    case True
    let ?d = "(directoryDataMap s a)\<lparr>state := ds_Shared\<rparr>" let ?P = "\<lambda>D. D = (directoryDataMap s)(a := ?d)"
    have e: "entry_ok (?d\<lparr>pendingSharedReads := []\<rparr>)" using d by (simp add: entry_ok_def entry_defs)
    have calm: "calm c ?P (set_state a ds_Shared (s\<lparr>pendingMemoryReadAccesses := p\<rparr>))" for p
      using home_calls[OF h] by (simp add: calm_def origin_upd)
    show ?thesis unfolding OnDirectorySharedMemoryAccess_def Let_def PerformMemoryReadResponseCheck_def using True b e
      by (auto simp: from_home_def intro!: keeps_bind[where J = "calm c ?P"] reply_to_readers_calm calm home_calmI[OF h])
  next
    case False
    then show ?thesis using d st home_calls[OF h] b
      by (auto simp: OnDirectorySharedMemoryAccess_def home_eval home_entry[OF h] entry_defs from_home_def set_insert_sharer[OF o]
        insert_sharer_nil[OF o] distinct_insert_sharer[OF o] origin_read_def intro!: entry_okI)
  qed
qed

lemma OnDirectory_ok:
  assumes "home_ok c s" and "from_home m n b" and "orders c"
  shows "keeps (home_ok c) (OnDirectory c a m n b s)"
  using assms home_entry[OF assms(1), of a]
  by (auto simp: OnDirectory_def entry_ok_def intro!: OnDirectoryBusyExclusive_ok OnDirectoryBusyExclusiveMemoryAccess_ok
    OnDirectoryBusyExclusiveMemoryAccessWritebackRequest_ok OnDirectoryBusyShared_ok OnDirectoryBusySharedMemoryAccess_ok
    OnDirectoryBusySharedMemoryAccessWritebackRequest_ok OnDirectoryExclusiveMemoryAccess_ok OnDirectoryExclusive_ok
    OnDirectoryShared_ok OnDirectorySharedExclusiveMemoryAccess_ok OnDirectorySharedMemoryAccess_ok OnDirectoryUnowned_ok
    split: DirectoryState.split)

lemma home_ok_simps [simp]: "home_ok c (s\<lparr>remoteMessagesReceived := w\<rparr>) = home_ok c s" "home_ok c (origin_counted k s) = home_ok c s"
  "home_ok c (s\<lparr>pendingMemoryWriteAccesses := p\<rparr>) = home_ok c s"
  by (simp_all add: home_ok_def)

lemma RecvMsgDirectory_ok:
  assumes "home_ok c s" and "b = (n = InvalidNodeID)" and "orders c"
  shows "keeps (home_ok c) (RecvMsgDirectory c m n b s)"
  using assms
  by (auto simp: RecvMsgDirectory_def OnDirectoryDirectoryNak_def OnDirectoryRead_def OnDirectoryWriteback_def
    OnDirectoryWritebackRequest_def PerformMemoryWriteResponseCheck_def Let_def from_home_def intro!: OnDirectory_ok split: MsgType.split)

section \<open>All states\<close>

text \<open>A device receives any messages from its cache, the memory and other nodes, and makes the calls it scheduled.\<close>

inductive origin_reach :: "origin_config \<Rightarrow> origin \<Rightarrow> bool" for c where
  origin_starts: "origin_reach c (Origin_Initialize k)"
| origin_receives: "origin_reach c s \<Longrightarrow> Origin_RecvMsg c i s = Some s' \<Longrightarrow> origin_reach c s'"
| origin_calls: "origin_reach c s \<Longrightarrow> ScheduledCall f d \<in> set (events s) \<Longrightarrow> origin_called c f s = Some s' \<Longrightarrow> origin_reach c s'"

lemma Origin_RecvMsg_ok:
  assumes "home_ok c s" and "orders c"
  shows "keeps (home_ok c) (Origin_RecvMsg c i s)"
  using assms RecvMsgCache_calm[of c "\<lambda>D. \<forall>a. entry_ok (D a)"]
  by (auto simp: Origin_RecvMsg_def Let_def home_ok_def[symmetric] intro!: RecvMsgDirectory_ok split: origin_input.split)

lemma origin_called_ok:
  assumes "home_ok c s" and "orders c" and "ScheduledCall f d \<in> set (events s)" and "nodeID c \<noteq> InvalidNodeID"
  shows "keeps (home_ok c) (origin_called c f s)"
proof -
  have "origin_call_ok c (ScheduledCall f d)" using home_calls[OF assms(1)] assms(3) by blast
  then show ?thesis using assms RecvMsgCache_calm[of c "\<lambda>D. \<forall>a. entry_ok (D a)"]
    by (auto simp: origin_called_def home_ok_def[symmetric] intro!: RecvMsgDirectory_ok split: origin_call.splits)
qed

lemma origin_reach_ok:
  assumes "orders c" and "nodeID c \<noteq> InvalidNodeID" and "origin_reach c s"
  shows "home_ok c s"
  using assms(3)
proof induction
  case (origin_starts k)
  then show ?case by (simp add: home_ok_def calm_def Origin_Initialize_def new_DirectoryData_def entry_ok_def entry_defs)
next
  case (origin_receives s i s')
  with Origin_RecvMsg_ok[OF _ assms(1), of s i] show ?case by (simp add: keeps_def)
next
  case (origin_calls s f d s')
  with origin_called_ok[OF _ assms(1) _ assms(2), of s f d] show ?case by (simp add: keeps_def)
qed

end
