(* ===== verification/OriginClaims.thy ===== *)
theory OriginClaims
  imports OriginInv
begin

text \<open>
  The properties of the Origin protocol: the entries of the home in every reachable state, what happens
  to a read, how many invalidations an ownership takes, and the orders in which messages may come.
\<close>

section \<open>Invalidations\<close>

text \<open>What a list of events sends to cache sides.\<close>

definition to_caches :: "origin_event list \<Rightarrow> (int \<times> message) list" where
  "to_caches es = concat (map to_cache es)"

lemma to_caches_append [simp]: "to_caches (es @ fs) = to_caches es @ to_caches fs" "to_caches [] = []"
  "to_caches (e # es) = to_cache e @ to_caches es"
  by (simp_all add: to_caches_def)

text \<open>Invalidations at the nodes \<open>ns\<close> on behalf of \<open>own\<close>.\<close>

definition sent_invalidations :: "nat \<Rightarrow> int \<Rightarrow> int list \<Rightarrow> (int \<times> message) list \<Rightarrow> bool" where
  "sent_invalidations a own ns xs \<longleftrightarrow> map fst xs = ns \<and> (\<forall>(n, m)\<in>set xs. Type m = mt_Invalidate \<and> addr m = a \<and> newOwner m = own)"

lemma sent_invalidations_append [simp]: "sent_invalidations a own ns xs \<Longrightarrow> sent_invalidations a own ms ys \<Longrightarrow> sent_invalidations a own (ns @ ms) (xs @ ys)"
  "sent_invalidations a own [] []"
  by (auto simp: sent_invalidations_def)

text \<open>Besides its number and what it sends, a step leaves the state as it is.\<close>

definition only_sends :: "origin \<Rightarrow> origin_event list \<Rightarrow> origin \<Rightarrow> bool" where
  "only_sends s es t \<longleftrightarrow> (\<exists>k. t = s\<lparr>currentMsgStamp := k, events := events s @ es\<rparr>)"

lemma only_sends_trans: "only_sends s es t \<Longrightarrow> only_sends t fs u \<Longrightarrow> only_sends s (es @ fs) u"
  by (auto simp: only_sends_def)

lemma only_sends_refl [simp]: "only_sends s [] s"
  unfolding only_sends_def by (rule exI[of _ "currentMsgStamp s"]) simp

lemma only_sendsD: "only_sends s es t \<Longrightarrow> events t = events s @ es" "only_sends s es t \<Longrightarrow> directoryDataMap t = directoryDataMap s"
  "only_sends s es t \<Longrightarrow> cacheDataMap t = cacheDataMap s" "only_sends s es t \<Longrightarrow> pendingMemoryReadAccesses t = pendingMemoryReadAccesses s"
  by (auto simp: only_sends_def)

lemma SendInvalidateMsg_run:
  assumes "n \<noteq> InvalidNodeID"
  shows "\<exists>t es. SendInvalidateMsg c m n own s = Some t \<and> only_sends s es t \<and> sent_invalidations (addr m) own [n] (to_caches es)"
  using assms
  by (auto simp: SendInvalidateMsg_def new_msg_let Let_def SendMessageToRemoteCache_eq only_sends_def sent_invalidations_def InitializeInvalidateMsg_def)

lemma fetch_invalidates_run:
  "InvalidNodeID \<notin> set ns \<Longrightarrow> \<exists>t es. fetch_invalidates c m own ns k s = Some (k + int (length (removeAll own ns)), t) \<and>
    only_sends s es t \<and> sent_invalidations (addr m) own (removeAll own ns) (to_caches es)"
proof (induction ns arbitrary: k s)
  case Nil
  have "only_sends s [] s \<and> sent_invalidations (addr m) own [] (to_caches [])" by simp
  then show ?case by (auto intro!: exI[of _ "[]"])
next
  case (Cons n ns)
  show ?case
  proof (cases "n = own")
    case True
    then show ?thesis using Cons.IH[of k s] Cons.prems by simp
  next
    case False
    from Cons.prems obtain t es where t: "SendInvalidateMsg c m n own s = Some t" "only_sends s es t"
      "sent_invalidations (addr m) own [n] (to_caches es)" using SendInvalidateMsg_run[of n c m own s] by auto
    from Cons.IH[of "k + 1" t] Cons.prems obtain u fs where
      u: "fetch_invalidates c m own ns (k + 1) t = Some (k + 1 + int (length (removeAll own ns)), u)" "only_sends t fs u"
        "sent_invalidations (addr m) own (removeAll own ns) (to_caches fs)" by auto
    have "sent_invalidations (addr m) own (n # removeAll own ns) (to_caches (es @ fs))"
      using sent_invalidations_append(1)[OF t(3) u(3)] by simp
    then show ?thesis using False t(1) u(1) only_sends_trans[OF t(2) u(2)]
      by (auto simp: algebra_simps intro!: exI[of _ "es @ fs"])
  qed
qed

lemma upgrade_invalidates_run:
  "InvalidNodeID \<notin> set ns \<Longrightarrow> \<exists>t es. upgrade_invalidates c m o' own ns k s = Some (k + int (length (filter (\<lambda>n. n \<noteq> own \<and> n \<noteq> o') ns)), t) \<and>
    only_sends s es t \<and> sent_invalidations (addr m) own (filter (\<lambda>n. n \<noteq> own \<and> n \<noteq> o') ns) (to_caches es)"
proof (induction ns arbitrary: k s)
  case Nil
  have "only_sends s [] s \<and> sent_invalidations (addr m) own [] (to_caches [])" by simp
  then show ?case by (auto intro!: exI[of _ "[]"])
next
  case (Cons n ns)
  let ?ns = "filter (\<lambda>n. n \<noteq> own \<and> n \<noteq> o') ns"
  show ?case
  proof (cases "n \<noteq> own \<and> n \<noteq> o'")
    case False
    then show ?thesis using Cons.IH[of k s] Cons.prems by (auto simp: DebugAssert_def)
  next
    case True
    from Cons.prems obtain t es where t: "SendInvalidateMsg c m n own s = Some t" "only_sends s es t"
      "sent_invalidations (addr m) own [n] (to_caches es)" using SendInvalidateMsg_run[of n c m own s] by auto
    from Cons.IH[of "k + 1" t] Cons.prems obtain u fs where
      u: "upgrade_invalidates c m o' own ns (k + 1) t = Some (k + 1 + int (length ?ns), u)" "only_sends t fs u"
        "sent_invalidations (addr m) own ?ns (to_caches fs)" by auto
    have "sent_invalidations (addr m) own (n # ?ns) (to_caches (es @ fs))"
      using sent_invalidations_append(1)[OF t(3) u(3)] by simp
    then show ?thesis using True Cons.prems t(1) u(1) only_sends_trans[OF t(2) u(2)]
      by (auto simp: algebra_simps DebugAssert_def intro!: exI[of _ "es @ fs"])
  qed
qed

lemma owner_invalidate_run:
  assumes "o' \<noteq> InvalidNodeID"
  shows "\<exists>t es. (if o' \<noteq> own then Option.bind (SendInvalidateMsg c m o' own s) (\<lambda>s. Some (1, s)) else Some (0, s)) =
      Some (int (length (removeAll own [o'])), t) \<and> only_sends s es t \<and> sent_invalidations (addr m) own (removeAll own [o']) (to_caches es)"
proof (cases "o' = own")
  case True
  have "only_sends s [] s \<and> sent_invalidations (addr m) own [] (to_caches [])" by simp
  with True show ?thesis by (auto intro!: exI[of _ "[]"])
next
  case False
  with SendInvalidateMsg_run[OF assms, of c m own s] show ?thesis by auto
qed

text \<open>
  The reply that ends a request for ownership of a shared block: the invalidations \<open>xs\<close> that go out before
  it, and what it tells the reader.
\<close>

definition ownership_granted :: "nat \<Rightarrow> int \<Rightarrow> message \<Rightarrow> int list \<Rightarrow> origin_event list \<Rightarrow> bool" where
  "ownership_granted a n r ns es \<longleftrightarrow> (\<exists>xs rrm. to_caches es = xs @ [(n, rrm)] \<and> sent_invalidations a n ns xs \<and> Type rrm = mt_ReadReply \<and>
     exclusiveOwnership rrm \<and> satisfied rrm \<and> solicitingMessage rrm = msgID r \<and> addr rrm = a \<and> pendingInvalidates rrm = int (length ns))"

lemma reply_granted:
  assumes "sent_invalidations a n ns (to_caches es)" and "n \<noteq> InvalidNodeID" and "Type rrm = mt_ReadReply" and "exclusiveOwnership rrm"
    and "satisfied rrm" and "solicitingMessage rrm = msgID r" and "addr rrm = a" and "pendingInvalidates rrm = int (length ns)"
  shows "\<exists>t e. SendMessageToRemoteCache c rrm n s = Some t \<and> only_sends s [e] t \<and> ownership_granted a n r ns (es @ [e])"
  using assms
  by (auto simp: SendMessageToRemoteCache_eq only_sends_def ownership_granted_def intro!: exI[of _ "to_caches es"] exI[of _ "rrm\<lparr>isCache := True\<rparr>"])

lemma fetch_grants:
  assumes "firstRequest (directoryDataMap s a) = Some r" and "addr r = a" and "firstRequestSrc (directoryDataMap s a) = n" and "n \<noteq> InvalidNodeID"
    and "shared_entry (directoryDataMap s a)" and "Type m = mt_ReadResponse" and "pendingMemoryReadAccesses s (solicitingMessage m) \<noteq> None"
  shows "\<exists>s' es. OnDirectorySharedExclusiveMemoryAccess c a m InvalidNodeID True s = Some s' \<and> events s' = events s @ es \<and>
    ownership_granted a n r (removeAll n (owner (directoryDataMap s a) # sharers (directoryDataMap s a))) es \<and>
    state (directoryDataMap s' a) = ds_Exclusive \<and> owner (directoryDataMap s' a) = n \<and> sharers (directoryDataMap s' a) = [] \<and>
    firstRequest (directoryDataMap s' a) = None"
proof -
  let ?d = "directoryDataMap s a"
  let ?s = "set_state a ds_Exclusive (s\<lparr>pendingMemoryReadAccesses := (pendingMemoryReadAccesses s)(solicitingMessage m := None)\<rparr>)"
  let ?ns = "removeAll n [owner ?d]" and ?ms = "removeAll n (sharers ?d)"
  have sh: "owner ?d \<noteq> InvalidNodeID" "InvalidNodeID \<notin> set (sharers ?d)" using assms(5) by (simp_all add: shared_entry_def)
  from owner_invalidate_run[OF sh(1), of n c r ?s] obtain t es where t: "(if owner ?d \<noteq> n
      then Option.bind (SendInvalidateMsg c r (owner ?d) n ?s) (\<lambda>s. Some (1, s)) else Some (0, ?s)) = Some (int (length ?ns), t)"
    "only_sends ?s es t" "sent_invalidations a n ?ns (to_caches es)" using assms(2) by blast
  from fetch_invalidates_run[OF sh(2), of c r n "int (length ?ns)" t] obtain u fs where u: "fetch_invalidates c r n (sharers ?d) (int (length ?ns)) t =
      Some (int (length ?ns) + int (length ?ms), u)" "only_sends t fs u" "sent_invalidations a n ?ms (to_caches fs)" using assms(2) by blast
  let ?rrm = "(InitializeReadResponseMsg_Read (fresh c mt_ReadReply (generatingPC m) (currentMsgStamp u)) r)\<lparr>exclusiveOwnership := True,
      pendingInvalidates := int (length ?ns) + int (length ?ms), satisfied := True\<rparr>"
  have eq: "?ns @ ?ms = removeAll n (owner ?d # sharers ?d)" by simp
  have inv: "sent_invalidations a n (?ns @ ?ms) (to_caches (es @ fs))" using sent_invalidations_append(1)[OF t(3) u(3)] by simp
  have len: "int (length ?ns) + int (length ?ms) = int (length (?ns @ ?ms))" by simp
  obtain v e where v: "SendMessageToRemoteCache c ?rrm n (u\<lparr>currentMsgStamp := currentMsgStamp u + 1\<rparr>) = Some v"
      "only_sends (u\<lparr>currentMsgStamp := currentMsgStamp u + 1\<rparr>) [e] v" "ownership_granted a n r (?ns @ ?ms) ((es @ fs) @ [e])"
    using reply_granted[OF inv assms(4), of ?rrm r c "u\<lparr>currentMsgStamp := currentMsgStamp u + 1\<rparr>"] assms(2)
    unfolding len by (auto simp: InitializeReadResponseMsg_Read_def)
  have run: "OnDirectorySharedExclusiveMemoryAccess c a m InvalidNodeID True s =
      Some (ClearTempDirectoryData a (on_directory a (\<lambda>d. d\<lparr>sharers := [], owner := firstRequestSrc d\<rparr>) v))"
    using assms(1,3,4,6,7) t(1) u(1) v(1)
    by (simp add: OnDirectorySharedExclusiveMemoryAccess_def DebugAssert_def PerformMemoryReadResponseCheck_def new_msg_let Let_def cong: if_cong)
  have dm: "directoryDataMap v a = ?d\<lparr>state := ds_Exclusive\<rparr>" and ev: "events v = events s @ (es @ fs) @ [e]"
    using only_sendsD(1,2)[OF t(2)] only_sendsD(1,2)[OF u(2)] only_sendsD(1,2)[OF v(2)] by (simp_all add: set_state_def on_directory_def)
  show ?thesis unfolding run eq[symmetric] using v(3) dm ev assms(3)
    by (auto simp: ClearTempDirectoryData_def on_directory_def intro!: exI[of _ "(es @ fs) @ [e]"])
qed

lemma upgrade_grants:
  assumes "no_request (directoryDataMap s a)" and "pendingSharedReads (directoryDataMap s a) = []" and "addr m = a" and "n \<noteq> InvalidNodeID"
    and "shared_entry (directoryDataMap s a)"
    and "Type m = mt_Read" and "requestingExclusive m" and "n = owner (directoryDataMap s a) \<or> n \<in> set (sharers (directoryDataMap s a))"
  shows "\<exists>s' es. OnDirectoryShared c a m n s = Some s' \<and> events s' = events s @ es \<and>
    ownership_granted a n m (removeAll n [owner (directoryDataMap s a)] @
      filter (\<lambda>k. k \<noteq> n \<and> k \<noteq> owner (directoryDataMap s a)) (sharers (directoryDataMap s a))) es \<and>
    state (directoryDataMap s' a) = ds_Exclusive \<and> owner (directoryDataMap s' a) = n \<and> sharers (directoryDataMap s' a) = [] \<and>
    firstRequest (directoryDataMap s' a) = None"
proof -
  let ?d = "directoryDataMap s a" and ?s = "set_state a ds_Exclusive s"
  let ?ns = "removeAll n [owner ?d]" and ?ms = "filter (\<lambda>k. k \<noteq> n \<and> k \<noteq> owner ?d) (sharers ?d)"
  have sh: "owner ?d \<noteq> InvalidNodeID" "InvalidNodeID \<notin> set (sharers ?d)" "sharers ?d \<noteq> []" using assms(5) by (simp_all add: shared_entry_def)
  from owner_invalidate_run[OF sh(1), of n c m ?s] obtain t es where t: "(if owner ?d \<noteq> n
      then Option.bind (SendInvalidateMsg c m (owner ?d) n ?s) (\<lambda>s. Some (1, s)) else Some (0, ?s)) = Some (int (length ?ns), t)"
    "only_sends ?s es t" "sent_invalidations a n ?ns (to_caches es)" using assms(3) by blast
  from upgrade_invalidates_run[OF sh(2), of c m "owner ?d" n "int (length ?ns)" t] obtain u fs where
    u: "upgrade_invalidates c m (owner ?d) n (sharers ?d) (int (length ?ns)) t = Some (int (length ?ns) + int (length ?ms), u)"
      "only_sends t fs u" "sent_invalidations a n ?ms (to_caches fs)" using assms(3) by blast
  let ?rrm = "(InitializeReadResponseMsg_Read (fresh c mt_ReadReply (generatingPC m) (currentMsgStamp u)) m)\<lparr>blockAttached := False,
      exclusiveOwnership := True, satisfied := True, pendingInvalidates := int (length ?ns) + int (length ?ms)\<rparr>"
  have inv: "sent_invalidations a n (?ns @ ?ms) (to_caches (es @ fs))" using sent_invalidations_append(1)[OF t(3) u(3)] by simp
  have len: "int (length ?ns) + int (length ?ms) = int (length (?ns @ ?ms))" by simp
  obtain v e where v: "SendMessageToRemoteCache c ?rrm n (u\<lparr>currentMsgStamp := currentMsgStamp u + 1\<rparr>) = Some v"
      "only_sends (u\<lparr>currentMsgStamp := currentMsgStamp u + 1\<rparr>) [e] v" "ownership_granted a n m (?ns @ ?ms) ((es @ fs) @ [e])"
    using reply_granted[OF inv assms(4), of ?rrm m c "u\<lparr>currentMsgStamp := currentMsgStamp u + 1\<rparr>"] assms(3)
    unfolding len by (auto simp: InitializeReadResponseMsg_Read_def)
  have run: "OnDirectoryShared c a m n s = Some (on_directory a (\<lambda>d. d\<lparr>owner := n, sharers := []\<rparr>) v)"
    using assms(1,2,6,7,8) sh t(1) u(1) v(1)
    by (auto simp: OnDirectoryShared_def DebugAssert_def new_msg_let Let_def no_request_def cong: if_cong)
  have dm: "directoryDataMap v a = ?d\<lparr>state := ds_Exclusive\<rparr>" and ev: "events v = events s @ (es @ fs) @ [e]"
    using only_sendsD(1,2)[OF t(2)] only_sendsD(1,2)[OF u(2)] only_sendsD(1,2)[OF v(2)] by (simp_all add: set_state_def on_directory_def)
  show ?thesis unfolding run using v(3) dm ev assms(1)
    by (auto simp: on_directory_def no_request_def intro!: exI[of _ "(es @ fs) @ [e]"])
qed

text \<open>The event at which a request of node \<open>n\<close> for ownership of a shared block is granted.\<close>

definition grants_ownership :: "origin_config \<Rightarrow> origin \<Rightarrow> nat \<Rightarrow> int \<Rightarrow> message \<Rightarrow> origin_input \<Rightarrow> bool" where
  "grants_ownership c s a n r i \<longleftrightarrow> (let d = directoryDataMap s a in addr r = a \<and>
     (case i of
       FromLocalMemory m \<Rightarrow> state d = ds_SharedExclusiveMemoryAccess \<and> firstRequest d = Some r \<and> firstRequestSrc d = n \<and>
         Type m = mt_ReadResponse \<and> addr m = a \<and> pendingMemoryReadAccesses s (solicitingMessage m) \<noteq> None
     | FromRemote src dest m \<Rightarrow> state d = ds_Shared \<and> m = r \<and> src = n \<and> dest = nodeID c \<and> n \<noteq> InvalidNodeID \<and> Type r = mt_Read \<and>
         \<not> isCache r \<and> isDirectory r \<and> requestingExclusive r \<and> (n = owner d \<or> n \<in> set (sharers d))
     | _ \<Rightarrow> False))"

section \<open>Concrete runs\<close>

definition blank :: message where
  "blank = \<lparr>Type = mt_Read, msgID = 0, deviceID = 0, generatingPC = 0, isCache = False, isDirectory = False, addr = 0, msize = 0,
     solicitingMessage = 0, requestingExclusive = False, alreadyHasBlock = False, directoryLookup = False, originalRequestingNode = 0,
     onCompleted = False, newOwner = 0, satisfied = False, blockAttached = False, exclusiveOwnership = False, interventionMessage = 0,
     isDirty = False, isShared = False, pendingInvalidates = 0, isBusy = False, isExclusive = False, isInvalidateResponse = False,
     isReadResponse = False\<rparr>"

text \<open>Nodes that share the home 0, with pools of blank messages.\<close>

definition demo_node :: "int \<Rightarrow> origin_config" where
  "demo_node n = \<lparr>localSendTime = 1, remoteSendTime = 2, lookupRetryTime = 3, nodeID = n, GetDeviceID = 7,
     directoryNodeCalc = \<lparr>pageSize = 64, nodeSet = [0]\<rparr>, order_nodes = (\<lambda>ns. ns), pool = (\<lambda>_ _. blank)\<rparr>"

definition demo_read :: "nat \<Rightarrow> bool \<Rightarrow> message" where
  "demo_read i excl = blank\<lparr>Type := mt_Read, msgID := i, isDirectory := True, addr := 64, msize := 32, requestingExclusive := excl\<rparr>"

definition demo_memory :: "nat \<Rightarrow> origin_input" where
  "demo_memory i = FromLocalMemory (blank\<lparr>Type := mt_ReadResponse, msgID := 90 + i, addr := 64, msize := 32, blockAttached := True,
     satisfied := True, solicitingMessage := i\<rparr>)"

definition demo_handover :: "int \<Rightarrow> origin_input" where
  "demo_handover n = FromRemote n 0 (blank\<lparr>Type := mt_Transfer, msgID := 80, isDirectory := True, addr := 64, isShared := True\<rparr>)"

definition reads :: "int \<Rightarrow> nat \<Rightarrow> bool \<Rightarrow> origin_input" where
  "reads n i excl = FromRemote n 0 (demo_read i excl)"

text \<open>Node 1 reads the block, then node 2; then node 3 asks for ownership.\<close>

definition demo_home :: "origin option" where
  "demo_home = origin_receive_all (demo_node 0)
     [reads 1 5 False, demo_memory 5, reads 2 6 False, demo_memory 6, demo_handover 1, reads 3 7 True] (Origin_Initialize 100)"

lemma origin_run_reach: "origin_reach c s \<Longrightarrow> origin_receive_all c is s = Some s' \<Longrightarrow> origin_reach c s'"
  by (induction c "is" s rule: origin_receive_all.induct) (auto simp: Option.bind_eq_Some_conv intro: origin_receives)

section \<open>Properties\<close>

text \<open>
  C16: Whatever messages a home receives, in whatever order, and whenever it makes the calls it scheduled:
  the entry of a block is consistent in each of its states. While a request is served, the entry names the
  node it is served for (which already is the new owner) and, if the block is taken from another node, that
  node, a different one; an unowned or exclusive block has no sharers and no pending request; sharers are
  distinct; only a block whose shared copy is being fetched has readers waiting, all of them recorded as sharers.
\<close>
theorem origin_entries_consistent:
  assumes "orders c" and "nodeID c \<noteq> InvalidNodeID" and "origin_reach c s"
  shows "entry_ok (directoryDataMap s a)"
  by (rule home_entry[OF origin_reach_ok[OF assms]])

theorem origin_entries_consistent_witness:
  "\<exists>s. demo_home = Some s \<and> state (directoryDataMap s 64) = ds_SharedExclusiveMemoryAccess \<and> entry_ok (directoryDataMap s 64)"
proof -
  have "returns demo_home (\<lambda>s. state (directoryDataMap s 64) = ds_SharedExclusiveMemoryAccess)" by code_simp
  then obtain s where s: "demo_home = Some s" "state (directoryDataMap s 64) = ds_SharedExclusiveMemoryAccess"
    by (auto simp: returns_def split: option.splits)
  have r: "origin_reach (demo_node 0) s" using s(1) origin_run_reach[OF origin_starts] unfolding demo_home_def by blast
  have "orders (demo_node 0)" "nodeID (demo_node 0) \<noteq> InvalidNodeID" by (simp_all add: orders_def demo_node_def InvalidNodeID_def)
  from origin_entries_consistent[OF this r] s show ?thesis by blast
qed

text \<open>
  C17: A node that asks for ownership of a shared block is granted it with the right count: the home
  invalidates every other holder, each once and on behalf of the reader, then answers the reader with
  ownership and the number of acknowledgements to wait for, and records it as the only holder. If the block
  had to be fetched, this needs that the owner is not also recorded as a sharer.
\<close>
theorem origin_ownership_counted:
  assumes "orders c" and "nodeID c \<noteq> InvalidNodeID" and "origin_reach c s"
    and "grants_ownership c s a n r i" and "d = directoryDataMap s a" and "\<forall>m. i = FromLocalMemory m \<longrightarrow> owner d \<notin> set (sharers d)"
  shows "\<exists>s' es ns. Origin_RecvMsg c i s = Some s' \<and> events s' = events s @ es \<and> ownership_granted a n r ns es \<and>
    distinct ns \<and> set ns = insert (owner d) (set (sharers d)) - {n} \<and>
    state (directoryDataMap s' a) = ds_Exclusive \<and> owner (directoryDataMap s' a) = n \<and> sharers (directoryDataMap s' a) = []"
proof -
  note ok = home_entry[OF origin_reach_ok[OF assms(1-3)], of a]
  let ?s = "origin_counted messagesReceived s"
  have sh: "shared_entry d" "pendingSharedReads d = []" using ok assms(4,5)
    by (auto simp: grants_ownership_def Let_def entry_ok_def split: origin_input.splits)
  have same: "directoryDataMap ?s = directoryDataMap s" "events ?s = events s" "pendingMemoryReadAccesses ?s = pendingMemoryReadAccesses s"
    by (simp_all add: origin_counted_def)
  show ?thesis
  proof (cases i)
    case (FromLocalMemory m)
    with assms(4,5) have m: "state d = ds_SharedExclusiveMemoryAccess" "firstRequest d = Some r" "firstRequestSrc d = n" "Type m = mt_ReadResponse"
      "addr m = a" "addr r = a" "pendingMemoryReadAccesses s (solicitingMessage m) \<noteq> None" by (auto simp: grants_ownership_def Let_def)
    have ns: "distinct (removeAll n (owner d # sharers d))" "set (removeAll n (owner d # sharers d)) = insert (owner d) (set (sharers d)) - {n}"
      using sh assms(6) FromLocalMemory by (auto simp: shared_entry_def distinct_removeAll)
    have "n \<noteq> InvalidNodeID" using ok m assms(5) by (auto simp: entry_ok_def)
    moreover have "Origin_RecvMsg c i s = OnDirectorySharedExclusiveMemoryAccess c a m InvalidNodeID True ?s"
      using FromLocalMemory m(1,4,5) assms(5) by (simp add: Origin_RecvMsg_def RecvMsgDirectory_def OnDirectory_def same DebugAssert_def)
    ultimately show ?thesis using fetch_grants[of ?s a r n m c] sh m ns unfolding same assms(5) by metis
  next
    case (FromRemote src dest m)
    with assms(4,5) have m: "state d = ds_Shared" "m = r" "src = n" "dest = nodeID c" "n \<noteq> InvalidNodeID" "Type r = mt_Read" "\<not> isCache r"
      "isDirectory r" "requestingExclusive r" "n = owner d \<or> n \<in> set (sharers d)" "addr r = a" by (auto simp: grants_ownership_def Let_def)
    let ?t = "origin_counted directoryReadsReceived (?s\<lparr>remoteMessagesReceived := remoteMessagesReceived ?s + 1\<rparr>)"
    let ?ns = "removeAll n [owner d] @ filter (\<lambda>k. k \<noteq> n \<and> k \<noteq> owner d) (sharers d)"
    have same': "directoryDataMap ?t = directoryDataMap s" "events ?t = events s" by (simp_all add: origin_counted_def)
    have ns: "distinct ?ns" "set ?ns = insert (owner d) (set (sharers d)) - {n}" using sh by (auto simp: shared_entry_def)
    have nr: "no_request d" using ok m(1) assms(5) by (auto simp: entry_ok_def)
    have run: "Origin_RecvMsg c i s = OnDirectoryShared c a r n ?t"
      using FromRemote m assms(5)
      by (simp add: Origin_RecvMsg_def RecvMsgDirectory_def OnDirectoryRead_def OnDirectory_def same' DebugAssert_def Let_def)
    obtain s' es where "OnDirectoryShared c a r n ?t = Some s'" "events s' = events s @ es" "ownership_granted a n r ?ns es"
      "state (directoryDataMap s' a) = ds_Exclusive" "owner (directoryDataMap s' a) = n" "sharers (directoryDataMap s' a) = []"
      using upgrade_grants[of ?t a r n c, unfolded same', folded assms(5), OF nr sh(2) m(11,5) sh(1) m(6,9,10)] by blast
    then show ?thesis using ns unfolding run by (intro exI[of _ s'] exI[of _ es] exI[of _ ?ns]) simp
  qed (use assms(4) in \<open>auto simp: grants_ownership_def Let_def\<close>)
qed

theorem origin_ownership_counted_witness:
  "\<exists>s s' es ns. demo_home = Some s \<and> Origin_RecvMsg (demo_node 0) (demo_memory 7) s = Some s' \<and> events s' = events s @ es \<and>
    ownership_granted 64 3 (demo_read 7 True) ns es \<and> distinct ns \<and> set ns = {1, 2} \<and> owner (directoryDataMap s' 64) = 3"
proof -
  have "returns demo_home (\<lambda>s. state (directoryDataMap s 64) = ds_SharedExclusiveMemoryAccess \<and> owner (directoryDataMap s 64) = 2 \<and>
      sharers (directoryDataMap s 64) = [1] \<and> firstRequest (directoryDataMap s 64) = Some (demo_read 7 True) \<and>
      firstRequestSrc (directoryDataMap s 64) = 3 \<and> pendingMemoryReadAccesses s 7 = Some (demo_read 7 True))" by code_simp
  then obtain s where s: "demo_home = Some s" "state (directoryDataMap s 64) = ds_SharedExclusiveMemoryAccess" "owner (directoryDataMap s 64) = 2"
      "sharers (directoryDataMap s 64) = [1]" "firstRequest (directoryDataMap s 64) = Some (demo_read 7 True)"
      "firstRequestSrc (directoryDataMap s 64) = 3" "pendingMemoryReadAccesses s 7 = Some (demo_read 7 True)"
    by (auto simp: returns_def split: option.splits)
  have r: "origin_reach (demo_node 0) s" using s(1) origin_run_reach[OF origin_starts] unfolding demo_home_def by blast
  have o: "orders (demo_node 0)" "nodeID (demo_node 0) \<noteq> InvalidNodeID" by (simp_all add: orders_def demo_node_def InvalidNodeID_def)
  have g: "grants_ownership (demo_node 0) s 64 3 (demo_read 7 True) (demo_memory 7)"
    using s by (simp add: grants_ownership_def demo_memory_def demo_read_def)
  from origin_ownership_counted[OF o r g refl] s show ?thesis by (auto simp: insert_commute)
qed

text \<open>
  C18: A node that wants a block for itself is given it by the last of the messages it waits for. The reply of
  the home, which says that \<open>K\<close> sharers are being invalidated, and their acknowledgements may come in any order,
  acknowledgements before the reply included: the node handles each of them, and the local cache is answered,
  once and with ownership, exactly when the reply and all \<open>K\<close> acknowledgements have come.
\<close>
theorem origin_acks_any_order:
  assumes "collecting a r 0 None s" and "collected a r K ms" and "acks ms \<le> K" and "replies ms \<le> 1"
  shows "\<exists>s'. origin_receive_all c (from_nodes c ms) s = Some s' \<and>
    (if acks ms = K \<and> replies ms = 1
     then cacheState (cacheDataMap s' a) = cs_Exclusive \<and> cacheDataPendingLocalReads (cacheDataMap s' a) = [] \<and>
       local_answers s' = local_answers s @ [(msgID r, True)]
     else cacheState (cacheDataMap s' a) \<noteq> cs_Exclusive \<and> local_answers s' = local_answers s)"
  using collect_run[OF assms(1,2), of c] assms(3,4) by (auto simp: exclusive_now_def)

definition demo_local :: "nat \<Rightarrow> bool \<Rightarrow> origin_input" where
  "demo_local i excl = FromLocalCache (blank\<lparr>Type := mt_Read, msgID := i, addr := 64, msize := 32, requestingExclusive := excl\<rparr>)"

definition demo_reader :: "origin option" where
  "demo_reader = origin_receive_all (demo_node 3) [demo_local 7 True] (Origin_Initialize 100)"

definition demo_ack :: message where
  "demo_ack = blank\<lparr>Type := mt_InvalidateAck, msgID := 50, addr := 64, isCache := True\<rparr>"

definition demo_reply :: message where
  "demo_reply = blank\<lparr>Type := mt_ReadReply, msgID := 51, addr := 64, isCache := True, exclusiveOwnership := True, satisfied := True,
     pendingInvalidates := 2, solicitingMessage := 7\<rparr>"

theorem origin_acks_any_order_witness:
  "\<exists>s s'. demo_reader = Some s \<and>
    origin_receive_all (demo_node 3) (from_nodes (demo_node 3) [(1, demo_ack), (0, demo_reply), (2, demo_ack)]) s = Some s' \<and>
    cacheState (cacheDataMap s' 64) = cs_Exclusive \<and> local_answers s' = [(7, True)]"
proof -
  let ?r = "blank\<lparr>Type := mt_Read, msgID := 7, addr := 64, msize := 32, requestingExclusive := True\<rparr>"
  let ?ms = "[(1, demo_ack), (0, demo_reply), (2, demo_ack)] :: (int \<times> message) list"
  have "returns demo_reader (\<lambda>s. cacheState (cacheDataMap s 64) = cs_WaitingForExclusiveReadResponse \<and>
      cacheDataPendingLocalReads (cacheDataMap s 64) = [?r] \<and> pendingLocalReads s 7 = Some ?r \<and> invalidAcksReceived (cacheDataMap s 64) = 0 \<and>
      firstReply (cacheDataMap s 64) = None \<and> firstReplySrc (cacheDataMap s 64) = InvalidNodeID \<and> local_answers s = [])" by code_simp
  then obtain s where s: "demo_reader = Some s" "collecting 64 ?r 0 None s" "local_answers s = []"
    by (auto simp: returns_def collecting_def Let_def split: option.splits)
  have "collected 64 ?r 2 ?ms" and "acks ?ms = 2" and "replies ?ms = 1"
    by (simp_all add: collected_def acknowledges_def grants_read_def acks_def replies_def demo_ack_def demo_reply_def InvalidNodeID_def)
  with origin_acks_any_order[OF s(2), of 2 ?ms "demo_node 3"] s(1,3) show ?thesis by auto
qed

text \<open>
  C20: When the block comes from its former owner, the answer of that node and the speculative reply of the
  home may come in either order: in both the reader ends up shared, or exclusive if it asked for that, with no
  read waiting and nothing left of the exchange, and its local cache has been answered once, with the block.
\<close>
theorem origin_reply_either_order:
  assumes "cacheDataMap s a = d" and "cacheDataPendingLocalReads d = [r]" and "pendingLocalReads s (msgID r) \<noteq> None"
    and "firstReply d = None" and "firstReplySrc d = InvalidNodeID"
    and "cacheState d = (if excl then cs_WaitingForExclusiveReadResponse else cs_WaitingForSharedReadResponse)"
    and "Type srm = mt_SpeculativeReply" and "isCache srm" and "addr srm = a" and "solicitingMessage srm = msgID r"
    and "Type rrm = mt_ReadResponse" and "isCache rrm" and "addr rrm = a" and "solicitingMessage rrm = msgID r"
    and "exclusiveOwnership rrm = excl" and "CalcNodeID (directoryNodeCalc c) a = Some h" and "h \<noteq> InvalidNodeID" and "n \<noteq> InvalidNodeID"
    and "ms = [(h, srm), (n, rrm)] \<or> ms = [(n, rrm), (h, srm)]"
  shows "\<exists>s' m t. origin_receive_all c (from_nodes c ms) s = Some s' \<and> events s' = events s @ [SentLocalCache m t, DisposedOf (msgID r)] \<and>
    Type m = mt_ReadResponse \<and> solicitingMessage m = msgID r \<and> blockAttached m \<and> exclusiveOwnership m = excl \<and>
    cacheState (cacheDataMap s' a) = (if excl then cs_Exclusive else cs_Shared) \<and>
    cacheDataPendingLocalReads (cacheDataMap s' a) = [] \<and> firstReply (cacheDataMap s' a) = None \<and> pendingLocalReads s' (msgID r) = None"
  using assms(19)
proof
  assume ms: "ms = [(h, srm), (n, rrm)]"
  show ?thesis unfolding ms using assms(1-18)
    by (cases excl) (simp_all add: from_nodes_def Origin_RecvMsg_def RecvMsgCache_def OnCacheSpeculativeReply_def OnCacheReadResponse_def
      OnCache_def OnCacheWaitingForExclusiveReadResponse_def OnCacheWaitingForSharedReadResponse_def OnCacheWaitingForExclusiveResponseAck_def
      OnCacheWaitingForSharedResponseAck_def DebugAssert_def Let_def origin_upd Replicate_def ProcessReadResponse_def pop_local_read_def
      ProcessRemainingPendingLocalReads_def)
next
  assume ms: "ms = [(n, rrm), (h, srm)]"
  show ?thesis unfolding ms using assms(1-18)
    by (cases excl) (simp_all add: from_nodes_def Origin_RecvMsg_def RecvMsgCache_def OnCacheSpeculativeReply_def OnCacheReadResponse_def
      OnCache_def OnCacheWaitingForExclusiveReadResponse_def OnCacheWaitingForSharedReadResponse_def OnCacheExclusiveWaitingForSpeculativeReply_def
      OnCacheSharedWaitingForSpeculativeReply_def DebugAssert_def Let_def origin_upd new_msg_let InitializeReadResponseMsg_ReadResponse_def
      ProcessReadResponse_def pop_local_read_def ProcessRemainingPendingLocalReads_def)
qed

text \<open>The two answers to a read that the owner of the block gives up: the home's and the owner's.\<close>

definition demo_speculative :: message where
  "demo_speculative = blank\<lparr>Type := mt_SpeculativeReply, msgID := 52, addr := 64, isCache := True, blockAttached := True, solicitingMessage := 7\<rparr>"

definition demo_answer :: message where
  "demo_answer = blank\<lparr>Type := mt_ReadResponse, msgID := 53, addr := 64, isCache := True, exclusiveOwnership := True, solicitingMessage := 7\<rparr>"

theorem origin_reply_either_order_witness:
  "\<exists>s s'. demo_reader = Some s \<and> origin_receive_all (demo_node 3) (from_nodes (demo_node 3) [(1, demo_answer), (0, demo_speculative)]) s = Some s' \<and>
    cacheState (cacheDataMap s' 64) = cs_Exclusive \<and> pendingLocalReads s' 7 = None"
proof -
  let ?r = "blank\<lparr>Type := mt_Read, msgID := 7, addr := 64, msize := 32, requestingExclusive := True\<rparr>"
  have "returns demo_reader (\<lambda>s. cacheState (cacheDataMap s 64) = cs_WaitingForExclusiveReadResponse \<and>
      cacheDataPendingLocalReads (cacheDataMap s 64) = [?r] \<and> pendingLocalReads s 7 \<noteq> None \<and>
      firstReply (cacheDataMap s 64) = None \<and> firstReplySrc (cacheDataMap s 64) = InvalidNodeID)" by code_simp
  then obtain s where s: "demo_reader = Some s" "cacheState (cacheDataMap s 64) = cs_WaitingForExclusiveReadResponse"
      "cacheDataPendingLocalReads (cacheDataMap s 64) = [?r]" "pendingLocalReads s 7 \<noteq> None"
      "firstReply (cacheDataMap s 64) = None" "firstReplySrc (cacheDataMap s 64) = InvalidNodeID"
    by (auto simp: returns_def split: option.splits)
  have h: "CalcNodeID (directoryNodeCalc (demo_node 3)) 64 = Some 0" by code_simp
  have "\<exists>s' m t. origin_receive_all (demo_node 3) (from_nodes (demo_node 3) [(1, demo_answer), (0, demo_speculative)]) s = Some s' \<and>
      events s' = events s @ [SentLocalCache m t, DisposedOf (msgID ?r)] \<and> Type m = mt_ReadResponse \<and> solicitingMessage m = msgID ?r \<and>
      blockAttached m \<and> exclusiveOwnership m = True \<and> cacheState (cacheDataMap s' 64) = (if True then cs_Exclusive else cs_Shared) \<and>
      cacheDataPendingLocalReads (cacheDataMap s' 64) = [] \<and> firstReply (cacheDataMap s' 64) = None \<and> pendingLocalReads s' (msgID ?r) = None"
    by (rule origin_reply_either_order[OF refl s(3) _ s(5,6), where srm = demo_speculative and rrm = demo_answer and h = 0 and n = 1])
      (use s h in \<open>simp_all add: demo_speculative_def demo_answer_def blank_def InvalidNodeID_def\<close>)
  with s(1) show ?thesis by auto
qed

text \<open>
  C21: An eviction of dirty data that crosses an intervention ends, in whichever order the node receives the
  intervention and the busy acknowledgement of its write-back: the block is invalid, the eviction is no longer
  pending, and the local cache is told so once. If a local read waits, it is sent to the home then. The
  answer to the eviction names another message in each order: what the acknowledgement answers, or the
  intervention itself.
\<close>
theorem origin_writeback_race:
  assumes "cacheDataMap s a = d" and "cacheState d = cs_WaitingForWritebackResponse" and "firstReply d = None"
    and "firstReplySrc d = InvalidNodeID" and "pendingEviction s a \<noteq> None"
    and "\<forall>r\<in>set (cacheDataPendingLocalReads d). addr r = a" and "CalcNodeID (directoryNodeCalc c) a = Some h" and "h \<noteq> InvalidNodeID"
    and "Type im = mt_Intervention" and "isCache im" and "addr im = a" and "newOwner im \<noteq> InvalidNodeID"
    and "Type wam = mt_WritebackAck" and "isCache wam" and "addr wam = a" and "isBusy wam" and "\<not> isExclusive wam"
    and "ms = [(h, im), (h, wam)] \<or> ms = [(h, wam), (h, im)]"
  shows "\<exists>s' m t es. origin_receive_all c (from_nodes c ms) s = Some s' \<and> events s' = events s @ SentLocalCache m t # es \<and>
    Type m = mt_EvictionResponse \<and> addr m = a \<and> solicitingMessage m = (if hd ms = (h, im) then solicitingMessage wam else msgID im) \<and>
    pendingEviction s' a = None \<and> firstReply (cacheDataMap s' a) = None \<and>
    (case cacheDataPendingLocalReads d of
       [] \<Rightarrow> es = [] \<and> cacheState (cacheDataMap s' a) = cs_Invalid
     | r # rs \<Rightarrow> (\<exists>e. es = [e] \<and> (if h = nodeID c then e = ScheduledCall (CBRecvMsgDirectory (r\<lparr>isDirectory := True\<rparr>) h False) (localSendTime c)
           else network_destination e = h \<and> network_payload e = r\<lparr>isDirectory := True\<rparr>)) \<and>
         cacheState (cacheDataMap s' a) = (if requestingExclusive r then cs_WaitingForExclusiveReadResponse else cs_WaitingForSharedReadResponse))"
proof -
  note defs = from_nodes_def Origin_RecvMsg_def RecvMsgCache_def OnCacheIntervention_def OnCacheWritebackAck_def
    OnCache_def OnCacheWaitingForWritebackResponse_def OnCacheWaitingForWritebackBusyAck_def OnCacheWaitingForIntervention_def
    DebugAssert_def Let_def origin_upd Replicate_def send_eviction_response_def new_msg_let InitializeEvictionResponseMsg_Read_def
    InitializeEvictionResponseMsg_EvictionResponse_def ProcessRemainingPendingLocalReads_def read_while_invalid_def
    SendMessageToDirectory_def Origin_SendMessageToNetwork_def
  from assms(9,13) have "im \<noteq> wam" by auto
  from assms(18) show ?thesis
  proof
    assume ms: "ms = [(h, im), (h, wam)]"
    show ?thesis unfolding ms using assms(1-17)
      by (cases "cacheDataPendingLocalReads d"; cases "h = nodeID c") (simp_all add: defs)
  next
    assume ms: "ms = [(h, wam), (h, im)]"
    show ?thesis unfolding ms using assms(1-17) \<open>im \<noteq> wam\<close>
      by (cases "cacheDataPendingLocalReads d"; cases "h = nodeID c") (simp_all add: defs)
  qed
qed

text \<open>The same node, once it has the block for itself; then it evicts dirty data.\<close>

definition demo_owner :: "origin option" where
  "demo_owner = Option.bind demo_reader (origin_receive_all (demo_node 3)
     (from_nodes (demo_node 3) [(1, demo_ack), (0, demo_reply), (2, demo_ack)]))"

definition demo_evicting :: "origin option" where
  "demo_evicting = Option.bind demo_owner (origin_receive_all (demo_node 3)
     [FromLocalCache (blank\<lparr>Type := mt_Eviction, msgID := 8, addr := 64, msize := 32, blockAttached := True\<rparr>)])"

definition demo_intervention :: message where
  "demo_intervention = blank\<lparr>Type := mt_Intervention, msgID := 54, addr := 64, isCache := True, newOwner := 2, solicitingMessage := 20\<rparr>"

definition demo_busy :: message where
  "demo_busy = blank\<lparr>Type := mt_WritebackAck, msgID := 55, addr := 64, isCache := True, isBusy := True, solicitingMessage := 8\<rparr>"

theorem origin_writeback_race_witness:
  "\<exists>s s'. demo_evicting = Some s \<and> origin_receive_all (demo_node 3) (from_nodes (demo_node 3) [(0, demo_busy), (0, demo_intervention)]) s = Some s' \<and>
    cacheState (cacheDataMap s' 64) = cs_Invalid \<and> pendingEviction s' 64 = None"
proof -
  have "returns demo_evicting (\<lambda>s. cacheState (cacheDataMap s 64) = cs_WaitingForWritebackResponse \<and>
      cacheDataPendingLocalReads (cacheDataMap s 64) = [] \<and> pendingEviction s 64 \<noteq> None \<and>
      firstReply (cacheDataMap s 64) = None \<and> firstReplySrc (cacheDataMap s 64) = InvalidNodeID)" by code_simp
  then obtain s where s: "demo_evicting = Some s" "cacheState (cacheDataMap s 64) = cs_WaitingForWritebackResponse"
      "cacheDataPendingLocalReads (cacheDataMap s 64) = []" "pendingEviction s 64 \<noteq> None"
      "firstReply (cacheDataMap s 64) = None" "firstReplySrc (cacheDataMap s 64) = InvalidNodeID"
    by (auto simp: returns_def split: option.splits)
  have h: "CalcNodeID (directoryNodeCalc (demo_node 3)) 64 = Some 0" by code_simp
  let ?ms = "[(0, demo_busy), (0, demo_intervention)] :: (int \<times> message) list"
  have m: "Type demo_intervention = mt_Intervention" "isCache demo_intervention" "addr demo_intervention = 64"
      "newOwner demo_intervention \<noteq> InvalidNodeID" "Type demo_busy = mt_WritebackAck" "isCache demo_busy" "addr demo_busy = 64" "isBusy demo_busy"
      "\<not> isExclusive demo_busy" by (simp_all add: demo_intervention_def demo_busy_def blank_def InvalidNodeID_def)
  have p: "\<forall>r\<in>set (cacheDataPendingLocalReads (cacheDataMap s 64)). addr r = 64" "(0::int) \<noteq> InvalidNodeID"
      "?ms = [(0, demo_intervention), (0, demo_busy)] \<or> ?ms = [(0, demo_busy), (0, demo_intervention)]"
    using s(3) by (simp_all add: InvalidNodeID_def)
  from origin_writeback_race[OF refl s(2,5,6,4) p(1) h p(2) m p(3)] s(1,3) show ?thesis by auto
qed

text \<open>
  C23: A read of a block that the node holds exclusively is dropped: nothing is sent, so the local cache is
  never answered, and the node forgets the read.
\<close>
theorem origin_exclusive_read_dropped:
  assumes "cacheState (cacheDataMap s (addr m)) = cs_Exclusive" and "cacheDataPendingLocalReads (cacheDataMap s (addr m)) = []"
    and "Type m = mt_Read" and "pendingLocalReads s (msgID m) = None"
  shows "\<exists>s'. Origin_RecvMsg c (FromLocalCache m) s = Some s' \<and> events s' = events s @ [DisposedOf (msgID m)] \<and>
    pendingLocalReads s' = pendingLocalReads s \<and> cacheDataPendingLocalReads (cacheDataMap s' (addr m)) = [] \<and>
    cacheState (cacheDataMap s' (addr m)) = cs_Exclusive"
  using assms
  by (simp add: Origin_RecvMsg_def RecvMsgCache_def OnCacheRead_def OnCache_def OnCacheExclusive_def DebugAssert_def Let_def origin_upd
    Replicate_def new_msg_let ProcessReadResponse_def pop_local_read_def ProcessRemainingPendingLocalReads_def
    InitializeReadResponseMsg_Read_def fun_upd_idem)

theorem origin_exclusive_read_dropped_witness:
  "\<exists>s s'. demo_owner = Some s \<and> Origin_RecvMsg (demo_node 3) (FromLocalCache (demo_read 9 True)) s = Some s' \<and>
    events s' = events s @ [DisposedOf 9]"
proof -
  have "returns demo_owner (\<lambda>s. cacheState (cacheDataMap s 64) = cs_Exclusive \<and> cacheDataPendingLocalReads (cacheDataMap s 64) = [] \<and>
      pendingLocalReads s 9 = None)" by code_simp
  then obtain s where s: "demo_owner = Some s" "cacheState (cacheDataMap s 64) = cs_Exclusive"
      "cacheDataPendingLocalReads (cacheDataMap s 64) = []" "pendingLocalReads s 9 = None"
    by (auto simp: returns_def split: option.splits)
  have m: "addr (demo_read 9 True) = 64" "Type (demo_read 9 True) = mt_Read" "msgID (demo_read 9 True) = 9" by (simp_all add: demo_read_def)
  from origin_exclusive_read_dropped[of s "demo_read 9 True" "demo_node 3"] s m show ?thesis by auto
qed

text \<open>
  The same home, when the owner of the block has lost it silently and reads it again before node 3 asks for
  ownership: node 2 is the owner and a sharer.
\<close>

definition demo_twice :: "origin option" where
  "demo_twice = origin_receive_all (demo_node 0)
     [reads 1 5 False, demo_memory 5, reads 2 6 False, demo_memory 6, demo_handover 1, reads 2 8 False, demo_memory 8, reads 3 7 True,
      demo_memory 7] (Origin_Initialize 100)"

text \<open>A node that shares the block receives two invalidations, before and after its local cache answers the first.\<close>

definition demo_sharer :: "origin option" where
  "demo_sharer = origin_receive_all (demo_node 2) (demo_local 6 False # from_nodes (demo_node 2)
     [(0, demo_reply\<lparr>solicitingMessage := 6, exclusiveOwnership := False, blockAttached := True, pendingInvalidates := 0\<rparr>)]) (Origin_Initialize 100)"

definition demo_invalidate :: "nat \<Rightarrow> origin_input" where
  "demo_invalidate i = FromRemote 0 2 (blank\<lparr>Type := mt_Invalidate, msgID := i, addr := 64, isCache := True, newOwner := 3\<rparr>)"

definition demo_invalidated :: origin_input where
  "demo_invalidated = FromLocalCache (blank\<lparr>Type := mt_InvalidateResponse, msgID := 62, addr := 64, solicitingMessage := 60\<rparr>)"

text \<open>
  The same home, when the owner of the block has lost it silently and reads it again before node 3 asks for
  ownership: node 2 is the owner and a sharer.
\<close>

definition demo_shared :: "origin option" where
  "demo_shared = origin_receive_all (demo_node 0)
     [reads 1 5 False, demo_memory 5, reads 2 6 False, demo_memory 6, demo_handover 1] (Origin_Initialize 100)"

lemma count_removeAll_other: "x \<noteq> n \<Longrightarrow> count_list (removeAll n xs) x = count_list xs x"
  by (induction xs) auto

lemma count_distinct: "distinct xs \<Longrightarrow> x \<in> set xs \<Longrightarrow> count_list xs x = 1"
  by (induction xs) auto

lemma invalidated_twice_fails:
  assumes "cacheState (cacheDataMap t a) = cs_Shared" and "firstReply (cacheDataMap t a) \<noteq> None" and "Type im = mt_Invalidate" and "isCache im"
    and "addr im = a"
  shows "Origin_RecvMsg c' (FromRemote src dest im) t = None"
  using assms by (auto simp: Origin_RecvMsg_def RecvMsgCache_def OnCacheInvalidate_def OnCache_def OnCacheShared_def DebugAssert_def Let_def origin_upd
    bind_eq_None_conv)

lemmas demo_runs = blank_def reads_def demo_memory_def demo_node_def demo_read_def Origin_RecvMsg_def RecvMsgDirectory_def OnDirectoryRead_def OnDirectory_def
  OnDirectoryShared_def OnDirectorySharedMemoryAccess_def DebugAssert_def Let_def origin_upd SendRequestToMemory_def Replicate_def InvalidNodeID_def
  insert_sharer_def origin_read_def PerformMemoryReadResponseCheck_def SendMessageToRemoteCache_eq new_msg_let InitializeReadResponseMsg_Read_def

text \<open>
  C22: If the owner of a shared block is among its sharers too (it is, once it has lost the block silently and
  read it again), the node that is granted the block is told to wait for one acknowledgement too many: the owner is
  sent two invalidations on its behalf. A node that shares a block fails when an invalidation comes before
  its local cache has answered the one before.
\<close>
theorem origin_owner_invalidated_twice:
  assumes "orders c" and "nodeID c \<noteq> InvalidNodeID" and "origin_reach c s"
    and "grants_ownership c s a n r (FromLocalMemory m)" and "d = directoryDataMap s a" and "owner d \<in> set (sharers d)" and "owner d \<noteq> n"
  shows "(\<exists>s' es ns. Origin_RecvMsg c (FromLocalMemory m) s = Some s' \<and> events s' = events s @ es \<and> ownership_granted a n r ns es \<and>
      length ns = Suc (card (set (sharers d) - {n})) \<and> count_list ns (owner d) = 2) \<and>
    (\<forall>c' t src dest im. cacheState (cacheDataMap t a) = cs_Shared \<and> firstReply (cacheDataMap t a) \<noteq> None \<and> Type im = mt_Invalidate \<and> isCache im \<and>
      addr im = a \<longrightarrow> Origin_RecvMsg c' (FromRemote src dest im) t = None)"
proof -
  note ok = home_entry[OF origin_reach_ok[OF assms(1-3)], of a]
  let ?s = "origin_counted messagesReceived s"
  have same: "directoryDataMap ?s = directoryDataMap s" "events ?s = events s" "pendingMemoryReadAccesses ?s = pendingMemoryReadAccesses s"
    by (simp_all add: origin_counted_def)
  from assms(4,5) have m: "state d = ds_SharedExclusiveMemoryAccess" "firstRequest d = Some r" "firstRequestSrc d = n" "Type m = mt_ReadResponse"
    "addr m = a" "addr r = a" "pendingMemoryReadAccesses s (solicitingMessage m) \<noteq> None" by (auto simp: grants_ownership_def Let_def)
  have sh: "shared_entry d" "n \<noteq> InvalidNodeID" using ok m assms(5) by (auto simp: entry_ok_def)
  have one: "distinct (sharers d)" using sh(1) by (simp add: shared_entry_def)
  have "length (removeAll n (owner d # sharers d)) = Suc (card (set (sharers d) - {n}))"
    using assms(7) one distinct_card[of "removeAll n (sharers d)"] by (simp add: distinct_removeAll)
  moreover have "count_list (removeAll n (owner d # sharers d)) (owner d) = 2"
    using assms(6,7) one by (simp add: count_removeAll_other count_distinct)
  moreover have "Origin_RecvMsg c (FromLocalMemory m) s = OnDirectorySharedExclusiveMemoryAccess c a m InvalidNodeID True ?s"
    using m(1,4,5) assms(5) by (simp add: Origin_RecvMsg_def RecvMsgDirectory_def OnDirectory_def same DebugAssert_def)
  moreover obtain s' es where "OnDirectorySharedExclusiveMemoryAccess c a m InvalidNodeID True ?s = Some s'" "events s' = events s @ es"
      "ownership_granted a n r (removeAll n (owner d # sharers d)) es"
    using fetch_grants[of ?s a r n m c, unfolded same, folded assms(5), OF m(2,6,3) sh(2,1) m(4,7)] by blast
  ultimately have "\<exists>s' es ns. Origin_RecvMsg c (FromLocalMemory m) s = Some s' \<and> events s' = events s @ es \<and> ownership_granted a n r ns es \<and>
      length ns = Suc (card (set (sharers d) - {n})) \<and> count_list ns (owner d) = 2"
    by (intro exI[of _ s'] exI[of _ es] exI[of _ "removeAll n (owner d # sharers d)"]) simp
  then show ?thesis using invalidated_twice_fails by blast
qed

theorem origin_owner_invalidated_twice_witness:
  "\<exists>s s' s'' es ns. demo_shared = Some s \<and> origin_receive_all (demo_node 0) [reads 2 8 False, demo_memory 8, reads 3 7 True] s = Some s' \<and>
    Origin_RecvMsg (demo_node 0) (demo_memory 7) s' = Some s'' \<and> events s'' = events s' @ es \<and> ownership_granted 64 3 (demo_read 7 True) ns es \<and>
    length ns = 3 \<and> count_list ns 2 = 2"
proof -
  have "returns demo_shared (\<lambda>s. state (directoryDataMap s 64) = ds_Shared \<and> owner (directoryDataMap s 64) = 2 \<and>
      sharers (directoryDataMap s 64) = [1] \<and> firstRequest (directoryDataMap s 64) = None \<and> firstRequestSrc (directoryDataMap s 64) = InvalidNodeID \<and>
      pendingSharedReads (directoryDataMap s 64) = [] \<and> pendingMemoryReadAccesses s 8 = None \<and> pendingMemoryReadAccesses s 7 = None)" by code_simp
  then obtain s where s: "demo_shared = Some s" "state (directoryDataMap s 64) = ds_Shared" "owner (directoryDataMap s 64) = 2"
      "sharers (directoryDataMap s 64) = [1]" "firstRequest (directoryDataMap s 64) = None" "firstRequestSrc (directoryDataMap s 64) = InvalidNodeID"
      "pendingSharedReads (directoryDataMap s 64) = []" "pendingMemoryReadAccesses s 8 = None" "pendingMemoryReadAccesses s 7 = None"
    by (auto simp: returns_def split: option.splits)
  let ?is = "[reads 2 8 False, demo_memory 8, reads 3 7 True]"
  have "\<exists>s'. origin_receive_all (demo_node 0) ?is s = Some s' \<and> state (directoryDataMap s' 64) = ds_SharedExclusiveMemoryAccess \<and>
      owner (directoryDataMap s' 64) = 2 \<and> sharers (directoryDataMap s' 64) = [2, 1] \<and> firstRequest (directoryDataMap s' 64) = Some (demo_read 7 True) \<and>
      firstRequestSrc (directoryDataMap s' 64) = 3 \<and> pendingMemoryReadAccesses s' 7 = Some (demo_read 7 True)"
    using s by (simp add: demo_runs)
  then obtain s' where s': "origin_receive_all (demo_node 0) ?is s = Some s'" "state (directoryDataMap s' 64) = ds_SharedExclusiveMemoryAccess"
      "owner (directoryDataMap s' 64) = 2" "sharers (directoryDataMap s' 64) = [2, 1]" "firstRequest (directoryDataMap s' 64) = Some (demo_read 7 True)"
      "firstRequestSrc (directoryDataMap s' 64) = 3" "pendingMemoryReadAccesses s' 7 = Some (demo_read 7 True)" by blast
  have r: "origin_reach (demo_node 0) s'"
    using origin_run_reach[OF origin_starts s(1)[unfolded demo_shared_def]] s'(1) by (rule origin_run_reach)
  have o: "orders (demo_node 0)" "nodeID (demo_node 0) \<noteq> InvalidNodeID" by (simp_all add: orders_def demo_node_def InvalidNodeID_def)
  obtain m where m: "demo_memory 7 = FromLocalMemory m" by (simp add: demo_memory_def)
  have g: "grants_ownership (demo_node 0) s' 64 3 (demo_read 7 True) (demo_memory 7)"
    using s' by (simp add: grants_ownership_def demo_memory_def demo_read_def)
  obtain s'' es ns where "Origin_RecvMsg (demo_node 0) (demo_memory 7) s' = Some s''" "events s'' = events s' @ es"
      "ownership_granted 64 3 (demo_read 7 True) ns es" "length ns = 3" "count_list ns 2 = 2"
    using origin_owner_invalidated_twice[OF o r g[unfolded m] refl] s'(3,4) unfolding m by auto
  with s(1) s'(1) show ?thesis by blast
qed

text \<open>The states in which a home refuses a read.\<close>

definition refuses :: "DirectoryData \<Rightarrow> message \<Rightarrow> bool" where
  "refuses d m \<longleftrightarrow> state d \<in> {ds_BusyExclusive, ds_BusyExclusiveMemoryAccess, ds_BusyExclusiveMemoryAccessWritebackRequest, ds_BusyShared,
     ds_BusySharedMemoryAccess, ds_BusySharedMemoryAccessWritebackRequest, ds_ExclusiveMemoryAccess, ds_SharedExclusiveMemoryAccess} \<or>
     (state d = ds_SharedMemoryAccess \<and> requestingExclusive m)"

text \<open>A read that asks for ownership of a shared block which its node already holds.\<close>

definition upgrades :: "DirectoryData \<Rightarrow> message \<Rightarrow> int \<Rightarrow> bool" where
  "upgrades d m n \<longleftrightarrow> state d = ds_Shared \<and> requestingExclusive m \<and> (n = owner d \<or> n \<in> set (sharers d))"

fun memory_read :: "origin_event \<Rightarrow> message list" where
  "memory_read (SentLocalMemory m _) = (if Type m = mt_Read then [m] else [])"
| "memory_read _ = []"

lemma nak_run:
  assumes "n \<noteq> InvalidNodeID"
  shows "\<exists>t e nak. SendCacheNak_Read c m n s = Some t \<and> only_sends s [e] t \<and> to_cache e = [(n, nak)] \<and> Type nak = mt_CacheNak \<and>
    solicitingMessage nak = msgID m \<and> interventionMessage nak = 0"
proof -
  let ?cnk = "InitializeBaseNakMsg_Read (fresh c mt_CacheNak (generatingPC m) (currentMsgStamp s)) m"
  have "interventionMessage (fresh c mt_CacheNak (generatingPC m) (currentMsgStamp s)) = 0" by (simp add: fresh_def Create_def)
  with assms show ?thesis
    by (auto simp: SendCacheNak_Read_def new_msg_let SendMessageToRemoteCache_eq only_sends_def InitializeBaseNakMsg_Read_def
      intro!: exI[of _ "cache_event c ?cnk n (Suc (Suc (currentMsgStamp s)))"] exI[of _ "?cnk\<lparr>isCache := True\<rparr>"])
qed

lemma refused_run:
  assumes "entry_ok (directoryDataMap s a)" and "refuses (directoryDataMap s a) m" and "Type m = mt_Read"
  shows "OnDirectory c a m n False s = SendCacheNak_Read c m n s"
  using assms
  by (auto simp: refuses_def entry_ok_def OnDirectory_def entry_defs OnDirectoryBusyExclusive_def OnDirectoryBusyExclusiveMemoryAccess_def
    OnDirectoryBusyExclusiveMemoryAccessWritebackRequest_def OnDirectoryBusyShared_def OnDirectoryBusySharedMemoryAccess_def
    OnDirectoryBusySharedMemoryAccessWritebackRequest_def OnDirectoryExclusiveMemoryAccess_def OnDirectorySharedExclusiveMemoryAccess_def
    OnDirectorySharedMemoryAccess_def DebugAssert_def Let_def)

lemma taken_run:
  assumes "entry_ok d" and "d = directoryDataMap s a" and "\<not> refuses d m" and "\<not> upgrades d m n" and "Type m = mt_Read" and "pendingMemoryReadAccesses s (msgID m) = None"
    and "orders c"
  shows "\<exists>s' es. OnDirectory c a m n False s = Some s' \<and> events s' = events s @ es \<and> to_caches es = [] \<and>
    concat (map memory_read es) = (if state d = ds_SharedMemoryAccess then [] else [m]) \<and>
    (firstRequest (directoryDataMap s' a) = Some m \<and> firstRequestSrc (directoryDataMap s' a) = n \<or>
     pendingSharedReads (directoryDataMap s' a) = pendingSharedReads d @ [origin_read m n] \<and> n \<in> set (sharers (directoryDataMap s' a)))"
  using assms set_insert_sharer[OF assms(7)]
  by (cases "state d") (auto simp: refuses_def upgrades_def entry_ok_def OnDirectory_def entry_defs OnDirectoryExclusive_def OnDirectoryShared_def
    OnDirectorySharedMemoryAccess_def OnDirectoryUnowned_def DebugAssert_def Let_def origin_upd SendRequestToMemory_def Replicate_def)

text \<open>
  C19: A home handles every read, in every state it can reach: while it serves another request for the block it
  refuses the read with one nak to the reader, and keeps its entry; a read for ownership by a node that
  shares the block is granted at once; any other is taken: the entry now holds it, and the memory is
  read, unless that is being done already.
\<close>
theorem origin_read_handled:
  assumes "orders c" and "nodeID c \<noteq> InvalidNodeID" and "origin_reach c s" and "Type m = mt_Read" and "n \<noteq> InvalidNodeID"
    and "pendingMemoryReadAccesses s (msgID m) = None" and "d = directoryDataMap s (addr m)"
  shows "\<exists>s' es. RecvMsgDirectory c m n False s = Some s' \<and> events s' = events s @ es \<and> (let d' = directoryDataMap s' (addr m) in
    if refuses d m then d' = d \<and> (\<exists>nak. to_caches es = [(n, nak)] \<and> Type nak = mt_CacheNak \<and> solicitingMessage nak = msgID m)
    else if upgrades d m n then state d' = ds_Exclusive \<and> owner d' = n \<and> (\<exists>ns. ownership_granted (addr m) n m ns es)
    else to_caches es = [] \<and> concat (map memory_read es) = (if state d = ds_SharedMemoryAccess then [] else [m]) \<and>
      (firstRequest d' = Some m \<and> firstRequestSrc d' = n \<or>
       pendingSharedReads d' = pendingSharedReads d @ [origin_read m n] \<and> n \<in> set (sharers d')))"
proof -
  let ?t = "origin_counted directoryReadsReceived (s\<lparr>remoteMessagesReceived := remoteMessagesReceived s + 1\<rparr>)"
  have same: "directoryDataMap ?t = directoryDataMap s" "events ?t = events s" "pendingMemoryReadAccesses ?t = pendingMemoryReadAccesses s"
    by (simp_all add: origin_counted_def)
  have ok: "entry_ok d" using home_entry[OF origin_reach_ok[OF assms(1-3)]] assms(7) by simp
  have run: "RecvMsgDirectory c m n False s = OnDirectory c (addr m) m n False ?t"
    using assms(4) by (simp add: RecvMsgDirectory_def OnDirectoryRead_def DebugAssert_def)
  consider (refused) "refuses d m" | (granted) "\<not> refuses d m" "upgrades d m n" | (taken) "\<not> refuses d m" "\<not> upgrades d m n" by blast
  then show ?thesis
  proof cases
    case refused
    from nak_run[OF assms(5), of c m ?t] obtain u e nak where u: "SendCacheNak_Read c m n ?t = Some u" "only_sends ?t [e] u"
      "to_cache e = [(n, nak)]" "Type nak = mt_CacheNak" "solicitingMessage nak = msgID m" by blast
    have "OnDirectory c (addr m) m n False ?t = Some u"
      using refused_run[of ?t "addr m" m c n] ok refused assms(4,7) u(1) by (simp add: same)
    with refused u(3-5) only_sendsD(1,2)[OF u(2)] show ?thesis
      unfolding run by (intro exI[of _ u] exI[of _ "[e]"]) (simp add: same assms(7))
  next
    case granted
    then have d: "no_request d" "pendingSharedReads d = []" "shared_entry d" using ok by (auto simp: upgrades_def entry_ok_def)
    have "OnDirectory c (addr m) m n False ?t = OnDirectoryShared c (addr m) m n ?t"
      using granted assms(7) by (simp add: OnDirectory_def same upgrades_def)
    moreover have g: "requestingExclusive m" "n = owner d \<or> n \<in> set (sharers d)" using granted(2) by (auto simp: upgrades_def)
    moreover note upgrade_grants[of ?t "addr m" m n c, unfolded same, folded assms(7), OF d(1,2) refl assms(5) d(3) assms(4) g]
    ultimately show ?thesis using granted unfolding run by (auto simp: Let_def)
  next
    case taken
    with taken_run[OF ok _ taken assms(4) _ assms(1), of ?t "addr m"] assms(6,7) show ?thesis
      unfolding run by (simp add: same Let_def)
  qed
qed

theorem origin_read_handled_witness:
  "\<exists>s s'. demo_home = Some s \<and> RecvMsgDirectory (demo_node 0) (demo_read 9 False) 4 False s = Some s' \<and>
    directoryDataMap s' 64 = directoryDataMap s 64"
proof -
  have "returns demo_home (\<lambda>s. state (directoryDataMap s 64) = ds_SharedExclusiveMemoryAccess \<and> pendingMemoryReadAccesses s 9 = None)" by code_simp
  then obtain s where s: "demo_home = Some s" "state (directoryDataMap s 64) = ds_SharedExclusiveMemoryAccess" "pendingMemoryReadAccesses s 9 = None"
    by (auto simp: returns_def split: option.splits)
  have r: "origin_reach (demo_node 0) s" using s(1) origin_run_reach[OF origin_starts] unfolding demo_home_def by blast
  have "orders (demo_node 0)" "nodeID (demo_node 0) \<noteq> InvalidNodeID" "Type (demo_read 9 False) = mt_Read" "(4::int) \<noteq> InvalidNodeID"
    "pendingMemoryReadAccesses s (msgID (demo_read 9 False)) = None" "addr (demo_read 9 False) = 64"
    "refuses (directoryDataMap s 64) (demo_read 9 False)"
    using s by (simp_all add: orders_def demo_node_def InvalidNodeID_def demo_read_def refuses_def)
  with origin_read_handled[OF this(1,2) r this(3,4,5) refl] s(1) show ?thesis by (auto simp: Let_def)
qed

end
