(* ===== verification/TimeQueue.thy ===== *)
theory TimeQueue
  imports MemMessages
begin

unbundle bit_operations_syntax

text \<open>
  The queue of timed jobs of the simulator, \<^verbatim>\<open>libsuc/TQueue.h\<close>, and the clock of \<^verbatim>\<open>libsuc/callback.h\<close>
  that empties it. Jobs of the near future lie in an array of linked lists, one for each tick; the others in a heap.

  A job is the address of its node; the fields of a node are functions of it. Times and positions are
  integers, reduced to 32 bits where the code casts them. An assertion (\<open>I\<close>), a null pointer and an access
  outside an array are \<open>None\<close>. The heap is the one of the standard library: which of several
  jobs with the same earliest time it has in front is a parameter.
\<close>

section \<open>State\<close>

datatype QueueType = InNoQueue | InFastQueue | InTooFarQueue

record tq_config =
  AccessSize :: int
  front :: "(nat \<Rightarrow> int) \<Rightarrow> nat list \<Rightarrow> nat"

record tqueue =
  minTime :: int
  minPos :: int
  nNodes :: int
  access :: "nat option list"
  accessTail :: "nat option list"
  tooFar :: "nat list"
  minTooFar :: int
  TQTime :: "nat \<Rightarrow> int"
  TQNext :: "nat \<Rightarrow> nat option"
  qType :: "nat \<Rightarrow> QueueType"

definition MaxTime :: int where
  "MaxTime = 2 ^ 64 - 1 - 1024"

definition uint32 :: "int \<Rightarrow> int" where
  "uint32 x = take_bit 32 x"

definition AccessMask :: "tq_config \<Rightarrow> int" where
  "AccessMask c = AccessSize c - 1"

text \<open>The array of tails is not initialized: its contents are a parameter, like the fields of the nodes.\<close>

definition new_TQueue :: "tq_config \<Rightarrow> nat option list \<Rightarrow> (nat \<Rightarrow> int) \<Rightarrow> (nat \<Rightarrow> nat option) \<Rightarrow> tqueue option" where
  "new_TQueue c tails ts ns = do {
     DebugAssert (7 < AccessSize c);
     DebugAssert (AccessSize c AND (AccessSize c - 1) = 0);
     Some \<lparr>minTime = 0, minPos = 0, nNodes = 0, access = fill (AccessSize c) None, accessTail = tails, tooFar = [], minTooFar = MaxTime,
       TQTime = ts, TQNext = ns, qType = (\<lambda>_. InNoQueue)\<rparr> }"

section \<open>Insertion\<close>

definition addNode :: "tq_config \<Rightarrow> nat \<Rightarrow> int \<Rightarrow> tqueue \<Rightarrow> tqueue option" where
  "addNode c node time q = do {
     DebugAssert (minTime q \<le> time);
     DebugAssert (\<bar>signed_take_bit 31 (time - minTime q)\<bar> < AccessSize c);
     let pos = uint32 (minPos q + time - minTime q) AND AccessMask c;
     first \<leftarrow> rd (access q) pos;
     q \<leftarrow> (case first of
         None \<Rightarrow> do {
           heads \<leftarrow> wr (access q) pos (Some node);
           Some (q\<lparr>access := heads\<rparr>) }
       | Some _ \<Rightarrow> do {
           tail \<leftarrow> rd (accessTail q) pos;
           last \<leftarrow> tail;
           Some (q\<lparr>TQNext := (TQNext q)(last := Some node)\<rparr>) });
     tails \<leftarrow> wr (accessTail q) pos (Some node);
     Some (q\<lparr>accessTail := tails, qType := (qType q)(node := InFastQueue), TQNext := (TQNext q)(node := None), nNodes := nNodes q + 1\<rparr>) }"

definition TQ_insert :: "tq_config \<Rightarrow> nat \<Rightarrow> int \<Rightarrow> tqueue \<Rightarrow> tqueue option" where
  "TQ_insert c data time q = do {
     DebugAssert (qType q data = InNoQueue);
     DebugAssert (minTime q \<le> time);
     let q = q\<lparr>TQTime := (TQTime q)(data := time)\<rparr>;
     if uint32 (time - minTime q) < AccessSize c then addNode c data time q
     else do {
       let q = q\<lparr>qType := (qType q)(data := InTooFarQueue), tooFar := tooFar q @ [data]\<rparr>;
       Some (if time < minTooFar q then q\<lparr>minTooFar := time\<rparr> else q) } }"

section \<open>The next job\<close>

text \<open>\<open>adjustTooFar\<close>: the jobs of the heap that have come near.\<close>

partial_function (option) adjust_loop :: "tq_config \<Rightarrow> tqueue \<Rightarrow> tqueue option" where
  "adjust_loop c q = (let node = front c (TQTime q) (tooFar q) in
     if uint32 (TQTime q node - minTime q) < AccessSize c then do {
        q \<leftarrow> addNode c node (TQTime q node) q;
        let q = q\<lparr>tooFar := remove1 node (tooFar q)\<rparr>;
        if tooFar q = [] then Some (q\<lparr>minTooFar := MaxTime\<rparr>) else adjust_loop c q }
     else Some (q\<lparr>minTooFar := TQTime q node\<rparr>))"

definition adjustTooFar :: "tq_config \<Rightarrow> tqueue \<Rightarrow> tqueue option" where
  "adjustTooFar c q = do {
     DebugAssert (tooFar q \<noteq> []);
     adjust_loop c q }"

text \<open>The walk over empty lists up to the current tick.\<close>

function walk :: "tq_config \<Rightarrow> int \<Rightarrow> tqueue \<Rightarrow> (nat option \<times> tqueue) option" where
  "walk c cTime q = do {
     node \<leftarrow> rd (access q) (minPos q);
     if node = None \<and> minTime q < cTime
     then walk c cTime (q\<lparr>minPos := (minPos q + 1) AND AccessMask c, minTime := minTime q + 1\<rparr>)
     else Some (node, q) }"
  by pat_completeness auto
termination
  by (relation "measure (\<lambda>(c, cTime, q). nat (cTime - minTime q))") auto

declare walk.simps [simp del]

text \<open>A job leaves the list of the current position.\<close>

definition take_job :: "nat \<Rightarrow> tqueue \<Rightarrow> tqueue option" where
  "take_job node q = do {
     heads \<leftarrow> wr (access q) (minPos q) (TQNext q node);
     Some (q\<lparr>nNodes := nNodes q - 1, access := heads, qType := (qType q)(node := InNoQueue)\<rparr>) }"

definition nextJob :: "tq_config \<Rightarrow> int \<Rightarrow> tqueue \<Rightarrow> (nat option \<times> tqueue) option" where
  "nextJob c cTime q = do {
     first \<leftarrow> rd (access q) (minPos q);
     if first \<noteq> None \<and> minTime q = cTime then do {
        node \<leftarrow> first;
        q \<leftarrow> take_job node q;
        Some (Some node, q) }
     else do {
        q \<leftarrow> (if minTooFar q \<le> cTime then adjustTooFar c q else Some q);
        if nNodes q = 0 then Some (None, q\<lparr>minTime := cTime, minPos := 0\<rparr>)
        else do {
          (first, q) \<leftarrow> walk c cTime q;
          case first of
            None \<Rightarrow> Some (None, q)
          | Some node \<Rightarrow> do {
              DebugAssert (minTime q \<le> cTime);
              DebugAssert (nNodes q \<noteq> 0);
              q \<leftarrow> take_job node q;
              Some (Some node, q) } } } }"

section \<open>Removal\<close>

text \<open>\<open>remove\<close> looks for the node before the one to be removed; then it looks for a new last node.\<close>

partial_function (option) find_prev :: "(nat \<Rightarrow> nat option) \<Rightarrow> nat \<Rightarrow> nat option \<Rightarrow> nat option \<Rightarrow> nat option option" where
  "find_prev next node prev cur =
     (if cur = Some node then Some prev
      else do { c \<leftarrow> cur; find_prev next node (Some c) (next c) })"

partial_function (option) run_to_end :: "(nat \<Rightarrow> nat option) \<Rightarrow> nat option \<Rightarrow> nat option option" where
  "run_to_end next prev = (case prev of None \<Rightarrow> Some None | Some p \<Rightarrow> run_to_end next (next p))"

definition TQ_remove :: "tq_config \<Rightarrow> nat \<Rightarrow> tqueue \<Rightarrow> tqueue option" where
  "TQ_remove c node q = (case qType q node of
     InTooFarQueue \<Rightarrow> do {
       DebugAssert (tooFar q \<noteq> []);
       if front c (TQTime q) (tooFar q) = node then do {
         let q = q\<lparr>tooFar := remove1 node (tooFar q)\<rparr>;
         Some (q\<lparr>minTooFar := (if tooFar q = [] then MaxTime else TQTime q (front c (TQTime q) (tooFar q)))\<rparr>) }
       else do {
         DebugAssert (node \<in> set (tooFar q));
         let q = q\<lparr>tooFar := remove1 node (tooFar q)\<rparr>;
         DebugAssert (node \<notin> set (tooFar q));
         Some q } }
   | InFastQueue \<Rightarrow> do {
       let time = TQTime q node;
       first \<leftarrow> rd (access q) (minPos q);
       if first = Some node then take_job node q
       else do {
         let pos = uint32 (minPos q + time - minTime q) AND AccessMask c;
         head \<leftarrow> rd (access q) pos;
         prev \<leftarrow> find_prev (TQNext q) node None head;
         q \<leftarrow> (case prev of
             None \<Rightarrow> do { heads \<leftarrow> wr (access q) pos (TQNext q node); Some (q\<lparr>access := heads\<rparr>) }
           | Some p \<Rightarrow> Some (q\<lparr>TQNext := (TQNext q)(p := TQNext q node)\<rparr>));
         tail \<leftarrow> rd (accessTail q) pos;
         q \<leftarrow> (if tail = Some node then do {
              head \<leftarrow> rd (access q) pos;
              prev \<leftarrow> run_to_end (TQNext q) head;
              tails \<leftarrow> wr (accessTail q) pos prev;
              Some (q\<lparr>accessTail := tails\<rparr>) }
            else Some q);
         Some (q\<lparr>nNodes := nNodes q - 1\<rparr>) } }
   | InNoQueue \<Rightarrow> Some q)"

definition TQ_reschedule :: "tq_config \<Rightarrow> nat \<Rightarrow> int \<Rightarrow> tqueue \<Rightarrow> tqueue option" where
  "TQ_reschedule c node rTime q = do {
     q \<leftarrow> TQ_remove c node q;
     DebugAssert (qType q node = InNoQueue);
     TQ_insert c node rTime q }"

definition TQ_size :: "tqueue \<Rightarrow> int" where
  "TQ_size q = nNodes q + int (length (tooFar q))"

definition TQ_empty :: "tqueue \<Rightarrow> bool" where
  "TQ_empty q \<longleftrightarrow> nNodes q = 0 \<and> tooFar q = []"

section \<open>The clock\<close>

text \<open>
  \<open>EventScheduler\<close>: the loop of \<open>advanceClock\<close> asks the queue for jobs (\<open>next\<close>) until there is none. What
  a job does is a parameter (\<open>call\<close>): it may schedule further jobs.
\<close>

definition MaxDeltaTime :: int where
  "MaxDeltaTime = 65535 - 1024"

definition schedule :: "tq_config \<Rightarrow> int \<Rightarrow> nat \<Rightarrow> int \<Rightarrow> tqueue \<Rightarrow> tqueue option" where
  "schedule c delta cb globalClock cbQ = do {
     DebugAssert (delta \<noteq> 0);
     DebugAssert (delta \<le> MaxDeltaTime);
     TQ_insert c cb (globalClock + delta) cbQ }"

definition scheduleAbs :: "tq_config \<Rightarrow> int \<Rightarrow> nat \<Rightarrow> int \<Rightarrow> tqueue \<Rightarrow> tqueue option" where
  "scheduleAbs c tim cb globalClock cbQ = do {
     DebugAssert (globalClock < tim);
     TQ_insert c cb tim cbQ }"

partial_function (option) run_jobs ::
  "(int \<Rightarrow> 'q \<Rightarrow> (nat option \<times> 'q) option) \<Rightarrow> (nat \<Rightarrow> int \<Rightarrow> 'q \<Rightarrow> 'q option) \<Rightarrow> int \<Rightarrow> 'q \<Rightarrow> (nat list \<times> 'q) option" where
  "run_jobs next call globalClock q = do {
     (cb, q) \<leftarrow> next globalClock q;
     case cb of
       None \<Rightarrow> Some ([], q)
     | Some job \<Rightarrow> do {
         q \<leftarrow> call job globalClock q;
         (jobs, q) \<leftarrow> run_jobs next call globalClock q;
         Some (job # jobs, q) } }"

definition advanceClock :: "tq_config \<Rightarrow> (nat \<Rightarrow> int \<Rightarrow> tqueue \<Rightarrow> tqueue option) \<Rightarrow> int \<times> tqueue \<Rightarrow> (nat list \<times> int \<times> tqueue) option" where
  "advanceClock c call = (\<lambda>(globalClock, cbQ). do {
     (jobs, cbQ) \<leftarrow> run_jobs (nextJob c) call globalClock cbQ;
     Some (jobs, globalClock + 1, cbQ) })"

declare adjust_loop.simps [code] find_prev.simps [code] run_to_end.simps [code] run_jobs.simps [code]

end
