(* ===== verification/TimeQueueProps.thy ===== *)
theory TimeQueueProps
  imports TimeQueue
begin

text \<open>
  The invariant of the queue of timed jobs, the jobs it returns, and the clock: every job runs at its tick.
\<close>

section \<open>Linked lists\<close>

primrec joblinks :: "(nat \<Rightarrow> nat option) \<Rightarrow> nat option \<Rightarrow> nat list \<Rightarrow> bool" where
  "joblinks next p [] \<longleftrightarrow> p = None"
| "joblinks next p (x # xs) \<longleftrightarrow> p = Some x \<and> joblinks next (next x) xs"

lemma joblinks_None [simp]: "joblinks next None xs \<longleftrightarrow> xs = []"
  by (cases xs) auto

lemma joblinks_Some: "joblinks next (Some x) xs \<longleftrightarrow> (\<exists>ys. xs = x # ys \<and> joblinks next (next x) ys)"
  by (cases xs) auto

lemma joblinks_upd [simp]: "x \<notin> set xs \<Longrightarrow> joblinks (next(x := v)) p xs \<longleftrightarrow> joblinks next p xs"
  by (induction xs arbitrary: p) auto

text \<open>A node behind the last one.\<close>

lemma joblinks_append:
  "joblinks next p xs \<Longrightarrow> xs \<noteq> [] \<Longrightarrow> distinct xs \<Longrightarrow> y \<notin> set xs \<Longrightarrow> joblinks (next(last xs := Some y, y := None)) p (xs @ [y])"
proof (induction xs arbitrary: p)
  case (Cons x xs)
  show ?case
  proof (cases "xs = []")
    case True
    then show ?thesis using Cons.prems by (auto simp: fun_upd_def)
  next
    case False
    then have "x \<noteq> last xs" using Cons.prems(3) last_in_set by auto
    moreover have "joblinks (next(last xs := Some y, y := None)) (next x) (xs @ [y])"
      by (rule Cons.IH) (use Cons.prems False in auto)
    moreover have "(next(last xs := Some y, y := None)) x = next x" using \<open>x \<noteq> last xs\<close> Cons.prems(4) by auto
    ultimately show ?thesis using Cons.prems(1) False by (simp del: fun_upd_apply)
  qed
qed simp

section \<open>The invariant\<close>

definition front_ok :: "tq_config \<Rightarrow> bool" where
  "front_ok c \<longleftrightarrow> (\<forall>ts xs. xs \<noteq> [] \<longrightarrow> front c ts xs \<in> set xs \<and> (\<forall>y\<in>set xs. ts (front c ts xs) \<le> ts y))"

definition pos_of :: "tq_config \<Rightarrow> tqueue \<Rightarrow> nat \<Rightarrow> int" where
  "pos_of c q x = (minPos q + TQTime q x - minTime q) mod AccessSize c"

abbreviation near :: "tqueue \<Rightarrow> nat set" where
  "near q \<equiv> {x. qType q x = InFastQueue}"

definition queued :: "tqueue \<Rightarrow> nat set" where
  "queued q = {x. qType q x \<noteq> InNoQueue}"

definition bucket :: "tq_config \<Rightarrow> tqueue \<Rightarrow> int \<Rightarrow> nat list \<Rightarrow> bool" where
  "bucket c q p xs \<longleftrightarrow> joblinks (TQNext q) (ix (access q) p) xs \<and> distinct xs \<and> set xs = {x \<in> near q. pos_of c q x = p} \<and>
     (xs \<noteq> [] \<longrightarrow> ix (accessTail q) p = Some (last xs))"

definition size_ok :: "tq_config \<Rightarrow> bool" where
  "size_ok c \<longleftrightarrow> (\<exists>k. 3 \<le> k \<and> k \<le> 31 \<and> AccessSize c = 2 ^ k)"

definition near_ok :: "tq_config \<Rightarrow> tqueue \<Rightarrow> bool" where
  "near_ok c q \<longleftrightarrow> alen (access q) = AccessSize c \<and> alen (accessTail q) = AccessSize c \<and> 0 \<le> minPos q \<and> minPos q < AccessSize c \<and>
     (\<forall>p. 0 \<le> p \<and> p < AccessSize c \<longrightarrow> (\<exists>xs. bucket c q p xs)) \<and> finite (near q) \<and> nNodes q = int (card (near q)) \<and>
     (\<forall>x\<in>near q. minTime q \<le> TQTime q x \<and> TQTime q x < minTime q + AccessSize c)"

definition far_ok :: "tqueue \<Rightarrow> bool" where
  "far_ok q \<longleftrightarrow> distinct (tooFar q) \<and> set (tooFar q) = {x. qType q x = InTooFarQueue} \<and>
     (\<forall>x\<in>set (tooFar q). minTime q \<le> TQTime q x \<and> TQTime q x < minTime q + 2 ^ 32 \<and> TQTime q x \<le> MaxTime)"

definition min_far :: "tqueue \<Rightarrow> int" where
  "min_far q = (if tooFar q = [] then MaxTime else Min (TQTime q ` set (tooFar q)))"

definition tq_ok :: "tq_config \<Rightarrow> tqueue \<Rightarrow> bool" where
  "tq_ok c q \<longleftrightarrow> size_ok c \<and> near_ok c q \<and> far_ok q \<and> minTooFar q = min_far q"

lemma mask_mod: "size_ok c \<Longrightarrow> x AND AccessMask c = x mod AccessSize c"
  by (auto simp: size_ok_def AccessMask_def take_bit_eq_mask[symmetric] mask_eq_exp_minus_1[symmetric] take_bit_eq_mod)

lemma pos_eq: "size_ok c \<Longrightarrow> uint32 x AND AccessMask c = x mod AccessSize c"
proof -
  assume c: "size_ok c"
  then obtain k where "k \<le> 32" "AccessSize c = 2 ^ k" by (auto simp: size_ok_def)
  then have "AccessSize c dvd 2 ^ 32" by (metis le_imp_power_dvd)
  then show ?thesis unfolding mask_mod[OF c] uint32_def take_bit_eq_mod by (rule mod_mod_cancel)
qed

lemma size_bounds: "size_ok c \<Longrightarrow> 8 \<le> AccessSize c" "size_ok c \<Longrightarrow> AccessSize c \<le> 2 ^ 31"
proof -
  assume "size_ok c"
  then obtain k where k: "3 \<le> k" "k \<le> 31" "AccessSize c = 2 ^ k" by (auto simp: size_ok_def)
  show "8 \<le> AccessSize c" using power_increasing[OF k(1), of "2 :: int"] k(3) by simp
  show "AccessSize c \<le> 2 ^ 31" unfolding k(3) by (rule power_increasing[OF k(2)]) simp
qed

section \<open>Insertion\<close>

lemma uint32_small: "0 \<le> x \<Longrightarrow> x < 2 ^ 32 \<Longrightarrow> uint32 x = x"
  by (simp add: uint32_def take_bit_eq_mod)

lemma bucket_of: "near_ok c q \<Longrightarrow> 0 \<le> p \<Longrightarrow> p < AccessSize c \<Longrightarrow> \<exists>xs. bucket c q p xs"
  unfolding near_ok_def by blast

text \<open>A node enters the list of its tick.\<close>

lemma addNode_run:
  assumes "size_ok c" and "near_ok c q" and "x \<notin> near q" and "TQTime q x = t" and "minTime q \<le> t" and "t < minTime q + AccessSize c"
  shows "\<exists>heads tails next. addNode c x t q = Some (q\<lparr>access := heads, accessTail := tails, TQNext := next,
      qType := (qType q)(x := InFastQueue), nNodes := nNodes q + 1\<rparr>) \<and>
    near_ok c (q\<lparr>access := heads, accessTail := tails, TQNext := next, qType := (qType q)(x := InFastQueue), nNodes := nNodes q + 1\<rparr>)"
proof -
  let ?n = "AccessSize c" and ?p = "(minPos q + t - minTime q) mod AccessSize c"
  have n: "8 \<le> ?n" "?n \<le> 2 ^ 31" using size_bounds[OF assms(1)] by auto
  have p: "0 \<le> ?p" "?p < ?n" using n by auto
  then have b: "inb (access q) ?p" "inb (accessTail q) ?p" using assms(2) by (auto simp: near_ok_def inb_def)
  have len: "alen (access q) = ?n" "alen (accessTail q) = ?n" using assms(2) by (auto simp: near_ok_def)
  obtain xs where xs: "bucket c q ?p xs" using bucket_of[OF assms(2) p] by blast
  have x: "x \<notin> set xs" using xs assms(3) by (auto simp: bucket_def)
  have ass: "\<bar>signed_take_bit 31 (t - minTime q)\<bar> < ?n" using assms(5,6) n by (simp add: signed_take_bit_int_eq_self)
  define heads where "heads = (if xs = [] then up (access q) ?p (Some x) else access q)"
  define next' where "next' = (if xs = [] then TQNext q else (TQNext q)(last xs := Some x))(x := None)"
  let ?q = "q\<lparr>access := heads, accessTail := up (accessTail q) ?p (Some x), TQNext := next', qType := (qType q)(x := InFastQueue), nNodes := nNodes q + 1\<rparr>"
  have run: "addNode c x t q = Some ?q"
  proof (cases xs)
    case Nil
    with xs b show ?thesis using assms(5) ass
      by (auto simp: addNode_def DebugAssert_def Let_def pos_eq[OF assms(1)] bucket_def heads_def next'_def intro!: tqueue.equality)
  next
    case (Cons y ys)
    with xs b show ?thesis using assms(5) ass
      by (auto simp: addNode_def DebugAssert_def Let_def pos_eq[OF assms(1)] bucket_def heads_def next'_def intro!: tqueue.equality)
  qed
  have near: "near ?q = insert x (near q)" by auto
  have pos: "pos_of c ?q y = pos_of c q y" for y by (simp add: pos_of_def)
  have posx: "pos_of c q x = ?p" using assms(4) by (simp add: pos_of_def)
  have same: "bucket c ?q ?p (xs @ [x])"
  proof -
    have "joblinks next' (ix heads ?p) (xs @ [x])"
    proof (cases "xs = []")
      case True
      then show ?thesis using b by (simp add: heads_def next'_def)
    next
      case False
      then show ?thesis using xs x joblinks_append[of "TQNext q" "ix (access q) ?p" xs x]
        by (simp add: heads_def next'_def bucket_def)
    qed
    then show ?thesis using xs x b posx unfolding bucket_def near pos by auto
  qed
  have other: "bucket c ?q p' ys" if "bucket c q p' ys" "p' \<noteq> ?p" for p' ys
  proof -
    have "last xs \<notin> set ys" if "xs \<noteq> []"
      using that \<open>bucket c q p' ys\<close> xs \<open>p' \<noteq> ?p\<close> last_in_set[OF that] by (auto simp: bucket_def)
    moreover have "x \<notin> set ys" using that(1) assms(3) by (auto simp: bucket_def)
    moreover have "ix heads p' = ix (access q) p'" "ix (up (accessTail q) ?p (Some x)) p' = ix (accessTail q) p'"
      using b that(2) by (simp_all add: heads_def ix_up_app)
    ultimately show ?thesis using that posx unfolding bucket_def near pos by (auto simp: next'_def)
  qed
  have "near_ok c ?q"
  proof -
    have "\<exists>ys. bucket c ?q p' ys" if "0 \<le> p'" "p' < ?n" for p'
      using that same other bucket_of[OF assms(2) that] by (cases "p' = ?p") blast+
    moreover have "alen heads = ?n" by (simp add: heads_def len)
    ultimately show ?thesis using assms(2-6) len unfolding near_ok_def near by auto
  qed
  with run show ?thesis by blast
qed

lemma insert_run:
  assumes "tq_ok c q" and "x \<notin> queued q" and "minTime q \<le> t" and "t < minTime q + 2 ^ 32" and "t \<le> MaxTime"
  shows "\<exists>q'. TQ_insert c x t q = Some q' \<and> tq_ok c q' \<and> queued q' = insert x (queued q) \<and> TQTime q' = (TQTime q)(x := t) \<and>
    minTime q' = minTime q"
proof -
  let ?q = "q\<lparr>TQTime := (TQTime q)(x := t)\<rparr>"
  have c: "size_ok c" using assms(1) by (simp add: tq_ok_def)
  have fresh: "qType q x = InNoQueue" using assms(2) by (simp add: queued_def)
  have "bucket c ?q p xs = bucket c q p xs" for p xs
  proof -
    have "{y \<in> near ?q. pos_of c ?q y = p} = {y \<in> near q. pos_of c q y = p}" using fresh by (auto simp: pos_of_def)
    then show ?thesis by (simp add: bucket_def)
  qed
  then have near: "near_ok c ?q" using assms(1) fresh by (auto simp: tq_ok_def near_ok_def)
  have "x \<notin> set (tooFar q)" using assms(1) fresh by (auto simp: tq_ok_def far_ok_def)
  then have img: "TQTime ?q ` set (tooFar q) = TQTime q ` set (tooFar q)" by auto
  have far: "far_ok ?q" "minTooFar ?q = min_far ?q" using assms(1) \<open>x \<notin> set (tooFar q)\<close> img
    by (auto simp: tq_ok_def far_ok_def min_far_def)
  show ?thesis
  proof (cases "t - minTime q < AccessSize c")
    case True
    then have u: "uint32 (t - minTime q) < AccessSize c" using assms(3,4) by (simp add: uint32_small)
    have "x \<notin> near ?q" using fresh by simp
    from addNode_run[OF c near this refl] True assms(3) obtain heads tails nx where
      r: "addNode c x t ?q = Some (?q\<lparr>access := heads, accessTail := tails, TQNext := nx,
          qType := (qType ?q)(x := InFastQueue), nNodes := nNodes ?q + 1\<rparr>)"
        "near_ok c (?q\<lparr>access := heads, accessTail := tails, TQNext := nx, qType := (qType ?q)(x := InFastQueue), nNodes := nNodes ?q + 1\<rparr>)"
      by auto
    let ?q' = "?q\<lparr>access := heads, accessTail := tails, TQNext := nx, qType := (qType ?q)(x := InFastQueue), nNodes := nNodes ?q + 1\<rparr>"
    have "tq_ok c ?q'" using r(2) c far fresh by (auto simp: tq_ok_def far_ok_def min_far_def)
    moreover have "TQ_insert c x t q = Some ?q'"
      using r(1) u fresh assms(3) by (simp add: TQ_insert_def DebugAssert_def Let_def)
    ultimately show ?thesis by (auto simp: queued_def)
  next
    case False
    then have u: "\<not> uint32 (t - minTime q) < AccessSize c" using assms(3,4) by (simp add: uint32_small)
    let ?f = "?q\<lparr>qType := (qType q)(x := InTooFarQueue), tooFar := tooFar q @ [x]\<rparr>"
    let ?q' = "?f\<lparr>minTooFar := min (minTooFar q) t\<rparr>"
    have run: "TQ_insert c x t q = Some ?q'"
      using u fresh assms(3) by (simp add: TQ_insert_def DebugAssert_def Let_def min_def)
    have near_f: "near ?f = near ?q" using fresh by auto
    then have "bucket c ?q' p xs = bucket c ?q p xs" for p xs by (simp add: bucket_def pos_of_def)
    then have "near_ok c ?q'" using near near_f by (simp add: near_ok_def)
    moreover have "far_ok ?q'" using far(1) \<open>x \<notin> set (tooFar q)\<close> assms(3-5) fresh by (auto simp: far_ok_def)
    moreover have "minTooFar ?q' = min_far ?q'"
    proof (cases "tooFar q = []")
      case True
      then show ?thesis using far(2) assms(5) by (simp add: min_far_def)
    next
      case False
      have "TQTime ?q' ` set (tooFar ?q') = insert t (TQTime q ` set (tooFar q))" using img by auto
      then have "min_far ?q' = min t (Min (TQTime q ` set (tooFar q)))" using False by (simp add: min_far_def)
      then show ?thesis using far(2) img False by (simp add: min_far_def min.commute)
    qed
    ultimately have "tq_ok c ?q'" using c by (simp add: tq_ok_def)
    with run show ?thesis by (auto simp: queued_def)
  qed
qed

section \<open>The next job\<close>

lemma adjust_run:
  assumes "front_ok c" and "size_ok c" and "near_ok c q" and "far_ok q" and "tooFar q \<noteq> []"
  shows "\<exists>q'. adjust_loop c q = Some q' \<and> tq_ok c q' \<and> queued q' = queued q \<and> TQTime q' = TQTime q \<and> minTime q' = minTime q \<and>
    (\<forall>x\<in>set (tooFar q'). minTime q + AccessSize c \<le> TQTime q x)"
  using assms(3-5)
proof (induction "length (tooFar q)" arbitrary: q rule: less_induct)
  case less
  let ?x = "front c (TQTime q) (tooFar q)"
  have x: "?x \<in> set (tooFar q)" "\<forall>y\<in>set (tooFar q). TQTime q ?x \<le> TQTime q y" using assms(1) less.prems(3) by (auto simp: front_ok_def)
  then have d: "minTime q \<le> TQTime q ?x" "TQTime q ?x < minTime q + 2 ^ 32" "qType q ?x = InTooFarQueue"
    using less.prems(2) by (auto simp: far_ok_def)
  then have u: "uint32 (TQTime q ?x - minTime q) = TQTime q ?x - minTime q" by (simp add: uint32_small)
  show ?case
  proof (cases "TQTime q ?x < minTime q + AccessSize c")
    case False
    let ?q' = "q\<lparr>minTooFar := TQTime q ?x\<rparr>"
    have "adjust_loop c q = Some ?q'" using False u by (simp add: adjust_loop.simps Let_def)
    moreover have "Min (TQTime q ` set (tooFar q)) = TQTime q ?x" using x by (intro Min_eqI) auto
    then have "tq_ok c ?q'" using assms(2) less.prems by (simp add: tq_ok_def near_ok_def far_ok_def min_far_def bucket_def pos_of_def)
    ultimately show ?thesis using False x(2) by (auto simp: queued_def)
  next
    case True
    have "?x \<notin> near q" using d(3) by simp
    from addNode_run[OF assms(2) less.prems(1) this refl d(1) True] obtain heads tails nx where r: "addNode c ?x (TQTime q ?x) q =
        Some (q\<lparr>access := heads, accessTail := tails, TQNext := nx, qType := (qType q)(?x := InFastQueue), nNodes := nNodes q + 1\<rparr>)"
      "near_ok c (q\<lparr>access := heads, accessTail := tails, TQNext := nx, qType := (qType q)(?x := InFastQueue), nNodes := nNodes q + 1\<rparr>)"
      by blast
    let ?q = "q\<lparr>access := heads, accessTail := tails, TQNext := nx, qType := (qType q)(?x := InFastQueue), nNodes := nNodes q + 1\<rparr>"
    let ?r = "?q\<lparr>tooFar := remove1 ?x (tooFar q)\<rparr>"
    have near: "near_ok c ?r" using r(2) by (simp add: near_ok_def bucket_def pos_of_def)
    have far: "far_ok ?r" using less.prems(2) x(1) by (auto simp: far_ok_def)
    have len: "length (tooFar ?r) < length (tooFar q)" using x(1) by (simp add: length_remove1) (cases "tooFar q"; simp)
    have same: "queued ?r = queued q" using d(3) by (auto simp: queued_def)
    show ?thesis
    proof (cases "tooFar ?r = []")
      case True
      let ?q' = "?r\<lparr>minTooFar := MaxTime\<rparr>"
      have "adjust_loop c q = Some ?q'"
        using True r(1) u \<open>TQTime q ?x < minTime q + AccessSize c\<close> by (subst adjust_loop.simps) (simp add: Let_def)
      moreover have "tq_ok c ?q'" using True near far assms(2)
        by (simp add: tq_ok_def near_ok_def far_ok_def min_far_def bucket_def pos_of_def)
      ultimately show ?thesis using same True by (auto simp: queued_def)
    next
      case False
      have "adjust_loop c q = adjust_loop c ?r"
        using False r(1) u \<open>TQTime q ?x < minTime q + AccessSize c\<close> by (subst adjust_loop.simps) (simp add: Let_def)
      with less.hyps[OF len near far False] same show ?thesis by simp
    qed
  qed
qed

lemma mod_at_start: "0 \<le> (m :: int) \<Longrightarrow> m < n \<Longrightarrow> 0 \<le> d \<Longrightarrow> d < n \<Longrightarrow> (m + d) mod n = m \<longleftrightarrow> d = 0"
proof (cases "m + d < n")
  case False
  assume "0 \<le> m" "m < n" "0 \<le> d" "d < n"
  with False have "(m + d) mod n = m + d - n" using minus_mod_self2[of "m + d" n] mod_pos_pos_trivial[of "m + d - n" n] by linarith
  with False \<open>d < n\<close> \<open>m < n\<close> show ?thesis by auto
qed (simp add: mod_pos_pos_trivial)

lemma pos_of_min:
  assumes "near_ok c q" and "x \<in> near q"
  shows "pos_of c q x = minPos q \<longleftrightarrow> TQTime q x = minTime q"
  using assms mod_at_start[of "minPos q" "AccessSize c" "TQTime q x - minTime q"] by (auto simp: near_ok_def pos_of_def algebra_simps)

lemma take_job_run:
  assumes "tq_ok c q" and "ix (access q) (minPos q) = Some x"
  shows "\<exists>q'. take_job x q = Some q' \<and> tq_ok c q' \<and> x \<in> queued q \<and> TQTime q x = minTime q \<and> queued q' = queued q - {x} \<and>
    TQTime q' = TQTime q \<and> minTime q' = minTime q"
proof -
  let ?n = "AccessSize c" and ?p = "minPos q"
  have ok: "size_ok c" "near_ok c q" "far_ok q" "minTooFar q = min_far q" using assms(1) by (auto simp: tq_ok_def)
  have p: "0 \<le> ?p" "?p < ?n" using ok(2) by (auto simp: near_ok_def)
  have b: "inb (access q) ?p" using ok(2) by (simp add: near_ok_def inb_def)
  obtain xs where "bucket c q ?p xs" using bucket_of[OF ok(2) p] by blast
  then obtain ys where ys: "bucket c q ?p (x # ys)" using assms(2) by (auto simp: bucket_def joblinks_Some)
  then have x: "x \<in> near q" "pos_of c q x = ?p" by (auto simp: bucket_def)
  let ?q' = "q\<lparr>nNodes := nNodes q - 1, access := up (access q) ?p (TQNext q x), qType := (qType q)(x := InNoQueue)\<rparr>"
  have run: "take_job x q = Some ?q'" using b by (simp add: take_job_def)
  have near: "near ?q' = near q - {x}" by auto
  have pos: "pos_of c ?q' y = pos_of c q y" for y by (simp add: pos_of_def)
  have same: "bucket c ?q' ?p ys" using ys b x unfolding bucket_def near pos by auto
  have other: "bucket c ?q' p' zs" if "bucket c q p' zs" "p' \<noteq> ?p" for p' zs
  proof -
    have "{y \<in> near q - {x}. pos_of c q y = p'} = {y \<in> near q. pos_of c q y = p'}" using that(2) x(2) by blast
    moreover have "ix (access ?q') p' = ix (access q) p'" using b that(2) by (simp add: ix_up_app)
    ultimately show ?thesis using that(1) unfolding bucket_def near pos by simp
  qed
  have "\<exists>ys. bucket c ?q' p' ys" if "0 \<le> p'" "p' < ?n" for p'
    using that same other bucket_of[OF ok(2) that] by (cases "p' = ?p") blast+
  then have "\<forall>p'. 0 \<le> p' \<and> p' < ?n \<longrightarrow> (\<exists>ys. bucket c ?q' p' ys)" by blast
  moreover have "finite (near q)" "nNodes q = int (card (near q))" using ok(2) by (simp_all add: near_ok_def)
  then have "int (card (near q - {x})) = nNodes q - 1" using x(1) card_Suc_Diff1[of "near q" x] by linarith
  ultimately have "near_ok c ?q'" using ok(2) p unfolding near_ok_def near by simp
  moreover have "far_ok ?q'" using ok(3) x(1) by (auto simp: far_ok_def)
  ultimately have "tq_ok c ?q'" using ok(1,4) by (simp add: tq_ok_def min_far_def)
  moreover have "TQTime q x = minTime q" using pos_of_min[OF ok(2) x(1)] x(2) by simp
  ultimately show ?thesis using run x(1) by (auto simp: queued_def)
qed

lemma walk_run:
  assumes "tq_ok c q" and "minTime q \<le> cTime" and "\<forall>x\<in>set (tooFar q). cTime \<le> TQTime q x"
  shows "\<exists>r q'. walk c cTime q = Some (r, q') \<and> tq_ok c q' \<and> qType q' = qType q \<and> TQTime q' = TQTime q \<and> minTime q \<le> minTime q' \<and>
    minTime q' \<le> cTime \<and> nNodes q' = nNodes q \<and> r = ix (access q') (minPos q') \<and> (r = None \<longrightarrow> minTime q' = cTime)"
  using assms
proof (induction c cTime q rule: walk.induct)
  case (1 c cTime q)
  have ok: "size_ok c" "near_ok c q" "far_ok q" "minTooFar q = min_far q" using "1.prems"(1) by (auto simp: tq_ok_def)
  have p: "0 \<le> minPos q" "minPos q < AccessSize c" "inb (access q) (minPos q)" using ok(2) by (auto simp: near_ok_def inb_def)
  let ?r = "ix (access q) (minPos q)"
  let ?q = "q\<lparr>minPos := (minPos q + 1) AND AccessMask c, minTime := minTime q + 1\<rparr>"
  have step: "walk c cTime q = (if ?r = None \<and> minTime q < cTime then walk c cTime ?q else Some (?r, q))"
    using p(3) by (subst walk.simps) simp
  show ?case
  proof (cases "?r = None \<and> minTime q < cTime")
    case False
    then show ?thesis using "1.prems" step by auto
  next
    case True
    have n: "8 \<le> AccessSize c" by (rule size_bounds[OF ok(1)])
    have none: "TQTime q x \<noteq> minTime q" if "x \<in> near q" for x
    proof
      assume "TQTime q x = minTime q"
      then have "pos_of c q x = minPos q" using pos_of_min[OF ok(2) that] by simp
      moreover obtain xs where "bucket c q (minPos q) xs" using bucket_of[OF ok(2) p(1,2)] by blast
      ultimately show False using True that by (auto simp: bucket_def)
    qed
    have pos: "pos_of c ?q x = pos_of c q x" for x
    proof -
      have "((minPos q + 1) mod AccessSize c + (TQTime q x - minTime q - 1)) mod AccessSize c = (minPos q + 1 + (TQTime q x - minTime q - 1)) mod AccessSize c"
        by (rule mod_add_left_eq)
      then show ?thesis by (simp add: pos_of_def mask_mod[OF ok(1)] algebra_simps)
    qed
    have "bucket c ?q p xs = bucket c q p xs" for p xs unfolding bucket_def pos by simp
    moreover have "minTime q + 1 \<le> TQTime q x" if "x \<in> near q" for x
      using none[OF that] that ok(2) by (fastforce simp: near_ok_def)
    ultimately have "near_ok c ?q" using ok(2) n by (fastforce simp: near_ok_def mask_mod[OF ok(1)])
    moreover have "far_ok ?q" using ok(3) True "1.prems"(3) by (fastforce simp: far_ok_def)
    ultimately have "tq_ok c ?q" using ok by (simp add: tq_ok_def min_far_def)
    with "1.IH"[of ?r] True "1.prems"(3) step p(3) show ?thesis by auto
  qed
qed

lemma queued_time:
  assumes "tq_ok c q" and "x \<in> queued q"
  shows "minTime q \<le> TQTime q x"
  using assms by (cases "qType q x") (auto simp: tq_ok_def near_ok_def far_ok_def queued_def)

lemma no_far: "tq_ok c q \<Longrightarrow> t < minTooFar q \<Longrightarrow> x \<in> set (tooFar q) \<Longrightarrow> t < TQTime q x"
  by (auto simp: tq_ok_def min_far_def split: if_splits)

text \<open>The common part of a search: the jobs that are still far come after the tick that is asked for.\<close>

lemma search_run:
  assumes "tq_ok c q" and "minTime q \<le> t" and "\<forall>x\<in>set (tooFar q). t < TQTime q x" and "nNodes q \<noteq> 0"
  shows "\<exists>r q'. (do { (first, q) \<leftarrow> walk c t q;
          case first of
            None \<Rightarrow> Some (None, q)
          | Some node \<Rightarrow> do {
              DebugAssert (minTime q \<le> t);
              DebugAssert (nNodes q \<noteq> 0);
              q \<leftarrow> take_job node q;
              Some (Some node, q) } }) = Some (r, q') \<and>
    tq_ok c q' \<and> minTime q \<le> minTime q' \<and> minTime q' \<le> t \<and> TQTime q' = TQTime q \<and>
    (case r of None \<Rightarrow> queued q' = queued q \<and> minTime q' = t \<and> (\<forall>x\<in>queued q. t < TQTime q x)
     | Some x \<Rightarrow> x \<in> queued q \<and> queued q' = queued q - {x} \<and> TQTime q x \<le> t \<and> (\<forall>y\<in>queued q. TQTime q x \<le> TQTime q y))"
proof -
  have "\<forall>x\<in>set (tooFar q). t \<le> TQTime q x" using assms(3) by auto
  from walk_run[OF assms(1,2) this] obtain r u where
    u: "walk c t q = Some (r, u)" "tq_ok c u" "qType u = qType q" "TQTime u = TQTime q" "minTime q \<le> minTime u" "minTime u \<le> t"
      "nNodes u = nNodes q" "r = ix (access u) (minPos u)" "r = None \<longrightarrow> minTime u = t"
    by (elim exE conjE) (rule that; assumption)
  have q: "queued u = queued q" using u(3) by (simp add: queued_def)
  have low: "minTime u \<le> TQTime q x" if "x \<in> queued q" for x using queued_time[OF u(2), of x] that q u(4) by simp
  show ?thesis
  proof (cases r)
    case None
    have "t < TQTime q x" if x: "x \<in> queued q" for x
    proof (cases "qType q x")
      case InFastQueue
      have ok: "near_ok c u" using u(2) by (simp add: tq_ok_def)
      then have "0 \<le> minPos u" "minPos u < AccessSize c" by (auto simp: near_ok_def)
      then obtain xs where "bucket c u (minPos u) xs" using bucket_of[OF ok] by blast
      then have "pos_of c u x \<noteq> minPos u" using None u(3,8) InFastQueue by (auto simp: bucket_def)
      then have "TQTime q x \<noteq> minTime u" using pos_of_min[OF ok, of x] u(3,4) InFastQueue by simp
      then show ?thesis using low[OF x] u(9) None by simp
    next
      case InTooFarQueue
      then show ?thesis using assms(1,3) by (auto simp: tq_ok_def far_ok_def)
    qed (use x in \<open>simp add: queued_def\<close>)
    then show ?thesis using None u q by auto
  next
    case (Some x)
    then have "ix (access u) (minPos u) = Some x" using u(8) by simp
    from take_job_run[OF u(2) this] obtain q' where
      "take_job x u = Some q'" "tq_ok c q'" "x \<in> queued u" "TQTime u x = minTime u" "queued q' = queued u - {x}" "TQTime q' = TQTime u"
        "minTime q' = minTime u" by blast
    then show ?thesis using Some u q assms(4) low by (auto simp: DebugAssert_def)
  qed
qed

lemma nextJob_run:
  assumes "front_ok c" and "tq_ok c q" and "minTime q \<le> t" and "t < minTime q + AccessSize c" and "t < MaxTime"
  shows "\<exists>r q'. nextJob c t q = Some (r, q') \<and> tq_ok c q' \<and> minTime q \<le> minTime q' \<and> minTime q' \<le> t \<and> TQTime q' = TQTime q \<and>
    (case r of None \<Rightarrow> queued q' = queued q \<and> minTime q' = t \<and> (\<forall>x\<in>queued q. t < TQTime q x)
     | Some x \<Rightarrow> x \<in> queued q \<and> queued q' = queued q - {x} \<and> TQTime q x \<le> t \<and> (\<forall>y\<in>queued q. TQTime q x \<le> TQTime q y))"
proof -
  have ok: "size_ok c" "near_ok c q" "far_ok q" using assms(2) by (auto simp: tq_ok_def)
  have b: "inb (access q) (minPos q)" using ok(2) by (simp add: near_ok_def inb_def)
  let ?r = "ix (access q) (minPos q)"
  show ?thesis
  proof (cases "?r \<noteq> None \<and> minTime q = t")
    case True
    then obtain x where x: "?r = Some x" by blast
    from take_job_run[OF assms(2) x] obtain q' where "take_job x q = Some q'" "tq_ok c q'" "x \<in> queued q" "TQTime q x = minTime q"
      "queued q' = queued q - {x}" "TQTime q' = TQTime q" "minTime q' = minTime q" by blast
    then show ?thesis using True x b queued_time[OF assms(2)] by (auto simp: nextJob_def)
  next
    case False
    obtain u where u: "(if minTooFar q \<le> t then adjustTooFar c q else Some q) = Some u" "tq_ok c u" "queued u = queued q" "TQTime u = TQTime q"
      "minTime u = minTime q" "\<forall>x\<in>set (tooFar u). t < TQTime q x"
    proof (cases "minTooFar q \<le> t")
      case True
      then have "tooFar q \<noteq> []" using assms(2,5) by (auto simp: tq_ok_def min_far_def)
      from adjust_run[OF assms(1) ok this] this True assms(4) show ?thesis
        by (auto simp: adjustTooFar_def DebugAssert_def intro!: that)
    next
      case False
      then show ?thesis using no_far[OF assms(2), of t] assms(2) by (auto intro: that)
    qed
    show ?thesis
    proof (cases "nNodes u = 0")
      case True
      let ?u = "u\<lparr>minTime := t, minPos := 0\<rparr>"
      have n: "size_ok c" "near_ok c u" "far_ok u" "minTooFar u = min_far u" using u(2) by (auto simp: tq_ok_def)
      then have none: "near u = {}" using True by (auto simp: near_ok_def)
      have "bucket c ?u p []" if p: "0 \<le> p" "p < AccessSize c" for p
      proof -
        obtain xs where "bucket c u p xs" using bucket_of[OF n(2) p] by blast
        with none show ?thesis by (auto simp: bucket_def)
      qed
      then have "near_ok c ?u" using n(2) none size_bounds(1)[OF n(1)] unfolding near_ok_def by auto
      moreover have "far_ok ?u" using n(3) u(4-6) assms(3) by (fastforce simp: far_ok_def)
      ultimately have "tq_ok c ?u" using n by (simp add: tq_ok_def min_far_def)
      moreover have "t < TQTime q x" if "x \<in> queued q" for x
      proof -
        have "qType u x = InTooFarQueue" using that u(3) none by (cases "qType u x") (auto simp: queued_def)
        then show ?thesis using u(6) n(3) by (auto simp: far_ok_def)
      qed
      moreover have "nextJob c t q = Some (None, ?u)" using False b u(1) True by (auto simp: nextJob_def)
      ultimately show ?thesis using u assms(3) by (auto simp: queued_def)
    next
      case nz: False
      have "minTime u \<le> t" "\<forall>x\<in>set (tooFar u). t < TQTime u x" using u assms(3) by auto
      from search_run[OF u(2) this nz] obtain r q' where s: "(do { (first, q) \<leftarrow> walk c t u;
          case first of
            None \<Rightarrow> Some (None, q)
          | Some node \<Rightarrow> do {
              DebugAssert (minTime q \<le> t);
              DebugAssert (nNodes q \<noteq> 0);
              q \<leftarrow> take_job node q;
              Some (Some node, q) } }) = Some (r, q')"
        "tq_ok c q'" "minTime u \<le> minTime q'" "minTime q' \<le> t" "TQTime q' = TQTime u"
        "case r of None \<Rightarrow> queued q' = queued u \<and> minTime q' = t \<and> (\<forall>x\<in>queued u. t < TQTime u x)
         | Some x \<Rightarrow> x \<in> queued u \<and> queued q' = queued u - {x} \<and> TQTime u x \<le> t \<and> (\<forall>y\<in>queued u. TQTime u x \<le> TQTime u y)" by blast
      have "nextJob c t q = Some (r, q')" using False b u(1) nz s(1) by (auto simp: nextJob_def)
      then show ?thesis using s(2-6)[unfolded u(3-5)] by blast
    qed
  qed
qed

section \<open>The clock\<close>

text \<open>
  What the loop of the clock relies on: asked at a tick at which it may be asked (\<open>good\<close>), the queue gives an earliest
  job that is due, or tells that none is due and may then be asked at the following tick.
\<close>

locale job_queue =
  fixes next_job :: "int \<Rightarrow> 'q \<Rightarrow> (nat option \<times> 'q) option"
    and waiting :: "'q \<Rightarrow> nat set"
    and due :: "'q \<Rightarrow> nat \<Rightarrow> int"
    and good :: "int \<Rightarrow> 'q \<Rightarrow> bool"
    and last_tick :: int
  assumes next_good: "good t q \<Longrightarrow> \<exists>r q'. next_job t q = Some (r, q') \<and> good t q' \<and> due q' = due q \<and>
      (case r of
         None \<Rightarrow> waiting q' = waiting q \<and> (\<forall>x\<in>waiting q. t < due q x) \<and> (t + 1 < last_tick \<longrightarrow> good (t + 1) q')
       | Some x \<Rightarrow> x \<in> waiting q \<and> waiting q' = waiting q - {x} \<and> due q x \<le> t \<and> (\<forall>y\<in>waiting q. due q x \<le> due q y))"
    and waiting_finite: "good t q \<Longrightarrow> finite (waiting q)"
begin

text \<open>What a job may do: it schedules jobs of later ticks.\<close>

definition schedules_later :: "(nat \<Rightarrow> int \<Rightarrow> 'q \<Rightarrow> 'q option) \<Rightarrow> int \<Rightarrow> bool" where
  "schedules_later call t \<longleftrightarrow> (\<forall>x q. good t q \<longrightarrow> (\<exists>q'. call x t q = Some q' \<and> good t q' \<and> waiting q \<subseteq> waiting q' \<and>
     (\<forall>y\<in>waiting q. due q' y = due q y) \<and> (\<forall>y\<in>waiting q' - waiting q. t < due q' y)))"

lemma run_jobs_due:
  assumes "good t q" and "schedules_later call t" and "t + 1 < last_tick"
  shows "\<exists>js q'. run_jobs next_job call t q = Some (js, q') \<and> set js = {x \<in> waiting q. due q x \<le> t} \<and> distinct js \<and>
    sorted (map (due q) js) \<and> good (t + 1) q' \<and> (\<forall>x\<in>waiting q'. t < due q' x) \<and>
    (\<forall>x\<in>waiting q. t < due q x \<longrightarrow> x \<in> waiting q' \<and> due q' x = due q x)"
  using assms(1)
proof (induction "card {x \<in> waiting q. due q x \<le> t}" arbitrary: q rule: less_induct)
  case less
  from next_good[OF less.prems] obtain r u where u: "next_job t q = Some (r, u)" "good t u" "due u = due q"
    "case r of None \<Rightarrow> waiting u = waiting q \<and> (\<forall>x\<in>waiting q. t < due q x) \<and> (t + 1 < last_tick \<longrightarrow> good (t + 1) u)
     | Some x \<Rightarrow> x \<in> waiting q \<and> waiting u = waiting q - {x} \<and> due q x \<le> t \<and> (\<forall>y\<in>waiting q. due q x \<le> due q y)" by blast
  show ?case
  proof (cases r)
    case None
    with u assms(3) have w: "waiting u = waiting q" "\<forall>x\<in>waiting q. t < due q x" "good (t + 1) u" by auto
    have "run_jobs next_job call t q = Some ([], u)" using u(1) None by (simp add: run_jobs.simps)
    moreover have "{x \<in> waiting q. due q x \<le> t} = {}" using w(2) by force
    ultimately show ?thesis using w u(3) by simp
  next
    case (Some x)
    with u have x: "x \<in> waiting q" "waiting u = waiting q - {x}" "due q x \<le> t" "\<forall>y\<in>waiting q. due q x \<le> due q y" by auto
    from assms(2) u(2) obtain v where v: "call x t u = Some v" "good t v" "waiting u \<subseteq> waiting v"
      "\<forall>y\<in>waiting u. due v y = due q y" "\<forall>y\<in>waiting v - waiting u. t < due v y" unfolding schedules_later_def u(3)[symmetric] by blast
    have left: "{y \<in> waiting v. due v y \<le> t} = {y \<in> waiting q. due q y \<le> t} - {x}"
    proof (intro set_eqI iffI)
      fix y assume "y \<in> {y \<in> waiting v. due v y \<le> t}"
      then have y: "y \<in> waiting v" "due v y \<le> t" by auto
      then have "y \<in> waiting u" using v(5) by force
      then show "y \<in> {y \<in> waiting q. due q y \<le> t} - {x}" using v(4) x(2) y(2) by auto
    next
      fix y assume "y \<in> {y \<in> waiting q. due q y \<le> t} - {x}"
      then have "y \<in> waiting u" "due q y \<le> t" using x(2) by auto
      then show "y \<in> {y \<in> waiting v. due v y \<le> t}" using v(3,4) by auto
    qed
    have "card {y \<in> waiting v. due v y \<le> t} < card {y \<in> waiting q. due q y \<le> t}"
      unfolding left by (rule card_Diff1_less) (use x waiting_finite[OF less.prems] in auto)
    from less.hyps[OF this v(2)] obtain js w where w: "run_jobs next_job call t v = Some (js, w)" "set js = {y \<in> waiting v. due v y \<le> t}"
      "distinct js" "sorted (map (due v) js)" "good (t + 1) w" "\<forall>y\<in>waiting w. t < due w y"
      "\<forall>y\<in>waiting v. t < due v y \<longrightarrow> y \<in> waiting w \<and> due w y = due v y" by blast
    have run: "run_jobs next_job call t q = Some (x # js, w)" using u(1) v(1) w(1) Some by (subst run_jobs.simps) simp
    have js: "set js = {y \<in> waiting q. due q y \<le> t} - {x}" using w(2) left by simp
    then have "\<forall>y\<in>set js. due v y = due q y" using v(4) x(2) by blast
    then have "map (due v) js = map (due q) js" by simp
    with w(4) have "sorted (map (due q) js)" by (rule subst[rotated])
    then have "sorted (map (due q) (x # js))" using js x(4) by simp
    moreover have "set (x # js) = {y \<in> waiting q. due q y \<le> t}" "distinct (x # js)"
      unfolding list.set distinct.simps js using w(3) x(1,3) by blast+
    moreover have "y \<in> waiting w \<and> due w y = due q y" if "y \<in> waiting q" "t < due q y" for y
      proof -
      have "y \<noteq> x" using that(2) x(3) by force
      then have "y \<in> waiting u" using that(1) x(2) by blast
      then have "y \<in> waiting v" "due v y = due q y" using v(3,4) by blast+
      then show ?thesis using w(7) that(2) by simp
    qed
    ultimately show ?thesis using run w(5,6) by blast
  qed
qed

end

text \<open>A tick at which the queue may be asked.\<close>

definition askable :: "tq_config \<Rightarrow> int \<Rightarrow> tqueue \<Rightarrow> bool" where
  "askable c t q \<longleftrightarrow> front_ok c \<and> tq_ok c q \<and> minTime q \<le> t \<and> t < minTime q + AccessSize c \<and> t < MaxTime"

interpretation tq: job_queue "nextJob c" queued TQTime "askable c" MaxTime for c
proof
  fix t q
  assume a: "askable c t q"
  then have n: "8 \<le> AccessSize c" using size_bounds(1) by (auto simp: askable_def tq_ok_def)
  from a have a': "front_ok c" "tq_ok c q" "minTime q \<le> t" "t < minTime q + AccessSize c" "t < MaxTime" by (auto simp: askable_def)
  from nextJob_run[OF this] obtain r q' where r: "nextJob c t q = Some (r, q')" "tq_ok c q'" "minTime q \<le> minTime q'" "minTime q' \<le> t"
    "TQTime q' = TQTime q" "case r of None \<Rightarrow> queued q' = queued q \<and> minTime q' = t \<and> (\<forall>x\<in>queued q. t < TQTime q x)
     | Some x \<Rightarrow> x \<in> queued q \<and> queued q' = queued q - {x} \<and> TQTime q x \<le> t \<and> (\<forall>y\<in>queued q. TQTime q x \<le> TQTime q y)" by blast
  have "askable c t q'" using r a' by (simp add: askable_def)
  moreover have "t + 1 < MaxTime \<longrightarrow> askable c (t + 1) q'" if "r = None" using that r a' n by (simp add: askable_def)
  ultimately show "\<exists>r q'. nextJob c t q = Some (r, q') \<and> askable c t q' \<and> TQTime q' = TQTime q \<and>
      (case r of None \<Rightarrow> queued q' = queued q \<and> (\<forall>x\<in>queued q. t < TQTime q x) \<and> (t + 1 < MaxTime \<longrightarrow> askable c (t + 1) q')
       | Some x \<Rightarrow> x \<in> queued q \<and> queued q' = queued q - {x} \<and> TQTime q x \<le> t \<and> (\<forall>y\<in>queued q. TQTime q x \<le> TQTime q y))"
    using r by (intro exI[of _ r] exI[of _ q']) (auto split: option.splits)
next
  fix t q
  assume "askable c t q"
  then have "finite (near q)" "set (tooFar q) = {x. qType q x = InTooFarQueue}" by (auto simp: askable_def tq_ok_def near_ok_def far_ok_def)
  moreover have "queued q \<subseteq> near q \<union> {x. qType q x = InTooFarQueue}" unfolding queued_def using QueueType.exhaust by blast
  ultimately show "finite (queued q)" by (metis List.finite_set finite_UnI finite_subset)
qed

text \<open>The clock and the queue: no job is late.\<close>

definition clock_ok :: "tq_config \<Rightarrow> int \<times> tqueue \<Rightarrow> bool" where
  "clock_ok c = (\<lambda>(t, q). askable c t q \<and> (\<forall>x\<in>queued q. t \<le> TQTime q x))"

text \<open>\<open>schedule\<close> of a job that is in no queue, at a later tick that is not more than \<open>MaxDeltaTime\<close> away.\<close>

lemma schedule_run:
  assumes "askable c t q" and "x \<notin> queued q" and "0 < delta" and "delta \<le> MaxDeltaTime" and "t + delta \<le> MaxTime"
  shows "\<exists>q'. schedule c delta x t q = Some q' \<and> askable c t q' \<and> queued q' = insert x (queued q) \<and> TQTime q' = (TQTime q)(x := t + delta)"
proof -
  have a: "front_ok c" "tq_ok c q" "minTime q \<le> t" "t < minTime q + AccessSize c" "t < MaxTime" using assms(1) by (auto simp: askable_def)
  have "AccessSize c \<le> 2 ^ 31" using a(2) size_bounds(2) by (auto simp: tq_ok_def)
  then have "minTime q \<le> t + delta" "t + delta < minTime q + 2 ^ 32" using a assms(3,4) by (auto simp: MaxDeltaTime_def)
  from insert_run[OF a(2) assms(2) this assms(5)] show ?thesis using a assms(3,4) by (auto simp: schedule_def DebugAssert_def askable_def)
qed

text \<open>A call that schedules each of a list of jobs, if it is in no queue.\<close>

fun schedule_jobs :: "tq_config \<Rightarrow> (nat \<times> int) list \<Rightarrow> int \<Rightarrow> tqueue \<Rightarrow> tqueue option" where
  "schedule_jobs c [] t q = Some q"
| "schedule_jobs c ((x, delta) # xs) t q =
     (if x \<in> queued q then schedule_jobs c xs t q else Option.bind (schedule c delta x t q) (schedule_jobs c xs t))"

definition in_range :: "int \<Rightarrow> (nat \<times> int) list \<Rightarrow> bool" where
  "in_range t xs \<longleftrightarrow> (\<forall>(x, delta)\<in>set xs. 0 < delta \<and> delta \<le> MaxDeltaTime \<and> t + delta \<le> MaxTime)"

lemma schedule_jobs_run:
  "askable c t q \<Longrightarrow> in_range t xs \<Longrightarrow> \<exists>q'. schedule_jobs c xs t q = Some q' \<and> askable c t q' \<and> queued q \<subseteq> queued q' \<and>
    (\<forall>y\<in>queued q. TQTime q' y = TQTime q y) \<and> (\<forall>y\<in>queued q' - queued q. t < TQTime q' y)"
proof (induction xs arbitrary: q)
  case (Cons p xs)
  obtain x delta where p: "p = (x, delta)" by (cases p)
  have rest: "in_range t xs" and d: "0 < delta" "delta \<le> MaxDeltaTime" "t + delta \<le> MaxTime" using Cons.prems(2) p by (auto simp: in_range_def)
  show ?case
  proof (cases "x \<in> queued q")
    case True
    then show ?thesis using Cons.IH[OF Cons.prems(1) rest] p by simp
  next
    case False
    from schedule_run[OF Cons.prems(1) False d] obtain u where u: "schedule c delta x t q = Some u" "askable c t u"
      "queued u = insert x (queued q)" "TQTime u = (TQTime q)(x := t + delta)" by blast
    from Cons.IH[OF u(2) rest] obtain v where v: "schedule_jobs c xs t u = Some v" "askable c t v" "queued u \<subseteq> queued v"
      "\<forall>y\<in>queued u. TQTime v y = TQTime u y" "\<forall>y\<in>queued v - queued u. t < TQTime v y" by blast
    have "t < TQTime v y" if "y \<in> queued v - queued q" for y
      using that u(3,4) v(4,5) d(1) by (cases "y = x") auto
    then show ?thesis using False p u v by (intro exI[of _ v]) auto
  qed
qed auto

section \<open>Properties\<close>

text \<open>
  C39: Every job runs at its tick. The clock advances from a state in which no job is late without a failed
  assertion, a null pointer or an access outside an array, and in finitely many steps: it calls exactly the jobs
  of its tick, each once; the others stay queued with their ticks, and again no job is late.
\<close>
theorem advanceClock_runs_due:
  assumes "clock_ok c (t, q)" and "t + 1 < MaxTime" and "\<forall>x. in_range t (new x)"
  shows "\<exists>js q'. advanceClock c (\<lambda>x. schedule_jobs c (new x)) (t, q) = Some (js, t + 1, q') \<and> set js = {x \<in> queued q. TQTime q x = t} \<and>
    distinct js \<and> clock_ok c (t + 1, q') \<and> (\<forall>x\<in>queued q. t < TQTime q x \<longrightarrow> x \<in> queued q' \<and> TQTime q' x = TQTime q x)"
proof -
  have a: "askable c t q" "\<forall>x\<in>queued q. t \<le> TQTime q x" using assms(1) by (auto simp: clock_ok_def)
  have "tq.schedules_later c (\<lambda>x. schedule_jobs c (new x)) t"
    unfolding tq.schedules_later_def using schedule_jobs_run assms(3) by blast
  from tq.run_jobs_due[OF a(1) this assms(2)] obtain js q' where r: "run_jobs (nextJob c) (\<lambda>x. schedule_jobs c (new x)) t q = Some (js, q')"
    "set js = {x \<in> queued q. TQTime q x \<le> t}" "distinct js" "askable c (t + 1) q'" "\<forall>x\<in>queued q'. t < TQTime q' x"
    "\<forall>x\<in>queued q. t < TQTime q x \<longrightarrow> x \<in> queued q' \<and> TQTime q' x = TQTime q x" by blast
  have "set js = {x \<in> queued q. TQTime q x = t}" using r(2) a(2) by force
  moreover have "clock_ok c (t + 1, q')" using r(4,5) by (auto simp: clock_ok_def)
  ultimately show ?thesis using r by (auto simp: advanceClock_def)
qed

text \<open>A queue of 8 near ticks.\<close>

definition demo_tq :: tq_config where
  "demo_tq = \<lparr>AccessSize = 8, front = arg_min_list\<rparr>"

definition demo_queue :: "tqueue option" where
  "demo_queue = new_TQueue demo_tq (replicate 8 None) (\<lambda>_. 0) (\<lambda>_. None)"

lemma new_queue_ok:
  assumes "size_ok c" and "alen tails = AccessSize c"
  shows "\<exists>q. new_TQueue c tails ts ns = Some q \<and> tq_ok c q \<and> queued q = {} \<and> minTime q = 0"
proof -
  have n: "8 \<le> AccessSize c" by (rule size_bounds[OF assms(1)])
  let ?q = "\<lparr>minTime = 0, minPos = 0, nNodes = 0, access = fill (AccessSize c) None, accessTail = tails, tooFar = [], minTooFar = MaxTime,
       TQTime = ts, TQNext = ns, qType = (\<lambda>_. InNoQueue)\<rparr>"
  have "AccessSize c AND (AccessSize c - 1) = 0" using mask_mod[OF assms(1), of "AccessSize c"] by (simp add: AccessMask_def)
  then have "new_TQueue c tails ts ns = Some ?q" using n by (simp add: new_TQueue_def DebugAssert_def)
  moreover have "bucket c ?q p []" if "0 \<le> p" "p < AccessSize c" for p using that by (simp add: bucket_def)
  then have "near_ok c ?q" using n assms(2) unfolding near_ok_def by auto
  then have "tq_ok c ?q" using assms(1) by (simp add: tq_ok_def far_ok_def min_far_def)
  ultimately show ?thesis by (auto simp: queued_def)
qed

lemma demo_tq_ok: "front_ok demo_tq" "size_ok demo_tq"
  by (auto simp: front_ok_def size_ok_def demo_tq_def f_arg_min_list_f arg_min_list_in intro!: exI[of _ 3])

theorem advanceClock_runs_due_witness:
  "\<exists>q q1 q2 q'. demo_queue = Some q \<and> TQ_insert demo_tq 1 0 q = Some q1 \<and> TQ_insert demo_tq 2 5 q1 = Some q2 \<and>
    advanceClock demo_tq (\<lambda>x. schedule_jobs demo_tq [(x, 3)]) (0, q2) = Some ([1], 1, q') \<and> clock_ok demo_tq (1, q') \<and>
    2 \<in> queued q' \<and> TQTime q' 2 = 5"
proof -
  have "alen (replicate 8 (None :: nat option)) = AccessSize demo_tq" by (simp add: alen_def demo_tq_def)
  from new_queue_ok[OF demo_tq_ok(2) this, of "\<lambda>_. 0" "\<lambda>_. None"] obtain q where
    q: "demo_queue = Some q" "tq_ok demo_tq q" "queued q = {}" "minTime q = 0" by (auto simp: demo_queue_def)
  obtain q1 where q1: "TQ_insert demo_tq 1 0 q = Some q1" "tq_ok demo_tq q1" "queued q1 = {1}" "TQTime q1 1 = 0" "minTime q1 = 0"
    using insert_run[OF q(2), of 1 0] q(3,4) by (auto simp: MaxTime_def)
  obtain q2 where q2: "TQ_insert demo_tq 2 5 q1 = Some q2" "tq_ok demo_tq q2" "queued q2 = {2, 1}" "TQTime q2 = (TQTime q1)(2 := 5)"
    "minTime q2 = 0" using insert_run[OF q1(2), of 2 5] q1(3,5) by (auto simp: MaxTime_def)
  have "clock_ok demo_tq (0, q2)" using demo_tq_ok q1(4) q2 by (auto simp: clock_ok_def askable_def MaxTime_def demo_tq_def)
  moreover have "(0 :: int) + 1 < MaxTime" "\<forall>x. in_range 0 [(x :: nat, 3)]" by (simp_all add: MaxTime_def in_range_def MaxDeltaTime_def)
  ultimately obtain js q' where r: "advanceClock demo_tq (\<lambda>x. schedule_jobs demo_tq [(x, 3)]) (0, q2) = Some (js, 1, q')"
    "set js = {x \<in> queued q2. TQTime q2 x = 0}" "distinct js" "clock_ok demo_tq (1, q')" "2 \<in> queued q' \<and> TQTime q' 2 = 5"
    using advanceClock_runs_due[of demo_tq 0 q2 "\<lambda>x. [(x, 3)]"] q2(3,4) by auto
  have "set js = {1}" using r(2) q1(4) q2(3,4) by auto
  then have "js = [1]" using r(3) by (cases js; cases "tl js") auto
  with q q1 q2 r show ?thesis by blast
qed

lemma remove_keeps_type:
  assumes "TQ_remove c x q = Some q'" and "x \<in> queued q" and "rd (access q) (minPos q) \<noteq> Some (Some x)"
  shows "qType q' x \<noteq> InNoQueue"
  using assms
  by (cases "qType q x") (auto simp: TQ_remove_def queued_def Let_def DebugAssert_def Option.bind_eq_Some_conv split: option.splits if_splits)

text \<open>
  C40: \<open>reschedule\<close> works only for the first job of the current tick's list: any other queued job is taken out of its
  list or heap, but stays marked as queued, so the assertion that follows fails.
\<close>
theorem reschedule_only_first:
  assumes "tq_ok c q" and "x \<in> queued q" and "minTime q \<le> t" and "t < minTime q + 2 ^ 32" and "t \<le> MaxTime"
  shows "TQ_reschedule c x t q \<noteq> None \<longleftrightarrow> rd (access q) (minPos q) = Some (Some x)"
proof (cases "rd (access q) (minPos q) = Some (Some x)")
  case False
  then show ?thesis using remove_keeps_type[OF _ assms(2) False]
    by (cases "TQ_remove c x q") (auto simp: TQ_reschedule_def DebugAssert_def)
next
  case True
  have "inb (access q) (minPos q)" using assms(1) by (simp add: tq_ok_def near_ok_def inb_def)
  with True have h: "ix (access q) (minPos q) = Some x" by simp
  from take_job_run[OF assms(1) this] obtain u where u: "take_job x q = Some u" "tq_ok c u" "queued u = queued q - {x}" "minTime u = minTime q"
    by blast
  have n: "near_ok c q" "0 \<le> minPos q" "minPos q < AccessSize c" using assms(1) by (simp_all add: tq_ok_def near_ok_def)
  from bucket_of[OF this] obtain xs where "bucket c q (minPos q) xs" by blast
  then have "joblinks (TQNext q) (Some x) xs" and sub: "set xs \<subseteq> near q" 
    unfolding bucket_def h by blast+
  then have "x \<in> set xs" by (auto simp: joblinks_Some)
  then have "qType q x = InFastQueue" using sub by blast
  then have "TQ_remove c x q = Some u" using True u(1) by (simp add: TQ_remove_def)
  moreover have "x \<notin> queued u" using u(3) by simp
  with insert_run[OF u(2) this, of t] assms(3-5) u(4) obtain v where "TQ_insert c x t u = Some v" by auto
  moreover have "qType u x = InNoQueue" using \<open>x \<notin> queued u\<close> by (simp add: queued_def)
  ultimately show ?thesis using True by (simp add: TQ_reschedule_def DebugAssert_def)
qed

theorem reschedule_only_first_witness:
  "\<exists>q q'. demo_queue = Some q \<and> TQ_insert demo_tq 1 3 q = Some q' \<and> TQ_reschedule demo_tq 1 5 q' = None"
proof -
  have "alen (replicate 8 (None :: nat option)) = AccessSize demo_tq" by (simp add: alen_def demo_tq_def)
  from new_queue_ok[OF demo_tq_ok(2) this, of "\<lambda>_. 0" "\<lambda>_. None"] obtain q where
    q: "demo_queue = Some q" "tq_ok demo_tq q" "queued q = {}" "minTime q = 0" by (auto simp: demo_queue_def)
  have "(1 :: nat) \<notin> queued q" "minTime q \<le> 3" "3 < minTime q + 2 ^ 32" "(3 :: int) \<le> MaxTime" using q by (simp_all add: MaxTime_def)
  from insert_run[OF q(2) this] obtain q' where
    i: "TQ_insert demo_tq 1 3 q = Some q'" "tq_ok demo_tq q'" "1 \<in> queued q'" "TQTime q' 1 = 3" "minTime q' = 0" using q(4) by auto
  have "rd (access q') (minPos q') \<noteq> Some (Some 1)"
  proof
    assume h: "rd (access q') (minPos q') = Some (Some 1)"
    then have "ix (access q') (minPos q') = Some 1" by (auto simp: rd_def split: if_splits)
    from take_job_run[OF i(2) this] show False using i(4,5) by auto
  qed
  with reschedule_only_first[OF i(2,3), of 5] i(1,5) q(1) show ?thesis by (auto simp: MaxTime_def)
qed

text \<open>
  A difference of times is cut to 32 bits before it is compared: a job that is scheduled for a tick more than
  \<open>2 ^ 32\<close> ahead runs at once.
\<close>
theorem far_job_runs_early:
  "returns demo_queue (\<lambda>q. returns (TQ_insert demo_tq 1 (2 ^ 32 + 1) q) (\<lambda>q. returns (nextJob demo_tq 0 q) (\<lambda>(r, q). r = None \<and>
     returns (nextJob demo_tq 1 q) (\<lambda>(r, q). r = Some 1 \<and> TQTime q 1 = 2 ^ 32 + 1))))"
  by (simp add: demo_queue_def new_TQueue_def demo_tq_def DebugAssert_def TQ_insert_def addNode_def uint32_def AccessMask_def MaxTime_def
    fill_def rd_def wr_def inb_def alen_def ix_def up_def nextJob_def walk.simps take_job_def Let_def)

end
