(* ===== verification/Interleaving.thy ===== *)
theory Interleaving
  imports Prelude "HOL-Library.Word"
begin

text \<open>
  Threads that run interleaved on a shared store, and the contract of a lock word: whoever
  moves it from free to taken holds it, and only the holder frees it.
\<close>

inductive reach :: "('s \<Rightarrow> bool) \<Rightarrow> ('s \<Rightarrow> 's \<Rightarrow> bool) \<Rightarrow> 's \<Rightarrow> bool" for init step where
  reach_init: "init s \<Longrightarrow> reach init step s"
| reach_step: "reach init step s \<Longrightarrow> step s s' \<Longrightarrow> reach init step s'"

lemma reach_invariant:
  assumes "reach init step s" and "\<And>s. init s \<Longrightarrow> I s" and "\<And>s s'. reach init step s \<Longrightarrow> I s \<Longrightarrow> step s s' \<Longrightarrow> I s'"
  shows "I s"
  using assms(1) by (induction rule: reach.induct) (use assms in blast)+

text \<open>
  \<open>act t p m\<close> is the next atomic action of thread \<open>t\<close> at program point \<open>p\<close> on the store
  \<open>m\<close>: the list of possible results (more than one where the thread chooses what to call).
\<close>

type_synonym ('p, 'm) action = "nat \<Rightarrow> 'p \<Rightarrow> 'm \<Rightarrow> ('m \<times> 'p) list"

inductive interleave :: "nat set \<Rightarrow> ('p, 'm) action \<Rightarrow> 'm \<times> (nat \<Rightarrow> 'p) \<Rightarrow> 'm \<times> (nat \<Rightarrow> 'p) \<Rightarrow> bool"
  for T act where
  run: "t \<in> T \<Longrightarrow> (m', p') \<in> set (act t (ps t) m) \<Longrightarrow> interleave T act (m, ps) (m', ps(t := p'))"

inductive_cases interleaveE: "interleave T act s s'"
inductive_simps interleave_iff: "interleave T act (m, ps) s'"

text \<open>
  A run chosen by a schedule, the threads in order and the number of the alternative each takes, with
  the program points of the first threads in a list; all other threads stay at \<open>d\<close>.
\<close>

definition points :: "'p \<Rightarrow> 'p list \<Rightarrow> nat \<Rightarrow> 'p" where
  "points d xs = (\<lambda>t. if t < length xs then xs ! t else d)"

lemma points_simps [simp]:
  "points d [] = (\<lambda>_. d)" "points d (x # xs) 0 = x" "points d (x # xs) (Suc t) = points d xs t"
  by (auto simp: points_def)

lemma points_numeral [simp]: "points d (x # xs) (numeral n) = points d xs (pred_numeral n)"
  by (simp add: numeral_eq_Suc)

lemma points_update: "t < length xs \<Longrightarrow> points d (xs[t := x]) = (points d xs)(t := x)"
  by (auto simp: points_def)

lemma points_replicate: "points d (replicate n d) = (\<lambda>_. d)"
  by (auto simp: points_def)

fun run_schedule :: "('p, 'm) action \<Rightarrow> (nat \<times> nat) list \<Rightarrow> 'm \<Rightarrow> 'p list \<Rightarrow> ('m \<times> 'p list) option" where
  "run_schedule act [] m xs = Some (m, xs)"
| "run_schedule act ((t, k) # ks) m xs =
     (if t < length xs then
        let alts = act t (xs ! t) m in
        if k < length alts then run_schedule act ks (fst (alts ! k)) (xs[t := snd (alts ! k)]) else None
      else None)"

lemma run_schedule_step:
  "run_schedule act ks m xs = Some (m', xs') \<Longrightarrow> fst ` set ks \<subseteq> T \<Longrightarrow> reach init (interleave T act) (m, points d xs) \<Longrightarrow>
   reach init (interleave T act) (m', points d xs')"
proof (induction act ks m xs rule: run_schedule.induct)
  case (2 act t k ks m xs)
  let ?alts = "act t (points d xs t) m"
  have t: "t < length xs" using "2.prems"(1) by (auto split: if_splits)
  then have e: "xs ! t = points d xs t" by (simp add: points_def)
  have k: "k < length ?alts" using "2.prems"(1) t by (auto simp: Let_def e split: if_splits)
  then have "(fst (?alts ! k), snd (?alts ! k)) \<in> set ?alts" by simp
  then have "interleave T act (m, points d xs) (fst (?alts ! k), points d (xs[t := snd (?alts ! k)]))"
    unfolding points_update[OF t] using "2.prems"(2) by (intro interleave.run) auto
  with "2.IH"[OF t refl] "2.prems" k t show ?case by (auto simp: Let_def e intro: reach_step)
qed simp

lemma run_schedule_reach:
  assumes "init (m, \<lambda>_. d)" and "run_schedule act ks m (replicate n d) = Some (m', xs)" and "fst ` set ks \<subseteq> T"
  shows "reach init (interleave T act) (m', points d xs)"
  by (rule run_schedule_step[OF assms(2,3)]) (simp add: points_replicate reach_init assms(1))

section \<open>The lock contract\<close>

text \<open>
  What one action of a thread may do to a lock word and to its own claim: nothing, take the
  free lock, or free the lock it holds.
\<close>

definition lock_move :: "bool \<Rightarrow> bool \<Rightarrow> bool \<Rightarrow> bool \<Rightarrow> bool" where
  "lock_move taken held taken' held' \<longleftrightarrow>
     (taken' = taken \<and> held' = held) \<or> (\<not> taken \<and> taken' \<and> \<not> held \<and> held') \<or> (\<not> taken' \<and> held \<and> \<not> held')"

locale lock_protocol =
  fixes init :: "'s \<Rightarrow> bool" and step :: "'s \<Rightarrow> 's \<Rightarrow> bool"
    and taken :: "'s \<Rightarrow> bool" and holds :: "'s \<Rightarrow> nat \<Rightarrow> bool"
  assumes init_free: "init s \<Longrightarrow> \<not> taken s \<and> \<not> holds s t"
    and step_lock: "step s s' \<Longrightarrow>
      \<exists>t. lock_move (taken s) (holds s t) (taken s') (holds s' t) \<and> (\<forall>u. u \<noteq> t \<longrightarrow> holds s' u = holds s u)"
begin

lemma lock_inv:
  assumes "reach init step s"
  shows "(taken s \<longleftrightarrow> (\<exists>t. holds s t)) \<and> (\<forall>t u. holds s t \<and> holds s u \<longrightarrow> t = u)"
  using assms
proof (rule reach_invariant)
  fix s assume "init s"
  then show "(taken s \<longleftrightarrow> (\<exists>t. holds s t)) \<and> (\<forall>t u. holds s t \<and> holds s u \<longrightarrow> t = u)"
    using init_free by blast
next
  fix s s' assume I: "(taken s \<longleftrightarrow> (\<exists>t. holds s t)) \<and> (\<forall>t u. holds s t \<and> holds s u \<longrightarrow> t = u)" and "step s s'"
  from step_lock[OF this(2)] obtain t where
    t: "lock_move (taken s) (holds s t) (taken s') (holds s' t)" "\<And>u. u \<noteq> t \<Longrightarrow> holds s' u = holds s u" by blast
  then show "(taken s' \<longleftrightarrow> (\<exists>t. holds s' t)) \<and> (\<forall>t u. holds s' t \<and> holds s' u \<longrightarrow> t = u)"
    using I unfolding lock_move_def by metis
qed

lemma mutual_exclusion: "reach init step s \<Longrightarrow> holds s t \<Longrightarrow> holds s u \<Longrightarrow> t = u"
  using lock_inv by blast

lemma taken_iff: "reach init step s \<Longrightarrow> taken s \<longleftrightarrow> (\<exists>t. holds s t)"
  using lock_inv by blast

end

text \<open>
  For threads that are interleaved: the contract holds if every action of one thread obeys it.
\<close>

lemma interleave_contract:
  assumes "interleave T act s s'"
    and "\<And>t p m m' p'. (m', p') \<in> set (act t p m) \<Longrightarrow> lock_move (tk m) (h p) (tk m') (h p')"
  shows "\<exists>t. lock_move (tk (fst s)) (h (snd s t)) (tk (fst s')) (h (snd s' t)) \<and>
    (\<forall>u. u \<noteq> t \<longrightarrow> h (snd s' u) = h (snd s u))"
  using assms(1)
proof cases
  case (run t m' p' ps m)
  from assms(2)[OF run(4)] run show ?thesis by (auto intro!: exI[of _ t])
qed

end
