(* ===== verification/SyncLock.thy ===== *)
theory SyncLock
  imports Interleaving
begin

text \<open>
  The synchronisation library of the simulated programs, part one: the atomic
  \<open>sesc_fetch_op\<close> (\<^verbatim>\<open>libapp/sesc_thread.c\<close>) and the spin lock (\<^verbatim>\<open>libapp/sesc_locks.c\<close>,
  in the default configuration: neither \<^verbatim>\<open>NOSPIN_DOSUSPEND\<close> nor \<^verbatim>\<open>SESC_LOCKPROFILE\<close>).

  An atomic action is one access to shared memory. A program point says which access is next.
\<close>

section \<open>Atomic operations\<close>

type_synonym int32 = "32 word"

datatype FetchOpType = FetchIncOp | FetchDecOp | FetchSwapOp

text \<open>The old value and the new one.\<close>

fun sesc_fetch_op :: "FetchOpType \<Rightarrow> int32 \<Rightarrow> int32 \<Rightarrow> int32 \<times> int32" where
  "sesc_fetch_op FetchIncOp odata val = (odata, odata + 1)"
| "sesc_fetch_op FetchDecOp odata val = (odata, odata - 1)"
| "sesc_fetch_op FetchSwapOp odata val = (odata, val)"

definition sesc_unlock_op :: "int32 \<Rightarrow> int32" where
  "sesc_unlock_op val = val"

abbreviation LOCKED :: int32 where "LOCKED \<equiv> 1"
abbreviation UNLOCKED :: int32 where "UNLOCKED \<equiv> 0"

section \<open>The spin lock\<close>

record slock_t =
  spin :: int32
  dummy :: int32

definition sesc_lock_init :: "slock_t \<Rightarrow> slock_t" where
  "sesc_lock_init l = l\<lparr>spin := UNLOCKED\<rparr>"

text \<open>
  The points of \<open>sesc_lock\<close> (\<open>L_\<close>) and \<open>sesc_unlock\<close> (\<open>U_\<close>); \<open>L_spin i\<close> is the inner loop with
  its back-off counter. \<open>Out\<close> and \<open>Held\<close> are the points where the caller runs.
\<close>

datatype lock_pc = Out | L_dummy | L_swap | L_dummy2 | L_spin int | L_fence | Held | U_fence | U_dummy | U_store

text \<open>One turn of a spinning loop: count down, yield and start again at 1000.\<close>

definition back_off :: "int \<Rightarrow> int" where
  "back_off i = (if i - 1 < 0 then 1000 else i - 1)"

fun lock_act :: "lock_pc \<Rightarrow> slock_t \<Rightarrow> slock_t \<times> lock_pc" where
  "lock_act L_dummy l = (l\<lparr>dummy := 5\<rparr>, L_swap)"
| "lock_act L_swap l = (case sesc_fetch_op FetchSwapOp (spin l) LOCKED of (old, new) \<Rightarrow>
     (l\<lparr>spin := new\<rparr>, if old = LOCKED then L_dummy2 else L_fence))"
| "lock_act L_dummy2 l = (l\<lparr>dummy := 5\<rparr>, L_spin 0)"
| "lock_act (L_spin i) l = (l, if spin l = LOCKED then L_spin (back_off i) else L_swap)"
| "lock_act L_fence l = (l, Held)"
| "lock_act U_fence l = (l, U_dummy)"
| "lock_act U_dummy l = (l\<lparr>dummy := 5\<rparr>, U_store)"
| "lock_act U_store l = (l\<lparr>spin := sesc_unlock_op UNLOCKED\<rparr>, Out)"
| "lock_act Out l = (l, Out)"
| "lock_act Held l = (l, Held)"

fun holding :: "lock_pc \<Rightarrow> bool" where
  "holding L_fence = True"
| "holding Held = True"
| "holding U_fence = True"
| "holding U_dummy = True"
| "holding U_store = True"
| "holding _ = False"

text \<open>Every action keeps, takes or frees the lock.\<close>

lemma lock_act_cases:
  assumes "lock_act p l = (l', p')"
  shows "lock_move (spin l = LOCKED) (holding p) (spin l' = LOCKED) (holding p')"
  using assms by (cases "(p, l)" rule: lock_act.cases) (auto simp: lock_move_def sesc_unlock_op_def split: if_splits)

text \<open>Any number of threads that take and free one lock.\<close>

fun lock_user :: "(lock_pc, slock_t) action" where
  "lock_user t Out l = [(l, Out), (l, L_dummy)]"
| "lock_user t Held l = [(l, Held), (l, U_fence)]"
| "lock_user t p l = [lock_act p l]"

definition lock_start :: "slock_t \<times> (nat \<Rightarrow> lock_pc) \<Rightarrow> bool" where
  "lock_start = (\<lambda>(l, ps). (\<exists>l0. l = sesc_lock_init l0) \<and> ps = (\<lambda>_. Out))"

lemma lock_user_cases:
  "(l', p') \<in> set (lock_user t p l) \<Longrightarrow> lock_move (spin l = LOCKED) (holding p) (spin l' = LOCKED) (holding p')"
  using lock_act_cases[of p l l' p'] by (cases p) (auto simp: lock_move_def)

interpretation spinlock: lock_protocol lock_start "interleave T lock_user"
  "\<lambda>s. spin (fst s) = LOCKED" "\<lambda>s t. holding (snd s t)"
proof
  show "\<not> spin (fst s) = LOCKED \<and> \<not> holding (snd s t)" if "lock_start s" for s t
    using that by (auto simp: lock_start_def sesc_lock_init_def)
qed (rule interleave_contract[OF _ lock_user_cases])

section \<open>Properties\<close>

text \<open>C29: At most one thread holds the spin lock, and the lock word says whether one does.\<close>

theorem sesc_lock_exclusive:
  assumes "reach lock_start (interleave T lock_user) (l, ps)"
  shows "(holding (ps t) \<and> holding (ps u) \<longrightarrow> t = u) \<and> (spin l = LOCKED \<longleftrightarrow> (\<exists>t. holding (ps t)))"
  using spinlock.mutual_exclusion[OF assms, of t u] spinlock.taken_iff[OF assms] by auto

lemma demo_lock_reach:
  "reach lock_start (interleave {0, 1} lock_user) (\<lparr>spin = 1, dummy = 5\<rparr>, points Out [Held, L_dummy2])"
proof (rule run_schedule_reach)
  show "lock_start (\<lparr>spin = 0, dummy = 0\<rparr>, \<lambda>_. Out)"
    by (auto simp: lock_start_def sesc_lock_init_def intro!: exI[of _ "\<lparr>spin = 0, dummy = 0\<rparr>"])
  show "run_schedule lock_user [(0, 1), (1, 1), (0, 0), (1, 0), (0, 0), (0, 0), (1, 0)] \<lparr>spin = 0, dummy = 0\<rparr>
      (replicate 2 Out) = Some (\<lparr>spin = 1, dummy = 5\<rparr>, [Held, L_dummy2])"
    by code_simp
qed auto

theorem sesc_lock_exclusive_witness:
  "\<exists>t. holding (points Out [Held, L_dummy2] t)"
  using sesc_lock_exclusive[OF demo_lock_reach, of 0 0] by simp

text \<open>
  C37: From any point of the acquisition, if the lock is free and nobody else runs, a thread holds the
  lock after at most four of its own actions: the back-off after a failed swap, one look at the free lock,
  the swap and the fence. From the other points at most three are needed.
\<close>

fun lock_steps :: "nat \<Rightarrow> slock_t \<times> lock_pc \<Rightarrow> slock_t \<times> lock_pc" where
  "lock_steps 0 s = s"
| "lock_steps (Suc n) (l, p) = lock_steps n (lock_act p l)"

fun actions_left :: "lock_pc \<Rightarrow> nat" where
  "actions_left L_dummy = 3"
| "actions_left L_swap = 2"
| "actions_left L_dummy2 = 4"
| "actions_left (L_spin _) = 3"
| "actions_left L_fence = 1"
| "actions_left _ = 0"

abbreviation acquiring :: "lock_pc \<Rightarrow> bool" where
  "acquiring p \<equiv> p \<in> {L_dummy, L_swap, L_dummy2} \<union> range L_spin"

theorem sesc_lock_available:
  assumes "acquiring p" and "spin l = UNLOCKED"
  shows "(\<exists>l'. lock_steps (actions_left p) (l, p) = (l', Held) \<and> spin l' = LOCKED) \<and> actions_left p \<le> 4 \<and>
    (\<forall>k<actions_left p. snd (lock_steps k (l, p)) \<noteq> Held)"
  using assms by (auto simp: eval_nat_numeral less_Suc_eq)

theorem sesc_lock_available_witness:
  "\<exists>l'. lock_steps 4 (\<lparr>spin = 0, dummy = 5\<rparr>, L_dummy2) = (l', Held) \<and> spin l' = LOCKED"
  using sesc_lock_available[of L_dummy2 "\<lparr>spin = 0, dummy = 5\<rparr>"] by simp

end
