(* ===== verification/SyncBarrier.thy ===== *)
theory SyncBarrier
  imports SyncLock
begin

text \<open>
  The sense-reversing barrier of \<^verbatim>\<open>libapp/sesc_locks.c\<close>: threads that run through phases
  separated by \<open>sesc_barrier\<close>.
\<close>

section \<open>The code\<close>

record sbarrier_t =
  gsense :: int32
  count :: int32

definition sesc_barrier_init :: "sbarrier_t \<Rightarrow> sbarrier_t" where
  "sesc_barrier_init barr = barr\<lparr>count := 0, gsense := 0\<rparr>"

datatype barr_pc = B_out | B_sense | B_fetch int32 | B_reset int32 | B_flip int32 | B_wait int32 int | B_fence

definition lnot :: "int32 \<Rightarrow> int32" where
  "lnot x = (if x = 0 then 1 else 0)"

fun barr_act :: "int32 \<Rightarrow> barr_pc \<Rightarrow> sbarrier_t \<Rightarrow> sbarrier_t \<times> barr_pc" where
  "barr_act num_proc B_out b = (b, B_out)"
| "barr_act num_proc B_sense b = (b, B_fetch (lnot (gsense b)))"
| "barr_act num_proc (B_fetch lsense) b = (case sesc_fetch_op FetchIncOp (count b) 0 of (old, new) \<Rightarrow>
     (b\<lparr>count := new\<rparr>, if old = num_proc - 1 then B_reset lsense else B_wait lsense 1000))"
| "barr_act num_proc (B_reset lsense) b = (b\<lparr>count := 0\<rparr>, B_flip lsense)"
| "barr_act num_proc (B_flip lsense) b = (b\<lparr>gsense := lsense\<rparr>, B_fence)"
| "barr_act num_proc (B_wait lsense i) b =
     (b, if lsense \<noteq> gsense b then B_wait lsense (back_off i) else B_fence)"
| "barr_act num_proc B_fence b = (b, B_out)"

text \<open>A thread in phase \<open>k\<close>; it enters phase \<open>k + 1\<close> when the call returns.\<close>

fun barr_user :: "int32 \<Rightarrow> (barr_pc \<times> nat, sbarrier_t) action" where
  "barr_user num_proc t (B_out, k) b = [(b, (B_out, k)), (b, (B_sense, k))]"
| "barr_user num_proc t (p, k) b = (case barr_act num_proc p b of (b', p') \<Rightarrow>
     [(b', (p', if p' = B_out then k + 1 else k))])"

definition barr_start :: "sbarrier_t \<times> (nat \<Rightarrow> barr_pc \<times> nat) \<Rightarrow> bool" where
  "barr_start = (\<lambda>(b, ps). (\<exists>b0. b = sesc_barrier_init b0) \<and> ps = (\<lambda>_. (B_out, 0)))"

section \<open>The invariant\<close>

text \<open>
  \<open>g\<close> counts how often the global sense has changed. A thread in phase \<open>g\<close> has not passed the
  current barrier, a thread in phase \<open>g - 1\<close> is on its way out of the last one.
\<close>

definition sense :: "nat \<Rightarrow> int32" where
  "sense g = (if even g then 0 else 1)"

lemma sense_simps [simp]: "lnot (sense g) = sense (Suc g)" "sense g \<noteq> sense (Suc g)" "sense (Suc g) \<noteq> sense g"
  by (auto simp: sense_def lnot_def)

fun barr_thread :: "nat \<Rightarrow> barr_pc \<times> nat \<Rightarrow> bool" where
  "barr_thread g (B_out, k) \<longleftrightarrow> k = g"
| "barr_thread g (B_sense, k) \<longleftrightarrow> k = g"
| "barr_thread g (B_fetch l, k) \<longleftrightarrow> k = g \<and> l = sense (Suc g)"
| "barr_thread g (B_reset l, k) \<longleftrightarrow> k = g \<and> l = sense (Suc g)"
| "barr_thread g (B_flip l, k) \<longleftrightarrow> k = g \<and> l = sense (Suc g)"
| "barr_thread g (B_wait l i, k) \<longleftrightarrow> l = sense (Suc k) \<and> (k = g \<or> Suc k = g)"
| "barr_thread g (B_fence, k) \<longleftrightarrow> Suc k = g"

fun arrived :: "nat \<Rightarrow> barr_pc \<times> nat \<Rightarrow> bool" where
  "arrived g (B_reset l, k) = True"
| "arrived g (B_flip l, k) = True"
| "arrived g (B_wait l i, k) = (k = g)"
| "arrived g _ = False"

fun last_one :: "barr_pc \<times> nat \<Rightarrow> bool" where
  "last_one (B_reset l, k) = True"
| "last_one (B_flip l, k) = True"
| "last_one _ = False"

fun flipping :: "barr_pc \<times> nat \<Rightarrow> bool" where
  "flipping (B_flip l, k) = True"
| "flipping _ = False"

lemma last_one_arrived: "last_one p \<Longrightarrow> arrived g p"
  by (cases p rule: last_one.cases) auto

definition barr_inv :: "nat set \<Rightarrow> nat \<Rightarrow> sbarrier_t \<times> (nat \<Rightarrow> barr_pc \<times> nat) \<Rightarrow> bool" where
  "barr_inv T g = (\<lambda>(b, ps). gsense b = sense g \<and> (\<forall>t\<in>T. barr_thread g (ps t)) \<and>
     (\<forall>t\<in>T. \<forall>u\<in>T. last_one (ps t) \<and> last_one (ps u) \<longrightarrow> t = u) \<and>
     (\<forall>t\<in>T. last_one (ps t) \<longrightarrow> {u \<in> T. arrived g (ps u)} = T \<and>
        count b = (if flipping (ps t) then 0 else of_nat (card T))) \<and>
     ((\<forall>t\<in>T. \<not> last_one (ps t)) \<longrightarrow> {u \<in> T. arrived g (ps u)} \<noteq> T \<and>
        count b = of_nat (card {u \<in> T. arrived g (ps u)})))"

lemma of_nat_pred_eq:
  assumes "c < n" and "n < 2 ^ 32"
  shows "(of_nat c :: int32) = of_nat n - 1 \<longleftrightarrow> Suc c = n"
proof -
  have "(of_nat c :: int32) = of_nat n - 1 \<longleftrightarrow> (of_nat (Suc c) :: int32) = of_nat n" by (auto simp: algebra_simps)
  also have "\<dots> \<longleftrightarrow> Suc c = n"
    unfolding word_of_nat_eq_iff using assms by (simp add: take_bit_nat_eq_self)
  finally show ?thesis .
qed

lemma arrived_upd:
  "t \<in> T \<Longrightarrow> {u \<in> T. arrived g ((ps(t := p')) u)} =
    (if arrived g p' then insert t {u \<in> T. arrived g (ps u)} else {u \<in> T. arrived g (ps u)} - {t})"
  by auto

lemma barr_step:
  assumes T: "finite T" "T \<noteq> {}" "card T < 2 ^ 32" and inv: "barr_inv T g (b, ps)" and t: "t \<in> T"
    and act: "(b', p') \<in> set (barr_user (of_nat (card T)) t (ps t) b)"
  shows "\<exists>g'. barr_inv T g' (b', ps(t := p'))"
proof -
  let ?A = "{u \<in> T. arrived g (ps u)}"
  from inv t have th: "barr_thread g (ps t)" by (simp add: barr_inv_def)
  obtain p k where pk: "ps t = (p, k)" by (cases "ps t")
  have quiet: "barr_inv T g (b, ps(t := p'))" if "barr_thread g p'" "arrived g p' = arrived g (ps t)"
      "\<not> last_one p'" "\<not> last_one (ps t)" for p'
  proof -
    have "{u \<in> T. arrived g ((ps(t := p')) u)} = ?A" using that(2) by auto
    then show ?thesis using inv that t unfolding barr_inv_def by auto
  qed
  show ?thesis
  proof (cases p)
    case B_out
    then have eq: "b' = b" "p' = (B_out, k) \<or> p' = (B_sense, k)" using act pk by auto
    show ?thesis unfolding eq(1) by (rule exI[of _ g], rule quiet) (use eq th pk B_out in auto)
  next
    case B_sense
    then have eq: "b' = b" "p' = (B_fetch (sense (Suc g)), k)" using act pk inv by (auto simp: barr_inv_def)
    show ?thesis unfolding eq(1) by (rule exI[of _ g], rule quiet) (use eq th pk B_sense in auto)
  next
    case B_fence
    then have eq: "b' = b" "p' = (B_out, k + 1)" using act pk by auto
    show ?thesis unfolding eq(1) by (rule exI[of _ g], rule quiet) (use eq th pk B_fence in auto)
  next
    case (B_wait l i)
    then have eq: "b' = b" "p' = (if l \<noteq> gsense b then (B_wait l (back_off i), k) else (B_fence, k))" using act pk by auto
    have gs: "gsense b = sense g" using inv by (simp add: barr_inv_def)
    show ?thesis unfolding eq(1) by (rule exI[of _ g], rule quiet) (use eq th pk B_wait gs in auto)
  next
    case (B_fetch l)
    then have nA: "t \<notin> ?A" and nl: "\<not> last_one (ps t)" using pk by auto
    have none: "\<not> last_one (ps u)" if "u \<in> T" for u
      using inv that nA t unfolding barr_inv_def by auto
    then have c: "count b = of_nat (card ?A)" using inv unfolding barr_inv_def by auto
    have lt: "card ?A < card T" using nA t T(1) by (intro psubset_card_mono) auto
    have eq: "b' = b\<lparr>count := count b + 1\<rparr>"
      "p' = (if count b = of_nat (card T) - 1 then (B_reset l, k) else (B_wait l 1000, k))"
      using act pk B_fetch by auto
    have fin: "finite ?A" using T(1) by simp
    have cA: "card (insert t ?A) = Suc (card ?A)" using nA fin by simp
    have arr: "{u \<in> T. arrived g ((ps(t := p')) u)} = insert t ?A"
      using t eq(2) th pk B_fetch by (auto simp: arrived_upd)
    have last: "count b = of_nat (card T) - 1 \<longleftrightarrow> insert t ?A = T"
    proof -
      have "Suc (card ?A) = card T \<longleftrightarrow> insert t ?A = T"
        using cA card_subset_eq[OF T(1), of "insert t ?A"] t by auto
      with of_nat_pred_eq[OF lt T(3)] c show ?thesis by simp
    qed
    have c': "count b' = of_nat (card (insert t ?A))" using eq(1) c cA by simp
    show ?thesis
    proof (rule exI[of _ g], cases "count b = of_nat (card T) - 1")
      case True
      then have p': "p' = (B_reset l, k)" using eq(2) by simp
      from True last have "insert t ?A = T" by simp
      with c' arr p' none inv t th pk B_fetch eq(1) show "barr_inv T g (b', ps(t := p'))"
        unfolding barr_inv_def by auto
    next
      case False
      then have p': "p' = (B_wait l 1000, k)" using eq(2) by simp
      from False last have "insert t ?A \<noteq> T" by simp
      moreover have "\<forall>u\<in>T. \<not> last_one ((ps(t := p')) u)" using none p' by simp
      moreover have "\<forall>u\<in>T. barr_thread g ((ps(t := p')) u)" using inv p' th pk B_fetch by (simp add: barr_inv_def)
      moreover have "gsense b' = sense g" using inv eq(1) by (simp add: barr_inv_def)
      ultimately show "barr_inv T g (b', ps(t := p'))"
        unfolding barr_inv_def prod.case arr using c' by blast
    qed
  next
    case (B_reset l)
    then have eq: "b' = b\<lparr>count := 0\<rparr>" "p' = (B_flip l, k)" using act pk by auto
    have l: "last_one (ps t)" using pk B_reset by simp
    then have A: "?A = T" and uniq: "\<And>u. u \<in> T \<Longrightarrow> last_one (ps u) \<Longrightarrow> u = t" using inv t unfolding barr_inv_def by auto
    have 1: "{u \<in> T. arrived g ((ps(t := p')) u)} = T" using A eq(2) by auto
    have 2: "last_one ((ps(t := p')) u) \<longleftrightarrow> u = t" if "u \<in> T" for u using uniq[OF that] eq(2) by auto
    have 3: "\<forall>u\<in>T. barr_thread g ((ps(t := p')) u)" using inv eq(2) th pk B_reset by (simp add: barr_inv_def)
    have 4: "gsense b' = sense g" "count b' = 0" "flipping ((ps(t := p')) t)" using inv eq by (simp_all add: barr_inv_def)
    have "barr_inv T g (b', ps(t := p'))"
      unfolding barr_inv_def prod.case 1 using 2 3 4 t by (simp del: fun_upd_apply)
    then show ?thesis ..
  next
    case (B_flip l)
    then have eq: "b' = b\<lparr>gsense := l\<rparr>" "p' = (B_fence, k)" using act pk by auto
    have l: "last_one (ps t)" using pk B_flip by simp
    then have A: "?A = T" and uniq: "\<And>u. u \<in> T \<Longrightarrow> last_one (ps u) \<Longrightarrow> u = t" using inv t unfolding barr_inv_def by auto
    have c: "count b = 0" using inv t l pk B_flip unfolding barr_inv_def by fastforce
    have w: "\<exists>l i. ps u = (B_wait l i, g)" if "u \<in> T" "u \<noteq> t" for u
    proof -
      from A that have "arrived g (ps u)" by auto
      moreover from uniq that have "\<not> last_one (ps u)" by blast
      ultimately show ?thesis by (cases "(g, ps u)" rule: arrived.cases) auto
    qed
    have th': "barr_thread (Suc g) ((ps(t := p')) u) \<and> \<not> arrived (Suc g) ((ps(t := p')) u) \<and> \<not> last_one ((ps(t := p')) u)"
      if "u \<in> T" for u
    proof (cases "u = t")
      case True
      with eq th pk B_flip show ?thesis by simp
    next
      case False
      from w[OF that this] obtain l i where "ps u = (B_wait l i, g)" by blast
      moreover from inv that have "barr_thread g (ps u)" by (simp add: barr_inv_def)
      ultimately show ?thesis using False by auto
    qed
    then have 1: "{u \<in> T. arrived (Suc g) ((ps(t := p')) u)} = {}" by blast
    have 2: "gsense b' = sense (Suc g)" "count b' = 0" using eq(1) c th pk B_flip by auto
    have "barr_inv T (Suc g) (b', ps(t := p'))"
      unfolding barr_inv_def prod.case 1 using 2 th' T(2) by (simp del: fun_upd_apply)
    then show ?thesis ..
  qed
qed

lemma barr_reach_inv:
  assumes "finite T" "T \<noteq> {}" "card T < 2 ^ 32" and "reach barr_start (interleave T (barr_user (of_nat (card T)))) s"
  shows "\<exists>g. barr_inv T g s"
  using assms(4)
proof (rule reach_invariant)
  fix s assume "barr_start s"
  with assms(2) have "barr_inv T 0 s"
    by (auto simp: barr_start_def barr_inv_def sesc_barrier_init_def sense_def)
  then show "\<exists>g. barr_inv T g s" ..
next
  fix s s' assume "\<exists>g. barr_inv T g s" and "interleave T (barr_user (of_nat (card T))) s s'"
  from this(2,1) show "\<exists>g. barr_inv T g s'"
    by cases (use barr_step[OF assms(1-3)] in blast)
qed

section \<open>What the barrier guarantees\<close>

fun leaving :: "sbarrier_t \<Rightarrow> barr_pc \<times> nat \<Rightarrow> bool" where
  "leaving b (B_wait l i, k) \<longleftrightarrow> l = gsense b"
| "leaving b (B_fence, k) = True"
| "leaving b _ = False"

lemma barr_phases:
  assumes "barr_inv T g (b, ps)" and "t \<in> T" and "u \<in> T"
  shows "snd (ps t) \<le> snd (ps u) + 1 \<and> (snd (ps u) < snd (ps t) \<longrightarrow> leaving b (ps u))"
proof -
  have ph: "snd p = g \<or> Suc (snd p) = g" if "barr_thread g p" for p
    using that by (cases "(g, p)" rule: barr_thread.cases) auto
  have lv: "leaving b p" if "barr_thread g p" "snd p < g" for p
    using that assms(1) by (cases "(g, p)" rule: barr_thread.cases) (auto simp: barr_inv_def)
  have "barr_thread g (ps t)" "barr_thread g (ps u)" using assms by (auto simp: barr_inv_def)
  with ph[of "ps t"] ph[of "ps u"] lv[of "ps u"] show ?thesis by auto
qed

lemma barr_someone_runs:
  assumes "barr_inv T g (b, ps)" and "T \<noteq> {}"
  shows "\<exists>t\<in>T. \<forall>l i. fst (ps t) = B_wait l i \<longrightarrow> l = gsense b"
proof (cases "\<exists>t\<in>T. last_one (ps t)")
  case True
  then obtain t where "t \<in> T" "last_one (ps t)" by blast
  then show ?thesis by (cases "ps t" rule: last_one.cases) force+
next
  case False
  then have "{u \<in> T. arrived g (ps u)} \<noteq> T" using assms(1) by (simp add: barr_inv_def)
  then obtain u where u: "u \<in> T" "\<not> arrived g (ps u)" by blast
  obtain p k where pk: "ps u = (p, k)" by (cases "ps u")
  have "barr_thread g (ps u)" "gsense b = sense g" using assms(1) u by (auto simp: barr_inv_def)
  with u pk show ?thesis by (intro bexI[OF _ u(1)]) auto
qed

section \<open>Properties\<close>

text \<open>
  C30: No thread gets ahead of another by more than one phase, and a thread is one phase ahead only of
  threads that have arrived at the barrier and are free to leave it.
\<close>

theorem sesc_barrier_separates:
  assumes "finite T" and "T \<noteq> {}" and "card T < 2 ^ 32"
    and "reach barr_start (interleave T (barr_user (of_nat (card T)))) (b, ps)" and "t \<in> T" and "u \<in> T"
  shows "snd (ps t) \<le> snd (ps u) + 1 \<and> (snd (ps u) < snd (ps t) \<longrightarrow> leaving b (ps u))"
  using barr_reach_inv[OF assms(1-4)] barr_phases[OF _ assms(5,6)] by blast

text \<open>
  The barrier never blocks all threads: in every reachable state some thread is not waiting for
  the sense to change.
\<close>

theorem sesc_barrier_live:
  assumes "finite T" and "T \<noteq> {}" and "card T < 2 ^ 32"
    and "reach barr_start (interleave T (barr_user (of_nat (card T)))) (b, ps)"
  shows "\<exists>t\<in>T. \<forall>l i. fst (ps t) = B_wait l i \<longrightarrow> l = gsense b"
  using barr_reach_inv[OF assms] barr_someone_runs[OF _ assms(2)] by blast

lemma demo_barrier_reach:
  "reach barr_start (interleave {0, 1} (barr_user (of_nat (card {0 :: nat, 1}))))
     (\<lparr>gsense = 1, count = 0\<rparr>, points (B_out, 0) [(B_wait 1 1000, 0), (B_out, 1)])"
proof (rule run_schedule_reach)
  show "barr_start (\<lparr>gsense = 0, count = 0\<rparr>, \<lambda>_. (B_out, 0))"
    by (auto simp: barr_start_def sesc_barrier_init_def intro!: exI[of _ "\<lparr>gsense = 0, count = 0\<rparr>"])
  have n: "of_nat (card {0 :: nat, 1}) = (2 :: int32)" by simp
  show "run_schedule (barr_user (of_nat (card {0 :: nat, 1})))
      [(0, 1), (0, 0), (0, 0), (1, 1), (1, 0), (1, 0), (1, 0), (1, 0), (1, 0)] \<lparr>gsense = 0, count = 0\<rparr> (replicate 2 (B_out, 0)) =
      Some (\<lparr>gsense = 1, count = 0\<rparr>, [(B_wait 1 1000, 0), (B_out, 1)])"
    unfolding n by code_simp
qed auto

theorem sesc_barrier_separates_witness:
  "leaving \<lparr>gsense = 1, count = 0\<rparr> (points (B_out, 0 :: nat) [(B_wait 1 1000, 0), (B_out, 1)] 0)"
  using sesc_barrier_separates[OF _ _ _ demo_barrier_reach, of 1 0] by simp

theorem sesc_barrier_live_witness:
  "\<exists>t\<in>{0, 1 :: nat}. \<forall>l i. fst (points (B_out, 0 :: nat) [(B_wait 1 1000, 0), (B_out, 1)] t) = B_wait l i \<longrightarrow> l = 1"
  using sesc_barrier_live[OF _ _ _ demo_barrier_reach] by simp

end
