(* ===== verification/SyncFlag.thy ===== *)
theory SyncFlag
  imports SyncLock
begin

text \<open>
  The semaphore and the flag of \<^verbatim>\<open>libapp/sesc_locks.c\<close>. The flag of the ANL macros is a lock, a
  semaphore and a count of waiting threads; \<open>sesc_flag_set\<close> and \<open>sesc_flag_clear\<close> hand
  one token to every waiting thread.
\<close>

section \<open>The semaphore\<close>

text \<open>
  The only field of \<open>ssema_t\<close> is the 32-one_if count. \<open>sesc_psema\<close> tests it (a signed
  comparison) and takes a token in a separate atomic operation.
\<close>

definition sesc_sema_init :: "int32 \<Rightarrow> int32" where
  "sesc_sema_init initValue = initValue"

datatype sema_pc = P_test int | P_dec | P_fence | V_inc | V_fence | S_out

fun sema_act :: "sema_pc \<Rightarrow> int32 \<Rightarrow> int32 \<times> sema_pc" where
  "sema_act (P_test i) c = (c, if sint c \<le> 0 then P_test (back_off i) else P_dec)"
| "sema_act P_dec c = (snd (sesc_fetch_op FetchDecOp c 0), P_fence)"
| "sema_act P_fence c = (c, S_out)"
| "sema_act V_inc c = (snd (sesc_fetch_op FetchIncOp c 0), V_fence)"
| "sema_act V_fence c = (c, S_out)"
| "sema_act S_out c = (c, S_out)"

text \<open>Threads that use a semaphore as a lock around a critical section.\<close>

datatype psema_pc = Outside | Entering sema_pc | Inside | Leaving sema_pc

fun sema_user :: "(psema_pc, int32) action" where
  "sema_user t Outside c = [(c, Outside), (c, Entering (P_test 0))]"
| "sema_user t (Entering p) c = (case sema_act p c of (c', p') \<Rightarrow> [(c', if p' = S_out then Inside else Entering p')])"
| "sema_user t Inside c = [(c, Inside), (c, Leaving V_inc)]"
| "sema_user t (Leaving p) c = (case sema_act p c of (c', p') \<Rightarrow> [(c', if p' = S_out then Outside else Leaving p')])"

definition sema_start :: "int32 \<Rightarrow> int32 \<times> (nat \<Rightarrow> psema_pc) \<Rightarrow> bool" where
  "sema_start n = (\<lambda>(c, ps). c = sesc_sema_init n \<and> ps = (\<lambda>_. Outside))"

text \<open>The threads that have taken a token and not given it back.\<close>

fun has_token :: "psema_pc \<Rightarrow> bool" where
  "has_token (Entering P_fence) = True"
| "has_token Inside = True"
| "has_token (Leaving V_inc) = True"
| "has_token _ = False"

text \<open>The program points at which a thread can be.\<close>

fun sema_point :: "psema_pc \<Rightarrow> bool" where
  "sema_point (Entering p) \<longleftrightarrow> (case p of P_test i \<Rightarrow> True | P_dec \<Rightarrow> True | P_fence \<Rightarrow> True | _ \<Rightarrow> False)"
| "sema_point (Leaving p) \<longleftrightarrow> p = V_inc \<or> p = V_fence"
| "sema_point _ = True"

lemma card_upd:
  assumes "finite T" and "t \<in> T"
  shows "(of_nat (card {u \<in> T. h ((ps(t := p)) u)}) :: 'a :: ring_1) =
    of_nat (card {u \<in> T. h (ps u)}) + (if h p then 1 else 0) - (if h (ps t) then 1 else 0)"
proof -
  let ?R = "{u \<in> T - {t}. h (ps u)}"
  have "{u \<in> T. h ((ps(t := p)) u)} = (if h p then insert t ?R else ?R)" using assms(2) by auto
  moreover have "{u \<in> T. h (ps u)} = (if h (ps t) then insert t ?R else ?R)" using assms(2) by auto
  moreover have "finite ?R" "t \<notin> ?R" using assms(1) by auto
  ultimately show ?thesis by auto
qed

lemma sema_step:
  assumes "(c', p') \<in> set (sema_user t p c)" and "sema_point p"
  shows "sema_point p'" and "c' = c - (if has_token p' then 1 else 0) + (if has_token p then 1 else 0)"
  using assms by (cases "(t, p, c)" rule: sema_user.cases; auto split: sema_pc.splits if_splits)+

lemma sema_tokens:
  assumes T: "finite T" and "reach (sema_start n) (interleave T sema_user) (c, ps)"
  shows "c + of_nat (card {t \<in> T. has_token (ps t)}) = n"
proof -
  have "(\<forall>t. sema_point (snd s t)) \<and> fst s + of_nat (card {t \<in> T. has_token (snd s t)}) = n"
    if "reach (sema_start n) (interleave T sema_user) s" for s
    using that
  proof (rule reach_invariant)
    fix s :: "int32 \<times> (nat \<Rightarrow> psema_pc)" assume "sema_start n s"
    then show "(\<forall>t. sema_point (snd s t)) \<and> fst s + of_nat (card {t \<in> T. has_token (snd s t)}) = n"
      by (auto simp: sema_start_def sesc_sema_init_def)
  next
    fix s s' :: "int32 \<times> (nat \<Rightarrow> psema_pc)"
    assume I: "(\<forall>t. sema_point (snd s t)) \<and> fst s + of_nat (card {t \<in> T. has_token (snd s t)}) = n"
      and "interleave T sema_user s s'"
    from this(2) show "(\<forall>t. sema_point (snd s' t)) \<and> fst s' + of_nat (card {t \<in> T. has_token (snd s' t)}) = n"
    proof cases
      case (run t m' p' ps m)
      from I run have pt: "sema_point (ps t)" by simp
      note st = sema_step[OF run(4) pt]
      show ?thesis using I run(1,2) st card_upd[OF T run(3), of has_token ps p', where 'a = int32]
        by (auto simp: algebra_simps)
    qed
  qed
  from this[OF assms(2)] show ?thesis by simp
qed

section \<open>The flag\<close>

record sflag_t =
  flag :: int32
  waiters :: int32
  flock :: slock_t
  queue :: int32

definition sesc_flag_init :: "sflag_t \<Rightarrow> sflag_t" where
  "sesc_flag_init f = f\<lparr>flag := 0, waiters := 0, queue := sesc_sema_init 0, flock := sesc_lock_init (flock f)\<rparr>"

text \<open>
  \<open>W_\<close>: the points of \<open>sesc_flag_wait\<close> (\<open>W_unlock True\<close> is the branch that waits);
  \<open>S_\<close>: those of \<open>sesc_flag_set\<close> and \<open>sesc_flag_clear\<close>, which differ in the value stored.
  The two fields \<open>flag\<close> and \<open>waiters\<close> (\<open>count\<close> in C) are accessed with the lock held only, so
  a decrement is one action.
\<close>

datatype flag_pc = F_out
  | W_lock lock_pc | W_test | W_inc | W_unlock bool lock_pc | W_sema sema_pc
  | S_lock int32 lock_pc | S_store int32 | S_test | S_dec | S_vsema sema_pc | S_unlock lock_pc

definition flag_lock_act :: "lock_pc \<Rightarrow> sflag_t \<Rightarrow> sflag_t \<times> lock_pc" where
  "flag_lock_act p f = (case lock_act p (flock f) of (l, p') \<Rightarrow> (f\<lparr>flock := l\<rparr>, p'))"

definition flag_sema_act :: "sema_pc \<Rightarrow> sflag_t \<Rightarrow> sflag_t \<times> sema_pc" where
  "flag_sema_act p f = (case sema_act p (queue f) of (c, p') \<Rightarrow> (f\<lparr>queue := c\<rparr>, p'))"

fun sesc_flag_wait :: "flag_pc \<Rightarrow> sflag_t \<Rightarrow> sflag_t \<times> flag_pc" where
  "sesc_flag_wait (W_lock p) f = (case flag_lock_act p f of (f, p) \<Rightarrow> (f, if p = Held then W_test else W_lock p))"
| "sesc_flag_wait W_test f = (f, if flag f = 0 then W_inc else W_unlock False U_fence)"
| "sesc_flag_wait W_inc f = (f\<lparr>waiters := waiters f + 1\<rparr>, W_unlock True U_fence)"
| "sesc_flag_wait (W_unlock w p) f = (case flag_lock_act p f of (f, p) \<Rightarrow>
     (f, if p = Out then if w then W_sema (P_test 0) else F_out else W_unlock w p))"
| "sesc_flag_wait (W_sema p) f = (case flag_sema_act p f of (f, p) \<Rightarrow> (f, if p = S_out then F_out else W_sema p))"
| "sesc_flag_wait p f = (f, p)"

fun sesc_flag_store :: "flag_pc \<Rightarrow> sflag_t \<Rightarrow> sflag_t \<times> flag_pc" where
  "sesc_flag_store (S_lock v p) f = (case flag_lock_act p f of (f, p) \<Rightarrow> (f, if p = Held then S_store v else S_lock v p))"
| "sesc_flag_store (S_store v) f = (f\<lparr>flag := v\<rparr>, S_test)"
| "sesc_flag_store S_test f = (f, if waiters f \<noteq> 0 then S_dec else S_unlock U_fence)"
| "sesc_flag_store S_dec f = (f\<lparr>waiters := waiters f - 1\<rparr>, S_vsema V_inc)"
| "sesc_flag_store (S_vsema p) f = (case flag_sema_act p f of (f, p) \<Rightarrow> (f, if p = S_out then S_test else S_vsema p))"
| "sesc_flag_store (S_unlock p) f = (case flag_lock_act p f of (f, p) \<Rightarrow> (f, if p = Out then F_out else S_unlock p))"
| "sesc_flag_store p f = (f, p)"

definition sesc_flag_set :: flag_pc where "sesc_flag_set = S_lock 1 L_dummy"
definition sesc_flag_clear :: flag_pc where "sesc_flag_clear = S_lock 0 L_dummy"

definition flag_user :: "(flag_pc, sflag_t) action" where
  "flag_user t p f = (case p of
     F_out \<Rightarrow> [(f, F_out), (f, W_lock L_dummy), (f, sesc_flag_set), (f, sesc_flag_clear)]
   | W_lock _ \<Rightarrow> [sesc_flag_wait p f] | W_test \<Rightarrow> [sesc_flag_wait p f] | W_inc \<Rightarrow> [sesc_flag_wait p f]
   | W_unlock _ _ \<Rightarrow> [sesc_flag_wait p f] | W_sema _ \<Rightarrow> [sesc_flag_wait p f]
   | _ \<Rightarrow> [sesc_flag_store p f])"

definition flag_start :: "sflag_t \<times> (nat \<Rightarrow> flag_pc) \<Rightarrow> bool" where
  "flag_start = (\<lambda>(f, ps). (\<exists>f0. f = sesc_flag_init f0) \<and> ps = (\<lambda>_. F_out))"

section \<open>The lock of the flag\<close>

fun flag_holding :: "flag_pc \<Rightarrow> bool" where
  "flag_holding F_out = False"
| "flag_holding (W_lock p) = holding p"
| "flag_holding W_test = True"
| "flag_holding W_inc = True"
| "flag_holding (W_unlock w p) = holding p"
| "flag_holding (W_sema p) = False"
| "flag_holding (S_lock v p) = holding p"
| "flag_holding (S_store v) = True"
| "flag_holding S_test = True"
| "flag_holding S_dec = True"
| "flag_holding (S_vsema p) = True"
| "flag_holding (S_unlock p) = holding p"

lemma flag_lock_act_cases:
  "flag_lock_act p f = (f', p') \<Longrightarrow> lock_move (spin (flock f) = LOCKED) (holding p) (spin (flock f') = LOCKED) (holding p')"
  by (auto simp: flag_lock_act_def split: prod.splits dest: lock_act_cases)

lemma flag_sema_act_lock: "flag_sema_act p f = (f', p') \<Longrightarrow> flock f' = flock f"
  by (auto simp: flag_sema_act_def split: prod.splits)

lemma flag_user_cases:
  "(f', p') \<in> set (flag_user t p f) \<Longrightarrow>
   lock_move (spin (flock f) = LOCKED) (flag_holding p) (spin (flock f') = LOCKED) (flag_holding p')"
  by (cases p)
    (auto simp: flag_user_def sesc_flag_set_def sesc_flag_clear_def split: prod.splits if_splits
      dest!: flag_lock_act_cases flag_sema_act_lock, auto simp: lock_move_def)

interpretation flaglock: lock_protocol flag_start "interleave T flag_user"
  "\<lambda>s. spin (flock (fst s)) = LOCKED" "\<lambda>s t. flag_holding (snd s t)"
proof
  show "\<not> spin (flock (fst s)) = LOCKED \<and> \<not> flag_holding (snd s t)" if "flag_start s" for s t
    using that by (auto simp: flag_start_def sesc_flag_init_def sesc_lock_init_def)
qed (rule interleave_contract[where tk = "\<lambda>f. spin (flock f) = LOCKED", OF _ flag_user_cases])

section \<open>Counting waiting threads and tokens\<close>

text \<open>
  \<open>waiting\<close>: a thread that has been counted and has not taken its token; \<open>handing\<close>: a thread
  that has taken one off the count and not yet put the token into the semaphore.
\<close>

fun waiting :: "flag_pc \<Rightarrow> bool" where
  "waiting (W_unlock w p) = w"
| "waiting (W_sema p) = (p \<noteq> P_fence)"
| "waiting _ = False"

fun handing :: "flag_pc \<Rightarrow> bool" where
  "handing (S_vsema p) = (p = V_inc)"
| "handing _ = False"

fun flag_point :: "flag_pc \<Rightarrow> bool" where
  "flag_point (W_sema p) \<longleftrightarrow> (case p of P_test i \<Rightarrow> True | P_dec \<Rightarrow> True | P_fence \<Rightarrow> True | _ \<Rightarrow> False)"
| "flag_point (S_vsema p) \<longleftrightarrow> p = V_inc \<or> p = V_fence"
| "flag_point _ = True"

definition one_if :: "bool \<Rightarrow> int32" where
  "one_if b = (if b then 1 else 0)"

lemma flag_step:
  assumes "(f', p') \<in> set (flag_user t p f)" and "flag_point p"
  shows "flag_point p'"
    and "queue f' + waiters f' + one_if (handing p') - one_if (waiting p') = queue f + waiters f + one_if (handing p) - one_if (waiting p)"
  using assms
  by (cases p; auto simp: flag_user_def sesc_flag_set_def sesc_flag_clear_def flag_lock_act_def flag_sema_act_def one_if_def
      split: prod.splits if_splits sema_pc.splits)+

lemma balance:
  fixes q :: "'a :: ring_1"
  assumes "q' + w' + h' - x' = q + w + h - x" and "q + w + H = W"
  shows "q' + w' + (H + h' - h) = W + x' - x"
proof -
  have "q' + w' + (H + h' - h) = (q' + w' + h' - x') + x' + H - h" by (simp add: algebra_simps)
  also have "\<dots> = (q + w + H) + x' - x" unfolding assms(1) by (simp add: algebra_simps)
  finally show ?thesis unfolding assms(2) .
qed

lemma card_one_if: "finite T \<Longrightarrow> t \<in> T \<Longrightarrow> (of_nat (card {u \<in> T. h ((ps(t := p)) u)}) :: int32) =
    of_nat (card {u \<in> T. h (ps u)}) + one_if (h p) - one_if (h (ps t))"
  by (simp only: card_upd one_if_def)

definition flag_count :: "nat set \<Rightarrow> sflag_t \<times> (nat \<Rightarrow> flag_pc) \<Rightarrow> bool" where
  "flag_count T = (\<lambda>(f, ps). (\<forall>t. flag_point (ps t)) \<and>
     queue f + waiters f + of_nat (card {t \<in> T. handing (ps t)}) = of_nat (card {t \<in> T. waiting (ps t)}))"

lemma flag_counted:
  assumes T: "finite T" and "reach flag_start (interleave T flag_user) s"
  shows "flag_count T s"
  using assms(2)
proof (rule reach_invariant)
  fix s assume "flag_start s"
  then show "flag_count T s" by (auto simp: flag_start_def flag_count_def sesc_flag_init_def sesc_sema_init_def)
next
  fix s s' assume I: "flag_count T s" and "interleave T flag_user s s'"
  from this(2) show "flag_count T s'"
  proof cases
    case (run t m' p' ps m)
    from I run(1) have pt: "flag_point (ps t)" by (simp add: flag_count_def)
    note st = flag_step[OF run(4) pt]
    have I': "queue m + waiters m + of_nat (card {t \<in> T. handing (ps t)}) = of_nat (card {t \<in> T. waiting (ps t)})"
      using I run(1) by (simp add: flag_count_def)
    have "\<forall>u. flag_point ((ps(t := p')) u)" using I run(1) st(1) by (simp add: flag_count_def)
    then show ?thesis unfolding run(2) flag_count_def prod.case card_one_if[OF T run(3)]
      using balance[OF st(2) I'] by blast
  qed
qed

section \<open>Once the flag is set, every waiting thread has a token\<close>

fun releasing :: "flag_pc \<Rightarrow> bool" where
  "releasing S_test = True"
| "releasing S_dec = True"
| "releasing (S_vsema p) = True"
| "releasing _ = False"

lemma releasing_holds: "releasing p \<Longrightarrow> flag_holding p" and handing_releasing: "handing p \<Longrightarrow> releasing p"
  by (cases p; simp)+

definition flag_drained :: "sflag_t \<times> (nat \<Rightarrow> flag_pc) \<Rightarrow> bool" where
  "flag_drained = (\<lambda>(f, ps). (\<forall>t. ps t = W_inc \<longrightarrow> flag f = 0) \<and>
     (flag f \<noteq> 0 \<and> (\<forall>t. \<not> releasing (ps t)) \<longrightarrow> waiters f = 0))"

lemma flag_step_drained:
  assumes "(f', p') \<in> set (flag_user t p f)"
  shows "(flag f' = flag f \<and> waiters f' = waiters f \<and> (releasing p' = releasing p \<or> waiters f = 0) \<and> (p' = W_inc \<longrightarrow> flag f = 0)) \<or>
    (releasing p' \<and> flag_holding p) \<or>
    (p = W_inc \<and> flag f' = flag f \<and> p' \<noteq> W_inc)"
  using assms
  by (cases p; auto simp: flag_user_def sesc_flag_set_def sesc_flag_clear_def flag_lock_act_def flag_sema_act_def
      split: prod.splits if_splits)

lemma flag_drained_reach:
  assumes "reach flag_start (interleave T flag_user) s"
  shows "flag_drained s"
  using assms
proof (rule reach_invariant)
  fix s assume "flag_start s"
  then show "flag_drained s" by (auto simp: flag_start_def flag_drained_def sesc_flag_init_def)
next
  fix s s' assume r: "reach flag_start (interleave T flag_user) s" and I: "flag_drained s"
    and "interleave T flag_user s s'"
  from this(3) show "flag_drained s'"
  proof cases
    case (run t m' p' ps m)
    have only: "u = t" if "flag_holding (ps u)" "flag_holding (ps t)" for u
      using flaglock.mutual_exclusion[OF r, of u t] that run(1) by simp
    from flag_step_drained[OF run(4)] show ?thesis
    proof (elim disjE conjE)
      assume "flag m' = flag m" "waiters m' = waiters m" "releasing p' = releasing (ps t)" "p' = W_inc \<longrightarrow> flag m = 0"
      then show ?thesis using I unfolding run(1,2) flag_drained_def by (auto split: if_splits)
    next
      assume "flag m' = flag m" "waiters m' = waiters m" "waiters m = 0" "p' = W_inc \<longrightarrow> flag m = 0"
      then show ?thesis using I unfolding run(1,2) flag_drained_def by (auto split: if_splits)
    next
      assume p: "releasing p'" "flag_holding (ps t)"
      have "(ps(t := p')) u \<noteq> W_inc" for u using only[of u] p by (cases "u = t") auto
      then show ?thesis using p unfolding run(1,2) flag_drained_def by auto
    next
      assume "ps t = W_inc" "flag m' = flag m" "p' \<noteq> W_inc"
      then show ?thesis using I unfolding run(1,2) flag_drained_def by (auto split: if_splits)
    qed
  qed
qed

lemma flag_tokens:
  assumes T: "finite T" and r: "reach flag_start (interleave T flag_user) (f, ps)"
    and free: "spin (flock f) \<noteq> LOCKED" and set: "flag f \<noteq> 0"
  shows "queue f = of_nat (card {t \<in> T. waiting (ps t)})"
proof -
  have none: "\<not> flag_holding (ps t)" for t
    using flaglock.taken_iff[OF r] free by simp
  then have "\<not> releasing (ps t)" "\<not> handing (ps t)" for t using releasing_holds handing_releasing by blast+
  moreover from this have "waiters f = 0" using flag_drained_reach[OF r] set by (simp add: flag_drained_def)
  ultimately show ?thesis using flag_counted[OF T r] by (simp add: flag_count_def)
qed

section \<open>Properties\<close>

text \<open>
  The semaphore counts its tokens exactly: at any time the count plus the number of threads that
  have taken a token and not given it back is the initial value (as 32-bit integers, the count may be
  negative).
\<close>

theorem sema_tokens_conserved:
  assumes "finite T" and "reach (sema_start n) (interleave T sema_user) (c, ps)"
  shows "c + of_nat (card {t \<in> T. has_token (ps t)}) = n"
  by (rule sema_tokens[OF assms])

text \<open>Two threads test the count before either of them decrements it.\<close>

lemma demo_sema_reach:
  "reach (sema_start 1) (interleave {0, 1} sema_user) (-1, points Outside [Inside, Inside])"
proof (rule run_schedule_reach)
  show "sema_start 1 (1, \<lambda>_. Outside)" by (simp add: sema_start_def sesc_sema_init_def)
  show "run_schedule sema_user [(0, 1), (1, 1), (0, 0), (1, 0), (0, 0), (1, 0), (0, 0), (1, 0)] 1 (replicate 2 Outside) =
      Some (-1, [Inside, Inside])"
    by code_simp
qed auto

theorem sema_tokens_conserved_witness:
  "(-1 :: int32) + of_nat (card {t \<in> {0, 1 :: nat}. has_token (points Outside [Inside, Inside] t)}) = 1"
  by (rule sema_tokens_conserved[OF _ demo_sema_reach]) simp

text \<open>
  The test and the decrement of \<open>sesc_psema\<close> are separate, so the semaphore does not exclude: with
  one token two threads are inside at once, and the count is negative.
\<close>

theorem sema_not_exclusive:
  "\<exists>c ps. reach (sema_start 1) (interleave {0, 1} sema_user) (c, ps) \<and> ps 0 = Inside \<and> ps 1 = Inside \<and> sint c = -1"
  by (intro exI[of _ "-1 :: int32"] exI[of _ "points Outside [Inside, Inside]"]) (use demo_sema_reach in simp)

text \<open>
  C35: Whenever the flag is set and its lock free, there is exactly one token for every thread that
  waits on the flag: none is left behind, and none can take the token of a later wait.
\<close>

theorem sesc_flag_wakes_all:
  assumes "finite T" and "reach flag_start (interleave T flag_user) (f, ps)"
    and "spin (flock f) \<noteq> LOCKED" and "flag f \<noteq> 0"
  shows "queue f = of_nat (card {t \<in> T. waiting (ps t)})"
  by (rule flag_tokens[OF assms])

lemma demo_flag_reach:
  "reach flag_start (interleave {0, 1} flag_user)
     (\<lparr>flag = 1, waiters = 0, flock = \<lparr>spin = 0, dummy = 5\<rparr>, queue = 1\<rparr>, points F_out [W_sema (P_test 0), F_out])"
proof (rule run_schedule_reach)
  let ?f = "\<lparr>flag = 0, waiters = 0, flock = \<lparr>spin = 0, dummy = 0\<rparr>, queue = 0\<rparr> :: sflag_t"
  show "flag_start (?f, \<lambda>_. F_out)"
    by (auto simp: flag_start_def sesc_flag_init_def sesc_sema_init_def sesc_lock_init_def intro!: exI[of _ ?f])
  show "run_schedule flag_user
      [(0, 1), (0, 0), (0, 0), (0, 0), (0, 0), (0, 0), (0, 0), (0, 0), (0, 0),
       (1, 2), (1, 0), (1, 0), (1, 0), (1, 0), (1, 0), (1, 0), (1, 0), (1, 0), (1, 0), (1, 0), (1, 0), (1, 0)] ?f (replicate 2 F_out) =
      Some (\<lparr>flag = 1, waiters = 0, flock = \<lparr>spin = 0, dummy = 5\<rparr>, queue = 1\<rparr>, [W_sema (P_test 0), F_out])"
    by code_simp
qed auto

theorem sesc_flag_wakes_all_witness:
  "(1 :: int32) = of_nat (card {t \<in> {0, 1 :: nat}. waiting (points F_out [W_sema (P_test 0), F_out] t)})"
  using sesc_flag_wakes_all[OF _ demo_flag_reach] by simp

end
