(* ===== verification/NewTest.thy ===== *)
theory NewTest
  imports SyncLock
begin

text \<open>
  The workload \<^verbatim>\<open>libapp/newtest.c\<close> (the build for the simulator, \<^verbatim>\<open>USE_SESC\<close>): threads
  that increment and threads that read one integer under a lock. The increment is a load and a
  store, so the result depends on the lock.
\<close>

section \<open>The command line\<close>

fun digits :: "int \<Rightarrow> string \<Rightarrow> int" where
  "digits n [] = n"
| "digits n (c # cs) = (let d = of_char c - 48 in if 0 \<le> d \<and> d \<le> 9 then digits (10 * n + d) cs else n)"

definition white :: "char \<Rightarrow> bool" where
  "white c \<longleftrightarrow> c \<in> set [CHR '' '', CHR 0x09, CHR 0x0A, CHR 0x0B, CHR 0x0C, CHR 0x0D]"

text \<open>\<open>atoi\<close> of the C library, for a number that fits an \<open>int\<close>.\<close>

definition atoi :: "string \<Rightarrow> int" where
  "atoi cs = (case dropWhile white cs of
     [] \<Rightarrow> 0
   | c # cs' \<Rightarrow> if c = CHR ''-'' then - digits 0 cs' else if c = CHR ''+'' then digits 0 cs' else digits 0 (c # cs'))"

text \<open>\<open>processorCount\<close> and \<open>numberOfReads\<close> after the loop over \<open>argv\<close>.\<close>

fun parse_args :: "string list \<Rightarrow> int \<times> int \<Rightarrow> int \<times> int" where
  "parse_args [] (procs, reads) = (procs, reads)"
| "parse_args (arg # args) (procs, reads) = parse_args args (case arg of
     c0 # c1 # rest \<Rightarrow>
       if c0 = CHR ''-'' then
         if c1 = CHR ''p'' then (atoi rest, reads)
         else if c1 = CHR ''n'' then (procs, atoi rest)
         else (procs, reads)
       else (procs, reads)
   | _ \<Rightarrow> (procs, reads))"

datatype role = incInt | readInt

text \<open>
  The loop that spawns: a writer, and while \<open>t\<close> has not reached \<open>processorCount - 1\<close> a reader
  and the next writer. The flags of thread \<open>t\<close> pin it to processor \<open>t + 1\<close>.
\<close>

function spawn_loop :: "int \<Rightarrow> int \<Rightarrow> role list" where
  "spawn_loop procs t = incInt # (if t + 1 \<ge> procs - 1 then [] else readInt # spawn_loop procs (t + 2))"
  by pat_completeness auto
termination
  by (relation "measure (\<lambda>(procs, t). nat (procs - t))") auto

declare spawn_loop.simps [simp del]

text \<open>
  \<open>None\<close>: the usage message and \<open>sesc_exit(1)\<close>. Otherwise the number of loops of every thread
  (a C division, towards zero) and the roles of the threads spawned; \<open>main\<close> itself then reads.
\<close>

definition newtest_main :: "string list \<Rightarrow> (int \<times> role list) option" where
  "newtest_main argv = (case parse_args argv (0, 0) of (procs, reads) \<Rightarrow>
     if procs = 0 \<or> reads = 0 then None
     else Some (sgn reads * sgn procs * (\<bar>reads\<bar> div \<bar>procs\<bar>), spawn_loop procs 0))"

section \<open>The threads\<close>

record newtest =
  myLock :: slock_t
  myInt :: int32

text \<open>\<open>i\<close> is the loop counter; \<open>N_write i v\<close> has read \<open>myInt = v\<close> and stores \<open>v + 1\<close>.\<close>

datatype newtest_pc = N_test nat | N_lock nat lock_pc | N_read nat | N_write nat int32 | N_unlock nat lock_pc | N_exit

definition my_lock_act :: "lock_pc \<Rightarrow> newtest \<Rightarrow> newtest \<times> lock_pc" where
  "my_lock_act p m = (case lock_act p (myLock m) of (l, p') \<Rightarrow> (m\<lparr>myLock := l\<rparr>, p'))"

fun newtest_act :: "int \<Rightarrow> role \<Rightarrow> newtest_pc \<Rightarrow> newtest \<Rightarrow> newtest \<times> newtest_pc" where
  "newtest_act loops r (N_test i) m = (m, if int i < loops then N_lock i L_dummy else N_exit)"
| "newtest_act loops r (N_lock i p) m = (case my_lock_act p m of (m, p) \<Rightarrow>
     (m, if p = Held then N_read i else N_lock i p))"
| "newtest_act loops r (N_read i) m = (m, if r = incInt then N_write i (myInt m) else N_unlock i U_fence)"
| "newtest_act loops r (N_write i v) m = (m\<lparr>myInt := v + 1\<rparr>, N_unlock i U_fence)"
| "newtest_act loops r (N_unlock i p) m = (case my_lock_act p m of (m, p) \<Rightarrow>
     (m, if p = Out then N_test (i + 1) else N_unlock i p))"
| "newtest_act loops r N_exit m = (m, N_exit)"

definition newtest_user :: "int \<Rightarrow> (nat \<Rightarrow> role) \<Rightarrow> (newtest_pc, newtest) action" where
  "newtest_user loops role t p m = [newtest_act loops (role t) p m]"

definition newtest_start :: "newtest \<times> (nat \<Rightarrow> newtest_pc) \<Rightarrow> bool" where
  "newtest_start = (\<lambda>(m, ps). (\<exists>l0. myLock m = sesc_lock_init l0) \<and> myInt m = 1 \<and> ps = (\<lambda>_. N_test 0))"

section \<open>The lock\<close>

fun newtest_holding :: "newtest_pc \<Rightarrow> bool" where
  "newtest_holding (N_lock i p) = holding p"
| "newtest_holding (N_read i) = True"
| "newtest_holding (N_write i v) = True"
| "newtest_holding (N_unlock i p) = holding p"
| "newtest_holding _ = False"

lemma my_lock_act_cases:
  "my_lock_act p m = (m', p') \<Longrightarrow> lock_move (spin (myLock m) = LOCKED) (holding p) (spin (myLock m') = LOCKED) (holding p')"
  by (auto simp: my_lock_act_def split: prod.splits dest: lock_act_cases)

lemma newtest_user_cases:
  "(m', p') \<in> set (newtest_user loops role t p m) \<Longrightarrow>
   lock_move (spin (myLock m) = LOCKED) (newtest_holding p) (spin (myLock m') = LOCKED) (newtest_holding p')"
  by (cases p) (auto simp: newtest_user_def split: prod.splits if_splits dest!: my_lock_act_cases, auto simp: lock_move_def)

interpretation newtestlock: lock_protocol newtest_start "interleave T (newtest_user loops role)"
  "\<lambda>s. spin (myLock (fst s)) = LOCKED" "\<lambda>s t. newtest_holding (snd s t)"
proof
  show "\<not> spin (myLock (fst s)) = LOCKED \<and> \<not> newtest_holding (snd s t)" if "newtest_start s" for s t
    using that by (auto simp: newtest_start_def sesc_lock_init_def)
qed (rule interleave_contract[where tk = "\<lambda>m. spin (myLock m) = LOCKED", OF _ newtest_user_cases])

section \<open>No increment is lost\<close>

text \<open>The increments a thread has stored.\<close>

fun stored :: "int \<Rightarrow> newtest_pc \<Rightarrow> nat" where
  "stored loops (N_test i) = i"
| "stored loops (N_lock i p) = i"
| "stored loops (N_read i) = i"
| "stored loops (N_write i v) = i"
| "stored loops (N_unlock i p) = i + 1"
| "stored loops N_exit = nat loops"

definition increments :: "int \<Rightarrow> role \<Rightarrow> newtest_pc \<Rightarrow> nat" where
  "increments loops r p = (if r = incInt then stored loops p else 0)"

fun newtest_point :: "int \<Rightarrow> newtest_pc \<Rightarrow> bool" where
  "newtest_point loops (N_test i) \<longleftrightarrow> int i \<le> max 0 loops"
| "newtest_point loops (N_lock i p) \<longleftrightarrow> int i < loops"
| "newtest_point loops (N_read i) \<longleftrightarrow> int i < loops"
| "newtest_point loops (N_write i v) \<longleftrightarrow> int i < loops"
| "newtest_point loops (N_unlock i p) \<longleftrightarrow> int i < loops"
| "newtest_point loops N_exit = True"

lemma newtest_step_point:
  "newtest_act loops r p m = (m', p') \<Longrightarrow> newtest_point loops p \<Longrightarrow> newtest_point loops p'"
  by (cases p) (auto split: prod.splits if_splits)

lemma exit_count: "int i \<le> max 0 loops \<Longrightarrow> \<not> int i < loops \<Longrightarrow> nat loops = i"
  by auto

lemma newtest_step_count:
  assumes "newtest_act loops r p m = (m', p')" and "newtest_point loops p"
    and "\<And>i v. p = N_write i v \<Longrightarrow> v = myInt m \<and> r = incInt"
  shows "myInt m' + of_nat (increments loops r p) = myInt m + of_nat (increments loops r p')"
  using assms
  by (cases p) (auto simp: increments_def my_lock_act_def split: prod.splits if_splits, drule (1) exit_count, simp)

lemma sum_upd:
  assumes "finite T" and "t \<in> T"
  shows "(\<Sum>u\<in>T. f u ((ps(t := p)) u)) + f t (ps t) = (\<Sum>u\<in>T. f u (ps u)) + (f t p :: nat)"
proof -
  have "(\<Sum>u\<in>T - {t}. f u ((ps(t := p)) u)) = (\<Sum>u\<in>T - {t}. f u (ps u))" by (rule sum.cong) auto
  then show ?thesis using sum.remove[OF assms, of "\<lambda>u. f u ((ps(t := p)) u)"] sum.remove[OF assms, of "\<lambda>u. f u (ps u)"]
    by simp
qed

definition newtest_inv :: "int \<Rightarrow> (nat \<Rightarrow> role) \<Rightarrow> nat set \<Rightarrow> newtest \<times> (nat \<Rightarrow> newtest_pc) \<Rightarrow> bool" where
  "newtest_inv loops role T = (\<lambda>(m, ps). (\<forall>t. newtest_point loops (ps t)) \<and>
     (\<forall>t i v. ps t = N_write i v \<longrightarrow> v = myInt m \<and> role t = incInt) \<and>
     myInt m = 1 + of_nat (\<Sum>t\<in>T. increments loops (role t) (ps t)))"

lemma newtest_inv_reach:
  assumes T: "finite T" and "reach newtest_start (interleave T (newtest_user loops role)) s"
  shows "newtest_inv loops role T s"
  using assms(2)
proof (rule reach_invariant)
  fix s assume "newtest_start s"
  then show "newtest_inv loops role T s"
    by (auto simp: newtest_start_def newtest_inv_def increments_def simp del: of_nat_sum cong: if_cong)
next
  fix s s' assume r: "reach newtest_start (interleave T (newtest_user loops role)) s"
    and I: "newtest_inv loops role T s" and "interleave T (newtest_user loops role) s s'"
  from this(3) show "newtest_inv loops role T s'"
  proof cases
    case (run t m' p' ps m)
    have only: "u = t" if "newtest_holding (ps u)" "newtest_holding (ps t)" for u
      using newtestlock.mutual_exclusion[OF r, of u t] that run(1) by simp
    have act: "newtest_act loops (role t) (ps t) m = (m', p')" using run(4) by (simp add: newtest_user_def)
    have I': "newtest_point loops (ps u)" "ps u = N_write i v \<Longrightarrow> v = myInt m \<and> role u = incInt"
      "myInt m = 1 + of_nat (\<Sum>t\<in>T. increments loops (role t) (ps t))" for u i v
      using I run(1) by (auto simp: newtest_inv_def)
    have "\<forall>u. newtest_point loops ((ps(t := p')) u)"
      using newtest_step_point[OF act I'(1)] I'(1) by simp
    moreover have "v = myInt m' \<and> role u = incInt" if "(ps(t := p')) u = N_write i v" for u i v
    proof (cases "u = t")
      case True
      with that act show ?thesis by (cases "ps t") (auto split: prod.splits if_splits)
    next
      case False
      with that have w: "ps u = N_write i v" by simp
      then have "\<not> newtest_holding (ps t)" using only[of u] False by auto
      then have "myInt m' = myInt m" using act
        by (cases "ps t") (auto simp: my_lock_act_def split: prod.splits)
      with I'(2)[OF w] show ?thesis by simp
    qed
    moreover have "myInt m' = 1 + of_nat (\<Sum>u\<in>T. increments loops (role u) ((ps(t := p')) u))"
    proof -
      let ?S = "\<Sum>u\<in>T. increments loops (role u) (ps u)" and ?S' = "\<Sum>u\<in>T. increments loops (role u) ((ps(t := p')) u)"
      let ?b = "increments loops (role t) (ps t)" and ?a = "increments loops (role t) p'"
      have "myInt m' + of_nat ?b = myInt m + of_nat ?a"
        by (rule newtest_step_count[OF act I'(1) I'(2)])
      also have "\<dots> = 1 + of_nat (?S + ?a)" unfolding I'(3) by (simp del: of_nat_sum)
      also have "?S + ?a = ?S' + ?b"
        using sum_upd[OF T run(3), of "\<lambda>u. increments loops (role u)" ps p'] by simp
      also have "1 + (of_nat (?S' + ?b) :: int32) = (1 + of_nat ?S') + of_nat ?b" by (simp del: of_nat_sum)
      finally show ?thesis by (simp only: add_right_cancel)
    qed
    ultimately show ?thesis unfolding run(2) newtest_inv_def by blast
  qed
qed

lemma newtest_total:
  assumes "finite T" and "reach newtest_start (interleave T (newtest_user loops role)) (m, ps)"
    and "\<forall>t\<in>T. ps t = N_exit"
  shows "myInt m = 1 + of_nat (card {t \<in> T. role t = incInt} * nat loops)"
proof -
  have "(\<Sum>t\<in>T. increments loops (role t) (ps t)) = (\<Sum>t\<in>T. if role t = incInt then nat loops else 0)"
    by (rule sum.cong) (use assms(3) in \<open>auto simp: increments_def\<close>)
  also have "\<dots> = card {t \<in> T. role t = incInt} * nat loops"
    using assms(1) by (simp add: sum.If_cases Int_def)
  finally show ?thesis using newtest_inv_reach[OF assms(1,2)] by (simp add: newtest_inv_def del: of_nat_mult of_nat_sum)
qed

lemma spawn_loop_length: "int (length (spawn_loop procs t)) = (if procs \<le> t + 2 then 1
    else if even (procs - t) then procs - t - 1 else procs - t)"
proof (induction procs t rule: spawn_loop.induct)
  case (1 procs t)
  show ?case
  proof (cases "procs \<le> t + 2")
    case True
    then show ?thesis by (simp add: spawn_loop.simps)
  next
    case False
    then have "length (spawn_loop procs t) = Suc (Suc (length (spawn_loop procs (t + 2))))"
      by (subst spawn_loop.simps) simp
    moreover have "int (length (spawn_loop procs (t + 2))) = (if procs \<le> t + 2 + 2 then 1
        else if even (procs - (t + 2)) then procs - (t + 2) - 1 else procs - (t + 2))"
      using 1 False by simp
    ultimately show ?thesis using False by (simp split: if_splits) presburger
  qed
qed

section \<open>Properties\<close>

text \<open>
  C36: When all threads of \<open>newtest\<close> have exited, every increment of every writer has taken effect:
  \<open>myInt\<close> is one more than the number of writers times the number of loops (as a 32-bit integer).
\<close>

theorem newtest_counts:
  assumes "finite T" and "reach newtest_start (interleave T (newtest_user loops role)) (m, ps)"
    and "\<forall>t\<in>T. ps t = N_exit"
  shows "myInt m = 1 + of_nat (card {t \<in> T. role t = incInt} * nat loops)"
  by (rule newtest_total[OF assms])

lemma demo_newtest_reach:
  "reach newtest_start (interleave {0} (newtest_user 1 (\<lambda>_. incInt)))
     (\<lparr>myLock = \<lparr>spin = 0, dummy = 5\<rparr>, myInt = 2\<rparr>, points (N_test 0) [N_exit])"
proof (rule run_schedule_reach)
  let ?m = "\<lparr>myLock = \<lparr>spin = 0, dummy = 0\<rparr>, myInt = 1\<rparr> :: newtest"
  show "newtest_start (?m, \<lambda>_. N_test 0)"
    by (auto simp: newtest_start_def sesc_lock_init_def intro!: exI[of _ "\<lparr>spin = 0, dummy = 0\<rparr>"])
  show "run_schedule (newtest_user 1 (\<lambda>_. incInt)) (replicate 10 (0, 0)) ?m (replicate 1 (N_test 0)) =
      Some (\<lparr>myLock = \<lparr>spin = 0, dummy = 5\<rparr>, myInt = 2\<rparr>, [N_exit])"
    by code_simp
qed auto

theorem newtest_counts_witness: "(2 :: int32) = 1 + of_nat (card {t \<in> {0 :: nat}. incInt = incInt} * nat 1)"
  using newtest_counts[OF _ demo_newtest_reach] by simp

text \<open>
  For three or more processors, the spawn loop of \<open>newtest\<close> starts as many threads as leave one
  processor for \<open>main\<close> if the number is even, and one more, pinned to a processor that does not
  exist, if it is odd.
\<close>

theorem newtest_spawns:
  assumes "3 \<le> procs"
  shows "int (length (spawn_loop procs 0)) = (if even procs then procs - 1 else procs)"
  using spawn_loop_length[of procs 0] assms by auto

theorem newtest_spawns_witness: "int (length (spawn_loop 5 0)) = 5"
  using newtest_spawns[of 5] by simp

end
