(* ===== verification/Coletree.thy ===== *)
theory Coletree
  imports Prelude
begin

text \<open>
  The elimination trees of SuperLU (\<^verbatim>\<open>libsuperlu/sp_coletree.c\<close>): the disjoint sets with path
  halving, and Liu's algorithm for the symmetric tree (\<open>sp_symetree\<close>) and for the column tree
  of \<open>A'A\<close> (\<open>sp_coletree\<close>). The static array \<open>pp\<close> of the code is passed along.
\<close>

section \<open>Disjoint sets\<close>

definition mxCallocInt :: "int \<Rightarrow> int list option" where
  "mxCallocInt n = (if n < 0 then None else Some (fill n 0))"

definition initialize_disjoint_sets :: "int \<Rightarrow> int list option" where
  "initialize_disjoint_sets n = mxCallocInt n"

definition make_set :: "int \<Rightarrow> int list \<Rightarrow> (int \<times> int list) option" where
  "make_set i pp = do { pp \<leftarrow> wr pp i i; Some (i, pp) }"

definition link_sets :: "int \<Rightarrow> int \<Rightarrow> int list \<Rightarrow> (int \<times> int list) option" where
  "link_sets s t pp = do { pp \<leftarrow> wr pp s t; Some (t, pp) }"

text \<open>The body of the loop of \<open>find\<close>.\<close>

definition halve_body :: "int list \<times> int \<times> int \<times> int \<Rightarrow> (int list \<times> int \<times> int \<times> int) option" where
  "halve_body = (\<lambda>(pp, i, p, gp). do {
     pp \<leftarrow> wr pp i gp;
     p \<leftarrow> rd pp gp;
     gp' \<leftarrow> rd pp p;
     Some (pp, gp, p, gp') })"

definition find_set :: "int \<Rightarrow> int list \<Rightarrow> (int \<times> int list) option" where
  "find_set i pp = do {
     p \<leftarrow> rd pp i;
     gp \<leftarrow> rd pp p;
     (pp, i, p, gp) \<leftarrow> while_do (\<lambda>(pp, i, p, gp). Some (gp \<noteq> p)) halve_body (pp, i, p, gp);
     Some (p, pp) }"

section \<open>Elimination trees\<close>

text \<open>
  The state of Liu's algorithm while it works on a column: \<open>(cset, root, pp, parent)\<close>.
  \<open>etree_link\<close> is the body of the innermost loop for the vertex \<open>row\<close>, the same in both
  routines; \<open>etree_col\<close> is the body of the loop over the columns, with \<open>vertex\<close> the lookup
  that gives the vertex of an entry (through \<open>firstcol\<close> in \<open>sp_coletree\<close>).
\<close>

type_synonym liu = "int \<times> int list \<times> int list \<times> int list"

definition etree_link :: "int \<Rightarrow> int \<Rightarrow> liu \<Rightarrow> liu option" where
  "etree_link col row = (\<lambda>(cset, root, pp, parent).
     if row \<ge> col then Some (cset, root, pp, parent)
     else do {
       (rset, pp) \<leftarrow> find_set row pp;
       rroot \<leftarrow> rd root rset;
       if rroot \<noteq> col then do {
         parent \<leftarrow> wr parent rroot col;
         (cset, pp) \<leftarrow> link_sets cset rset pp;
         root \<leftarrow> wr root cset col;
         Some (cset, root, pp, parent) }
       else Some (cset, root, pp, parent) })"

definition etree_col :: "int list \<Rightarrow> int list \<Rightarrow> (int \<Rightarrow> int option) \<Rightarrow> int \<Rightarrow> int \<Rightarrow>
    int list \<times> int list \<times> int list \<Rightarrow> (int list \<times> int list \<times> int list) option" where
  "etree_col acolst acolend vertex n col = (\<lambda>(root, pp, parent). do {
     (cset, pp) \<leftarrow> make_set col pp;
     root \<leftarrow> wr root cset col;
     parent \<leftarrow> wr parent col n;
     s \<leftarrow> rd acolst col;
     e \<leftarrow> rd acolend col;
     (cset, root, pp, parent) \<leftarrow> for_up s e (\<lambda>p st. do {
        row \<leftarrow> vertex p;
        etree_link col row st }) (cset, root, pp, parent);
     Some (root, pp, parent) })"

definition sp_symetree :: "int list \<Rightarrow> int list \<Rightarrow> int list \<Rightarrow> int \<Rightarrow> int list \<Rightarrow> int list option" where
  "sp_symetree acolst acolend arow n parent = do {
     root \<leftarrow> mxCallocInt n;
     pp \<leftarrow> initialize_disjoint_sets n;
     (root, pp, parent) \<leftarrow> for_up 0 n (etree_col acolst acolend (rd arow) n) (root, pp, parent);
     Some parent }"

definition first_columns :: "int list \<Rightarrow> int list \<Rightarrow> int list \<Rightarrow> int \<Rightarrow> int \<Rightarrow> int list option" where
  "first_columns acolst acolend arow nr nc = do {
     firstcol \<leftarrow> mxCallocInt nr;
     firstcol \<leftarrow> for_up 0 nr (\<lambda>row fc. wr fc row nc) firstcol;
     for_up 0 nc (\<lambda>col fc. do {
       s \<leftarrow> rd acolst col;
       e \<leftarrow> rd acolend col;
       for_up s e (\<lambda>p fc. do {
         row \<leftarrow> rd arow p;
         f \<leftarrow> rd fc row;
         wr fc row (min f col) }) fc }) firstcol }"

definition sp_coletree ::
  "int list \<Rightarrow> int list \<Rightarrow> int list \<Rightarrow> int \<Rightarrow> int \<Rightarrow> int list \<Rightarrow> int list option" where
  "sp_coletree acolst acolend arow nr nc parent = do {
     root \<leftarrow> mxCallocInt nc;
     pp \<leftarrow> initialize_disjoint_sets nc;
     firstcol \<leftarrow> first_columns acolst acolend arow nr nc;
     (root, pp, parent) \<leftarrow> for_up 0 nc
       (etree_col acolst acolend (\<lambda>p. Option.bind (rd arow p) (rd firstcol)) nc)
       (root, pp, parent);
     Some parent }"

section \<open>Paths and representatives in a parent array\<close>

inductive uf_path :: "(int \<Rightarrow> int) \<Rightarrow> int \<Rightarrow> int \<Rightarrow> nat \<Rightarrow> bool" for f where
  root: "f r = r \<Longrightarrow> uf_path f r r 0"
| step: "f i \<noteq> i \<Longrightarrow> uf_path f (f i) r n \<Longrightarrow> uf_path f i r (Suc n)"

inductive_cases uf_path_0E: "uf_path f i r 0"
inductive_cases uf_path_SucE: "uf_path f i r (Suc n)"

definition uf_rep :: "(int \<Rightarrow> int) \<Rightarrow> int \<Rightarrow> int \<Rightarrow> bool" where
  "uf_rep f i r \<longleftrightarrow> (\<exists>n. uf_path f i r n)"

lemma uf_path_unique: "uf_path f i r n \<Longrightarrow> uf_path f i r' n' \<Longrightarrow> r = r' \<and> n = n'"
proof (induction arbitrary: r' n' rule: uf_path.induct)
  case (root r)
  from root(2) root(1) show ?case by (cases rule: uf_path.cases) auto
next
  case (step i r n)
  from step(4) step(1) show ?case by (cases rule: uf_path.cases) (auto dest: step.IH)
qed

lemma uf_rep_unique: "uf_rep f i r \<Longrightarrow> uf_rep f i r' \<Longrightarrow> r = r'"
  by (auto simp: uf_rep_def dest: uf_path_unique)

lemma uf_path_end: "uf_path f i r n \<Longrightarrow> f r = r"
  by (induction rule: uf_path.induct) auto

lemma uf_rep_end: "uf_rep f i r \<Longrightarrow> f r = r"
  by (auto simp: uf_rep_def dest: uf_path_end)

lemma uf_rep_root: "f r = r \<Longrightarrow> uf_rep f r r"
  by (auto simp: uf_rep_def intro: uf_path.root)

lemma uf_rep_step: "f i \<noteq> i \<Longrightarrow> uf_rep f i r \<longleftrightarrow> uf_rep f (f i) r"
  by (auto simp: uf_rep_def intro: uf_path.step elim: uf_path.cases)

lemma uf_rep_self: "uf_rep f i r \<Longrightarrow> uf_rep f r r"
  by (simp add: uf_rep_root uf_rep_end)

lemma uf_path_bounds:
  "uf_path f i r n \<Longrightarrow> \<forall>j\<in>{0..<m}. f j \<in> {0..<m} \<Longrightarrow> i \<in> {0..<m} \<Longrightarrow> r \<in> {0..<m::int}"
  by (induction rule: uf_path.induct) auto

lemma uf_rep_bounds:
  "uf_rep f i r \<Longrightarrow> \<forall>j\<in>{0..<m}. f j \<in> {0..<m} \<Longrightarrow> i \<in> {0..<m} \<Longrightarrow> r \<in> {0..<m::int}"
  unfolding uf_rep_def using uf_path_bounds by blast

text \<open>A shortcut on the way to the same root shortens paths and keeps every representative.\<close>

lemma uf_path_shortcut:
  assumes "uf_path f x s nx" and "uf_path f y s ny" and "ny < nx"
    and g: "g x = y" "\<And>j. j \<noteq> x \<Longrightarrow> g j = f j"
  shows "uf_path f i r n \<Longrightarrow> \<exists>n'\<le>n. uf_path g i r n'"
proof (induction n arbitrary: i r rule: less_induct)
  case (less n)
  show ?case
  proof (cases "i = x")
    case True
    with less.prems assms(1) have rn: "r = s" "n = nx" by (auto dest: uf_path_unique)
    with assms(2,3) less.IH[of ny y s] obtain n' where n': "n' \<le> ny" "uf_path g y s n'" by auto
    moreover have "y \<noteq> x" using assms(1,2,3) by (auto dest: uf_path_unique)
    ultimately have "uf_path g x s (Suc n')" using g uf_path.step[of g x s n'] by simp
    with True rn n'(1) assms(3) show ?thesis by (intro exI[of _ "Suc n'"]) auto
  next
    case False
    from less.prems show ?thesis
    proof (cases rule: uf_path.cases)
      case root
      with False g show ?thesis by (auto intro: uf_path.root)
    next
      case (step k)
      with less.IH[of k "f i" r] obtain k' where "k' \<le> k" "uf_path g (f i) r k'" by auto
      with False step g show ?thesis using uf_path.step[of g i r k'] by auto
    qed
  qed
qed

text \<open>Linking a root to another root.\<close>

lemma uf_rep_link:
  assumes "f s = s" and "f t = t" and "s \<noteq> t" and g: "g s = t" "\<And>j. j \<noteq> s \<Longrightarrow> g j = f j"
    and "uf_rep f i r"
  shows "uf_rep g i (if r = s then t else r)"
proof -
  have t: "uf_rep g t t" using assms(2,3) g by (simp add: uf_rep_root)
  from assms(6) obtain n where "uf_path f i r n" by (auto simp: uf_rep_def)
  then show ?thesis
  proof (induction rule: uf_path.induct)
    case (root r)
    show ?case
    proof (cases "r = s")
      case True
      with t g assms(3) uf_rep_step[of g s t] show ?thesis by simp
    next
      case False
      with root g show ?thesis by (simp add: uf_rep_root)
    qed
  next
    case (step i r n)
    then have "i \<noteq> s" using assms(1) by auto
    with step g uf_rep_step[of g i] show ?case by simp
  qed
qed

section \<open>Path halving finds the representative\<close>

definition uf_ok :: "int \<Rightarrow> (int \<Rightarrow> int) \<Rightarrow> bool" where
  "uf_ok m f \<longleftrightarrow> (\<forall>j\<in>{0..<m}. f j \<in> {0..<m}) \<and> (\<forall>j\<in>{0..<m}. \<exists>r. uf_rep f j r)"

definition uf_len :: "(int \<Rightarrow> int) \<Rightarrow> int \<Rightarrow> nat" where
  "uf_len f i = (LEAST n. \<exists>r. uf_path f i r n)"

lemma uf_len_eq: "uf_path f i r n \<Longrightarrow> uf_len f i = n"
  unfolding uf_len_def by (rule Least_equality) (auto dest: uf_path_unique)

definition uf_keeps :: "int \<Rightarrow> (int \<Rightarrow> int) \<Rightarrow> (int \<Rightarrow> int) \<Rightarrow> bool" where
  "uf_keeps m f g \<longleftrightarrow> uf_ok m g \<and> (\<forall>j r. uf_rep f j r \<longrightarrow> uf_rep g j r) \<and>
     (\<forall>j. j \<notin> {0..<m} \<longrightarrow> g j = f j)"

lemma uf_keeps_refl: "uf_ok m f \<Longrightarrow> uf_keeps m f f"
  by (simp add: uf_keeps_def)

lemma uf_keeps_trans: "uf_keeps m f g \<Longrightarrow> uf_keeps m g h \<Longrightarrow> uf_keeps m f h"
  by (simp add: uf_keeps_def)

lemma uf_keeps_iff: "uf_ok m f \<Longrightarrow> uf_keeps m f g \<Longrightarrow> j \<in> {0..<m} \<Longrightarrow> uf_rep g j r = uf_rep f j r"
  unfolding uf_keeps_def uf_ok_def by (metis uf_rep_unique)

lemma uf_path_two:
  assumes "uf_path f i r n" and "f (f i) \<noteq> f i"
  obtains k where "n = Suc (Suc k)" and "uf_path f (f (f i)) r k"
proof -
  from assms have "f i \<noteq> i" by auto
  with assms(1) obtain n' where n': "n = Suc n'" "uf_path f (f i) r n'" by (auto elim: uf_path.cases)
  from n'(2) assms(2) obtain k where "n' = Suc k" "uf_path f (f (f i)) r k" by (auto elim: uf_path.cases)
  with n'(1) that show ?thesis by simp
qed

lemma uf_halve:
  assumes "uf_ok m f" and "i \<in> {0..<m}" and "f (f i) \<noteq> f i"
    and g: "g i = f (f i)" "\<And>j. j \<noteq> i \<Longrightarrow> g j = f j"
  shows "uf_keeps m f g" and "uf_len g (f (f i)) < uf_len f i"
proof -
  obtain r n where path: "uf_path f i r n"
    using assms(1,2) unfolding uf_ok_def uf_rep_def by blast
  from path assms(3) obtain k where k: "n = Suc (Suc k)" "uf_path f (f (f i)) r k" by (rule uf_path_two)
  have shortcut: "\<exists>n'\<le>l. uf_path g j s n'" if "uf_path f j s l" for j s l
    by (rule uf_path_shortcut[OF path k(2) _ g that]) (simp add: k(1))
  then have reps: "\<forall>j r. uf_rep f j r \<longrightarrow> uf_rep g j r" unfolding uf_rep_def by blast
  have "g j \<in> {0..<m}" if "j \<in> {0..<m}" for j
    using that assms(1,2) g by (cases "j = i") (auto simp: uf_ok_def)
  moreover have "\<exists>r. uf_rep g j r" if "j \<in> {0..<m}" for j
    using that assms(1) reps unfolding uf_ok_def by blast
  moreover have "g j = f j" if "j \<notin> {0..<m}" for j using that assms(2) g(2) by auto
  ultimately show "uf_keeps m f g" using reps by (simp add: uf_keeps_def uf_ok_def)
  from shortcut[OF k(2)] obtain n' where "n' \<le> k" "uf_path g (f (f i)) r n'" by auto
  with k(1) path show "uf_len g (f (f i)) < uf_len f i" by (simp add: uf_len_eq)
qed

lemma halve_step:
  assumes "uf_ok m f" and "f = ix pp" and "i \<in> {0..<m}" and "m \<le> alen pp" and "uf_rep f i r"
    and ne: "f (f i) \<noteq> f i"
  shows "returns (halve_body (pp, i, f i, f (f i))) (\<lambda>(pp', i', p, gp). alen pp' = alen pp \<and>
    uf_keeps m f (ix pp') \<and> i' \<in> {0..<m} \<and> uf_rep (ix pp') i' r \<and> p = ix pp' i' \<and>
    gp = ix pp' p \<and> uf_len (ix pp') i' < uf_len f i)"
proof -
  have inb: "inb pp j" if "j \<in> {0..<m}" for j using that assms(4) by (auto simp: inb_def)
  have b: "f i \<in> {0..<m}" "f (f i) \<in> {0..<m}" using assms(1,3) by (auto simp: uf_ok_def)
  let ?pp = "up pp i (f (f i))"
  let ?g = "ix ?pp"
  have g: "?g i = f (f i)" "\<And>j. j \<noteq> i \<Longrightarrow> ?g j = f j" using assms(2,3) inb by (auto simp: ix_up)
  note halve = uf_halve[OF assms(1,3) ne g]
  have "uf_rep f (f (f i)) r" using assms(5) ne uf_rep_step by metis
  with halve(1) have rep: "uf_rep ?g (f (f i)) r" by (simp add: uf_keeps_def)
  have "?g (f (f i)) \<in> {0..<m}" using halve(1) b by (auto simp: uf_keeps_def uf_ok_def)
  with halve rep b inb assms(3) show ?thesis by (simp add: halve_body_def wp)
qed

lemma find_set_wp:
  assumes ok: "uf_ok m (ix pp)" and i: "i \<in> {0..<m}" and len: "m \<le> alen pp" and r: "uf_rep (ix pp) i r"
  shows "returns (find_set i pp) (\<lambda>(p, pp'). p = r \<and> alen pp' = alen pp \<and> uf_keeps m (ix pp) (ix pp'))"
proof -
  let ?I = "\<lambda>(pp', i', p, gp). alen pp' = alen pp \<and> uf_keeps m (ix pp) (ix pp') \<and> i' \<in> {0..<m} \<and>
    uf_rep (ix pp') i' r \<and> p = ix pp' i' \<and> gp = ix pp' p"
  let ?Q = "\<lambda>(pp', i', p, gp :: int). p = r \<and> alen pp' = alen pp \<and> uf_keeps m (ix pp) (ix pp')"
  have inb: "inb pp i" "inb pp (ix pp i)" using ok i len unfolding uf_ok_def inb_def by fastforce+
  have "returns (while_do (\<lambda>(pp, i, p, gp). Some (gp \<noteq> p)) halve_body (pp, i, ix pp i, ix pp (ix pp i))) ?Q"
  proof (rule while_do_wp[where I = ?I and m = "\<lambda>(pp', i', p, gp). uf_len (ix pp') i'"])
    show "?I (pp, i, ix pp i, ix pp (ix pp i))" using i ok r by (simp add: uf_keeps_refl)
    fix s assume I: "?I s"
    then obtain pp' i' where s: "s = (pp', i', ix pp' i', ix pp' (ix pp' i'))" by (cases s) auto
    from I s have I': "alen pp' = alen pp" "uf_keeps m (ix pp) (ix pp')" "i' \<in> {0..<m}" "uf_rep (ix pp') i' r"
      by auto
    then have ok': "uf_ok m (ix pp')" by (simp add: uf_keeps_def)
    show "returns (case s of (pp, i, p, gp) \<Rightarrow> Some (gp \<noteq> p))
      (\<lambda>t. if t then returns (halve_body s) (\<lambda>s'. ?I s' \<and>
          (case s' of (pp', i', p, gp) \<Rightarrow> uf_len (ix pp') i') < (case s of (pp', i', p, gp) \<Rightarrow> uf_len (ix pp') i'))
        else ?Q s)"
    proof (cases "ix pp' (ix pp' i') = ix pp' i'")
      case True
      then have "uf_rep (ix pp') i' (ix pp' i')" by (metis uf_rep_root uf_rep_step)
      with I'(4) have "ix pp' i' = r" by (rule uf_rep_unique[rotated])
      with True I' s show ?thesis by simp
    next
      case False
      have "returns (halve_body s) (\<lambda>s'. ?I s' \<and>
          (case s' of (pp', i', p, gp) \<Rightarrow> uf_len (ix pp') i') < uf_len (ix pp') i')"
        unfolding s using halve_step[OF ok' refl I'(3) _ I'(4) False] len I'(1) uf_keeps_trans[OF I'(2)]
        by (auto elim!: returns_mono)
      with False s show ?thesis by (simp add: case_prod_unfold)
    qed
  qed
  with inb show ?thesis
    by (simp add: find_set_def wp halve_body_def[symmetric] case_prod_unfold)
qed

section \<open>The elimination tree of a graph\<close>

text \<open>
  The specification. \<open>E\<close> holds the edges \<open>(a, b)\<close> with \<open>a < b\<close>; \<open>conn E k\<close> relates the
  vertices that a path through vertices up to \<open>k\<close> connects. The parent of \<open>v\<close> is the least
  \<open>k > v\<close> that is connected to \<open>v\<close> through vertices up to \<open>k\<close>, and \<open>n\<close> when there is none.
\<close>

definition sym_rel :: "(int \<times> int) set \<Rightarrow> (int \<times> int) set" where
  "sym_rel E = E \<union> E\<inverse>"

definition conn :: "(int \<times> int) set \<Rightarrow> int \<Rightarrow> (int \<times> int) set" where
  "conn E k = (sym_rel E \<inter> {0..k} \<times> {0..k})\<^sup>*"

definition is_parent :: "(int \<times> int) set \<Rightarrow> int \<Rightarrow> int \<Rightarrow> int \<Rightarrow> bool" where
  "is_parent E n v w \<longleftrightarrow>
     (if \<exists>k. v < k \<and> k < n \<and> (v, k) \<in> conn E k
      then v < w \<and> w < n \<and> (v, w) \<in> conn E w \<and> (\<forall>k. v < k \<and> k < w \<longrightarrow> (v, k) \<notin> conn E k)
      else w = n)"

lemma is_parent_unique: "is_parent E n v w \<Longrightarrow> is_parent E n v w' \<Longrightarrow> w = w'"
  unfolding is_parent_def by (metis linorder_neqE)

lemma is_parent_gt: "is_parent E n v w \<Longrightarrow> v < n \<Longrightarrow> v < w \<and> w \<le> n"
  by (auto simp: is_parent_def split: if_splits)

lemma sym_rel_rtrancl: "(u, v) \<in> (sym_rel G)\<^sup>* \<Longrightarrow> (v, u) \<in> (sym_rel G)\<^sup>*"
proof -
  have "sym (sym_rel G)" by (auto simp: sym_rel_def sym_def)
  then show "(u, v) \<in> (sym_rel G)\<^sup>* \<Longrightarrow> (v, u) \<in> (sym_rel G)\<^sup>*" by (meson symD sym_rtrancl)
qed

lemma rtrancl_within:
  assumes "(u, v) \<in> R\<^sup>*" and "\<And>w. (u, w) \<in> R\<^sup>* \<Longrightarrow> w \<in> A"
  shows "(u, v) \<in> (R \<inter> A \<times> A)\<^sup>*"
  using assms(1)
proof (induction rule: rtrancl_induct)
  case (step y z)
  with assms(2) have "y \<in> A" "z \<in> A" by (auto intro: rtrancl.rtrancl_into_rtrancl)
  with step show ?case by (auto intro: rtrancl.rtrancl_into_rtrancl)
qed simp

text \<open>A new edge joins two components.\<close>

lemma sym_rel_insert:
  "(u, v) \<in> (sym_rel (insert (a, b) G))\<^sup>* \<longleftrightarrow> (u, v) \<in> (sym_rel G)\<^sup>* \<or>
     (u, a) \<in> (sym_rel G)\<^sup>* \<and> (b, v) \<in> (sym_rel G)\<^sup>* \<or>
     (u, b) \<in> (sym_rel G)\<^sup>* \<and> (a, v) \<in> (sym_rel G)\<^sup>*" (is "?L \<longleftrightarrow> ?R")
proof
  let ?S = "sym_rel G" and ?T = "sym_rel (insert (a, b) G)"
  assume ?L
  then show ?R
  proof (induction rule: rtrancl_induct)
    case (step y z)
    from step.hyps(2) have "(y, z) \<in> ?S \<or> y = a \<and> z = b \<or> y = b \<and> z = a" by (auto simp: sym_rel_def)
    with step.IH show ?case by (auto intro: rtrancl.rtrancl_into_rtrancl)
  qed simp
next
  let ?S = "sym_rel G" and ?T = "sym_rel (insert (a, b) G)"
  have sub: "?S\<^sup>* \<subseteq> ?T\<^sup>*" by (rule rtrancl_mono) (auto simp: sym_rel_def)
  have "(a, b) \<in> ?T" "(b, a) \<in> ?T" by (auto simp: sym_rel_def)
  moreover assume ?R
  ultimately show ?L using sub by (meson r_into_rtrancl rtrancl_trans subsetD)
qed

section \<open>Liu's algorithm\<close>

text \<open>
  The invariant over the functions the arrays stand for: \<open>G\<close> are the edges seen, among the
  vertices below \<open>m\<close>; the sets of \<open>f\<close> are its components, \<open>rt\<close> gives the largest vertex of
  each, and every vertex that is not the largest of its component has its final parent.
\<close>

definition liu_inv :: "(int \<times> int) set \<Rightarrow> int \<Rightarrow> int \<Rightarrow> (int \<times> int) set \<Rightarrow>
    (int \<Rightarrow> int) \<Rightarrow> (int \<Rightarrow> int) \<Rightarrow> (int \<Rightarrow> int) \<Rightarrow> bool" where
  "liu_inv E n m G rt f pa \<longleftrightarrow> G \<subseteq> E \<inter> {0..<m} \<times> {0..<m} \<and> uf_ok m f \<and>
     (\<forall>u\<in>{0..<m}. \<forall>v\<in>{0..<m}. (\<exists>r. uf_rep f u r \<and> uf_rep f v r) \<longleftrightarrow> (u, v) \<in> (sym_rel G)\<^sup>*) \<and>
     (\<forall>u\<in>{0..<m}. \<forall>r. uf_rep f u r \<longrightarrow> rt r \<in> {0..<m} \<and> u \<le> rt r \<and> uf_rep f (rt r) r) \<and>
     (\<forall>v\<in>{0..<m}. if \<exists>u\<in>{0..<m}. v < u \<and> (v, u) \<in> (sym_rel G)\<^sup>*
        then v < pa v \<and> pa v < m \<and> (v, pa v) \<in> conn E (pa v) \<and>
          (\<forall>k. v < k \<and> k < pa v \<longrightarrow> (v, k) \<notin> conn E k)
        else pa v = n)"

lemma liu_inv_keeps:
  assumes "liu_inv E n m G rt f pa" and "uf_keeps m f g"
  shows "liu_inv E n m G rt g pa"
proof -
  from assms(1) have "uf_ok m f" by (simp add: liu_inv_def)
  note iff = uf_keeps_iff[OF this assms(2)]
  from assms(2) have "uf_ok m g" by (simp add: uf_keeps_def)
  with assms(1) iff show ?thesis unfolding liu_inv_def by auto
qed

lemma liu_inv_empty: "liu_inv E n 0 {} rt f pa"
  by (simp add: liu_inv_def uf_ok_def)

lemma field_rtrancl:
  assumes "(u, v) \<in> (sym_rel G)\<^sup>*" and "G \<subseteq> A \<times> A"
  shows "u = v \<or> u \<in> A \<and> v \<in> A"
  using assms(1) by (induction rule: rtrancl_induct) (use assms(2) in \<open>auto simp: sym_rel_def\<close>)

text \<open>\<open>make_set\<close>: a new vertex, alone in its component.\<close>

lemma liu_inv_vertex:
  assumes inv: "liu_inv E n m G rt f pa" and m: "0 \<le> m"
    and f': "f' m = m" "\<And>j. j \<noteq> m \<Longrightarrow> f' j = f j"
  shows "liu_inv E n (m + 1) G (rt(m := m)) f' (pa(m := n))"
proof -
  note I = inv[unfolded liu_inv_def uf_ok_def]
  have rep_m: "uf_rep f' m r \<longleftrightarrow> r = m" for r
    using f'(1) uf_rep_unique uf_rep_root by metis
  have path: "uf_path f' u r k" if "uf_path f u r k" "u \<in> {0..<m}" for u r k
    using that
  proof (induction rule: uf_path.induct)
    case (root r)
    with f' show ?case by (auto intro: uf_path.root)
  next
    case (step i r k)
    with I f'(2)[of i] uf_path.step[of f' i r k] show ?case by auto
  qed
  have rep: "uf_rep f' u r \<longleftrightarrow> uf_rep f u r" if "u \<in> {0..<m}" for u r
    using that path I unfolding uf_rep_def by (metis uf_path_unique)
  have lt: "r \<in> {0..<m}" if "uf_rep f u r" "u \<in> {0..<m}" for u r
    using uf_rep_bounds[OF that(1) _ that(2)] I by simp
  have new: "(m, v) \<in> (sym_rel G)\<^sup>* \<longleftrightarrow> v = m" "(v, m) \<in> (sym_rel G)\<^sup>* \<longleftrightarrow> v = m" for v
    using field_rtrancl[of m v G "{0..<m}"] field_rtrancl[of v m G "{0..<m}"] I by auto
  have set: "{0..<m + 1} = insert m {0..<m}" using m by auto
  have "f' j \<in> {0..<m + 1}" if "j \<in> {0..<m + 1}" for j
  proof (cases "j = m")
    case True
    with f' m show ?thesis by simp
  next
    case False
    with that have "j \<in> {0..<m}" by auto
    with I have "f j \<in> {0..<m}" by blast
    with False f' show ?thesis by simp
  qed
  moreover have "\<exists>r. uf_rep f' j r" if "j \<in> {0..<m + 1}" for j
    using that I rep[of j] rep_m unfolding set by blast
  ultimately have c1: "uf_ok (m + 1) f'" by (simp add: uf_ok_def)
  have c2: "(\<exists>r. uf_rep f' u r \<and> uf_rep f' v r) \<longleftrightarrow> (u, v) \<in> (sym_rel G)\<^sup>*"
    if "u \<in> {0..<m + 1}" "v \<in> {0..<m + 1}" for u v
  proof (cases "u = m \<or> v = m")
    case True
    have w: "uf_rep f' w m \<longleftrightarrow> w = m" if "w \<in> {0..<m + 1}" for w
      using that rep[of w] rep_m lt[of w m] unfolding set by auto
    have "(\<exists>r. uf_rep f' u r \<and> uf_rep f' v r) \<longleftrightarrow> u = v" using True
    proof
      assume "u = m"
      with w[OF that(2)] show ?thesis by (auto simp: rep_m)
    next
      assume "v = m"
      with w[OF that(1)] show ?thesis by (auto simp: rep_m)
    qed
    with True new show ?thesis by auto
  next
    case False
    with that have "u \<in> {0..<m}" "v \<in> {0..<m}" by auto
    with I show ?thesis by (simp add: rep)
  qed
  have c3: "(rt(m := m)) r \<in> {0..<m + 1} \<and> u \<le> (rt(m := m)) r \<and> uf_rep f' ((rt(m := m)) r) r"
    if "u \<in> {0..<m + 1}" "uf_rep f' u r" for u r
    using that I rep rep_m lt[of u r] m unfolding set by (cases "u = m") (auto simp: rep)
  have c4: "if \<exists>u\<in>{0..<m + 1}. v < u \<and> (v, u) \<in> (sym_rel G)\<^sup>*
      then v < (pa(m := n)) v \<and> (pa(m := n)) v < m + 1 \<and> (v, (pa(m := n)) v) \<in> conn E ((pa(m := n)) v) \<and>
        (\<forall>k. v < k \<and> k < (pa(m := n)) v \<longrightarrow> (v, k) \<notin> conn E k)
      else (pa(m := n)) v = n" if "v \<in> {0..<m + 1}" for v
    using that I new unfolding set by (cases "v = m") (auto split: if_splits)
  have "G \<subseteq> E \<inter> {0..<m + 1} \<times> {0..<m + 1}" using I by auto
  with c1 c2 c3 c4 show ?thesis unfolding liu_inv_def by blast
qed

text \<open>
  \<open>link\<close>: the edge from \<open>row\<close> to the newest vertex \<open>col = m - 1\<close>, when the component of
  \<open>row\<close> does not hold \<open>col\<close> yet. \<open>rr\<close> is the largest vertex of that component.
\<close>

lemma liu_inv_edge:
  assumes inv: "liu_inv E n (col + 1) G rt f pa" and col: "0 \<le> row" "row < col" "col < n" "(row, col) \<in> E"
    and all: "\<And>a b. (a, b) \<in> E \<Longrightarrow> b < col \<Longrightarrow> (a, b) \<in> G" and E: "\<And>a b. (a, b) \<in> E \<Longrightarrow> 0 \<le> a \<and> a < b"
    and cset: "uf_rep f col cset" and rset: "uf_rep f row rset" and rr: "rt rset = rr" "rr \<noteq> col"
    and g: "g cset = rset" "\<And>j. j \<noteq> cset \<Longrightarrow> g j = f j"
  shows "liu_inv E n (col + 1) (insert (row, col) G) (rt(rset := col)) g (pa(rr := col))"
proof -
  let ?m = "col + 1" and ?S = "(sym_rel G)\<^sup>*" and ?T = "(sym_rel (insert (row, col) G))\<^sup>*"
  note I = inv[unfolded liu_inv_def]
  have comp: "(\<exists>r. uf_rep f u r \<and> uf_rep f v r) \<longleftrightarrow> (u, v) \<in> ?S" if "u \<in> {0..<?m}" "v \<in> {0..<?m}" for u v
    using I that by blast
  have rows: "row \<in> {0..<?m}" "col \<in> {0..<?m}" using col by auto
  have rr_max: "rr \<in> {0..<?m}" "uf_rep f rr rset" and max: "\<And>u. u \<in> {0..<?m} \<Longrightarrow> uf_rep f u rset \<Longrightarrow> u \<le> rr"
    using I rows(1) rset rr(1) by blast+
  have rrlt: "rr < col" using rr rr_max by auto
  have "rt cset \<in> {0..<?m}" "col \<le> rt cset" using I rows(2) cset by blast+
  then have rt_c: "rt cset = col" by simp
  have ne: "cset \<noteq> rset" using rt_c rr by auto
  have ends: "f cset = cset" "f rset = rset" using cset rset by (auto dest: uf_rep_end)
  have csm: "cset \<in> {0..<?m}" "rset \<in> {0..<?m}"
    using uf_rep_bounds[OF cset _ rows(2)] uf_rep_bounds[OF rset _ rows(1)] I unfolding uf_ok_def by auto
  have ok: "uf_ok ?m f" using I by blast
  have link: "uf_rep g i (if r = cset then rset else r)" if "uf_rep f i r" for i r
    by (rule uf_rep_link[OF ends ne g that])
  have repf: "\<exists>r. uf_rep f u r" if "u \<in> {0..<?m}" for u using ok that by (auto simp: uf_ok_def)
  have g_iff: "uf_rep g u s \<longleftrightarrow> (\<exists>r. uf_rep f u r \<and> s = (if r = cset then rset else r))"
    if "u \<in> {0..<?m}" for u s
  proof -
    from repf[OF \<open>u \<in> {0..<?m}\<close>] obtain r where r: "uf_rep f u r" by blast
    have "uf_rep g u s \<longleftrightarrow> s = (if r = cset then rset else r)" using link[OF r] uf_rep_unique by blast
    moreover have "uf_rep f u r' \<longleftrightarrow> r' = r" for r' using r uf_rep_unique by blast
    ultimately show ?thesis by simp
  qed
  have okg: "uf_ok ?m g"
  proof -
    have "g j \<in> {0..<?m}" if "j \<in> {0..<?m}" for j
      using that ok g csm by (cases "j = cset") (simp, simp add: uf_ok_def)
    moreover have "\<exists>r. uf_rep g j r" if "j \<in> {0..<?m}" for j using repf[OF that] link by blast
    ultimately show ?thesis by (simp add: uf_ok_def)
  qed
  have the_rep: "(\<exists>r. uf_rep f u r \<and> uf_rep f w r) \<longleftrightarrow> uf_rep f u s" if "uf_rep f w s" for u w s
    using that uf_rep_unique[OF that] by metis
  have in_row: "uf_rep f u rset \<longleftrightarrow> (u, row) \<in> ?S" and in_col: "uf_rep f u cset \<longleftrightarrow> (u, col) \<in> ?S"
    if "u \<in> {0..<?m}" for u
    using comp[OF that rows(1)] comp[OF that rows(2)] by (simp_all add: the_rep[OF rset] the_rep[OF cset])
  have disj: "\<not> (uf_rep f u rset \<and> uf_rep f u cset)" for u using ne uf_rep_unique by blast
  have c2: "(\<exists>r. uf_rep g u r \<and> uf_rep g v r) \<longleftrightarrow> (u, v) \<in> ?T" if u: "u \<in> {0..<?m}" and v: "v \<in> {0..<?m}" for u v
  proof -
    obtain ru rv where r: "uf_rep f u ru" "uf_rep f v rv" using repf u v by blast
    have is_r: "uf_rep f u s \<longleftrightarrow> s = ru" "uf_rep f v s \<longleftrightarrow> s = rv" for s
      using r uf_rep_unique by blast+
    have "(\<exists>r. uf_rep g u r \<and> uf_rep g v r) \<longleftrightarrow> ru = rv \<or> ru = rset \<and> rv = cset \<or> ru = cset \<and> rv = rset"
      using ne by (auto simp: g_iff[OF u] g_iff[OF v] is_r)
    also have "\<dots> \<longleftrightarrow> (u, v) \<in> ?S \<or> (u, row) \<in> ?S \<and> (v, col) \<in> ?S \<or> (u, col) \<in> ?S \<and> (v, row) \<in> ?S"
      by (auto simp: comp[OF u v, symmetric] in_row[OF u, symmetric] in_row[OF v, symmetric]
          in_col[OF u, symmetric] in_col[OF v, symmetric] is_r)
    also have "\<dots> \<longleftrightarrow> (u, v) \<in> ?S \<or> (u, row) \<in> ?S \<and> (col, v) \<in> ?S \<or> (u, col) \<in> ?S \<and> (row, v) \<in> ?S"
      using sym_rel_rtrancl by blast
    finally show ?thesis by (simp add: sym_rel_insert)
  qed
  have c3: "(rt(rset := col)) s \<in> {0..<?m} \<and> u \<le> (rt(rset := col)) s \<and> uf_rep g ((rt(rset := col)) s) s"
    if u: "u \<in> {0..<?m}" and s: "uf_rep g u s" for u s
  proof (cases "s = rset")
    case True
    with u rows(2) link[OF cset] show ?thesis by auto
  next
    case False
    with s g_iff[OF u] obtain "uf_rep f u s" "s \<noteq> cset" by (auto split: if_splits)
    with I u link[of "rt s" s] False show ?thesis by auto
  qed
  have conn_sub: "conn E k \<subseteq> ?S" if "k < col" for k
    unfolding conn_def by (rule rtrancl_mono) (use all that in \<open>auto simp: sym_rel_def\<close>)
  have rr_row: "(rr, row) \<in> ?S" using in_row[OF rr_max(1)] rr_max(2) by blast
  have T_col: "(rr, col) \<in> ?T" using rr_row by (auto simp: sym_rel_insert)
  have rr_conn: "(rr, col) \<in> conn E col"
  proof -
    have sub: "sym_rel (insert (row, col) G) \<subseteq> sym_rel E \<inter> {0..col} \<times> {0..col}"
      using I col unfolding sym_rel_def by auto
    from T_col rtrancl_mono[OF sub] show ?thesis unfolding conn_def by blast
  qed
  have rr_top: "\<not> (\<exists>u\<in>{0..<?m}. rr < u \<and> (rr, u) \<in> ?S)"
  proof
    assume "\<exists>u\<in>{0..<?m}. rr < u \<and> (rr, u) \<in> ?S"
    then obtain u where u: "u \<in> {0..<?m}" "rr < u" "(rr, u) \<in> ?S" by blast
    have "(u, row) \<in> ?S" using sym_rel_rtrancl[OF u(3)] rr_row by (rule rtrancl_trans)
    with u max[OF u(1)] show False by (simp add: in_row)
  qed
  have rr_min: "(rr, k) \<notin> conn E k" if "rr < k" "k < col" for k
    using rr_top conn_sub[OF that(2)] that rr_max by fastforce
  have c4: "if \<exists>u\<in>{0..<?m}. v < u \<and> (v, u) \<in> ?T
      then v < (pa(rr := col)) v \<and> (pa(rr := col)) v < ?m \<and> (v, (pa(rr := col)) v) \<in> conn E ((pa(rr := col)) v) \<and>
        (\<forall>k. v < k \<and> k < (pa(rr := col)) v \<longrightarrow> (v, k) \<notin> conn E k)
      else (pa(rr := col)) v = n" if v: "v \<in> {0..<?m}" for v
  proof (cases "v = rr")
    case True
    with T_col rrlt rr_conn rr_min rows(2) show ?thesis by auto
  next
    case False
    have "(\<exists>u\<in>{0..<?m}. v < u \<and> (v, u) \<in> ?T) \<longleftrightarrow> (\<exists>u\<in>{0..<?m}. v < u \<and> (v, u) \<in> ?S)" (is "?A \<longleftrightarrow> ?B")
    proof
      assume ?A
      then obtain u where u: "u \<in> {0..<?m}" "v < u" "(v, u) \<in> ?T" by blast
      then consider "(v, u) \<in> ?S" | "(v, row) \<in> ?S" | "(v, col) \<in> ?S" by (auto simp: sym_rel_insert)
      then show ?B
      proof cases
        case 2
        with v have "uf_rep f v rset" by (simp add: in_row)
        with max v False have "v < rr" by fastforce
        moreover have "(v, rr) \<in> ?S" using 2 rr_row sym_rel_rtrancl rtrancl_trans by metis
        ultimately show ?thesis using rr_max(1) by blast
      next
        case 3
        have "v < col" using u v by auto
        with 3 rows(2) show ?thesis by blast
      qed (use u in blast)
    next
      assume ?B
      then show ?A by (auto simp: sym_rel_insert)
    qed
    moreover have "if ?B then v < pa v \<and> pa v < ?m \<and> (v, pa v) \<in> conn E (pa v) \<and>
        (\<forall>k. v < k \<and> k < pa v \<longrightarrow> (v, k) \<notin> conn E k) else pa v = n" using I v by blast
    moreover have "(pa(rr := col)) v = pa v" using False by simp
    ultimately show ?thesis by metis
  qed
  have "insert (row, col) G \<subseteq> E \<inter> {0..<?m} \<times> {0..<?m}" using I col by auto
  with okg c2 c3 c4 show ?thesis unfolding liu_inv_def by blast
qed

lemma liu_inv_same:
  assumes inv: "liu_inv E n m G rt f pa" and e: "(a, b) \<in> E" "a \<in> {0..<m}" "b \<in> {0..<m}"
    and "(a, b) \<in> (sym_rel G)\<^sup>*"
  shows "liu_inv E n m (insert (a, b) G) rt f pa"
proof -
  have "(u, v) \<in> (sym_rel (insert (a, b) G))\<^sup>* \<longleftrightarrow> (u, v) \<in> (sym_rel G)\<^sup>*" for u v
    using assms(5) sym_rel_rtrancl[OF assms(5)] unfolding sym_rel_insert by (meson rtrancl_trans)
  then show ?thesis using inv e unfolding liu_inv_def by auto
qed

lemma liu_inv_final:
  assumes "liu_inv E n n G rt f pa" and "G = E" and "\<And>a b. (a, b) \<in> E \<Longrightarrow> b < n" and "v \<in> {0..<n}"
  shows "is_parent E n v (pa v)"
proof -
  have sub: "conn E k \<subseteq> (sym_rel E)\<^sup>*" for k unfolding conn_def by (rule rtrancl_mono) auto
  have v: "if \<exists>u\<in>{0..<n}. v < u \<and> (v, u) \<in> (sym_rel E)\<^sup>*
        then v < pa v \<and> pa v < n \<and> (v, pa v) \<in> conn E (pa v) \<and>
          (\<forall>k. v < k \<and> k < pa v \<longrightarrow> (v, k) \<notin> conn E k)
        else pa v = n" using assms unfolding liu_inv_def by blast
  show ?thesis
  proof (cases "\<exists>k. v < k \<and> k < n \<and> (v, k) \<in> conn E k")
    case True
    then have "\<exists>u\<in>{0..<n}. v < u \<and> (v, u) \<in> (sym_rel E)\<^sup>*" using sub assms(4) by fastforce
    with v True show ?thesis by (simp add: is_parent_def)
  next
    case False
    then have "pa v = n" using v by (metis (no_types, lifting))
    with False show ?thesis unfolding is_parent_def by simp
  qed
qed

section \<open>The routines compute the tree\<close>

text \<open>The body of the inner loop, with the conditions it keeps.\<close>

definition liu_st :: "(int \<times> int) set \<Rightarrow> int \<Rightarrow> int \<Rightarrow> (int \<times> int) set \<Rightarrow> liu \<Rightarrow> bool" where
  "liu_st E n col G = (\<lambda>(cset, root, pp, parent). alen root = n \<and> alen pp = n \<and> n \<le> alen parent \<and>
     liu_inv E n (col + 1) G (ix root) (ix pp) (ix parent) \<and> uf_rep (ix pp) col cset)"

lemma etree_link_wp:
  assumes st: "liu_st E n col G st" and row: "0 \<le> row" "col < n" "row < col \<Longrightarrow> (row, col) \<in> E"
    and all: "\<And>a b. (a, b) \<in> E \<Longrightarrow> b < col \<Longrightarrow> (a, b) \<in> G" and E: "\<And>a b. (a, b) \<in> E \<Longrightarrow> 0 \<le> a \<and> a < b"
  shows "returns (etree_link col row st) (liu_st E n col (if row < col then insert (row, col) G else G))"
proof (cases "row < col")
  case False
  with st show ?thesis by (cases st) (simp add: etree_link_def)
next
  case True
  obtain cset root pp parent where st': "st = (cset, root, pp, parent)" by (cases st) auto
  from st st' have inv: "liu_inv E n (col + 1) G (ix root) (ix pp) (ix parent)" and
    len: "alen root = n" "alen pp = n" "n \<le> alen parent" and cset: "uf_rep (ix pp) col cset"
    by (auto simp: liu_st_def)
  note I = inv[unfolded liu_inv_def]
  have ok: "uf_ok (col + 1) (ix pp)" using I by blast
  have r: "row \<in> {0..<col + 1}" "col \<in> {0..<col + 1}" using True row by auto
  then obtain rset where rset: "uf_rep (ix pp) row rset" using ok unfolding uf_ok_def by blast
  have bounds: "rset \<in> {0..<col + 1}" "cset \<in> {0..<col + 1}"
    using uf_rep_bounds[OF rset _ r(1)] uf_rep_bounds[OF cset _ r(2)] ok unfolding uf_ok_def by auto
  have rr: "ix root rset \<in> {0..<col + 1}" "uf_rep (ix pp) (ix root rset) rset" using I r(1) rset by blast+
  have after: "returns (if ix root rset \<noteq> col then do {
         parent \<leftarrow> wr parent (ix root rset) col;
         (cset, pp) \<leftarrow> link_sets cset rset pp';
         root \<leftarrow> wr root cset col;
         Some (cset, root, pp, parent) }
       else Some (cset, root, pp', parent)) (liu_st E n col (insert (row, col) G))"
    if pp': "alen pp' = alen pp" "uf_keeps (col + 1) (ix pp) (ix pp')" for pp'
  proof -
    note inv' = liu_inv_keeps[OF inv pp'(2)]
    have reps: "uf_rep (ix pp') col cset" "uf_rep (ix pp') row rset" "uf_rep (ix pp') (ix root rset) rset"
      using cset rset rr pp'(2) by (auto simp: uf_keeps_def)
    show ?thesis
    proof (cases "ix root rset = col")
      case True
      then have "(row, col) \<in> (sym_rel G)\<^sup>*" using inv' r reps unfolding liu_inv_def by metis
      from liu_inv_same[OF inv' _ r this] row(3) \<open>row < col\<close> have
        "liu_inv E n (col + 1) (insert (row, col) G) (ix root) (ix pp') (ix parent)" by simp
      with True reps len pp'(1) show ?thesis by (simp add: liu_st_def)
    next
      case False
      have inb: "inb pp' cset" "inb root rset" "inb parent (ix root rset)"
        using bounds rr(1) len row(2) pp'(1) by (auto simp: inb_def)
      have g: "ix (up pp' cset rset) cset = rset" "\<And>j. j \<noteq> cset \<Longrightarrow> ix (up pp' cset rset) j = ix pp' j"
        using inb by (simp_all add: ix_up)
      note edge = liu_inv_edge[where g = "ix (up pp' cset rset)", OF inv' row(1) True row(2) row(3)[OF True] all E reps(1,2) refl False g]
      have "cset \<noteq> rset"
      proof
        assume "cset = rset"
        with reps I r rr have "col \<le> ix root rset" using cset by blast
        with False rr(1) show False by auto
      qed
      from uf_rep_link[where g = "ix (up pp' cset rset)", OF uf_rep_end[OF reps(1)] uf_rep_end[OF reps(2)] this g reps(1)]
      have "uf_rep (ix (up pp' cset rset)) col rset" by simp
      with edge len pp'(1) inb False show ?thesis by (simp add: wp link_sets_def liu_st_def ix_up)
    qed
  qed
  have "inb root rset" using bounds len row(2) by (auto simp: inb_def)
  with True after find_set_wp[OF ok r(1) _ rset] len row(2) show ?thesis
    unfolding st' etree_link_def by (auto simp: wp elim!: returns_mono)
qed

text \<open>The edges that the entries \<open>s \<le> p < e\<close> of a column give, and those of all columns.\<close>

definition col_edges :: "(int \<Rightarrow> int) \<Rightarrow> int \<Rightarrow> int \<Rightarrow> int \<Rightarrow> (int \<times> int) set" where
  "col_edges vx s e col = {(vx p, col) | p. s \<le> p \<and> p < e \<and> vx p < col}"

definition all_edges :: "(int \<Rightarrow> int) \<Rightarrow> int list \<Rightarrow> int list \<Rightarrow> int \<Rightarrow> (int \<times> int) set" where
  "all_edges vx colst colend m = (\<Union>c\<in>{0..<m}. col_edges vx (ix colst c) (ix colend c) c)"

lemma col_edges_step: "s \<le> p \<Longrightarrow> col_edges vx s (p + 1) col =
    (if vx p < col then insert (vx p, col) (col_edges vx s p col) else col_edges vx s p col)"
proof -
  assume "s \<le> p"
  then have "s \<le> q \<and> q < p + 1 \<and> X \<longleftrightarrow> q = p \<and> X \<or> s \<le> q \<and> q < p \<and> X" for q X by auto
  then show ?thesis unfolding col_edges_def by auto
qed

lemma col_edges_empty [simp]: "e \<le> s \<Longrightarrow> col_edges vx s e col = {}"
  by (auto simp: col_edges_def)

lemma all_edges_Suc: "0 \<le> m \<Longrightarrow> all_edges vx colst colend (m + 1) =
    all_edges vx colst colend m \<union> col_edges vx (ix colst m) (ix colend m) m"
proof -
  assume "0 \<le> m"
  then have "{0..<m + 1} = insert m {0..<m}" by auto
  then show ?thesis by (auto simp: all_edges_def)
qed

text \<open>The input a routine needs: column bounds for every column, and for each entry a vertex.\<close>

definition cols_ok :: "int list \<Rightarrow> int list \<Rightarrow> int \<Rightarrow> (int \<Rightarrow> bool) \<Rightarrow> bool" where
  "cols_ok colst colend n ok \<longleftrightarrow> n \<le> alen colst \<and> n \<le> alen colend \<and>
     (\<forall>c\<in>{0..<n}. \<forall>p\<in>{ix colst c..<ix colend c}. ok p)"

definition liu_cols :: "(int \<times> int) set \<Rightarrow> int \<Rightarrow> (int \<Rightarrow> int) \<Rightarrow> int list \<Rightarrow> int list \<Rightarrow> int \<Rightarrow>
    int list \<times> int list \<times> int list \<Rightarrow> bool" where
  "liu_cols E n vx colst colend col = (\<lambda>(root, pp, parent). alen root = n \<and> alen pp = n \<and>
     n \<le> alen parent \<and> liu_inv E n col (all_edges vx colst colend col) (ix root) (ix pp) (ix parent))"

lemma etree_col_wp:
  assumes st: "liu_cols E n vx colst colend col st" and col: "0 \<le> col" "col < n"
    and E: "E = all_edges vx colst colend n"
    and ok: "cols_ok colst colend n (\<lambda>p. vertex p = Some (vx p) \<and> 0 \<le> vx p)"
  shows "returns (etree_col colst colend vertex n col st) (liu_cols E n vx colst colend (col + 1))"
proof -
  obtain root pp parent where st': "st = (root, pp, parent)" by (cases st) auto
  let ?s = "ix colst col" and ?e = "ix colend col" and ?A = "all_edges vx colst colend col"
  let ?root = "up root col col" and ?pp = "up pp col col" and ?pa = "up parent col n"
  from st st' col have inb: "inb root col" "inb pp col" "inb parent col" and
    inv: "liu_inv E n col ?A (ix root) (ix pp) (ix parent)" and
    len: "alen root = n" "alen pp = n" "n \<le> alen parent" by (auto simp: liu_cols_def inb_def)
  from ok col have inc: "inb colst col" "inb colend col" by (auto simp: cols_ok_def inb_def)
  have vx: "vertex p = Some (vx p)" "0 \<le> vx p" if "?s \<le> p" "p < ?e" for p
    using ok col that by (auto simp: cols_ok_def)
  have Epos: "0 \<le> a \<and> a < b" if "(a, b) \<in> E" for a b
    using that ok unfolding E all_edges_def col_edges_def cols_ok_def by auto
  have Eall: "(a, b) \<in> ?A" if "(a, b) \<in> E" "b < col" for a b
    using that unfolding E all_edges_def col_edges_def by auto
  have start: "liu_st E n col (?A \<union> col_edges vx ?s ?s col) (col, ?root, ?pp, ?pa)"
    using liu_inv_vertex[OF inv col(1), of "ix ?pp"] inb len by (simp add: liu_st_def ix_up uf_rep_root)
  have edge: "(vx p, col) \<in> E" if "?s \<le> p" "p < ?e" "vx p < col" for p
    using that col unfolding E all_edges_def col_edges_def by auto
  have "returns (for_up ?s ?e (\<lambda>p st. do { row \<leftarrow> vertex p; etree_link col row st }) (col, ?root, ?pp, ?pa))
      (\<lambda>(cset, r). liu_cols E n vx colst colend (col + 1) r)"
  proof (rule for_up_wp[where I = "\<lambda>p. liu_st E n col (?A \<union> col_edges vx ?s p col)"])
    show "liu_st E n col (?A \<union> col_edges vx ?s ?s col) (col, ?root, ?pp, ?pa)" by (rule start)
  next
    fix p st assume p: "?s \<le> p" "p < ?e" "liu_st E n col (?A \<union> col_edges vx ?s p col) st"
    have "returns (etree_link col (vx p) st) (liu_st E n col
        (if vx p < col then insert (vx p, col) (?A \<union> col_edges vx ?s p col) else ?A \<union> col_edges vx ?s p col))"
      by (rule etree_link_wp[OF p(3)]) (use vx[OF p(1,2)] col edge[OF p(1,2)] Eall Epos in auto)
    with vx[OF p(1,2)] p(1) show "returns (do { row \<leftarrow> vertex p; etree_link col row st })
        (liu_st E n col (?A \<union> col_edges vx ?s (p + 1) col))"
      by (simp add: col_edges_step split: if_splits)
  next
    fix st assume "liu_st E n col (?A \<union> col_edges vx ?s (max ?s ?e) col) st"
    moreover have "col_edges vx ?s (max ?s ?e) col = col_edges vx ?s ?e col" by (auto simp: max_def)
    ultimately show "case st of (cset, r) \<Rightarrow> liu_cols E n vx colst colend (col + 1) r"
      using all_edges_Suc[OF col(1)] by (cases st) (auto simp: liu_st_def liu_cols_def)
  qed
  with inb inc show ?thesis
    unfolding st' etree_col_def by (auto simp: wp make_set_def case_prod_unfold)
qed

lemma etree_cols_wp:
  assumes "alen root = n" and "alen pp = n" and "n \<le> alen parent" and "0 \<le> n"
    and ok: "cols_ok colst colend n (\<lambda>p. vertex p = Some (vx p) \<and> 0 \<le> vx p)"
    and E: "E = all_edges vx colst colend n"
  shows "returns (for_up 0 n (etree_col colst colend vertex n) (root, pp, parent))
    (\<lambda>(root, pp, parent'). n \<le> alen parent' \<and> (\<forall>v\<in>{0..<n}. is_parent E n v (ix parent' v)))"
proof (rule for_up_wp[where I = "liu_cols E n vx colst colend"])
  show "liu_cols E n vx colst colend 0 (root, pp, parent)"
    using assms by (simp add: liu_cols_def all_edges_def liu_inv_empty)
next
  fix col st assume "0 \<le> col" "col < n" "liu_cols E n vx colst colend col st"
  with etree_col_wp[OF _ _ _ E ok] show "returns (etree_col colst colend vertex n col st)
      (liu_cols E n vx colst colend (col + 1))" by blast
next
  fix st assume "liu_cols E n vx colst colend (max 0 n) st"
  with assms(4) obtain rt pp pa where st: "st = (rt, pp, pa)" "n \<le> alen pa" and
    inv: "liu_inv E n n (all_edges vx colst colend n) (ix rt) (ix pp) (ix pa)"
    by (cases st) (auto simp: liu_cols_def max_def)
  have "b < n" if "(a, b) \<in> E" for a b using that unfolding E all_edges_def col_edges_def by auto
  with liu_inv_final[OF inv E[symmetric]] show "case st of (root, pp, parent') \<Rightarrow>
      n \<le> alen parent' \<and> (\<forall>v\<in>{0..<n}. is_parent E n v (ix parent' v))" by (simp add: st)
qed

text \<open>
  \<open>nz\<close>: the column \<open>c\<close> has an entry in row \<open>r\<close>. The edges of a symmetric matrix are its entries
  above the diagonal, those of \<open>A'A\<close> the pairs of columns that share a row.
\<close>

definition nz :: "int list \<Rightarrow> int list \<Rightarrow> int list \<Rightarrow> int \<Rightarrow> int \<Rightarrow> bool" where
  "nz colst colend arow r c \<longleftrightarrow> (\<exists>p. ix colst c \<le> p \<and> p < ix colend c \<and> ix arow p = r)"

definition sym_edges :: "int list \<Rightarrow> int list \<Rightarrow> int list \<Rightarrow> int \<Rightarrow> (int \<times> int) set" where
  "sym_edges colst colend arow n = {(i, j). 0 \<le> i \<and> i < j \<and> j < n \<and> nz colst colend arow i j}"

definition ata_edges :: "int list \<Rightarrow> int list \<Rightarrow> int list \<Rightarrow> int \<Rightarrow> (int \<times> int) set" where
  "ata_edges colst colend arow n = {(i, j). 0 \<le> i \<and> i < j \<and> j < n \<and>
     (\<exists>r. nz colst colend arow r i \<and> nz colst colend arow r j)}"

definition matrix_ok :: "int list \<Rightarrow> int list \<Rightarrow> int list \<Rightarrow> int \<Rightarrow> int \<Rightarrow> bool" where
  "matrix_ok colst colend arow nr nc \<longleftrightarrow> 0 \<le> nr \<and> 0 \<le> nc \<and>
     cols_ok colst colend nc (\<lambda>p. inb arow p \<and> 0 \<le> ix arow p \<and> ix arow p < nr)"

lemma sp_symetree_wp:
  assumes ok: "matrix_ok colst colend arow n n" and pa: "n \<le> alen parent"
  shows "returns (sp_symetree colst colend arow n parent) (\<lambda>parent'. n \<le> alen parent' \<and>
    (\<forall>v\<in>{0..<n}. is_parent (sym_edges colst colend arow n) n v (ix parent' v)))"
proof -
  have n: "0 \<le> n" using ok by (simp add: matrix_ok_def)
  have co: "cols_ok colst colend n (\<lambda>p. rd arow p = Some (ix arow p) \<and> 0 \<le> ix arow p)"
    using ok by (auto simp: matrix_ok_def cols_ok_def)
  have pos: "0 \<le> ix arow p" if "c \<in> {0..<n}" "ix colst c \<le> p" "p < ix colend c" for c p
    using co that by (auto simp: cols_ok_def)
  have "sym_edges colst colend arow n = all_edges (ix arow) colst colend n"
    using pos by (fastforce simp: sym_edges_def all_edges_def col_edges_def nz_def)
  from etree_cols_wp[OF _ _ pa n co this] n show ?thesis
    by (auto simp: sp_symetree_def mxCallocInt_def initialize_disjoint_sets_def case_prod_unfold
        elim!: returns_mono)
qed

text \<open>\<open>firstcol\<close> holds the first column with an entry in each row.\<close>

definition first_ok :: "int \<Rightarrow> int \<Rightarrow> (int \<times> int) set \<Rightarrow> int list \<Rightarrow> bool" where
  "first_ok nr nc S fc \<longleftrightarrow> alen fc = nr \<and> (\<forall>r c. (r, c) \<in> S \<longrightarrow> ix fc r \<le> c) \<and>
     (\<forall>r\<in>{0..<nr}. ix fc r = nc \<or> (r, ix fc r) \<in> S)"

lemma first_ok_min:
  assumes "first_ok nr nc S fc" and "r \<in> {0..<nr}"
  shows "first_ok nr nc (insert (r, c) S) (up fc r (min (ix fc r) c))"
  using assms by (fastforce simp: first_ok_def ix_up inb_def min_def)

definition entry_pairs :: "int list \<Rightarrow> int list \<Rightarrow> int list \<Rightarrow> int \<Rightarrow> (int \<times> int) set" where
  "entry_pairs colst colend arow m = {(r, c). 0 \<le> c \<and> c < m \<and> nz colst colend arow r c}"

lemma first_columns_wp:
  assumes ok: "matrix_ok colst colend arow nr nc"
  shows "returns (first_columns colst colend arow nr nc)
    (first_ok nr nc (entry_pairs colst colend arow nc))"
proof -
  let ?P = "\<lambda>c p. {(ix arow q, c) | q. ix colst c \<le> q \<and> q < p}"
  have dims: "0 \<le> nr" "0 \<le> nc" using ok by (auto simp: matrix_ok_def)
  have init: "returns (for_up 0 nr (\<lambda>row fc. wr fc row nc) (fill nr 0)) (first_ok nr nc {})"
    by (rule for_up_wp[where I = "\<lambda>i fc. alen fc = nr \<and> (\<forall>r\<in>{0..<i}. ix fc r = nc)"])
      (use dims in \<open>auto simp: wp ix_up inb_def first_ok_def max_def\<close>)
  have main: "returns (for_up 0 nc (\<lambda>col fc. do {
       s \<leftarrow> rd colst col;
       e \<leftarrow> rd colend col;
       for_up s e (\<lambda>p fc. do {
         row \<leftarrow> rd arow p;
         f \<leftarrow> rd fc row;
         wr fc row (min f col) }) fc }) fc) (first_ok nr nc (entry_pairs colst colend arow nc))"
    if "first_ok nr nc {} fc" for fc
  proof (rule for_up_wp[where I = "\<lambda>c. first_ok nr nc (entry_pairs colst colend arow c)"])
    show "first_ok nr nc (entry_pairs colst colend arow 0) fc"
    proof -
      have "entry_pairs colst colend arow 0 = {}" by (auto simp: entry_pairs_def)
      with that show ?thesis by simp
    qed
  next
    fix c fc assume c: "0 \<le> c" "c < nc" and I: "first_ok nr nc (entry_pairs colst colend arow c) fc"
    let ?S = "entry_pairs colst colend arow c"
    have inb: "inb colst c" "inb colend c" using ok c by (auto simp: matrix_ok_def cols_ok_def inb_def)
    have ent: "inb arow p \<and> ix arow p \<in> {0..<nr}" if "ix colst c \<le> p" "p < ix colend c" for p
      using ok c that by (auto simp: matrix_ok_def cols_ok_def)
    have "returns (for_up (ix colst c) (ix colend c) (\<lambda>p fc. do {
         row \<leftarrow> rd arow p; f \<leftarrow> rd fc row; wr fc row (min f c) }) fc)
       (first_ok nr nc (entry_pairs colst colend arow (c + 1)))"
    proof (rule for_up_wp[where I = "\<lambda>p. first_ok nr nc (?S \<union> ?P c p)"])
      show "first_ok nr nc (?S \<union> ?P c (ix colst c)) fc" using I by (simp cong: conj_cong)
    next
      fix p fc assume p: "ix colst c \<le> p" "p < ix colend c" "first_ok nr nc (?S \<union> ?P c p) fc"
      have "ix colst c \<le> q \<and> q < p + 1 \<longleftrightarrow> q = p \<or> ix colst c \<le> q \<and> q < p" for q using p by auto
      then have "?S \<union> ?P c (p + 1) = insert (ix arow p, c) (?S \<union> ?P c p)" by auto
      with first_ok_min[OF p(3), of "ix arow p" c] ent[OF p(1,2)] p(3)
      show "returns (do { row \<leftarrow> rd arow p; f \<leftarrow> rd fc row; wr fc row (min f c) })
          (first_ok nr nc (?S \<union> ?P c (p + 1)))"
        by (simp add: wp inb_def first_ok_def)
    next
      fix fc assume "first_ok nr nc (?S \<union> ?P c (max (ix colst c) (ix colend c))) fc"
      moreover have "entry_pairs colst colend arow (c + 1) = ?S \<union> ?P c (max (ix colst c) (ix colend c))"
        using c by (auto simp: entry_pairs_def nz_def max_def order.strict_iff_order)
      ultimately show "first_ok nr nc (entry_pairs colst colend arow (c + 1)) fc" by simp
    qed
    with inb show "returns (do { s \<leftarrow> rd colst c; e \<leftarrow> rd colend c; for_up s e (\<lambda>p fc. do {
         row \<leftarrow> rd arow p; f \<leftarrow> rd fc row; wr fc row (min f c) }) fc })
       (first_ok nr nc (entry_pairs colst colend arow (c + 1)))" by (simp add: wp)
  qed (use dims in \<open>simp add: max_def\<close>)
  show ?thesis using dims unfolding first_columns_def mxCallocInt_def
    by (auto intro!: returns_mono[OF init] main)
qed

text \<open>
  Replacing the clique of a row by the star around its first column keeps the components of
  every prefix of the columns, so it keeps the tree.
\<close>

lemma star_conn:
  assumes first: "first_ok nr n (entry_pairs colst colend arow n) fc"
    and star: "S = {(ix fc r, c) | r c. 0 \<le> c \<and> c < n \<and> nz colst colend arow r c \<and> ix fc r < c}"
    and rows: "\<And>r c. 0 \<le> c \<Longrightarrow> c < n \<Longrightarrow> nz colst colend arow r c \<Longrightarrow> r \<in> {0..<nr}"
  shows "conn S k = conn (ata_edges colst colend arow n) k"
proof
  let ?E = "ata_edges colst colend arow n" and ?nz = "nz colst colend arow"
  let ?R = "\<lambda>G. sym_rel G \<inter> {0..k} \<times> {0..k}"
  have fc: "ix fc r \<le> c \<and> 0 \<le> ix fc r \<and> ?nz r (ix fc r)" if "0 \<le> c" "c < n" "?nz r c" for r c
  proof -
    have "(r, c) \<in> entry_pairs colst colend arow n" using that by (simp add: entry_pairs_def)
    with first have le: "ix fc r \<le> c" by (auto simp: first_ok_def)
    with first rows[OF that] that(2) have "(r, ix fc r) \<in> entry_pairs colst colend arow n"
      unfolding first_ok_def by force
    with le show ?thesis by (simp add: entry_pairs_def)
  qed
  have "S \<subseteq> ?E" using fc by (fastforce simp: star ata_edges_def)
  then have "?R S \<subseteq> ?R ?E" by (auto simp: sym_rel_def)
  then show "conn S k \<subseteq> conn ?E k" unfolding conn_def by (rule rtrancl_mono)
  have reach: "(ix fc r, c) \<in> (?R S)\<^sup>* \<and> (c, ix fc r) \<in> (?R S)\<^sup>*" if c: "0 \<le> c" "c < n" "c \<le> k" "?nz r c" for r c
  proof (cases "ix fc r = c")
    case False
    with fc[OF c(1,2,4)] have "(ix fc r, c) \<in> S" using c by (force simp: star)
    with fc[OF c(1,2,4)] c(1,3) have "(ix fc r, c) \<in> ?R S" "(c, ix fc r) \<in> ?R S"
      by (auto simp: sym_rel_def)
    then show ?thesis by blast
  qed simp
  have "(i, j) \<in> (?R S)\<^sup>*" if e: "(i, j) \<in> ?R ?E" for i j
  proof -
    from e obtain r where "?nz r i" "?nz r j" "0 \<le> i" "0 \<le> j" "i < n" "j < n" "i \<le> k" "j \<le> k"
      by (auto simp: sym_rel_def ata_edges_def)
    with reach[of i r] reach[of j r] show ?thesis by (meson rtrancl_trans)
  qed
  then have "?R ?E \<subseteq> (?R S)\<^sup>*" by auto
  then show "conn ?E k \<subseteq> conn S k" unfolding conn_def by (rule rtrancl_subset_rtrancl)
qed

lemma sp_coletree_wp:
  assumes ok: "matrix_ok colst colend arow nr nc" and pa: "nc \<le> alen parent"
  shows "returns (sp_coletree colst colend arow nr nc parent) (\<lambda>parent'. nc \<le> alen parent' \<and>
    (\<forall>v\<in>{0..<nc}. is_parent (ata_edges colst colend arow nc) nc v (ix parent' v)))"
proof -
  have n: "0 \<le> nc" using ok by (simp add: matrix_ok_def)
  have rows: "r \<in> {0..<nr}" if "0 \<le> c" "c < nc" "nz colst colend arow r c" for r c
    using ok that by (auto simp: matrix_ok_def cols_ok_def nz_def)
  have tree: "returns (for_up 0 nc
       (etree_col colst colend (\<lambda>p. Option.bind (rd arow p) (rd fc)) nc) (root, pp, parent))
     (\<lambda>(root, pp, parent'). nc \<le> alen parent' \<and>
       (\<forall>v\<in>{0..<nc}. is_parent (ata_edges colst colend arow nc) nc v (ix parent' v)))"
    if fc: "first_ok nr nc (entry_pairs colst colend arow nc) fc" and lens: "alen root = nc" "alen pp = nc"
    for fc root pp
  proof -
    let ?vx = "\<lambda>p. ix fc (ix arow p)" and ?S = "all_edges (\<lambda>p. ix fc (ix arow p)) colst colend nc"
    have fc_bounds: "0 \<le> ix fc r" if "r \<in> {0..<nr}" for r
      using fc that n unfolding first_ok_def entry_pairs_def by force
    have co: "cols_ok colst colend nc (\<lambda>p. Option.bind (rd arow p) (rd fc) = Some (?vx p) \<and> 0 \<le> ?vx p)"
      using ok fc fc_bounds by (auto simp: matrix_ok_def cols_ok_def first_ok_def rd_Some inb_def)
    have S: "?S = {(ix fc r, c) | r c. 0 \<le> c \<and> c < nc \<and> nz colst colend arow r c \<and> ix fc r < c}"
      by (fastforce simp: all_edges_def col_edges_def nz_def)
    have "conn ?S k = conn (ata_edges colst colend arow nc) k" for k
      by (rule star_conn[OF fc S]) (rule rows)
    then have "is_parent ?S nc v w = is_parent (ata_edges colst colend arow nc) nc v w" for v w
      by (simp add: is_parent_def cong: if_cong)
    with etree_cols_wp[OF lens pa n co refl] show ?thesis by simp
  qed
  show ?thesis unfolding sp_coletree_def mxCallocInt_def initialize_disjoint_sets_def
    using n by (auto simp: wp case_prod_unfold intro!: returns_mono[OF first_columns_wp[OF ok]]
        elim!: returns_mono[OF tree])
qed

section \<open>Properties\<close>

text \<open>
  C32: \<open>sp_coletree\<close> returns the elimination tree of \<open>A' * A\<close>: the parent of \<open>v\<close> is the first
  later column \<open>w\<close> that is joined to \<open>v\<close> by columns up to \<open>w\<close>, two columns being neighbours if
  they share a row; a column without such a \<open>w\<close> is a root.
\<close>

theorem sp_coletree_correct:
  assumes "matrix_ok colst colend arow nr nc" and "nc \<le> alen parent"
  shows "returns (sp_coletree colst colend arow nr nc parent) (\<lambda>parent'. nc \<le> alen parent' \<and>
    (\<forall>v\<in>{0..<nc}. is_parent (ata_edges colst colend arow nc) nc v (ix parent' v)))"
  by (rule sp_coletree_wp[OF assms])

lemma demo_matrix_ok: "matrix_ok [0, 1, 2] [1, 2, 4] [0, 1, 0, 1] 2 3"
  by (auto simp: matrix_ok_def cols_ok_def alen_def inb_def ix_def atLeastLessThan_def lessThan_def nth_Cons'
      numeral_2_eq_2 numeral_3_eq_3 nat_eq_iff)

theorem sp_coletree_correct_witness:
  "\<exists>p. sp_coletree [0, 1, 2] [1, 2, 4] [0, 1, 0, 1] 2 3 [9, 9, 9] = Some p \<and>
     is_parent (ata_edges [0, 1, 2] [1, 2, 4] [0, 1, 0, 1] 3) 3 0 (ix p 0)"
  using sp_coletree_correct[OF demo_matrix_ok, of "[9, 9, 9]"] by (auto simp: returns_iff alen_def)

text \<open>
  \<open>sp_symetree\<close> returns the elimination tree of the symmetric matrix whose upper triangle it reads.
\<close>

theorem sp_symetree_correct:
  assumes "matrix_ok colst colend arow n n" and "n \<le> alen parent"
  shows "returns (sp_symetree colst colend arow n parent) (\<lambda>parent'. n \<le> alen parent' \<and>
    (\<forall>v\<in>{0..<n}. is_parent (sym_edges colst colend arow n) n v (ix parent' v)))"
  by (rule sp_symetree_wp[OF assms])

lemma demo_symmetric_ok: "matrix_ok [0, 1] [1, 3] [0, 0, 1] 2 2"
  by (auto simp: matrix_ok_def cols_ok_def alen_def inb_def ix_def atLeastLessThan_def lessThan_def nth_Cons'
      numeral_2_eq_2 nat_eq_iff)

theorem sp_symetree_correct_witness:
  "\<exists>p. sp_symetree [0, 1] [1, 3] [0, 0, 1] 2 [9, 9] = Some p \<and> is_parent (sym_edges [0, 1] [1, 3] [0, 0, 1] 2) 2 0 (ix p 0)"
  using sp_symetree_correct[OF demo_symmetric_ok, of "[9, 9]"] by (auto simp: returns_iff alen_def)

text \<open>
  \<open>find\<close> with path halving returns the root of the tree of \<open>i\<close>, and the shortcuts it takes
  change no representative.
\<close>

theorem find_set_correct:
  assumes "uf_ok m (ix pp)" and "i \<in> {0..<m}" and "m \<le> alen pp" and "uf_rep (ix pp) i r"
  shows "returns (find_set i pp) (\<lambda>(p, pp'). p = r \<and> alen pp' = alen pp \<and>
    (\<forall>j\<in>{0..<m}. \<forall>q. uf_rep (ix pp') j q \<longleftrightarrow> uf_rep (ix pp) j q))"
  by (rule returns_mono[OF find_set_wp[OF assms]]) (auto simp: uf_keeps_iff[OF assms(1)])

lemma demo_rep: "uf_rep (ix [1, 2, 2]) 0 2" "uf_ok 3 (ix [1, 2, 2])"
proof -
  have e: "ix [1, 2, 2] 0 = (1 :: int)" "ix [1, 2, 2] 1 = (2 :: int)" "ix [1, 2, 2] 2 = (2 :: int)" by (simp_all add: ix_def)
  have 2: "uf_rep (ix [1, 2, 2]) 2 2" by (rule uf_rep_root) (rule e)
  have 1: "uf_rep (ix [1, 2, 2]) 1 2" using uf_rep_step[of "ix [1, 2, 2]" 1 2] 2 by (simp add: e)
  show 0: "uf_rep (ix [1, 2, 2]) 0 2" using uf_rep_step[of "ix [1, 2, 2]" 0 2] 1 by (simp add: e)
  have "{0..<3} = {0, 1, 2 :: int}" by auto
  with 0 1 2 show "uf_ok 3 (ix [1, 2, 2])" by (auto simp: uf_ok_def e)
qed

theorem find_set_correct_witness: "returns (find_set 0 [1, 2, 2]) (\<lambda>(p, pp'). p = 2)"
  by (rule returns_mono[OF find_set_correct[OF demo_rep(2) _ _ demo_rep(1)]]) (auto simp: alen_def)

end
