(* ===== verification/Postorder.thy ===== *)
theory Postorder
  imports Coletree
begin

text \<open>
  Postordering an elimination tree (\<open>TreePostorder\<close> and \<open>etdfs\<close> of
  \<^verbatim>\<open>libsuperlu/sp_coletree.c\<close>). The static arrays \<open>first_kid\<close>, \<open>next_kid\<close>, \<open>post\<close> and
  the counter \<open>postnum\<close> are passed along.
\<close>

section \<open>The code\<close>

definition number :: "int \<Rightarrow> int list \<times> int \<Rightarrow> (int list \<times> int) option" where
  "number v = (\<lambda>(post, postnum). do { post \<leftarrow> wr post v postnum; Some (post, postnum + 1) })"

text \<open>
  \<open>etdfs_kids\<close> is the loop over the siblings from \<open>w\<close> on, with the recursive call of
  \<open>etdfs\<close> written out; the recursion and the loop end only on a proper forest, so the
  function is partial.
\<close>

partial_function (option) etdfs_kids ::
  "int list \<Rightarrow> int list \<Rightarrow> int \<Rightarrow> int list \<times> int \<Rightarrow> (int list \<times> int) option" where
  "etdfs_kids first_kid next_kid w st =
     (if w = -1 then Some st
      else do {
        f \<leftarrow> rd first_kid w;
        st \<leftarrow> etdfs_kids first_kid next_kid f st;
        st \<leftarrow> number w st;
        w' \<leftarrow> rd next_kid w;
        etdfs_kids first_kid next_kid w' st })"

definition etdfs :: "int list \<Rightarrow> int list \<Rightarrow> int \<Rightarrow> int list \<times> int \<Rightarrow> (int list \<times> int) option" where
  "etdfs first_kid next_kid v st = do {
     w \<leftarrow> rd first_kid v;
     st \<leftarrow> etdfs_kids first_kid next_kid w st;
     number v st }"

definition kid_lists :: "int \<Rightarrow> int list \<Rightarrow> (int list \<times> int list) option" where
  "kid_lists n parent = do {
     first_kid \<leftarrow> mxCallocInt (n + 1);
     next_kid \<leftarrow> mxCallocInt (n + 1);
     first_kid \<leftarrow> for_up 0 (n + 1) (\<lambda>v fk. wr fk v (-1)) first_kid;
     for_down (n - 1) 0 (\<lambda>v (fk, nk). do {
       dad \<leftarrow> rd parent v;
       f \<leftarrow> rd fk dad;
       nk \<leftarrow> wr nk v f;
       fk \<leftarrow> wr fk dad v;
       Some (fk, nk) }) (first_kid, next_kid) }"

definition TreePostorder :: "int \<Rightarrow> int list \<Rightarrow> int list option" where
  "TreePostorder n parent = do {
     (first_kid, next_kid) \<leftarrow> kid_lists n parent;
     post \<leftarrow> mxCallocInt (n + 1);
     (post, postnum) \<leftarrow> etdfs first_kid next_kid n (post, 0);
     Some post }"

section \<open>The tree\<close>

definition heap_ordered :: "int \<Rightarrow> (int \<Rightarrow> int) \<Rightarrow> bool" where
  "heap_ordered n pa \<longleftrightarrow> (\<forall>v\<in>{0..<n}. v < pa v \<and> pa v \<le> n)"

definition kids :: "(int \<Rightarrow> int) \<Rightarrow> int \<Rightarrow> int list" where
  "kids pa v = filter (\<lambda>u. pa u = v) [0..v - 1]"

function postorder :: "(int \<Rightarrow> int) \<Rightarrow> int \<Rightarrow> int list" where
  "postorder pa v = concat (map (postorder pa) (kids pa v)) @ [v]"
  by pat_completeness auto
termination
  by (relation "measure (\<lambda>(pa, v). nat v)") (auto simp: kids_def)

declare postorder.simps [simp del]

lemma set_kids [simp]: "u \<in> set (kids pa v) \<longleftrightarrow> 0 \<le> u \<and> u < v \<and> pa u = v"
  by (auto simp: kids_def)

lemma set_postorder:
  "set (postorder pa v) = insert v (\<Union>u\<in>{u. 0 \<le> u \<and> u < v \<and> pa u = v}. set (postorder pa u))"
  by (subst postorder.simps) auto

lemma postorder_self [simp]: "v \<in> set (postorder pa v)"
  by (subst set_postorder) simp

lemma postorder_nonempty [simp]: "postorder pa v \<noteq> []"
  by (subst postorder.simps) simp

lemma length_postorder_pos: "0 < length (postorder pa v)"
  by simp

definition up_edge :: "(int \<Rightarrow> int) \<Rightarrow> (int \<times> int) set" where
  "up_edge pa = {(a, b). 0 \<le> a \<and> a < b \<and> pa a = b}"

lemma postorder_iff: "x \<in> set (postorder pa v) \<longleftrightarrow> (x, v) \<in> (up_edge pa)\<^sup>*"
proof
  show "x \<in> set (postorder pa v) \<Longrightarrow> (x, v) \<in> (up_edge pa)\<^sup>*"
  proof (induction pa v rule: postorder.induct)
    case (1 pa v)
    show ?case
    proof (cases "x = v")
      case False
      with "1.prems" obtain u where u: "0 \<le> u" "u < v" "pa u = v" "x \<in> set (postorder pa u)"
        by (subst (asm) set_postorder) auto
      with "1.IH"[of u] have "(x, u) \<in> (up_edge pa)\<^sup>*" by simp
      moreover from u have "(u, v) \<in> up_edge pa" by (simp add: up_edge_def)
      ultimately show ?thesis by simp
    qed simp
  qed
next
  show "(x, v) \<in> (up_edge pa)\<^sup>* \<Longrightarrow> x \<in> set (postorder pa v)"
  proof (induction rule: rtrancl_induct)
    case (step y z)
    then show ?case by (subst set_postorder) (auto simp: up_edge_def)
  qed simp
qed

lemma up_edge_mono: "(a, b) \<in> (up_edge pa)\<^sup>* \<Longrightarrow> a \<le> b"
  by (induction rule: rtrancl_induct) (auto simp: up_edge_def)

lemma up_edge_nonneg: "(a, b) \<in> (up_edge pa)\<^sup>* \<Longrightarrow> a \<noteq> b \<Longrightarrow> 0 \<le> a"
  by (induction rule: converse_rtrancl_induct) (auto simp: up_edge_def)

lemma postorder_bounds: "x \<in> set (postorder pa v) \<Longrightarrow> 0 \<le> v \<Longrightarrow> 0 \<le> x \<and> x \<le> v"
  unfolding postorder_iff by (cases "x = v") (auto dest: up_edge_mono up_edge_nonneg)

text \<open>The ancestors of a vertex form a chain.\<close>

lemma up_edge_linear:
  "(x, a) \<in> (up_edge pa)\<^sup>* \<Longrightarrow> (x, b) \<in> (up_edge pa)\<^sup>* \<Longrightarrow> a \<le> b \<Longrightarrow> (a, b) \<in> (up_edge pa)\<^sup>*"
proof (induction arbitrary: rule: rtrancl_induct)
  case (step y z)
  from step.hyps(2) have yz: "y < z" "pa y = z" by (auto simp: up_edge_def)
  with step have yb: "(y, b) \<in> (up_edge pa)\<^sup>*" by auto
  from yz step.prems(2) have "y \<noteq> b" by auto
  with yb obtain w where "(y, w) \<in> up_edge pa" "(w, b) \<in> (up_edge pa)\<^sup>*" by (auto elim: converse_rtranclE)
  with yz show ?case by (auto simp: up_edge_def)
qed simp

lemma sibling_disjoint:
  assumes "pa u = v" "pa u' = v" "u < v" "u' < v" "u \<noteq> u'"
  shows "set (postorder pa u) \<inter> set (postorder pa u') = {}"
proof -
  have less: False if "(x, a) \<in> (up_edge pa)\<^sup>*" "(x, b) \<in> (up_edge pa)\<^sup>*" "pa a = v" "b < v" "a < b" for x a b
  proof -
    from up_edge_linear[OF that(1,2)] that(5) have "(a, b) \<in> (up_edge pa)\<^sup>*" by simp
    with that(5) obtain w where "(a, w) \<in> up_edge pa" "(w, b) \<in> (up_edge pa)\<^sup>*"
      by (auto elim: converse_rtranclE)
    with that(3,4) up_edge_mono[of w b pa] show False by (auto simp: up_edge_def)
  qed
  then show ?thesis using assms unfolding postorder_iff disjoint_iff
    by (metis linorder_neqE)
qed

lemma distinct_kids [simp]: "distinct (kids pa v)"
  by (simp add: kids_def)

lemma distinct_concat_map:
  "distinct us \<Longrightarrow> (\<And>u. u \<in> set us \<Longrightarrow> distinct (f u)) \<Longrightarrow>
   (\<And>u u'. u \<in> set us \<Longrightarrow> u' \<in> set us \<Longrightarrow> u \<noteq> u' \<Longrightarrow> set (f u) \<inter> set (f u') = {}) \<Longrightarrow>
   distinct (concat (map f us))"
  by (induction us) (auto simp: disjoint_iff)

lemma distinct_postorder: "distinct (postorder pa v)"
proof (induction pa v rule: postorder.induct)
  case (1 pa v)
  have "distinct (concat (map (postorder pa) (kids pa v)))"
    by (rule distinct_concat_map) (use "1.IH" sibling_disjoint in auto)
  moreover have "v \<notin> set (concat (map (postorder pa) (kids pa v)))"
    using postorder_bounds by fastforce
  ultimately show ?case by (subst postorder.simps) (simp del: set_concat)
qed

lemma all_descend:
  assumes "heap_ordered n pa" and "v \<in> {0..n}"
  shows "(v, n) \<in> (up_edge pa)\<^sup>*"
  using assms(2)
proof (induction "nat (n - v)" arbitrary: v rule: less_induct)
  case less
  show ?case
  proof (cases "v = n")
    case False
    with less.prems assms(1) have p: "v < pa v" "pa v \<le> n" by (auto simp: heap_ordered_def)
    with less.prems have "(pa v, n) \<in> (up_edge pa)\<^sup>*" by (intro less.hyps) auto
    moreover from p less.prems have "(v, pa v) \<in> up_edge pa" by (simp add: up_edge_def)
    ultimately show ?thesis by (rule converse_rtrancl_into_rtrancl[rotated])
  qed simp
qed

lemma set_postorder_root:
  assumes "heap_ordered n pa" and "0 \<le> n"
  shows "set (postorder pa n) = {0..n}"
proof
  show "set (postorder pa n) \<subseteq> {0..n}" using postorder_bounds[of _ pa n] assms(2) by auto
  show "{0..n} \<subseteq> set (postorder pa n)"
  proof
    fix v assume "v \<in> {0..n}"
    from all_descend[OF assms(1) this] show "v \<in> set (postorder pa n)" by (simp only: postorder_iff)
  qed
qed

lemma length_postorder_root:
  assumes "heap_ordered n pa" and "0 \<le> n"
  shows "int (length (postorder pa n)) = n + 1"
proof -
  have "length (postorder pa n) = card (set (postorder pa n))"
    by (rule distinct_card[OF distinct_postorder, symmetric])
  also have "\<dots> = nat (n + 1)" by (subst set_postorder_root[OF assms]) simp
  finally show ?thesis using assms(2) by simp
qed

section \<open>The lists of children\<close>

fun links :: "int list \<Rightarrow> int \<Rightarrow> int list \<Rightarrow> bool" where
  "links nk w [] \<longleftrightarrow> w = -1"
| "links nk w (x # xs) \<longleftrightarrow> w = x \<and> links nk (ix nk x) xs"

lemma links_up: "x \<notin> set xs \<Longrightarrow> inb nk x \<Longrightarrow> links (up nk x y) w xs = links nk w xs"
  by (induction xs arbitrary: w) (auto simp: ix_up)

definition kids_from :: "int \<Rightarrow> (int \<Rightarrow> int) \<Rightarrow> int \<Rightarrow> int \<Rightarrow> int list" where
  "kids_from n pa m d = filter (\<lambda>u. pa u = d) [m..n - 1]"

lemma kids_from_step: "m < n \<Longrightarrow>
    kids_from n pa m d = (if pa m = d then m # kids_from n pa (m + 1) d else kids_from n pa (m + 1) d)"
  by (simp add: kids_from_def upto_rec1)

lemma kids_from_all:
  assumes "heap_ordered n pa" and "d \<in> {0..n}"
  shows "kids_from n pa 0 d = kids pa d"
proof -
  have "[0..n - 1] = [0..d - 1] @ [d..n - 1]" using assms(2) upto_split1[of 0 d "n - 1"] by (cases "d = n") auto
  moreover have "filter (\<lambda>u. pa u = d) [d..n - 1] = []"
    unfolding filter_empty_conv
  proof
    fix x assume "x \<in> set [d..n - 1]"
    with assms have "x < pa x" "d \<le> x" by (auto simp: heap_ordered_def)
    then show "pa x \<noteq> d" by simp
  qed
  ultimately show ?thesis by (simp add: kids_from_def kids_def)
qed

lemma kid_lists_wp:
  assumes ho: "heap_ordered n (ix parent)" and n: "0 \<le> n" "n \<le> alen parent"
  shows "returns (kid_lists n parent) (\<lambda>(fk, nk). alen fk = n + 1 \<and> alen nk = n + 1 \<and>
    (\<forall>d\<in>{0..n}. links nk (ix fk d) (kids (ix parent) d)))"
proof -
  let ?pa = "ix parent"
  let ?I = "\<lambda>v (fk, nk). alen fk = n + 1 \<and> alen nk = n + 1 \<and>
    (\<forall>d\<in>{0..n}. links nk (ix fk d) (kids_from n ?pa (v + 1) d))"
  have init: "returns (for_up 0 (n + 1) (\<lambda>v fk. wr fk v (-1)) (fill (n + 1) 0))
      (\<lambda>fk. alen fk = n + 1 \<and> (\<forall>d\<in>{0..n}. ix fk d = -1))"
    by (rule for_up_wp[where I = "\<lambda>v fk. alen fk = n + 1 \<and> (\<forall>d\<in>{0..<v}. ix fk d = -1)"])
      (use n in \<open>auto simp: wp ix_up inb_def\<close>)
  have body: "returns ((\<lambda>(fk, nk). do { dad \<leftarrow> rd parent v; f \<leftarrow> rd fk dad; nk \<leftarrow> wr nk v f;
      fk \<leftarrow> wr fk dad v; Some (fk, nk) }) st) (?I (v - 1))"
    if v: "0 \<le> v" "v \<le> n - 1" and I: "?I v st" for v st
  proof -
    obtain fk nk where st: "st = (fk, nk)" by (cases st)
    have inb: "inb parent v" "inb fk (?pa v)" "inb nk v"
      using v n ho I st by (force simp: inb_def heap_ordered_def)+
    have notin: "v \<notin> set (kids_from n ?pa (v + 1) d)" for d by (simp add: kids_from_def)
    have "links (up nk v (ix fk (?pa v))) (ix (up fk (?pa v) v) d) (kids_from n ?pa v d)" if "d \<in> {0..n}" for d
      using that I st v inb notin by (auto simp: kids_from_step links_up ix_up)
    with inb I st show ?thesis by (simp add: wp)
  qed
  have main: "returns (for_down (n - 1) 0 (\<lambda>v (fk, nk). do { dad \<leftarrow> rd parent v; f \<leftarrow> rd fk dad; nk \<leftarrow> wr nk v f;
      fk \<leftarrow> wr fk dad v; Some (fk, nk) }) (fk, fill (n + 1) 0)) (\<lambda>(fk, nk). alen fk = n + 1 \<and>
      alen nk = n + 1 \<and> (\<forall>d\<in>{0..n}. links nk (ix fk d) (kids ?pa d)))"
    if "alen fk = n + 1" "\<forall>d\<in>{0..n}. ix fk d = -1" for fk
    by (rule for_down_wp[where I = ?I])
      (use that n body kids_from_all[OF ho] in \<open>auto simp: kids_from_def split: prod.splits\<close>)
  show ?thesis unfolding kid_lists_def mxCallocInt_def
    using n init main by (auto simp: wp elim!: returns_mono)
qed

section \<open>The search numbers the postorder\<close>

fun assign :: "int list \<Rightarrow> int \<Rightarrow> int list \<Rightarrow> int list" where
  "assign post num [] = post"
| "assign post num (x # xs) = assign (up post x num) (num + 1) xs"

lemma assign_append: "assign post num (xs @ ys) = assign (assign post num xs) (num + int (length xs)) ys"
  by (induction xs arbitrary: post num) (auto simp: add.assoc)

lemma alen_assign [simp]: "alen (assign post num xs) = alen post"
  by (induction xs arbitrary: post num) auto

lemma assign_notin: "y \<notin> set xs \<Longrightarrow> \<forall>x\<in>set xs. inb post x \<Longrightarrow> ix (assign post num xs) y = ix post y"
  by (induction xs arbitrary: post num) (auto simp: ix_up)

lemma assign_nth:
  "distinct xs \<Longrightarrow> \<forall>x\<in>set xs. inb post x \<Longrightarrow> i < length xs \<Longrightarrow>
   ix (assign post num xs) (xs ! i) = num + int i"
proof (induction xs arbitrary: post num i)
  case (Cons x xs)
  then show ?case by (cases i) (auto simp: assign_notin)
qed simp

lemma etdfs_kids_eq:
  assumes links: "\<forall>d\<in>{0..n}. links nk (ix fk d) (kids pa d)" and len: "alen fk = n + 1" "alen nk = n + 1"
    and "links nk w us" and "\<forall>u\<in>set us. 0 \<le> u \<and> u \<le> n" and "alen post = n + 1"
  shows "etdfs_kids fk nk w (post, num) = Some (assign post num (concat (map (postorder pa) us)),
    num + int (length (concat (map (postorder pa) us))))"
  using assms(4-6)
proof (induction "length (concat (map (postorder pa) us))" arbitrary: us w post num rule: less_induct)
  case less
  show ?case
  proof (cases us)
    case Nil
    with less.prems show ?thesis by (simp add: etdfs_kids.simps)
  next
    case (Cons u us')
    let ?L = "concat (map (postorder pa) (kids pa u))"
    from Cons less.prems have u: "w = u" "0 \<le> u" "u \<le> n" "links nk (ix nk u) us'" by auto
    have po: "postorder pa u = ?L @ [u]" by (rule postorder.simps)
    have inb: "inb fk u" "inb nk u" "inb (assign post num ?L) u" using u len less.prems by (auto simp: inb_def)
    have kids: "etdfs_kids fk nk (ix fk u) (post, num) = Some (assign post num ?L, num + int (length ?L))"
      by (rule less.hyps) (use Cons po links u less.prems in auto)
    have rest: "etdfs_kids fk nk (ix nk u) (assign post num (?L @ [u]), num + int (length (?L @ [u]))) =
        Some (assign (assign post num (?L @ [u])) (num + int (length (?L @ [u]))) (concat (map (postorder pa) us')),
          num + int (length (?L @ [u])) + int (length (concat (map (postorder pa) us'))))"
      by (rule less.hyps) (use Cons u less.prems in auto)
    have num: "number u (assign post num ?L, num + int (length ?L)) =
        Some (assign post num (?L @ [u]), num + int (length (?L @ [u])))"
      using inb by (simp add: number_def assign_append)
    show ?thesis using u inb kids num rest
      by (subst etdfs_kids.simps) (simp add: Cons po assign_append algebra_simps)
  qed
qed

lemma TreePostorder_wp:
  assumes ho: "heap_ordered n (ix parent)" and n: "0 \<le> n" "n \<le> alen parent"
  shows "returns (TreePostorder n parent) (\<lambda>post. post = assign (fill (n + 1) 0) 0 (postorder (ix parent) n))"
proof -
  let ?pa = "ix parent"
  have "etdfs fk nk n (fill (n + 1) 0, 0) =
      Some (assign (fill (n + 1) 0) 0 (postorder ?pa n), int (length (postorder ?pa n)))"
    if "alen fk = n + 1" "alen nk = n + 1" and l: "\<forall>d\<in>{0..n}. links nk (ix fk d) (kids ?pa d)" for fk nk
  proof -
    let ?L = "concat (map (postorder ?pa) (kids ?pa n))"
    have po: "postorder ?pa n = ?L @ [n]" by (rule postorder.simps)
    have "etdfs_kids fk nk (ix fk n) (fill (n + 1) 0, 0) =
        Some (assign (fill (n + 1) 0) 0 ?L, 0 + int (length ?L))"
      by (rule etdfs_kids_eq[OF l that(1,2)]) (use l n in auto)
    with that n show ?thesis by (simp add: etdfs_def number_def po assign_append inb_def)
  qed
  with n show ?thesis unfolding TreePostorder_def mxCallocInt_def
    by (auto simp: wp case_prod_unfold intro!: returns_mono[OF kid_lists_wp[OF ho n]])
qed

section \<open>What the numbering is\<close>

text \<open>
  \<open>post\<close> is the inverse of the list \<open>postorder\<close>: a permutation of \<open>0..n\<close> that numbers the
  descendants of a vertex contiguously, the vertex last.
\<close>

definition is_post :: "int \<Rightarrow> (int \<Rightarrow> int) \<Rightarrow> int list \<Rightarrow> bool" where
  "is_post n pa post \<longleftrightarrow> alen post = n + 1 \<and>
     (\<forall>i<length (postorder pa n). ix post (postorder pa n ! i) = int i)"

lemma is_post_assign:
  assumes "heap_ordered n pa" and "0 \<le> n"
  shows "is_post n pa (assign (fill (n + 1) 0) 0 (postorder pa n))"
proof -
  have "\<forall>x\<in>set (postorder pa n). inb (fill (n + 1) (0::int)) x"
    using set_postorder_root[OF assms] assms(2) by (auto simp: inb_def)
  with assms(2) show ?thesis by (simp add: is_post_def assign_nth distinct_postorder)
qed

lemma TreePostorder_is_post:
  assumes "heap_ordered n (ix parent)" and "0 \<le> n" and "n \<le> alen parent"
  shows "returns (TreePostorder n parent) (is_post n (ix parent))"
  by (rule returns_mono[OF TreePostorder_wp[OF assms]]) (use is_post_assign[OF assms(1,2)] in simp)

lemma is_post_bij:
  assumes p: "is_post n pa post" and ho: "heap_ordered n pa" "0 \<le> n"
  shows "bij_betw (ix post) {0..n} {0..n}"
proof -
  let ?L = "postorder pa n"
  have eq: "map (ix post) ?L = map int [0..<length ?L]"
    by (rule nth_equalityI) (use p in \<open>auto simp: is_post_def\<close>)
  have "distinct (map (ix post) ?L)" unfolding eq by (simp add: distinct_map)
  then have "inj_on (ix post) (set ?L)" by (simp add: distinct_map)
  moreover have "ix post ` set ?L = {0..n}"
  proof -
    have "ix post ` set ?L = set (map (ix post) ?L)" by simp
    also have "\<dots> = int ` {0..<length ?L}" by (simp only: eq set_map set_upt)
    also have "\<dots> = {0..<int (length ?L)}" by (simp add: image_int_atLeastLessThan)
    also have "\<dots> = {0..n}" using length_postorder_root[OF ho] by auto
    finally show ?thesis .
  qed
  ultimately show ?thesis using set_postorder_root[OF ho] by (simp add: bij_betw_def)
qed

lemma postorder_infix:
  assumes "(v, w) \<in> (up_edge pa)\<^sup>*"
  shows "\<exists>xs ys. postorder pa w = xs @ postorder pa v @ ys"
  using assms
proof (induction rule: rtrancl_induct)
  case base
  show ?case by (intro exI[of _ "[]"]) simp
next
  case (step y z)
  then obtain xs ys where y: "postorder pa y = xs @ postorder pa v @ ys" by blast
  from step.hyps(2) have "y \<in> set (kids pa z)" by (simp add: up_edge_def)
  then obtain us vs where "kids pa z = us @ y # vs" by (auto simp: in_set_conv_decomp)
  then have "postorder pa z = (concat (map (postorder pa) us) @ xs) @ postorder pa v @
      (ys @ concat (map (postorder pa) vs) @ [z])" by (subst postorder.simps) (simp add: y)
  then show ?case by blast
qed

lemma is_post_subtree:
  assumes p: "is_post n pa post" and ho: "heap_ordered n pa" and v: "v \<in> {0..n}"
  shows "ix post ` set (postorder pa v) = {ix post v - int (length (postorder pa v)) + 1..ix post v}"
proof -
  from postorder_infix[OF all_descend[OF ho v]] obtain xs ys where
    L: "postorder pa n = xs @ postorder pa v @ ys" by blast
  let ?s = "length xs" and ?k = "length (postorder pa v)"
  have nth: "ix post (postorder pa v ! i) = int (?s + i)" if "i < ?k" for i
  proof -
    have "postorder pa n ! (?s + i) = postorder pa v ! i" using that by (simp add: L nth_append)
    moreover have "?s + i < length (postorder pa n)" using that by (simp add: L)
    ultimately show ?thesis using p unfolding is_post_def by metis
  qed
  have last: "postorder pa v ! (?k - 1) = v" by (subst (1 2) postorder.simps) (simp add: nth_append)
  have pv: "ix post v = int ?s + int ?k - 1" using nth[of "?k - 1"] last length_postorder_pos[of pa v]
    by (simp add: of_nat_diff)
  have "ix post ` set (postorder pa v) = (\<lambda>i. ix post (postorder pa v ! i)) ` {0..<?k}"
    by (subst map_nth[of "postorder pa v", symmetric]) (simp only: set_map set_upt image_image)
  also have "\<dots> = (\<lambda>i. int (?s + i)) ` {0..<?k}" using nth by (intro image_cong) auto
  also have "\<dots> = {int ?s..<int ?s + int ?k}"
  proof (intro set_eqI iffI)
    fix x assume "x \<in> {int ?s..<int ?s + int ?k}"
    then show "x \<in> (\<lambda>i. int (?s + i)) ` {0..<?k}" by (intro image_eqI[of _ _ "nat (x - int ?s)"]) auto
  qed auto
  also have "\<dots> = {ix post v - int ?k + 1..ix post v}" using pv by auto
  finally show ?thesis .
qed

text \<open>A parent is numbered after its child.\<close>

lemma is_post_parent:
  assumes p: "is_post n pa post" and ho: "heap_ordered n pa" "0 \<le> n" and v: "v \<in> {0..<n}"
  shows "ix post v < ix post (pa v)"
proof -
  have pv: "v < pa v" "pa v \<in> {0..n}" using ho v by (force simp: heap_ordered_def)+
  then have "(v, pa v) \<in> up_edge pa" using v by (simp add: up_edge_def)
  then have "v \<in> set (postorder pa (pa v))" unfolding postorder_iff by blast
  then have "ix post v \<in> ix post ` set (postorder pa (pa v))" by blast
  then have "ix post v \<le> ix post (pa v)" unfolding is_post_subtree[OF p ho(1) pv(2)] by simp
  moreover have "ix post v \<noteq> ix post (pa v)"
    using is_post_bij[OF p ho] pv v inj_on_eq_iff[of "ix post" "{0..n}" v "pa v"] by (auto simp: bij_betw_def)
  ultimately show ?thesis by simp
qed

lemma is_post_range: "is_post n pa post \<Longrightarrow> heap_ordered n pa \<Longrightarrow> v \<in> {0..n} \<Longrightarrow> ix post v \<in> {0..n}"
  using is_post_bij[of n pa post] by (auto simp: bij_betw_def)

text \<open>
  A tree without crossing edges is numbered in postorder already; the routine then returns
  the identity, as its comment promises.
\<close>

definition noncrossing :: "int \<Rightarrow> (int \<Rightarrow> int) \<Rightarrow> bool" where
  "noncrossing n pa \<longleftrightarrow> (\<forall>u\<in>{0..<n}. \<forall>x\<in>{0..<n}. u < x \<and> x < pa u \<longrightarrow> pa x \<le> pa u)"

lemma noncrossing_sibling:
  assumes nc: "noncrossing n pa" and "pa u = v" "pa w = v" "0 \<le> u" "u < w" "w < v" "v \<le> n"
    and x: "(x, w) \<in> (up_edge pa)\<^sup>*" "x \<noteq> w"
  shows "u < x"
proof (rule ccontr)
  assume "\<not> u < x"
  moreover have "x \<noteq> u"
    using sibling_disjoint[of pa u v w] assms(2-6) x(1) postorder_self[of u pa] postorder_iff[of _ pa] by auto
  ultimately have "x < u" by simp
  with x(1) have "\<exists>y z. (y, z) \<in> up_edge pa \<and> y < u \<and> u < z \<and> (z, w) \<in> (up_edge pa)\<^sup>*"
  proof (induction rule: converse_rtrancl_induct)
    case base
    with assms(5) show ?case by simp
  next
    case (step y z)
    have "z \<noteq> u"
      using sibling_disjoint[of pa u v w] assms(2-6) step.hyps(2) postorder_self[of u pa] postorder_iff[of _ pa] by auto
    then consider "z < u" | "u < z" by linarith
    then show ?case
    proof cases
      case 2
      with step show ?thesis by (intro exI[of _ y] exI[of _ z]) simp
    qed (use step in auto)
  qed
  then obtain y z where yz: "(y, z) \<in> up_edge pa" "y < u" "u < z" "(z, w) \<in> (up_edge pa)\<^sup>*" by blast
  then have "z \<le> w" by (simp add: up_edge_mono)
  with nc yz assms show False by (force simp: noncrossing_def up_edge_def)
qed

lemma sorted_concat_map:
  "sorted_wrt (<) us \<Longrightarrow> (\<And>u. u \<in> set us \<Longrightarrow> sorted_wrt (<) (f u)) \<Longrightarrow>
   (\<And>u w x y. u \<in> set us \<Longrightarrow> w \<in> set us \<Longrightarrow> u < w \<Longrightarrow> x \<in> set (f u) \<Longrightarrow> y \<in> set (f w) \<Longrightarrow> x < y) \<Longrightarrow>
   sorted_wrt (<) (concat (map f us :: int list list))"
  by (induction us) (fastforce simp: sorted_wrt_append)+

lemma sorted_postorder:
  "noncrossing n pa \<Longrightarrow> v \<le> n \<Longrightarrow> sorted_wrt (<) (postorder pa v)"
proof (induction pa v rule: postorder.induct)
  case (1 pa v)
  have "sorted_wrt (<) (concat (map (postorder pa) (kids pa v)))"
  proof (rule sorted_concat_map)
    show "sorted_wrt (<) (kids pa v)" by (simp add: kids_def sorted_wrt_filter)
    show "sorted_wrt (<) (postorder pa u)" if "u \<in> set (kids pa v)" for u
      using "1.IH"[OF that] that "1.prems" by simp
    fix u w x y assume u: "u \<in> set (kids pa v)" and w: "w \<in> set (kids pa v)" and "u < w"
      and x: "x \<in> set (postorder pa u)" and y: "y \<in> set (postorder pa w)"
    from u x have "x \<le> u" by (auto dest: postorder_bounds)
    moreover have "u < y"
      using noncrossing_sibling[OF "1.prems"(1), of u v w y] u w y \<open>u < w\<close> "1.prems"(2)
      by (cases "y = w") (auto simp: postorder_iff)
    ultimately show "x < y" by simp
  qed
  moreover have "x < v" if "x \<in> set (concat (map (postorder pa) (kids pa v)))" for x
    using that postorder_bounds by fastforce
  ultimately show ?case by (subst postorder.simps) (simp add: sorted_wrt_append)
qed

lemma postorder_id:
  assumes "noncrossing n pa" and "heap_ordered n pa" and "0 \<le> n"
  shows "postorder pa n = [0..n]"
proof (rule sorted_distinct_set_unique)
  show "sorted (postorder pa n)" using sorted_postorder[OF assms(1) order_refl] by (simp add: strict_sorted_iff)
  show "set (postorder pa n) = set [0..n]" by (simp add: set_postorder_root[OF assms(2,3)])
qed (simp_all add: distinct_postorder)

lemma is_post_id:
  assumes "is_post n pa post" and "noncrossing n pa" and ho: "heap_ordered n pa" "0 \<le> n" and v: "v \<in> {0..n}"
  shows "ix post v = v"
proof -
  have "\<forall>i<length [0..n]. ix post ([0..n] ! i) = int i"
    using assms(1) unfolding is_post_def postorder_id[OF assms(2) ho] by blast
  from this[THEN spec, of "nat v"] v show ?thesis by (simp add: nat_less_eq_zless)
qed

section \<open>Properties\<close>

text \<open>
  C33: \<open>TreePostorder\<close> of a heap-ordered tree returns a numbering of all vertices in which every
  vertex comes before its parent and every subtree is an interval that ends at its root.
\<close>

theorem TreePostorder_correct:
  assumes "heap_ordered n (ix parent)" and "0 \<le> n" and "n \<le> alen parent"
  shows "returns (TreePostorder n parent) (\<lambda>post. bij_betw (ix post) {0..n} {0..n} \<and>
    (\<forall>v\<in>{0..<n}. ix post v < ix post (ix parent v)) \<and>
    (\<forall>v\<in>{0..n}. ix post ` {x. (x, v) \<in> (up_edge (ix parent))\<^sup>*} =
       {ix post v - int (card {x. (x, v) \<in> (up_edge (ix parent))\<^sup>*}) + 1..ix post v}))"
proof (rule returns_mono[OF TreePostorder_is_post[OF assms]])
  fix post assume p: "is_post n (ix parent) post"
  have s: "{x. (x, v) \<in> (up_edge (ix parent))\<^sup>*} = set (postorder (ix parent) v)" for v
    by (auto simp: postorder_iff)
  have c: "card (set (postorder (ix parent) v)) = length (postorder (ix parent) v)" for v
    by (rule distinct_card[OF distinct_postorder])
  show "bij_betw (ix post) {0..n} {0..n} \<and> (\<forall>v\<in>{0..<n}. ix post v < ix post (ix parent v)) \<and>
    (\<forall>v\<in>{0..n}. ix post ` {x. (x, v) \<in> (up_edge (ix parent))\<^sup>*} =
       {ix post v - int (card {x. (x, v) \<in> (up_edge (ix parent))\<^sup>*}) + 1..ix post v})"
    unfolding s c
    using is_post_bij[OF p assms(1,2)] is_post_parent[OF p assms(1,2)] is_post_subtree[OF p assms(1)] by blast
qed

lemma demo_heap_ordered: "heap_ordered 3 (ix [2, 3, 3])"
proof -
  have "{0..<3} = {0, 1, 2 :: int}" by auto
  then show ?thesis by (simp add: heap_ordered_def ix_def)
qed

theorem TreePostorder_correct_witness: "returns (TreePostorder 3 [2, 3, 3]) (\<lambda>post. bij_betw (ix post) {0..3} {0..3})"
  by (rule returns_mono[OF TreePostorder_correct[OF demo_heap_ordered]]) (simp_all add: alen_def)

text \<open>
  On a tree that is numbered in postorder already, \<open>TreePostorder\<close> returns the identity.
\<close>

theorem TreePostorder_identity:
  assumes "heap_ordered n (ix parent)" and "0 \<le> n" and "n \<le> alen parent" and "noncrossing n (ix parent)"
  shows "returns (TreePostorder n parent) (\<lambda>post. \<forall>v\<in>{0..n}. ix post v = v)"
  by (rule returns_mono[OF TreePostorder_is_post[OF assms(1-3)]]) (use is_post_id[OF _ assms(4,1,2)] in blast)

lemma demo_noncrossing: "heap_ordered 3 (ix [1, 3, 3])" "noncrossing 3 (ix [1, 3, 3])"
proof -
  have "{0..<3} = {0, 1, 2 :: int}" by auto
  then show "heap_ordered 3 (ix [1, 3, 3])" "noncrossing 3 (ix [1, 3, 3])"
    by (simp_all add: heap_ordered_def noncrossing_def ix_def)
qed

theorem TreePostorder_identity_witness: "returns (TreePostorder 3 [1, 3, 3]) (\<lambda>post. ix post 1 = 1)"
  by (rule returns_mono[OF TreePostorder_identity[OF demo_noncrossing(1) _ _ demo_noncrossing(2)]]) (simp_all add: alen_def)

end
