(* ===== verification/EliminationTree.thy ===== *)
theory EliminationTree
  imports Postorder
begin

text \<open>
  The elimination tree of a symmetric pattern as an abstract object: the subtree of \<open>v\<close> is the
  component of \<open>v\<close> among the vertices up to \<open>v\<close>, every edge joins a vertex to an ancestor, and a
  renumbering that puts every vertex before its parent maps the elimination tree of the pattern
  to the elimination tree of the renumbered pattern. The last fact is what \<^verbatim>\<open>sp_preorder\<close>
  relies on when it renumbers the tree instead of computing it again.
\<close>

definition etree_of :: "(int \<times> int) set \<Rightarrow> int \<Rightarrow> (int \<Rightarrow> int) \<Rightarrow> bool" where
  "etree_of E n pa \<longleftrightarrow> (\<forall>v\<in>{0..<n}. is_parent E n v (pa v))"

lemma etree_of_heap_ordered: "etree_of E n pa \<Longrightarrow> heap_ordered n pa"
  using is_parent_gt by (fastforce simp: etree_of_def heap_ordered_def)

lemma etree_of_unique: "etree_of E n pa \<Longrightarrow> etree_of E n pa' \<Longrightarrow> v \<in> {0..<n} \<Longrightarrow> pa v = pa' v"
  unfolding etree_of_def by (blast intro: is_parent_unique)

lemma conn_refl [simp]: "(u, u) \<in> conn E k"
  by (simp add: conn_def)

lemma conn_mono: "k \<le> k' \<Longrightarrow> conn E k \<subseteq> conn E k'"
  unfolding conn_def by (rule rtrancl_mono) auto

lemma conn_trans: "(u, v) \<in> conn E k \<Longrightarrow> (v, w) \<in> conn E k \<Longrightarrow> (u, w) \<in> conn E k"
  unfolding conn_def by (rule rtrancl_trans)

lemma conn_sym: "(u, v) \<in> conn E k \<Longrightarrow> (v, u) \<in> conn E k"
proof -
  have "sym (sym_rel E \<inter> {0..k} \<times> {0..k})" by (auto simp: sym_rel_def sym_def)
  then show "(u, v) \<in> conn E k \<Longrightarrow> (v, u) \<in> conn E k" unfolding conn_def by (meson symD sym_rtrancl)
qed

lemma conn_edge: "(u, v) \<in> sym_rel E \<Longrightarrow> u \<in> {0..k} \<Longrightarrow> v \<in> {0..k} \<Longrightarrow> (u, v) \<in> conn E k"
  by (auto simp: conn_def)

lemma conn_bound: "(u, v) \<in> conn E k \<Longrightarrow> u \<noteq> v \<Longrightarrow> u \<in> {0..k} \<and> v \<in> {0..k}"
  unfolding conn_def by (erule rtranclE, simp) (auto elim: converse_rtranclE)

lemma up_edge_conn:
  assumes T: "etree_of E n pa" and "(x, v) \<in> (up_edge pa)\<^sup>*" and "v < n"
  shows "(x, v) \<in> conn E v"
  using assms(2)
proof (induction rule: converse_rtrancl_induct)
  case (step y z)
  from step.hyps have yz: "0 \<le> y" "y < z" "pa y = z" "z \<le> v" using up_edge_mono by (auto simp: up_edge_def)
  with T assms(3) have "is_parent E n y z" by (auto simp: etree_of_def)
  with yz assms(3) have "(y, z) \<in> conn E z" by (auto simp: is_parent_def split: if_splits)
  with conn_mono[OF yz(4)] step.IH show ?case by (blast intro: conn_trans)
qed simp

lemma conn_up_edge:
  assumes T: "etree_of E n pa" and "(x, v) \<in> conn E v" and "v < n"
  shows "(x, v) \<in> (up_edge pa)\<^sup>*"
  using assms(2)
proof (induction "nat (v - x)" arbitrary: x rule: less_induct)
  case less
  show ?case
  proof (cases "x = v")
    case False
    with conn_bound[OF less.prems] have x: "0 \<le> x" "x < v" by auto
    with T assms(3) have p: "is_parent E n x (pa x)" by (auto simp: etree_of_def)
    moreover have "\<exists>k. x < k \<and> k < n \<and> (x, k) \<in> conn E k" using x less.prems assms(3) by blast
    ultimately have w: "x < pa x" "(x, pa x) \<in> conn E (pa x)" "pa x \<le> v"
      using less.prems x unfolding is_parent_def by (auto simp: not_less[symmetric])
    have "(pa x, x) \<in> conn E v" using conn_sym[OF w(2)] conn_mono[OF w(3)] by blast
    with less.prems have "(pa x, v) \<in> conn E v" by (blast intro: conn_trans)
    with less.hyps[of "pa x"] w x have "(pa x, v) \<in> (up_edge pa)\<^sup>*" by simp
    moreover have "(x, pa x) \<in> up_edge pa" using x w by (simp add: up_edge_def)
    ultimately show ?thesis by (rule converse_rtrancl_into_rtrancl[rotated])
  qed simp
qed

text \<open>The subtree of \<open>v\<close> is the component of \<open>v\<close>; edges join vertices of one chain.\<close>

lemma subtree_component:
  "etree_of E n pa \<Longrightarrow> v < n \<Longrightarrow> (x, v) \<in> (up_edge pa)\<^sup>* \<longleftrightarrow> (x, v) \<in> conn E v"
  using up_edge_conn conn_up_edge by blast

lemma edge_chain:
  assumes "etree_of E n pa" and "(i, j) \<in> E" and "0 \<le> i" "i < j" "j < n"
  shows "(i, j) \<in> (up_edge pa)\<^sup>*"
  by (rule conn_up_edge[OF assms(1) conn_edge assms(5)]) (use assms in \<open>auto simp: sym_rel_def\<close>)

section \<open>Renumbering\<close>

definition relabel :: "(int \<Rightarrow> int) \<Rightarrow> (int \<times> int) set \<Rightarrow> (int \<times> int) set" where
  "relabel f E = {(min (f i) (f j), max (f i) (f j)) | i j. (i, j) \<in> E}"

lemma sym_rel_relabel: "(a, b) \<in> sym_rel (relabel f E) \<longleftrightarrow> (\<exists>y z. a = f y \<and> b = f z \<and> (y, z) \<in> sym_rel E)"
proof
  assume "(a, b) \<in> sym_rel (relabel f E)"
  then obtain i j where "(i, j) \<in> E" "(a = f i \<and> b = f j) \<or> (a = f j \<and> b = f i)"
    unfolding sym_rel_def relabel_def min_def max_def by (auto split: if_splits)
  then show "\<exists>y z. a = f y \<and> b = f z \<and> (y, z) \<in> sym_rel E" unfolding sym_rel_def by blast
next
  assume "\<exists>y z. a = f y \<and> b = f z \<and> (y, z) \<in> sym_rel E"
  then obtain y z where yz: "a = f y" "b = f z" "(y, z) \<in> E \<or> (z, y) \<in> E" by (auto simp: sym_rel_def)
  have *: "(min (f i) (f j), max (f i) (f j)) \<in> relabel f E" if "(i, j) \<in> E" for i j
    using that by (auto simp: relabel_def)
  from yz(3) show "(a, b) \<in> sym_rel (relabel f E)"
  proof
    assume "(y, z) \<in> E"
    from *[OF this] yz(1,2) show ?thesis by (auto simp: sym_rel_def min_def max_def split: if_splits)
  next
    assume "(z, y) \<in> E"
    from *[OF this] yz(1,2) show ?thesis by (auto simp: sym_rel_def min_def max_def split: if_splits)
  qed
qed

text \<open>A topological renumbering of the tree: a bijection that puts every vertex before its parent.\<close>

definition topological :: "int \<Rightarrow> (int \<Rightarrow> int) \<Rightarrow> (int \<Rightarrow> int) \<Rightarrow> bool" where
  "topological n pa f \<longleftrightarrow> bij_betw f {0..n} {0..n} \<and> (\<forall>v\<in>{0..<n}. f v < f (pa v))"

lemma topological_le:
  assumes "topological n pa f" and "(x, v) \<in> (up_edge pa)\<^sup>*" and "v \<le> n"
  shows "f x \<le> f v" and "x \<noteq> v \<Longrightarrow> f x < f v"
proof -
  have "x = v \<or> f x < f v"
    using assms(2)
  proof (induction rule: converse_rtrancl_induct)
    case (step y z)
    then have "0 \<le> y" "y < z" "pa y = z" "z \<le> v" using up_edge_mono by (auto simp: up_edge_def)
    with assms(1,3) have "f y < f z" by (auto simp: topological_def)
    with step.IH show ?case by auto
  qed simp
  then show "f x \<le> f v" "x \<noteq> v \<Longrightarrow> f x < f v" by auto
qed

lemma topological_root:
  assumes "topological n pa f" and "heap_ordered n pa" and "0 \<le> n"
  shows "f n = n" and "v \<in> {0..<n} \<Longrightarrow> f v \<in> {0..<n}"
proof -
  from assms(1) have bij: "bij_betw f {0..n} {0..n}" by (simp add: topological_def)
  obtain r where r: "r \<in> {0..n}" "f r = n" using bij assms(3) by (force simp: bij_betw_def image_iff)
  have fn: "f n \<in> {0..n}" using bij assms(3) by (auto simp: bij_betw_def)
  have "f r \<le> f n" by (rule topological_le[OF assms(1) all_descend[OF assms(2) r(1)]]) simp
  with r(2) fn show n: "f n = n" by simp
  assume v: "v \<in> {0..<n}"
  then have "f v \<in> {0..n}" using bij by (auto simp: bij_betw_def)
  moreover have "f v < f n"
    using topological_le(2)[OF assms(1) all_descend[OF assms(2)], of v] v by simp
  ultimately show "f v \<in> {0..<n}" using n by simp
qed

lemma conn_relabel:
  assumes T: "etree_of E n pa" and top: "topological n pa f" and n: "0 \<le> n"
    and E: "\<forall>(i, j)\<in>E. 0 \<le> i \<and> i < j \<and> j < n" and v: "v \<in> {0..<n}"
  shows "(f x, f v) \<in> conn (relabel f E) (f v) \<and> x \<in> {0..<n} \<longleftrightarrow> (x, v) \<in> (up_edge pa)\<^sup>*"
proof
  note ho = etree_of_heap_ordered[OF T]
  note rng = topological_root(2)[OF top ho n]
  have desc: "x \<in> {0..<n}" "f x \<in> {0..f v}" if "(x, v) \<in> (up_edge pa)\<^sup>*" for x
    using that v topological_le(1)[OF top that] up_edge_mono[OF that] up_edge_nonneg[OF that] rng[of x]
    by (cases "x = v"; force)+
  have "(f x, f v) \<in> conn (relabel f E) (f v)" if "(x, v) \<in> conn E v" for x
    using that unfolding conn_def
  proof (induction rule: converse_rtrancl_induct)
    case (step y z)
    from step.hyps(2) have z: "(z, v) \<in> conn E v" by (simp add: conn_def)
    from step.hyps(1) have e: "(y, z) \<in> sym_rel E" "(y, z) \<in> conn E v" by (auto intro: conn_edge)
    from z e(2) have "(y, v) \<in> conn E v" by (blast intro: conn_trans)
    with z v have "f y \<in> {0..f v}" "f z \<in> {0..f v}" using desc(2) subtree_component[OF T] by auto
    moreover have "(f y, f z) \<in> sym_rel (relabel f E)" using e(1) sym_rel_relabel by blast
    ultimately have "(f y, f z) \<in> sym_rel (relabel f E) \<inter> {0..f v} \<times> {0..f v}" by simp
    with step.IH show ?case by (meson converse_rtrancl_into_rtrancl)
  qed simp
  then show "(x, v) \<in> (up_edge pa)\<^sup>* \<Longrightarrow> (f x, f v) \<in> conn (relabel f E) (f v) \<and> x \<in> {0..<n}"
    using subtree_component[OF T] v desc(1) by auto
  have inj: "x = y" if "f x = f y" "x \<in> {0..<n}" "y \<in> {0..<n}" for x y
    using top that by (auto simp: topological_def bij_betw_def dest: inj_onD)
  have desc_of: "\<forall>x\<in>{0..<n}. a = f x \<longrightarrow> (x, v) \<in> (up_edge pa)\<^sup>*"
    if "(a, f v) \<in> conn (relabel f E) (f v)" for a
    using that unfolding conn_def
  proof (induction rule: converse_rtrancl_induct)
    case base
    then show ?case using inj v by blast
  next
    case (step a b)
    show ?case
    proof (intro ballI impI)
      fix x assume x: "x \<in> {0..<n}" "a = f x"
      from step.hyps(1) obtain y z where yz: "a = f y" "b = f z" "(y, z) \<in> sym_rel E" "f y \<le> f v"
        by (auto simp: sym_rel_relabel)
      from yz(3) E have rg: "y \<in> {0..<n}" "z \<in> {0..<n}" by (force simp: sym_rel_def)+
      have xy: "x = y" using inj[of x y] x yz(1) rg by simp
      have zv: "(z, v) \<in> (up_edge pa)\<^sup>*" using step.IH yz(2) rg by blast
      from yz(3) edge_chain[OF T] E have "(y, z) \<in> (up_edge pa)\<^sup>* \<or> (z, y) \<in> (up_edge pa)\<^sup>*"
        by (auto simp: sym_rel_def)
      then show "(x, v) \<in> (up_edge pa)\<^sup>*"
      proof
        assume "(y, z) \<in> (up_edge pa)\<^sup>*"
        with zv xy show ?thesis by simp
      next
        assume zy: "(z, y) \<in> (up_edge pa)\<^sup>*"
        show ?thesis
        proof (cases "y \<le> v")
          case True
          from up_edge_linear[OF zy zv True] xy show ?thesis by simp
        next
          case False
          then have "(v, y) \<in> (up_edge pa)\<^sup>*" using up_edge_linear[OF zv zy] by simp
          from topological_le(2)[OF top this] False rg yz(4) show ?thesis by auto
        qed
      qed
    qed
  qed
  assume "(f x, f v) \<in> conn (relabel f E) (f v) \<and> x \<in> {0..<n}"
  with desc_of show "(x, v) \<in> (up_edge pa)\<^sup>*" by blast
qed

theorem etree_relabel:
  assumes T: "etree_of E n pa" and top: "topological n pa f" and n: "0 \<le> n"
    and E: "\<forall>(i, j)\<in>E. 0 \<le> i \<and> i < j \<and> j < n" and v: "v \<in> {0..<n}"
  shows "is_parent (relabel f E) n (f v) (f (pa v))"
proof -
  note ho = etree_of_heap_ordered[OF T]
  note root = topological_root[OF top ho n]
  note cr = conn_relabel[OF T top n E]
  have pv: "v < pa v" "pa v \<le> n" using ho v by (auto simp: heap_ordered_def)
  have step: "(v, pa v) \<in> up_edge pa" using pv v by (simp add: up_edge_def)
  have above: "pa v < n \<and> f (pa v) \<le> k" if k: "f v < k" "k < n" "(f v, k) \<in> conn (relabel f E) k" for k
  proof -
    have "k \<in> f ` {0..n}" using top k root(2)[OF v] by (auto simp: topological_def bij_betw_def)
    then obtain y where y: "y \<in> {0..n}" "k = f y" by auto
    have yn: "y \<in> {0..<n}" using y k(2) root(1) by (cases "y = n") auto
    have vy: "(v, y) \<in> (up_edge pa)\<^sup>*" using cr[OF yn, of v] k(3) v y(2) by simp
    have "v \<noteq> y" using k(1) y(2) by auto
    with vy obtain w where w: "(v, w) \<in> up_edge pa" "(w, y) \<in> (up_edge pa)\<^sup>*" by (auto elim: converse_rtranclE)
    then have py: "(pa v, y) \<in> (up_edge pa)\<^sup>*" by (auto simp: up_edge_def)
    from up_edge_mono[OF py] yn topological_le(1)[OF top py] y(2) show ?thesis by auto
  qed
  show ?thesis
  proof (cases "pa v < n")
    case True
    then have pn: "pa v \<in> {0..<n}" using pv v by auto
    have 1: "f v < f (pa v)" using top v by (simp add: topological_def)
    have 2: "f (pa v) < n" using root(2)[OF pn] by simp
    have 3: "(f v, f (pa v)) \<in> conn (relabel f E) (f (pa v))" using cr[OF pn, of v] step by auto
    have 4: "\<forall>k. f v < k \<and> k < f (pa v) \<longrightarrow> (f v, k) \<notin> conn (relabel f E) k"
      using above 2 by (meson less_trans not_less)
    show ?thesis unfolding is_parent_def using 1 2 3 4 by auto
  next
    case False
    with pv root(1) have "f (pa v) = n" by simp
    with above False show ?thesis unfolding is_parent_def by auto
  qed
qed

end
