(* ===== verification/RelaxSnode.thy ===== *)
theory RelaxSnode
  imports Postorder
begin

text \<open>
  Relaxed supernodes (\<^verbatim>\<open>libsuperlu/relax_snode.c\<close> and \<^verbatim>\<open>heap_relax_snode.c\<close>): the
  maximal subtrees of the elimination tree with fewer than \<open>relax_columns\<close> proper descendants.
\<close>

section \<open>The code\<close>

definition EMPTY :: int where
  "EMPTY = -1"

definition ifill :: "int list \<Rightarrow> int \<Rightarrow> int \<Rightarrow> int list option" where
  "ifill a len ival = for_up 0 len (\<lambda>i a. wr a i ival) a"

definition count_descendants :: "int \<Rightarrow> int list \<Rightarrow> int list \<Rightarrow> int list option" where
  "count_descendants n et descendants = do {
     descendants \<leftarrow> for_up 0 n (\<lambda>j d. wr d j 0) descendants;
     for_up 0 n (\<lambda>j d. do {
       parent \<leftarrow> rd et j;
       if parent \<noteq> n then do {
         x \<leftarrow> rd d parent;
         y \<leftarrow> rd d j;
         wr d parent (x + (y + 1)) }
       else Some d }) descendants }"

text \<open>The climb from \<open>j\<close> to the last column of its supernode.\<close>

definition snode_last :: "int \<Rightarrow> int list \<Rightarrow> int \<Rightarrow> int list \<Rightarrow> int \<Rightarrow> int option" where
  "snode_last n et relax_columns descendants j = do {
     parent \<leftarrow> rd et j;
     (j, parent) \<leftarrow> while_do
       (\<lambda>(j, parent). if parent \<noteq> n then do { d \<leftarrow> rd descendants parent; Some (d < relax_columns) }
                      else Some False)
       (\<lambda>(j, parent). do { p \<leftarrow> rd et parent; Some (parent, p) }) (j, parent);
     Some j }"

text \<open>The search for a new leaf. The condition reads \<open>descendants[j]\<close> before it tests \<open>j < n\<close>.\<close>

definition next_leaf :: "int \<Rightarrow> int list \<Rightarrow> int \<Rightarrow> int option" where
  "next_leaf n descendants j =
     while_do (\<lambda>j. do { d \<leftarrow> rd descendants j; Some (d \<noteq> 0 \<and> j < n) }) (\<lambda>j. Some (j + 1)) j"

definition relax_snode :: "int \<Rightarrow> int list \<Rightarrow> int \<Rightarrow> int list \<Rightarrow> int list \<Rightarrow> (int list \<times> int list) option" where
  "relax_snode n et relax_columns descendants relax_end = do {
     relax_end \<leftarrow> ifill relax_end n EMPTY;
     descendants \<leftarrow> count_descendants n et descendants;
     (j, relax_end) \<leftarrow> while_do (\<lambda>(j, relax_end). Some (j < n))
       (\<lambda>(snode_start, relax_end). do {
          j \<leftarrow> snode_last n et relax_columns descendants snode_start;
          relax_end \<leftarrow> wr relax_end snode_start j;
          j \<leftarrow> next_leaf n descendants (j + 1);
          Some (j, relax_end) }) (0, relax_end);
     Some (descendants, relax_end) }"

section \<open>Counting descendants\<close>

definition ndesc :: "(int \<Rightarrow> int) \<Rightarrow> int \<Rightarrow> int" where
  "ndesc pa v = int (length (postorder pa v)) - 1"

lemma ndesc_nonneg [simp]: "0 \<le> ndesc pa v"
  using length_postorder_pos[of pa v] by (simp add: ndesc_def)

lemma ndesc_sum: "ndesc pa v = sum_list (map (\<lambda>u. ndesc pa u + 1) (kids pa v))"
proof -
  have "int (length (concat (map (postorder pa) us))) = sum_list (map (\<lambda>u. ndesc pa u + 1) us)" for us
    by (induction us) (auto simp: ndesc_def)
  then show ?thesis unfolding ndesc_def by (subst postorder.simps) simp
qed

lemma ndesc_0: "ndesc pa v = 0 \<longleftrightarrow> (\<forall>u. 0 \<le> u \<and> u < v \<longrightarrow> pa u \<noteq> v)"
proof -
  have "0 < sum_list (map (\<lambda>u. ndesc pa u + 1) us)" if "us \<noteq> []" for us
    using that
  proof (induction us)
    case (Cons u us)
    then show ?case using ndesc_nonneg[of pa u] by (cases "us = []") (auto simp: add_pos_pos add_nonneg_pos)
  qed simp
  then have "ndesc pa v = 0 \<longleftrightarrow> kids pa v = []" unfolding ndesc_sum[of pa v] by fastforce
  also have "\<dots> \<longleftrightarrow> set (kids pa v) = {}" by (simp only: set_empty)
  finally show ?thesis by (auto simp: kids_def simp del: set_empty)
qed

lemma count_descendants_wp:
  assumes ho: "heap_ordered n (ix et)" and len: "n \<le> alen et" "n \<le> alen desc" and n: "0 \<le> n"
  shows "returns (count_descendants n et desc) (\<lambda>d. alen d = alen desc \<and>
    (\<forall>v\<in>{0..<n}. ix d v = ndesc (ix et) v) \<and> (\<forall>v. n \<le> v \<longrightarrow> ix d v = ix desc v))"
proof -
  let ?pa = "ix et"
  let ?sum = "\<lambda>i v. sum_list (map (\<lambda>u. ndesc ?pa u + 1) (filter (\<lambda>u. ?pa u = v) [0..i - 1]))"
  let ?I = "\<lambda>i d. alen d = alen desc \<and> (\<forall>v\<in>{0..<n}. ix d v = ?sum i v) \<and> (\<forall>v. n \<le> v \<longrightarrow> ix d v = ix desc v)"
  have full: "?sum i v = ndesc ?pa v" if "v \<le> i" "i \<le> n" "0 \<le> v" for i v
  proof -
    have "[0..i - 1] = [0..v - 1] @ [v..i - 1]"
      using that upto_split1[of 0 v "i - 1"] by (cases "v = i") auto
    moreover have "filter (\<lambda>u. ?pa u = v) [v..i - 1] = []"
      unfolding filter_empty_conv
    proof
      fix x assume "x \<in> set [v..i - 1]"
      with that ho have "x < ?pa x" "v \<le> x" by (auto simp: heap_ordered_def)
      then show "?pa x \<noteq> v" by simp
    qed
    ultimately show ?thesis by (simp add: ndesc_sum[of _ v] kids_def)
  qed
  have sum_step: "sum_list (map (\<lambda>u. ndesc ?pa u + 1) (filter (\<lambda>u. ?pa u = v) [0..i])) = ?sum i v + (if ?pa i = v then ndesc ?pa i + 1 else 0)" if "0 \<le> i" for i v
    using that upto_rec2[of 0 i] by simp
  have zero: "returns (for_up 0 n (\<lambda>j d. wr d j 0) desc) (?I 0)"
    by (rule for_up_wp[where I = "\<lambda>i d. alen d = alen desc \<and> (\<forall>v\<in>{0..<i}. ix d v = 0) \<and>
        (\<forall>v. n \<le> v \<longrightarrow> ix d v = ix desc v)"]) (use len n in \<open>auto simp: wp ix_up inb_def max_def\<close>)
  have main: "returns (for_up 0 n (\<lambda>j d. do {
       parent \<leftarrow> rd et j;
       if parent \<noteq> n then do { x \<leftarrow> rd d parent; y \<leftarrow> rd d j; wr d parent (x + (y + 1)) }
       else Some d }) d) (\<lambda>d. alen d = alen desc \<and> (\<forall>v\<in>{0..<n}. ix d v = ndesc ?pa v) \<and>
         (\<forall>v. n \<le> v \<longrightarrow> ix d v = ix desc v))" if "?I 0 d" for d
  proof (rule for_up_wp[where I = ?I])
    fix i d assume i: "0 \<le> i" "i < n" and I: "?I i d"
    have p: "i < ?pa i" "?pa i \<le> n" using ho i by (auto simp: heap_ordered_def)
    have "ix d i = ndesc ?pa i" using I full[of i i] i by auto
    with i I p len show "returns (do {
       parent \<leftarrow> rd et i;
       if parent \<noteq> n then do { x \<leftarrow> rd d parent; y \<leftarrow> rd d i; wr d parent (x + (y + 1)) }
       else Some d }) (?I (i + 1))" by (auto simp: wp inb_def ix_up sum_step simp del: upto.simps)
  next
    fix d assume "?I (max 0 n) d"
    with n full show "alen d = alen desc \<and> (\<forall>v\<in>{0..<n}. ix d v = ndesc ?pa v) \<and>
         (\<forall>v. n \<le> v \<longrightarrow> ix d v = ix desc v)" by (auto simp: max_def)
  qed (rule that)
  show ?thesis unfolding count_descendants_def by (rule returns_bindI[OF zero main])
qed

section \<open>Relaxed supernodes\<close>

text \<open>
  \<open>top\<close>: a vertex whose subtree is relaxed and that of its parent is not. \<open>relaxed s e\<close>:
  the columns \<open>s..e\<close> are a relaxed supernode, the subtree of \<open>e\<close>.
\<close>

definition top_vertex :: "int \<Rightarrow> (int \<Rightarrow> int) \<Rightarrow> int \<Rightarrow> int \<Rightarrow> bool" where
  "top_vertex n pa relax e \<longleftrightarrow> 0 \<le> e \<and> e < n \<and> (ndesc pa e < relax \<or> ndesc pa e = 0) \<and>
     (pa e = n \<or> relax \<le> ndesc pa (pa e))"

definition relaxed :: "int \<Rightarrow> (int \<Rightarrow> int) \<Rightarrow> int \<Rightarrow> int \<Rightarrow> int \<Rightarrow> bool" where
  "relaxed n pa relax s e \<longleftrightarrow> top_vertex n pa relax e \<and> s = e - ndesc pa e"

lemma ndesc_mono: "(u, v) \<in> (up_edge pa)\<^sup>* \<Longrightarrow> ndesc pa u \<le> ndesc pa v"
  using postorder_infix[of u v pa] by (auto simp: ndesc_def)

lemma ndesc_parent_pos: "(u, v) \<in> (up_edge pa)\<^sup>* \<Longrightarrow> u \<noteq> v \<Longrightarrow> 0 < ndesc pa v"
proof -
  assume "(u, v) \<in> (up_edge pa)\<^sup>*" "u \<noteq> v"
  then obtain w where "(w, v) \<in> up_edge pa" by (auto elim: rtranclE)
  then have "ndesc pa v \<noteq> 0" by (auto simp: ndesc_0 up_edge_def)
  then show ?thesis using ndesc_nonneg[of pa v] by linarith
qed

text \<open>Two top vertices on one chain are the same.\<close>

lemma top_unique:
  assumes "top_vertex n pa relax e" and "top_vertex n pa relax e'"
    and "(s, e) \<in> (up_edge pa)\<^sup>*" and "(s, e') \<in> (up_edge pa)\<^sup>*"
  shows "e = e'"
proof -
  have le: False if "top_vertex n pa relax a" "top_vertex n pa relax b" "(a, b) \<in> (up_edge pa)\<^sup>*" "a < b" for a b
  proof -
    from that obtain w where w: "(a, w) \<in> up_edge pa" "(w, b) \<in> (up_edge pa)\<^sup>*" by (auto elim: converse_rtranclE)
    then have "pa a \<noteq> n" using that up_edge_mono[OF w(2)] by (auto simp: top_vertex_def up_edge_def)
    with that(1) w(1) have "relax \<le> ndesc pa w" by (auto simp: top_vertex_def up_edge_def)
    with ndesc_mono[OF w(2)] have "relax \<le> ndesc pa b" by simp
    moreover have "0 < ndesc pa b" using ndesc_parent_pos[OF that(3)] that(4) by simp
    ultimately show False using that(2) by (auto simp: top_vertex_def)
  qed
  show ?thesis
  proof (cases e e' rule: linorder_cases)
    case less
    with up_edge_linear[OF assms(3,4)] le assms show ?thesis by auto
  next
    case greater
    with up_edge_linear[OF assms(4,3)] le assms show ?thesis by auto
  qed
qed

text \<open>In a postordered tree the subtree of \<open>v\<close> is the interval of columns that ends at \<open>v\<close>.\<close>

lemma subtree_interval:
  assumes nc: "noncrossing n pa" and ho: "heap_ordered n pa" "0 \<le> n" and v: "v \<in> {0..n}"
  shows "(x, v) \<in> (up_edge pa)\<^sup>* \<longleftrightarrow> v - ndesc pa v \<le> x \<and> x \<le> v"
proof -
  note p = is_post_assign[OF ho]
  let ?post = "assign (fill (n + 1) 0) 0 (postorder pa n)"
  have id: "ix ?post u = u" if "u \<in> {0..n}" for u by (rule is_post_id[OF p nc ho that])
  have sub: "set (postorder pa v) \<subseteq> {0..n}" using postorder_bounds[of _ pa v] v by force
  then have "ix ?post ` set (postorder pa v) = set (postorder pa v)" using id by force
  with is_post_subtree[OF p ho(1) v] id[OF v] have "set (postorder pa v) = {v - ndesc pa v..v}"
    by (simp add: ndesc_def)
  then show ?thesis unfolding postorder_iff[symmetric] by simp
qed

lemma first_is_leaf:
  assumes nc: "noncrossing n pa" and ho: "heap_ordered n pa" "0 \<le> n" and v: "v \<in> {0..n}"
  shows "ndesc pa (v - ndesc pa v) = 0" and "0 \<le> v - ndesc pa v"
proof -
  let ?f = "v - ndesc pa v"
  have f: "(?f, v) \<in> (up_edge pa)\<^sup>*" unfolding subtree_interval[OF assms] by simp
  then show "0 \<le> ?f" using v up_edge_nonneg[OF f] by (cases "ndesc pa v = 0") auto
  have "pa u \<noteq> ?f" if "0 \<le> u" "u < ?f" for u
  proof
    assume "pa u = ?f"
    with that have "(u, ?f) \<in> up_edge pa" by (simp add: up_edge_def)
    with f have "(u, v) \<in> (up_edge pa)\<^sup>*" by auto
    then have "?f \<le> u" unfolding subtree_interval[OF assms] by simp
    with that show False by simp
  qed
  then show "ndesc pa ?f = 0" by (auto simp: ndesc_0)
qed

section \<open>What \<open>relax_snode\<close> computes\<close>

lemma ifill_wp: "n \<le> alen a \<Longrightarrow> returns (ifill a n x) (\<lambda>b. alen b = alen a \<and>
    (\<forall>v. ix b v = (if 0 \<le> v \<and> v < n then x else ix a v)))"
  unfolding ifill_def
  by (rule for_up_wp[where I = "\<lambda>i b. alen b = alen a \<and> (\<forall>v. ix b v = (if 0 \<le> v \<and> v < i then x else ix a v))"])
    (auto simp: wp ix_up inb_def max_def)

lemma snode_last_wp:
  assumes ho: "heap_ordered n (ix et)" and len: "n \<le> alen et" "n \<le> alen desc"
    and desc: "\<forall>v\<in>{0..<n}. ix desc v = ndesc (ix et) v"
    and j: "0 \<le> j" "j < n" and leaf: "ndesc (ix et) j = 0"
  shows "returns (snode_last n et relax desc j)
    (\<lambda>e. top_vertex n (ix et) relax e \<and> (j, e) \<in> (up_edge (ix et))\<^sup>* \<and> j \<le> e)"
proof -
  let ?pa = "ix et"
  let ?I = "\<lambda>(i, p). j \<le> i \<and> i < n \<and> p = ?pa i \<and> (j, i) \<in> (up_edge ?pa)\<^sup>* \<and> (ndesc ?pa i < relax \<or> ndesc ?pa i = 0)"
  have up: "(i, ?pa i) \<in> up_edge ?pa \<and> i < ?pa i \<and> ?pa i \<le> n" if "0 \<le> i" "i < n" for i
    using ho that by (auto simp: heap_ordered_def up_edge_def)
  have loop: "returns (while_do
       (\<lambda>(j, parent). if parent \<noteq> n then do { d \<leftarrow> rd desc parent; Some (d < relax) } else Some False)
       (\<lambda>(j, parent). do { p \<leftarrow> rd et parent; Some (parent, p) }) (j, ?pa j))
     (\<lambda>(i, p). ?I (i, p) \<and> \<not> (p \<noteq> n \<and> ndesc ?pa p < relax))"
  proof (rule while_do_wp[where I = ?I and m = "\<lambda>(i, p). nat (n - i)"])
    show "?I (j, ?pa j)" using j leaf by simp
  next
    fix s assume I: "?I s"
    obtain i p where s: "s = (i, p)" by (cases s)
    from I s j have b: "0 \<le> i" "i < n" "p = ?pa i" by auto
    with up[of i] have p: "i < p" "p \<le> n" "(i, p) \<in> up_edge ?pa" by auto
    show "returns (case s of (j, parent) \<Rightarrow> if parent \<noteq> n then do { d \<leftarrow> rd desc parent; Some (d < relax) } else Some False)
      (\<lambda>b. if b then returns (case s of (j, parent) \<Rightarrow> do { p \<leftarrow> rd et parent; Some (parent, p) })
          (\<lambda>s'. ?I s' \<and> (case s' of (i, p) \<Rightarrow> nat (n - i)) < (case s of (i, p) \<Rightarrow> nat (n - i)))
        else case s of (i, p) \<Rightarrow> ?I (i, p) \<and> \<not> (p \<noteq> n \<and> ndesc ?pa p < relax))"
      using I b p len desc j unfolding s by (auto simp: wp inb_def intro: rtrancl_into_rtrancl)
  qed
  show ?thesis unfolding snode_last_def using j len
    by (auto simp: wp inb_def top_vertex_def intro!: returns_mono[OF loop])
qed

lemma next_leaf_wp:
  assumes len: "n < alen desc" and j: "0 \<le> j" "j \<le> n"
  shows "returns (next_leaf n desc j) (\<lambda>i. j \<le> i \<and> i \<le> n \<and> (i < n \<longrightarrow> ix desc i = 0) \<and>
    (\<forall>k. j \<le> k \<and> k < i \<longrightarrow> ix desc k \<noteq> 0))"
  unfolding next_leaf_def
proof (rule while_do_wp[where I = "\<lambda>i. j \<le> i \<and> i \<le> n \<and> (\<forall>k. j \<le> k \<and> k < i \<longrightarrow> ix desc k \<noteq> 0)"
    and m = "\<lambda>i. nat (n - i)"])
  fix s assume s: "j \<le> s \<and> s \<le> n \<and> (\<forall>k. j \<le> k \<and> k < s \<longrightarrow> ix desc k \<noteq> 0)"
  have "ix desc k \<noteq> 0" if "ix desc s \<noteq> 0" "j \<le> k" "k < s + 1" for k
    using s that by (cases "k = s") auto
  with s len j show "returns (do { d \<leftarrow> rd desc s; Some (d \<noteq> 0 \<and> s < n) })
      (\<lambda>b. if b then returns (Some (s + 1)) (\<lambda>s'. (j \<le> s' \<and> s' \<le> n \<and>
            (\<forall>k. j \<le> k \<and> k < s' \<longrightarrow> ix desc k \<noteq> 0)) \<and> nat (n - s') < nat (n - s))
         else j \<le> s \<and> s \<le> n \<and> (s < n \<longrightarrow> ix desc s = 0) \<and> (\<forall>k. j \<le> k \<and> k < s \<longrightarrow> ix desc k \<noteq> 0))"
    by (auto simp: wp inb_def)
qed (use j in auto)

text \<open>No relaxed supernode straddles the column \<open>j\<close>.\<close>

definition unstraddled :: "int \<Rightarrow> (int \<Rightarrow> int) \<Rightarrow> int \<Rightarrow> int \<Rightarrow> bool" where
  "unstraddled n pa relax j \<longleftrightarrow> (\<forall>s e. relaxed n pa relax s e \<longrightarrow> e < j \<or> j \<le> s)"

definition relax_done :: "int \<Rightarrow> (int \<Rightarrow> int) \<Rightarrow> int \<Rightarrow> int \<Rightarrow> int list \<Rightarrow> bool" where
  "relax_done n pa relax j re \<longleftrightarrow> (\<forall>s. 0 \<le> s \<and> s < n \<longrightarrow>
     (\<forall>e. s < j \<and> relaxed n pa relax s e \<longrightarrow> ix re s = e) \<and>
     ((\<forall>e. s < j \<longrightarrow> \<not> relaxed n pa relax s e) \<longrightarrow> ix re s = EMPTY))"

lemma relaxed_next:
  assumes nc: "noncrossing n pa" and ho: "heap_ordered n pa" "0 \<le> n"
    and top: "top_vertex n pa relax e" "(j, e) \<in> (up_edge pa)\<^sup>*"
    and un: "unstraddled n pa relax j"
  shows "relaxed n pa relax j e"
    and "relaxed n pa relax s e' \<Longrightarrow> e' < j \<or> (s = j \<and> e' = e) \<or> e < s"
proof -
  have e: "e \<in> {0..n}" using top by (auto simp: top_vertex_def)
  note iv = subtree_interval[OF nc ho]
  have je: "j \<le> e" "e - ndesc pa e \<le> j" using top(2) iv[OF e] by auto
  moreover have "relaxed n pa relax (e - ndesc pa e) e" using top by (simp add: relaxed_def)
  ultimately show r: "relaxed n pa relax j e" using un by (auto simp: unstraddled_def relaxed_def)
  assume s: "relaxed n pa relax s e'"
  then have e': "e' \<in> {0..n}" "top_vertex n pa relax e'" by (auto simp: relaxed_def top_vertex_def)
  show "e' < j \<or> (s = j \<and> e' = e) \<or> e < s"
  proof (rule ccontr)
    assume neg: "\<not> ?thesis"
    with s un have sj: "j \<le> s" "s \<le> e" by (auto simp: unstraddled_def)
    with je have "(s, e) \<in> (up_edge pa)\<^sup>*" unfolding iv[OF e] by simp
    moreover have "(s, e') \<in> (up_edge pa)\<^sup>*" using s unfolding iv[OF e'(1)] by (simp add: relaxed_def)
    ultimately have "e = e'" using top_unique[OF top(1) e'(2)] by blast
    with neg r s show False by (auto simp: relaxed_def)
  qed
qed

lemma relaxed_start:
  assumes "noncrossing n pa" "heap_ordered n pa" "0 \<le> n" and "relaxed n pa relax s e"
  shows "0 \<le> s" "s \<le> e" "e < n" "ndesc pa s = 0"
  using first_is_leaf[OF assms(1-3), of e] assms(4) ndesc_nonneg[of pa e]
  by (auto simp: relaxed_def top_vertex_def)

lemma relax_done_step:
  assumes nc: "noncrossing n pa" and ho: "heap_ordered n pa" "0 \<le> n"
    and top: "top_vertex n pa relax e" "(j, e) \<in> (up_edge pa)\<^sup>*" and j: "0 \<le> j" "j < n"
    and un: "unstraddled n pa relax j" and dn: "relax_done n pa relax j re" and re: "n \<le> alen re"
    and k: "e < k" "k \<le> n" "\<forall>i. e < i \<and> i < k \<longrightarrow> ndesc pa i \<noteq> 0"
  shows "unstraddled n pa relax k" and "relax_done n pa relax k (up re j e)"
proof -
  note rn = relaxed_next[OF nc ho top un]
  have rj: "relaxed n pa relax j e" by (rule rn(1))
  have je: "j \<le> e" using relaxed_start[OF nc ho rj] by simp
  with k(1) have jk: "j < k" by simp
  have next': "e' < j \<or> (s = j \<and> e' = e) \<or> k \<le> s" if "relaxed n pa relax s e'" for s e'
    using rn(2)[OF that] relaxed_start(4)[OF nc ho that] k(3) by (meson not_less)
  then have "e' < k \<or> k \<le> s" if "relaxed n pa relax s e'" for s e'
    using that k(1) je by fastforce
  then show "unstraddled n pa relax k" unfolding unstraddled_def by blast
  show "relax_done n pa relax k (up re j e)"
    unfolding relax_done_def
  proof (intro allI impI)
    fix s assume s: "0 \<le> s \<and> s < n"
    show "(\<forall>e'. s < k \<and> relaxed n pa relax s e' \<longrightarrow> ix (up re j e) s = e') \<and>
        ((\<forall>e'. s < k \<longrightarrow> \<not> relaxed n pa relax s e') \<longrightarrow> ix (up re j e) s = EMPTY)"
    proof (cases "s = j")
      case True
      have "e' = e" if "relaxed n pa relax j e'" for e'
        using next'[OF that] relaxed_start(2)[OF nc ho that] k(1) je by auto
      moreover have "ix (up re j e) j = e" using j re by (simp add: ix_up inb_def)
      ultimately show ?thesis unfolding True using rj jk by blast
    next
      case False
      have "s < j" if "relaxed n pa relax s e'" "s < k" for e'
        using next'[OF that(1)] relaxed_start(2)[OF nc ho that(1)] that(2) False by auto
      then show ?thesis using dn s False j re jk unfolding relax_done_def by (auto simp: ix_up inb_def)
    qed
  qed
qed

lemma relax_snode_wp:
  assumes ho: "heap_ordered n (ix et)" "0 \<le> n" and nc: "noncrossing n (ix et)"
    and len: "n \<le> alen et" "n < alen desc" "n \<le> alen re"
  shows "returns (relax_snode n et relax desc re) (\<lambda>(d, re').
    (\<forall>v\<in>{0..<n}. ix d v = ndesc (ix et) v) \<and>
    (\<forall>s\<in>{0..<n}. (\<forall>e. relaxed n (ix et) relax s e \<longrightarrow> ix re' s = e) \<and>
                   ((\<nexists>e. relaxed n (ix et) relax s e) \<longrightarrow> ix re' s = EMPTY)))"
proof -
  let ?pa = "ix et"
  let ?I = "\<lambda>d (j, r). 0 \<le> j \<and> j \<le> n \<and> alen r = alen re \<and> (j < n \<longrightarrow> ndesc ?pa j = 0) \<and>
    unstraddled n ?pa relax j \<and> relax_done n ?pa relax j r"
  have un0: "unstraddled n ?pa relax 0"
    using relaxed_start(1)[OF nc ho] by (auto simp: unstraddled_def)
  have leaf0: "ndesc ?pa 0 = 0" by (auto simp: ndesc_0)
  have loop: "returns (while_do (\<lambda>(j, relax_end). Some (j < n))
       (\<lambda>(snode_start, relax_end). do {
          j \<leftarrow> snode_last n et relax d snode_start;
          relax_end \<leftarrow> wr relax_end snode_start j;
          j \<leftarrow> next_leaf n d (j + 1);
          Some (j, relax_end) }) (0, r)) (\<lambda>(j, r). relax_done n ?pa relax n r)"
    if r: "alen r = alen re" "\<forall>v. ix r v = (if 0 \<le> v \<and> v < n then EMPTY else ix re v)"
      and d: "alen d = alen desc" "\<forall>v\<in>{0..<n}. ix d v = ndesc ?pa v" for r d
  proof (rule while_do_wp[where I = "?I d" and m = "\<lambda>(j, r). nat (n - j)"])
    show "?I d (0, r)" using un0 leaf0 ho(2) r by (auto simp: relax_done_def)
  next
    fix s assume I: "?I d s"
    obtain j r where s: "s = (j, r)" by (cases s)
    show "returns (case s of (j, r) \<Rightarrow> Some (j < n)) (\<lambda>b. if b then returns (case s of (snode_start, relax_end) \<Rightarrow> do {
          j \<leftarrow> snode_last n et relax d snode_start;
          relax_end \<leftarrow> wr relax_end snode_start j;
          j \<leftarrow> next_leaf n d (j + 1);
          Some (j, relax_end) }) (\<lambda>s'. ?I d s' \<and> (case s' of (j, r) \<Rightarrow> nat (n - j)) < (case s of (j, r) \<Rightarrow> nat (n - j)))
        else case s of (j, r) \<Rightarrow> relax_done n ?pa relax n r)"
    proof (cases "j < n")
      case True
      from I s True have I': "0 \<le> j" "alen r = alen re" "ndesc ?pa j = 0" "unstraddled n ?pa relax j"
        "relax_done n ?pa relax j r" by auto
      have "returns (do {
          j' \<leftarrow> snode_last n et relax d j;
          relax_end \<leftarrow> wr r j j';
          k \<leftarrow> next_leaf n d (j' + 1);
          Some (k, relax_end) }) (\<lambda>s'. ?I d s' \<and> (case s' of (j, r) \<Rightarrow> nat (n - j)) < nat (n - j))"
      proof (rule returns_bindI[OF snode_last_wp[OF ho(1) len(1) _ d(2) I'(1) True I'(3)]])
        show "n \<le> alen d" using d len by simp
        fix e assume e: "top_vertex n ?pa relax e \<and> (j, e) \<in> (up_edge ?pa)\<^sup>* \<and> j \<le> e"
        then have en: "0 \<le> e + 1" "e + 1 \<le> n" using I' by (auto simp: top_vertex_def)
        have dl: "n < alen d" using d len by simp
        have re: "n \<le> alen r" using I' len by simp
        have leaf: "ndesc ?pa i \<noteq> 0" if "\<forall>k. e + 1 \<le> k \<and> k < m \<longrightarrow> ix d k \<noteq> 0" "m \<le> n" "e < i" "i < m" for i m
          using that d(2) I'(1) e by (metis add1_zle_eq atLeastLessThan_iff order.strict_trans2 order.trans less_imp_le)
        show "returns (do { relax_end \<leftarrow> wr r j e; k \<leftarrow> next_leaf n d (e + 1); Some (k, relax_end) })
          (\<lambda>s'. ?I d s' \<and> (case s' of (j, r) \<Rightarrow> nat (n - j)) < nat (n - j))"
          using I' True re e en d leaf
          by (auto simp: wp inb_def intro!: returns_mono[OF next_leaf_wp[OF dl en]]
              relax_done_step[OF nc ho _ _ I'(1) True I'(4,5) re])
      qed
      with True show ?thesis unfolding s by simp
    next
      case False
      with I show ?thesis unfolding s by auto
    qed
  qed
  show ?thesis unfolding relax_snode_def
  proof (rule returns_bindI[OF ifill_wp[OF len(3)]])
    fix r assume r: "alen r = alen re \<and> (\<forall>v. ix r v = (if 0 \<le> v \<and> v < n then EMPTY else ix re v))"
    have l: "n \<le> alen desc" using len by simp
    show "returns (do {
       descendants \<leftarrow> count_descendants n et desc;
       (j, relax_end) \<leftarrow> while_do (\<lambda>(j, relax_end). Some (j < n))
         (\<lambda>(snode_start, relax_end). do {
            j \<leftarrow> snode_last n et relax descendants snode_start;
            relax_end \<leftarrow> wr relax_end snode_start j;
            j \<leftarrow> next_leaf n descendants (j + 1);
            Some (j, relax_end) }) (0, r);
       Some (descendants, relax_end) }) (\<lambda>(d, re').
      (\<forall>v\<in>{0..<n}. ix d v = ndesc (ix et) v) \<and>
      (\<forall>s\<in>{0..<n}. (\<forall>e. relaxed n (ix et) relax s e \<longrightarrow> ix re' s = e) \<and>
                   ((\<nexists>e. relaxed n (ix et) relax s e) \<longrightarrow> ix re' s = EMPTY)))"
    proof (rule returns_bindI[OF count_descendants_wp[OF ho(1) len(1) l ho(2)]], elim conjE)
      fix d assume d: "alen d = alen desc" "\<forall>v\<in>{0..<n}. ix d v = ndesc ?pa v"
      show "returns (do {
         (j, relax_end) \<leftarrow> while_do (\<lambda>(j, relax_end). Some (j < n))
           (\<lambda>(snode_start, relax_end). do {
              j \<leftarrow> snode_last n et relax d snode_start;
              relax_end \<leftarrow> wr relax_end snode_start j;
              j \<leftarrow> next_leaf n d (j + 1);
              Some (j, relax_end) }) (0, r);
         Some (d, relax_end) }) (\<lambda>(d, re').
        (\<forall>v\<in>{0..<n}. ix d v = ndesc (ix et) v) \<and>
        (\<forall>s\<in>{0..<n}. (\<forall>e. relaxed n (ix et) relax s e \<longrightarrow> ix re' s = e) \<and>
                   ((\<nexists>e. relaxed n (ix et) relax s e) \<longrightarrow> ix re' s = EMPTY)))"
        by (rule returns_bindI[OF loop]) (use r d in \<open>auto simp: relax_done_def\<close>)
    qed
  qed
qed

section \<open>An array of exactly n elements\<close>

lemma while_do_partial:
  assumes w: "while_do c b s = Some s'" and "I s" and "\<And>s t. I s \<Longrightarrow> c s = Some True \<Longrightarrow> b s = Some t \<Longrightarrow> I t"
  shows "I s' \<and> c s' = Some False"
proof -
  let ?Q = "\<lambda>c b s s'. I s \<longrightarrow> (\<forall>s t. I s \<longrightarrow> c s = Some True \<longrightarrow> b s = Some t \<longrightarrow> I t) \<longrightarrow> I s' \<and> c s' = Some False"
  have "?Q c b s s'"
  proof (rule while_do.raw_induct[where P = ?Q, OF _ w])
    fix while_do :: "('a \<Rightarrow> bool option) \<Rightarrow> ('a \<Rightarrow> 'a option) \<Rightarrow> 'a \<Rightarrow> 'a option" and c b s y
    assume IH: "\<And>c b s y. while_do c b s = Some y \<Longrightarrow> ?Q c b s y"
      and eq: "Option.bind (c s) (\<lambda>t. if t then Option.bind (b s) (while_do c b) else Some s) = Some y"
    show "?Q c b s y"
    proof (cases "c s = Some True")
      case True
      with eq obtain t where t: "b s = Some t" "while_do c b t = Some y" by (auto simp: bind_eq_Some_conv)
      show ?thesis using IH[OF t(2)] t(1) True by blast
    next
      case False
      with eq show ?thesis by (auto simp: bind_eq_Some_conv split: if_splits)
    qed
  qed
  then show ?thesis using assms(2,3) by blast
qed

lemma next_leaf_inside: "next_leaf n d j = Some j' \<Longrightarrow> j' < alen d"
  using while_do_partial[of "\<lambda>j. do { x \<leftarrow> rd d j; Some (x \<noteq> 0 \<and> j < n) }" "\<lambda>j. Some (j + 1)" j j' "\<lambda>_. True"]
  by (auto simp: next_leaf_def bind_eq_Some_conv rd_def inb_def split: if_splits)

lemma exact_array_fails:
  assumes ho: "heap_ordered n (ix et)" and n: "0 < n" and len: "n \<le> alen et" "alen desc = n"
  shows "relax_snode n et relax desc re = None"
proof (rule ccontr)
  assume "relax_snode n et relax desc re \<noteq> None"
  then obtain r d j r' where d: "count_descendants n et desc = Some d" and
    loop: "while_do (\<lambda>(j, relax_end). Some (j < n))
       (\<lambda>(snode_start, relax_end). do {
          j \<leftarrow> snode_last n et relax d snode_start;
          relax_end \<leftarrow> wr relax_end snode_start j;
          j \<leftarrow> next_leaf n d (j + 1);
          Some (j, relax_end) }) (0, r) = Some (j, r')"
    by (auto simp: relax_snode_def bind_eq_Some_conv)
  have "alen d = n" using count_descendants_wp[OF ho len(1)] d len(2) n by fastforce
  then have "j < n" using while_do_partial[OF loop, of "\<lambda>(j, _). j < n"] n next_leaf_inside
    by (fastforce simp: bind_eq_Some_conv)
  then show False using while_do_partial[OF loop, of "\<lambda>_. True"] by simp
qed

section \<open>Properties\<close>

text \<open>
  C34: On a postordered tree \<open>relax_snode\<close> records exactly the relaxed supernodes: \<open>relax_end s\<close> is
  \<open>e\<close> if the columns \<open>s..e\<close> are the subtree of \<open>e\<close> and \<open>e\<close> is the highest vertex of its chain
  with fewer than \<open>relax_columns\<close> descendants, and \<open>EMPTY\<close> if no supernode starts at \<open>s\<close>; and it
  counts the descendants of every column.
\<close>

theorem relax_snode_correct:
  assumes "heap_ordered n (ix et)" and "0 \<le> n" and "noncrossing n (ix et)"
    and "n \<le> alen et" and "n < alen desc" and "n \<le> alen re"
  shows "returns (relax_snode n et relax desc re) (\<lambda>(d, re').
    (\<forall>v\<in>{0..<n}. ix d v = ndesc (ix et) v) \<and>
    (\<forall>s\<in>{0..<n}. (\<forall>e. relaxed n (ix et) relax s e \<longrightarrow> ix re' s = e) \<and>
                   ((\<nexists>e. relaxed n (ix et) relax s e) \<longrightarrow> ix re' s = EMPTY)))"
  by (rule relax_snode_wp[OF assms])

theorem relax_snode_correct_witness:
  "returns (relax_snode 3 [1, 3, 3] 2 [0, 0, 0, 0] [0, 0, 0]) (\<lambda>(d, re'). ix d 1 = ndesc (ix [1, 3, 3]) 1)"
  by (rule returns_mono[OF relax_snode_correct[OF demo_noncrossing(1) _ demo_noncrossing(2)]]) (auto simp: alen_def)

text \<open>
  C38: The search for the next leaf reads \<open>descendants[j]\<close> before it compares \<open>j\<close> with \<open>n\<close>: with an array
  of exactly \<open>n\<close> elements, which is all the documentation asks for, \<open>relax_snode\<close> never returns normally on a
  tree that is not empty; with one more element, whatever it holds, it does, so the access that fails is
  the one to the element \<open>n\<close>.
\<close>

theorem relax_snode_reads_past_end:
  assumes "heap_ordered n (ix et)" and "0 < n" and "noncrossing n (ix et)"
    and "n \<le> alen et" and "alen desc = n" and "n \<le> alen re"
  shows "relax_snode n et relax desc re = None \<and> relax_snode n et relax (desc @ [x]) re \<noteq> None"
proof
  show "relax_snode n et relax desc re = None"
    using exact_array_fails[OF assms(1,2,4,5)] .
  show "relax_snode n et relax (desc @ [x]) re \<noteq> None"
    using relax_snode_wp[OF assms(1) _ assms(3,4) _ assms(6), of "desc @ [x]" relax] assms(2,5)
    by (auto simp: alen_def elim: returnsE)
qed

theorem relax_snode_reads_past_end_witness:
  "relax_snode 3 [1, 3, 3] 2 [0, 0, 0] [0, 0, 0] = None \<and> relax_snode 3 [1, 3, 3] 2 ([0, 0, 0] @ [7]) [0, 0, 0] \<noteq> None"
  by (rule relax_snode_reads_past_end[OF demo_noncrossing(1) _ demo_noncrossing(2)]) (simp_all add: alen_def)

end
