(* ===== verification/Preorder.thy ===== *)
theory Preorder
  imports EliminationTree
begin

text \<open>
  Column preordering (\<^verbatim>\<open>libsuperlu/sp_preorder.c\<close>): the column permutation is applied to the
  column pointers, the column elimination tree is computed and postordered, and matrix, tree and
  permutation are renumbered by the postorder. The structures are those of \<^verbatim>\<open>supermatrix.h\<close>.
\<close>

section \<open>The code\<close>

datatype Stype_t = SLU_NC | SLU_NR | SLU_SC | SLU_SR | SLU_NCP | SLU_DN
datatype Dtype_t = SLU_S | SLU_D | SLU_C | SLU_Z
datatype Mtype_t = SLU_GE | SLU_TRLU | SLU_TRUU | SLU_TRL | SLU_TRU | SLU_SYL | SLU_SYU | SLU_HEL | SLU_HEU

text \<open>\<open>Store\<close> is a \<open>void *\<close> in C; its type is a parameter here.\<close>

record 's SuperMatrix =
  Stype :: Stype_t
  Dtype :: Dtype_t
  Mtype :: Mtype_t
  nrow :: int
  ncol :: int
  Store :: 's

record 'v NCformat =
  nnz :: int
  nzval :: "'v list"
  rowind :: "int list"
  colptr :: "int list"

record 'v NCPformat =
  nnzP :: int
  nzvalP :: "'v list"
  rowindP :: "int list"
  colbeg :: "int list"
  colend :: "int list"

datatype fact_t = DOFACT | SamePattern | SamePattern_SameRowPerm | FACTORED
datatype yes_no_t = NO | YES

record superlu_options_t =
  Fact :: fact_t
  SymmetricMode :: yes_no_t

text \<open>\<open>for (i = 0; i < n; ++i) dst[p[i]] = src[i];\<close>\<close>

definition scatter :: "int \<Rightarrow> int list \<Rightarrow> 'a list \<Rightarrow> 'a list \<Rightarrow> 'a list option" where
  "scatter n p src dst = for_up 0 n (\<lambda>i d. do { x \<leftarrow> rd src i; q \<leftarrow> rd p i; wr d q x }) dst"

text \<open>\<open>for (i = 0; i < n; ++i) dst[i] = src[i];\<close>\<close>

definition copy_back :: "int \<Rightarrow> 'a list \<Rightarrow> 'a list \<Rightarrow> 'a list option" where
  "copy_back n src dst = for_up 0 n (\<lambda>i d. do { x \<leftarrow> rd src i; wr d i x }) dst"

definition permute_columns ::
  "int \<Rightarrow> int list \<Rightarrow> int list \<Rightarrow> int list \<Rightarrow> int list \<Rightarrow> (int list \<times> int list) option" where
  "permute_columns n perm_c cp cb ce = for_up 0 n (\<lambda>i (cb, ce). do {
     x \<leftarrow> rd cp i;
     q \<leftarrow> rd perm_c i;
     cb \<leftarrow> wr cb q x;
     y \<leftarrow> rd cp (i + 1);
     ce \<leftarrow> wr ce q y;
     Some (cb, ce) }) (cb, ce)"

definition renumber_etree :: "int \<Rightarrow> int list \<Rightarrow> int list \<Rightarrow> int list \<Rightarrow> int list option" where
  "renumber_etree n post etree iwork = for_up 0 n (\<lambda>i w. do {
     p \<leftarrow> rd etree i;
     x \<leftarrow> rd post p;
     q \<leftarrow> rd post i;
     wr w q x }) iwork"

text \<open>The product of \<open>perm_c\<close> and \<open>post\<close>.\<close>

definition compose_perm :: "int \<Rightarrow> int list \<Rightarrow> int list \<Rightarrow> int list \<Rightarrow> int list option" where
  "compose_perm n perm_c post iwork = for_up 0 n (\<lambda>i w. do {
     p \<leftarrow> rd perm_c i;
     x \<leftarrow> rd post p;
     wr w i x }) iwork"

text \<open>The block that postorders the tree, the columns of \<open>AC\<close> and the permutation.\<close>

definition apply_postorder :: "allocator \<Rightarrow> int \<Rightarrow> int list \<Rightarrow> int list \<Rightarrow> int list \<Rightarrow> int list \<Rightarrow>
    (int list \<times> int list \<times> int list \<times> int list) option" where
  "apply_postorder malloc n perm_c etree cb ce = do {
     post \<leftarrow> TreePostorder n etree;
     iwork \<leftarrow> malloc (n + 1);
     iwork \<leftarrow> renumber_etree n post etree iwork;
     etree \<leftarrow> copy_back n iwork etree;
     iwork \<leftarrow> scatter n post cb iwork;
     cb \<leftarrow> copy_back n iwork cb;
     iwork \<leftarrow> scatter n post ce iwork;
     ce \<leftarrow> copy_back n iwork ce;
     iwork \<leftarrow> compose_perm n perm_c post iwork;
     perm_c \<leftarrow> copy_back n iwork perm_c;
     Some (perm_c, etree, cb, ce) }"

definition sp_preorder :: "allocator \<Rightarrow> superlu_options_t \<Rightarrow> 'v NCformat SuperMatrix \<Rightarrow> int list \<Rightarrow>
    int list \<Rightarrow> (int list \<times> int list \<times> 'v NCPformat SuperMatrix) option" where
  "sp_preorder malloc options A perm_c etree = (let n = ncol A; Astore = Store A in do {
     cb \<leftarrow> malloc n;
     ce \<leftarrow> malloc n;
     (cb, ce) \<leftarrow> permute_columns n perm_c (colptr Astore) cb ce;
     (perm_c, etree, cb, ce) \<leftarrow>
       (if Fact options = DOFACT then do {
          etree \<leftarrow> sp_coletree cb ce (rowind Astore) (nrow A) (ncol A) etree;
          if SymmetricMode options = NO then apply_postorder malloc n perm_c etree cb ce
          else Some (perm_c, etree, cb, ce) }
        else Some (perm_c, etree, cb, ce));
     Some (perm_c, etree,
       \<lparr>Stype = SLU_NCP, Dtype = Dtype A, Mtype = Mtype A, nrow = nrow A, ncol = ncol A,
        Store = \<lparr>nnzP = nnz Astore, nzvalP = nzval Astore, rowindP = rowind Astore,
                 colbeg = cb, colend = ce\<rparr>\<rparr>) })"

text \<open>
  \<open>check_perm\<close>: \<open>Inl i\<close> is the \<open>ABORT\<close> at index \<open>i\<close>, \<open>Inr 0\<close> the normal return, and
  \<open>None\<close> an access outside \<open>marker\<close> or \<open>perm\<close>. The first operand of the test reads
  \<open>marker[perm[i]]\<close>, the second one compares \<open>perm[i]\<close> with \<open>n\<close>.
\<close>

fun check_perm_from :: "nat \<Rightarrow> int \<Rightarrow> int \<Rightarrow> int list \<Rightarrow> int list \<Rightarrow> (int + int) option" where
  "check_perm_from 0 i n perm marker = Some (Inr 0)"
| "check_perm_from (Suc k) i n perm marker = do {
     q \<leftarrow> rd perm i;
     m \<leftarrow> rd marker q;
     if m = 1 \<or> q \<ge> n then Some (Inl i)
     else do {
       marker \<leftarrow> wr marker q 1;
       check_perm_from k (i + 1) n perm marker } }"

definition check_perm :: "int \<Rightarrow> int list \<Rightarrow> (int + int) option" where
  "check_perm n perm = check_perm_from (nat n) 0 n perm (fill n 0)"

section \<open>The parts\<close>

lemma scatter_wp:
  assumes "n \<le> alen p" "n \<le> alen src" "0 \<le> n" and "inj_on (ix p) {0..<n}" and "\<And>i. i \<in> {0..<n} \<Longrightarrow> inb dst (ix p i)"
  shows "returns (scatter n p src dst) (scattered n (ix p) (ix src) dst)"
  unfolding scatter_def
proof (rule for_up_wp[where I = "\<lambda>i. scattered i (ix p) (ix src) dst"])
  fix i d assume i: "0 \<le> i" "i < n" and d: "scattered i (ix p) (ix src) dst d"
  have "inb dst (ix p i)" using assms(5) i by simp
  with scattered_step[OF d assms(4) i this] scattered_alen[OF d] assms(1,2) i
  show "returns (do { x \<leftarrow> rd src i; q \<leftarrow> rd p i; wr d q x }) (scattered (i + 1) (ix p) (ix src) dst)"
    by (simp add: wp inb_def)
qed (use assms(3) in \<open>simp_all add: max_def\<close>)

lemma copy_back_wp:
  assumes "n \<le> alen src" "n \<le> alen dst" "0 \<le> n"
  shows "returns (copy_back n src dst) (\<lambda>d. alen d = alen dst \<and> (\<forall>i\<in>{0..<n}. ix d i = ix src i))"
  unfolding copy_back_def
  by (rule for_up_wp[where I = "\<lambda>i d. alen d = alen dst \<and> (\<forall>j\<in>{0..<i}. ix d j = ix src j)"])
    (use assms in \<open>auto simp: wp inb_def ix_up max_def\<close>)

lemma permute_columns_wp:
  assumes "n \<le> alen p" "n + 1 \<le> alen cp" "0 \<le> n" and "inj_on (ix p) {0..<n}"
    and "\<And>i. i \<in> {0..<n} \<Longrightarrow> inb cb (ix p i) \<and> inb ce (ix p i)"
  shows "returns (permute_columns n p cp cb ce) (\<lambda>(cb', ce'). scattered n (ix p) (ix cp) cb cb' \<and>
    scattered n (ix p) (\<lambda>i. ix cp (i + 1)) ce ce')"
  unfolding permute_columns_def
proof (rule for_up_wp[where I = "\<lambda>i (cb', ce'). scattered i (ix p) (ix cp) cb cb' \<and>
    scattered i (ix p) (\<lambda>i. ix cp (i + 1)) ce ce'"])
  fix i s assume i: "0 \<le> i" "i < n"
    and s: "case s of (cb', ce') \<Rightarrow> scattered i (ix p) (ix cp) cb cb' \<and> scattered i (ix p) (\<lambda>i. ix cp (i + 1)) ce ce'"
  obtain b e where [simp]: "s = (b, e)" by (cases s)
  from s have d: "scattered i (ix p) (ix cp) cb b" "scattered i (ix p) (\<lambda>i. ix cp (i + 1)) ce e" by auto
  have ib: "inb cb (ix p i)" "inb ce (ix p i)" using assms(5) i by auto
  from scattered_step[OF d(1) assms(4) i ib(1)] scattered_step[OF d(2) assms(4) i ib(2)]
    scattered_alen[OF d(1)] scattered_alen[OF d(2)] ib assms(1,2) i
  show "returns (case s of (cb, ce) \<Rightarrow> do {
     x \<leftarrow> rd cp i; q \<leftarrow> rd p i; cb \<leftarrow> wr cb q x; y \<leftarrow> rd cp (i + 1); ce \<leftarrow> wr ce q y; Some (cb, ce) })
     (\<lambda>(cb', ce'). scattered (i + 1) (ix p) (ix cp) cb cb' \<and> scattered (i + 1) (ix p) (\<lambda>i. ix cp (i + 1)) ce ce')"
    by (simp add: wp inb_def)
qed (use assms(3) in \<open>auto simp: max_def\<close>)

lemma renumber_etree_wp:
  assumes "n \<le> alen post" "n \<le> alen et" "0 \<le> n" and "inj_on (ix post) {0..<n}"
    and "\<And>i. i \<in> {0..<n} \<Longrightarrow> inb w (ix post i) \<and> inb post (ix et i)"
  shows "returns (renumber_etree n post et w) (scattered n (ix post) (\<lambda>i. ix post (ix et i)) w)"
  unfolding renumber_etree_def
proof (rule for_up_wp[where I = "\<lambda>i. scattered i (ix post) (\<lambda>i. ix post (ix et i)) w"])
  fix i d assume i: "0 \<le> i" "i < n" and d: "scattered i (ix post) (\<lambda>i. ix post (ix et i)) w d"
  have ib: "inb w (ix post i)" "inb post (ix et i)" using assms(5) i by auto
  from scattered_step[OF d assms(4) i ib(1)] scattered_alen[OF d] ib assms(1,2) i
  show "returns (do { p \<leftarrow> rd et i; x \<leftarrow> rd post p; q \<leftarrow> rd post i; wr d q x })
     (scattered (i + 1) (ix post) (\<lambda>i. ix post (ix et i)) w)"
    by (simp add: wp inb_def)
qed (use assms(3) in \<open>simp_all add: max_def\<close>)

lemma compose_perm_wp:
  assumes "n \<le> alen p" "n \<le> alen w" "0 \<le> n" and "\<And>i. i \<in> {0..<n} \<Longrightarrow> inb post (ix p i)"
  shows "returns (compose_perm n p post w) (\<lambda>d. alen d = alen w \<and> (\<forall>i\<in>{0..<n}. ix d i = ix post (ix p i)))"
  unfolding compose_perm_def
  by (rule for_up_wp[where I = "\<lambda>i d. alen d = alen w \<and> (\<forall>j\<in>{0..<i}. ix d j = ix post (ix p j))"])
    (use assms in \<open>auto simp: wp inb_def ix_up max_def\<close>)

section \<open>Renumbering a tree and a matrix by a postorder\<close>

lemma is_post_topological:
  assumes "is_post n pa post" and "heap_ordered n pa" and "0 \<le> n"
  shows "topological n pa (ix post)"
  using is_post_bij[OF assms] is_post_parent[OF assms] by (simp add: topological_def)

lemma is_post_bij_below:
  assumes p: "is_post n pa post" and ho: "heap_ordered n pa" "0 \<le> n"
  shows "bij_betw (ix post) {0..<n} {0..<n}"
proof -
  note top = is_post_topological[OF p ho]
  have "inj_on (ix post) {0..n}" using is_post_bij[OF p ho] by (simp add: bij_betw_def)
  then have inj: "inj_on (ix post) {0..<n}" by (rule inj_on_subset) auto
  moreover have "ix post ` {0..<n} = {0..<n}"
    by (rule endo_inj_surj) (use inj topological_root(2)[OF top ho] in auto)
  ultimately show ?thesis by (simp add: bij_betw_def)
qed

lemma postorder_noncrossing:
  assumes p: "is_post n pa post" and ho: "heap_ordered n pa" "0 \<le> n"
    and pa': "\<forall>v\<in>{0..<n}. pa' (ix post v) = ix post (pa v)"
  shows "noncrossing n pa'"
  unfolding noncrossing_def
proof (intro ballI impI)
  note top = is_post_topological[OF p ho]
  fix u x assume ux: "u \<in> {0..<n}" "x \<in> {0..<n}" and lt: "u < x \<and> x < pa' u"
  obtain a b where ab: "a \<in> {0..<n}" "u = ix post a" "b \<in> {0..<n}" "x = ix post b"
    using ux is_post_bij_below[OF p ho] unfolding bij_betw_def by (metis imageE)
  have pa: "a < pa a" "pa a \<in> {0..n}" "b < pa b" using ho(1) ab by (force simp: heap_ordered_def)+
  have "(a, pa a) \<in> up_edge pa" "(b, pa b) \<in> up_edge pa" using ab pa by (auto simp: up_edge_def)
  note up = this
  let ?S = "set (postorder pa (pa a))"
  note iv = is_post_subtree[OF p ho(1) pa(2)]
  have "ix post a \<in> ix post ` ?S" using up(1) by (auto simp: postorder_iff)
  with iv lt ab pa' have "ix post b \<in> ix post ` ?S" by auto
  then obtain c where c: "c \<in> ?S" "ix post b = ix post c" by auto
  have cn: "c \<in> {0..n}" using postorder_bounds[OF c(1)] pa(2) by auto
  have inj: "inj_on (ix post) {0..n}" using is_post_bij[OF p ho] by (simp add: bij_betw_def)
  have "b = c" by (rule inj_onD[OF inj c(2)]) (use ab cn in auto)
  with c have "(b, pa a) \<in> (up_edge pa)\<^sup>*" by (simp add: postorder_iff)
  moreover have "b \<noteq> pa a" using lt ab pa' by auto
  ultimately obtain w where w: "(b, w) \<in> up_edge pa" "(w, pa a) \<in> (up_edge pa)\<^sup>*" by (auto elim: converse_rtranclE)
  then have "(pa b, pa a) \<in> (up_edge pa)\<^sup>*" by (auto simp: up_edge_def)
  then have "ix post (pa b) \<le> ix post (pa a)" using topological_le(1)[OF top] pa(2) by auto
  with ab pa' show "pa' x \<le> pa' u" by simp
qed

lemma ata_relabel:
  assumes f: "bij_betw f {0..<n} {0..<n}"
    and nz: "\<And>r j. j \<in> {0..<n} \<Longrightarrow> nz cb' ce' rows r (f j) = nz cb ce rows r j"
  shows "ata_edges cb' ce' rows n = relabel f (ata_edges cb ce rows n)"
proof -
  have inj: "f i = f j \<longleftrightarrow> i = j" if "i \<in> {0..<n}" "j \<in> {0..<n}" for i j
    using f that by (auto simp: bij_betw_def dest: inj_onD)
  have rng: "f i \<in> {0..<n}" if "i \<in> {0..<n}" for i using f that by (auto simp: bij_betw_def)
  show ?thesis
  proof (intro set_eqI iffI)
    fix e assume "e \<in> ata_edges cb' ce' rows n"
    then obtain i' j' r where e: "e = (i', j')" "0 \<le> i'" "i' < j'" "j' < n" "nz cb' ce' rows r i'" "nz cb' ce' rows r j'"
      by (auto simp: ata_edges_def)
    then have "i' \<in> f ` {0..<n}" "j' \<in> f ` {0..<n}" using f by (auto simp: bij_betw_def)
    then obtain i j where ij: "i \<in> {0..<n}" "j \<in> {0..<n}" "i' = f i" "j' = f j" by auto
    have sh: "nz cb ce rows r i" "nz cb ce rows r j" using e ij nz by auto
    show "e \<in> relabel f (ata_edges cb ce rows n)"
    proof (cases "i < j")
      case True
      then have "(i, j) \<in> ata_edges cb ce rows n" using ij sh by (auto simp: ata_edges_def)
      moreover have "e = (min (f i) (f j), max (f i) (f j))" using e ij by simp
      ultimately show ?thesis unfolding relabel_def by blast
    next
      case False
      with e ij have "j < i" by (cases "i = j") auto
      then have "(j, i) \<in> ata_edges cb ce rows n" using ij sh by (auto simp: ata_edges_def)
      moreover have "e = (min (f j) (f i), max (f j) (f i))" using e ij by simp
      ultimately show ?thesis unfolding relabel_def by blast
    qed
  next
    fix e assume "e \<in> relabel f (ata_edges cb ce rows n)"
    then obtain i j r where e: "e = (min (f i) (f j), max (f i) (f j))" "0 \<le> i" "i < j" "j < n"
      "nz cb ce rows r i" "nz cb ce rows r j" by (auto simp: relabel_def ata_edges_def)
    then have ij: "i \<in> {0..<n}" "j \<in> {0..<n}" by auto
    with inj[OF ij] e rng nz have "f i \<noteq> f j" "nz cb' ce' rows r (f i)" "nz cb' ce' rows r (f j)" by auto
    with rng[OF ij(1)] rng[OF ij(2)] show "e \<in> ata_edges cb' ce' rows n"
      unfolding e(1) ata_edges_def by (auto simp: min_def max_def)
  qed
qed

section \<open>\<open>sp_preorder\<close>\<close>

definition perm_ok :: "int \<Rightarrow> int list \<Rightarrow> bool" where
  "perm_ok n p \<longleftrightarrow> n \<le> alen p \<and> bij_betw (ix p) {0..<n} {0..<n}"

definition nc_ok :: "'v NCformat SuperMatrix \<Rightarrow> bool" where
  "nc_ok A \<longleftrightarrow> 0 \<le> nrow A \<and> 0 \<le> ncol A \<and> ncol A + 1 \<le> alen (colptr (Store A)) \<and>
     (\<forall>c\<in>{0..<ncol A}. \<forall>p\<in>{ix (colptr (Store A)) c..<ix (colptr (Store A)) (c + 1)}.
        inb (rowind (Store A)) p \<and> 0 \<le> ix (rowind (Store A)) p \<and> ix (rowind (Store A)) p < nrow A)"

text \<open>Column \<open>i\<close> of \<open>A\<close> is column \<open>p i\<close> of the matrix with the column bounds \<open>cb\<close>, \<open>ce\<close>.\<close>

definition column_at :: "'v NCformat SuperMatrix \<Rightarrow> int list \<Rightarrow> int list \<Rightarrow> int list \<Rightarrow> bool" where
  "column_at A p cb ce \<longleftrightarrow> alen cb = ncol A \<and> alen ce = ncol A \<and>
     (\<forall>i\<in>{0..<ncol A}. ix cb (ix p i) = ix (colptr (Store A)) i \<and> ix ce (ix p i) = ix (colptr (Store A)) (i + 1))"

lemma column_at_matrix_ok:
  assumes "nc_ok A" and "perm_ok (ncol A) p" and "column_at A p cb ce"
  shows "matrix_ok cb ce (rowind (Store A)) (nrow A) (ncol A)"
proof -
  have "\<exists>i\<in>{0..<ncol A}. c = ix p i" if "c \<in> {0..<ncol A}" for c
    using that assms(2) by (auto simp: perm_ok_def bij_betw_def)
  note pre = this
  have "\<forall>c\<in>{0..<ncol A}. \<forall>q\<in>{ix cb c..<ix ce c}.
      inb (rowind (Store A)) q \<and> 0 \<le> ix (rowind (Store A)) q \<and> ix (rowind (Store A)) q < nrow A"
  proof
    fix c assume "c \<in> {0..<ncol A}"
    with pre obtain i where i: "i \<in> {0..<ncol A}" "c = ix p i" by blast
    then have "ix cb c = ix (colptr (Store A)) i" "ix ce c = ix (colptr (Store A)) (i + 1)"
      using assms(3) by (auto simp: column_at_def)
    moreover from assms(1) have "\<forall>c\<in>{0..<ncol A}. \<forall>p\<in>{ix (colptr (Store A)) c..<ix (colptr (Store A)) (c + 1)}.
        inb (rowind (Store A)) p \<and> 0 \<le> ix (rowind (Store A)) p \<and> ix (rowind (Store A)) p < nrow A"
      by (simp add: nc_ok_def)
    ultimately show "\<forall>q\<in>{ix cb c..<ix ce c}.
      inb (rowind (Store A)) q \<and> 0 \<le> ix (rowind (Store A)) q \<and> ix (rowind (Store A)) q < nrow A"
      using i(1) by metis
  qed
  with assms(1,3) show ?thesis by (simp add: matrix_ok_def cols_ok_def nc_ok_def column_at_def)
qed

lemma permute_columns_at:
  assumes A: "nc_ok A" and p: "perm_ok (ncol A) p" and len: "alen cb = ncol A" "alen ce = ncol A"
  shows "returns (permute_columns (ncol A) p (colptr (Store A)) cb ce) (\<lambda>(cb, ce). column_at A p cb ce)"
proof (rule returns_mono[OF permute_columns_wp])
  show "inj_on (ix p) {0..<ncol A}" using p by (simp add: perm_ok_def bij_betw_def)
  show "inb cb (ix p i) \<and> inb ce (ix p i)" if "i \<in> {0..<ncol A}" for i
    using that p len by (auto simp: perm_ok_def bij_betw_def inb_def)
qed (use A p len in \<open>auto simp: nc_ok_def perm_ok_def column_at_def scattered_def\<close>)

text \<open>The postordering of the tree, of the columns and of the permutation.\<close>

lemma postordering:
  assumes A: "nc_ok A" and p: "perm_ok (ncol A) p" and at: "column_at A p cb ce"
    and T: "etree_of (ata_edges cb ce (rowind (Store A)) (ncol A)) (ncol A) (ix et)"
    and post: "is_post (ncol A) (ix et) post"
    and et': "\<forall>i\<in>{0..<ncol A}. ix et' (ix post i) = ix post (ix et i)"
    and cb': "alen cb' = ncol A" "\<forall>i\<in>{0..<ncol A}. ix cb' (ix post i) = ix cb i"
    and ce': "alen ce' = ncol A" "\<forall>i\<in>{0..<ncol A}. ix ce' (ix post i) = ix ce i"
    and p': "ncol A \<le> alen p'" "\<forall>i\<in>{0..<ncol A}. ix p' i = ix post (ix p i)"
  shows "perm_ok (ncol A) p' \<and> column_at A p' cb' ce' \<and>
    etree_of (ata_edges cb' ce' (rowind (Store A)) (ncol A)) (ncol A) (ix et') \<and> noncrossing (ncol A) (ix et')"
proof (intro conjI)
  let ?n = "ncol A"
  have n: "0 \<le> ?n" using A by (simp add: nc_ok_def)
  note ho = etree_of_heap_ordered[OF T]
  note bij = is_post_bij_below[OF post ho n]
  have pr: "ix p i \<in> {0..<?n}" if "i \<in> {0..<?n}" for i using that p by (auto simp: perm_ok_def bij_betw_def)
  have "bij_betw (ix post \<circ> ix p) {0..<?n} {0..<?n}"
    using p bij by (auto simp: perm_ok_def intro: bij_betw_trans)
  then have "bij_betw (ix p') {0..<?n} {0..<?n}" by (subst bij_betw_cong[where g = "ix post \<circ> ix p"]) (use p' in auto)
  with p'(1) show "perm_ok ?n p'" by (simp add: perm_ok_def)
  show "column_at A p' cb' ce'"
    unfolding column_at_def
  proof (intro conjI ballI)
    fix i assume i: "i \<in> {0..<?n}"
    have at': "ix cb (ix p i) = ix (colptr (Store A)) i" "ix ce (ix p i) = ix (colptr (Store A)) (i + 1)"
      using at i by (auto simp: column_at_def)
    note eqs = bspec[OF p'(2) i] bspec[OF cb'(2) pr[OF i]] bspec[OF ce'(2) pr[OF i]] at'
    show "ix cb' (ix p' i) = ix (colptr (Store A)) i" by (simp only: eqs)
    show "ix ce' (ix p' i) = ix (colptr (Store A)) (i + 1)" by (simp only: eqs)
  qed (use cb' ce' in auto)
  have nz: "nz cb' ce' (rowind (Store A)) r (ix post j) = nz cb ce (rowind (Store A)) r j" if "j \<in> {0..<?n}" for r j
    using that cb'(2) ce'(2) by (simp add: nz_def)
  have eq: "ata_edges cb' ce' (rowind (Store A)) ?n = relabel (ix post) (ata_edges cb ce (rowind (Store A)) ?n)"
    by (rule ata_relabel[OF bij nz])
  show "etree_of (ata_edges cb' ce' (rowind (Store A)) ?n) ?n (ix et')"
    unfolding etree_of_def
  proof
    fix u assume "u \<in> {0..<?n}"
    then obtain v where v: "v \<in> {0..<?n}" "u = ix post v" using bij unfolding bij_betw_def by (metis imageE)
    have "is_parent (relabel (ix post) (ata_edges cb ce (rowind (Store A)) ?n)) ?n (ix post v) (ix post (ix et v))"
      by (rule etree_relabel[OF T is_post_topological[OF post ho n] n _ v(1)]) (auto simp: ata_edges_def)
    then show "is_parent (ata_edges cb' ce' (rowind (Store A)) ?n) ?n u (ix et' u)"
      using et' v unfolding eq by simp
  qed
  show "noncrossing ?n (ix et')" by (rule postorder_noncrossing[OF post ho n et'])
qed

definition preordered :: "superlu_options_t \<Rightarrow> 'v NCformat SuperMatrix \<Rightarrow> int list \<Rightarrow> int list \<Rightarrow>
    int list \<times> int list \<times> 'v NCPformat SuperMatrix \<Rightarrow> bool" where
  "preordered options A perm etree = (\<lambda>(perm', etree', AC).
     (let n = ncol A; T = ata_edges (colbeg (Store AC)) (colend (Store AC)) (rowindP (Store AC)) n in
       Stype AC = SLU_NCP \<and> nrow AC = nrow A \<and> ncol AC = n \<and>
       nzvalP (Store AC) = nzval (Store A) \<and> rowindP (Store AC) = rowind (Store A) \<and>
       perm_ok n perm' \<and> column_at A perm' (colbeg (Store AC)) (colend (Store AC)) \<and>
       (if Fact options = DOFACT
        then etree_of T n (ix etree') \<and>
          (if SymmetricMode options = NO then noncrossing n (ix etree') else perm' = perm)
        else perm' = perm \<and> etree' = etree)))"

lemma scattered_copy:
  "scattered n p g d w \<Longrightarrow> \<forall>i\<in>{0..<n}. ix c i = ix w i \<Longrightarrow> \<forall>i\<in>{0..<n}. p i \<in> {0..<n} \<Longrightarrow>
   \<forall>i\<in>{0..<n}. ix c (p i) = g i"
  by (simp add: scattered_def)

lemma apply_postorder_wp:
  assumes m: "malloc_ok malloc" and A: "nc_ok A" and p: "perm_ok (ncol A) perm" and len: "ncol A \<le> alen et"
    and at: "column_at A perm cb ce"
    and T: "etree_of (ata_edges cb ce (rowind (Store A)) (ncol A)) (ncol A) (ix et)"
  shows "returns (apply_postorder malloc (ncol A) perm et cb ce) (\<lambda>(perm', et', cb', ce').
    perm_ok (ncol A) perm' \<and> column_at A perm' cb' ce' \<and>
    etree_of (ata_edges cb' ce' (rowind (Store A)) (ncol A)) (ncol A) (ix et') \<and> noncrossing (ncol A) (ix et'))"
  unfolding apply_postorder_def
proof (rule returns_bindI[OF TreePostorder_is_post])
  let ?n = "ncol A"
  show n: "0 \<le> ?n" using A by (simp add: nc_ok_def)
  show ho: "heap_ordered ?n (ix et)" by (rule etree_of_heap_ordered[OF T])
  show "?n \<le> alen et" by (rule len)
  have cl: "alen cb = ?n" "alen ce = ?n" "?n \<le> alen perm" using at p by (auto simp: column_at_def perm_ok_def)
  fix post assume post: "is_post ?n (ix et) post"
  note bij = is_post_bij_below[OF post ho n]
  have inj: "inj_on (ix post) {0..<?n}" using bij by (simp add: bij_betw_def)
  have pl: "alen post = ?n + 1" using post by (simp add: is_post_def)
  have rng: "ix post i \<in> {0..<?n}" if "i \<in> {0..<?n}" for i using bij that by (auto simp: bij_betw_def)
  have ibw: "inb (w :: int list) (ix post i)" if "i \<in> {0..<?n}" "alen w = ?n + 1" for i w
    using rng[OF that(1)] that(2) by (simp add: inb_def)
  have ibp: "inb post (ix et i)" if "i \<in> {0..<?n}" for i
    using ho that pl by (force simp: heap_ordered_def inb_def)
  have "ix perm i \<in> {0..<?n}" if "i \<in> {0..<?n}" for i using p that by (auto simp: perm_ok_def bij_betw_def)
  then have ibq: "inb post (ix perm i)" if "i \<in> {0..<?n}" for i
    using that pl by (fastforce simp: inb_def)
  have n1: "0 \<le> ?n + 1" using n by simp
  have pn: "?n \<le> alen post" using pl by simp
  have rng': "\<forall>i\<in>{0..<?n}. ix post i \<in> {0..<?n}" using rng by blast
  note res = postordering[OF A p at T post]
  show "returns (do {
            iwork \<leftarrow> malloc (?n + 1);
            iwork \<leftarrow> renumber_etree ?n post et iwork;
            etree \<leftarrow> copy_back ?n iwork et;
            iwork \<leftarrow> scatter ?n post cb iwork;
            cb \<leftarrow> copy_back ?n iwork cb;
            iwork \<leftarrow> scatter ?n post ce iwork;
            ce \<leftarrow> copy_back ?n iwork ce;
            iwork \<leftarrow> compose_perm ?n perm post iwork;
            perm_c \<leftarrow> copy_back ?n iwork perm;
            Some (perm_c, etree, cb, ce) })
      (\<lambda>(perm', etree', cb', ce'). perm_ok ?n perm' \<and> column_at A perm' cb' ce' \<and>
         etree_of (ata_edges cb' ce' (rowind (Store A)) ?n) ?n (ix etree') \<and> noncrossing ?n (ix etree'))"
    apply (rule returns_bindI[OF malloc_okD[OF m n1]])
    apply (rule returns_bindI[OF renumber_etree_wp[OF pn len n inj]], simp add: ibw ibp)
    apply (rule returns_bindI[OF copy_back_wp[OF _ len n]], simp add: scattered_alen)
    apply (rule returns_bindI[OF scatter_wp[OF pn _ n inj]], simp add: cl, simp add: ibw scattered_alen)
    apply (rule returns_bindI[OF copy_back_wp[OF _ _ n]], simp add: scattered_alen, simp add: cl)
    apply (rule returns_bindI[OF scatter_wp[OF pn _ n inj]], simp add: cl, simp add: ibw scattered_alen)
    apply (rule returns_bindI[OF copy_back_wp[OF _ _ n]], simp add: scattered_alen, simp add: cl)
    apply (rule returns_bindI[OF compose_perm_wp[OF cl(3) _ n]], simp add: scattered_alen, simp add: ibq)
    apply (rule returns_bindI[OF copy_back_wp[OF _ cl(3) n]], simp add: scattered_alen)
    apply (simp add: wp)
    apply (elim conjE, rule res)
         apply ((erule (1) scattered_copy[OF _ _ rng'] | simp add: cl)+)
    done
qed

lemma preorder_dofact:
  assumes m: "malloc_ok malloc" and A: "nc_ok A" and p: "perm_ok (ncol A) perm" and et: "ncol A \<le> alen etree"
    and at: "column_at A perm cb ce"
  shows "returns (do {
          etree \<leftarrow> sp_coletree cb ce (rowind (Store A)) (nrow A) (ncol A) etree;
          if SymmetricMode options = NO then apply_postorder malloc (ncol A) perm etree cb ce
          else Some (perm, etree, cb, ce) })
    (\<lambda>(perm', etree', cb', ce'). perm_ok (ncol A) perm' \<and> column_at A perm' cb' ce' \<and>
       etree_of (ata_edges cb' ce' (rowind (Store A)) (ncol A)) (ncol A) (ix etree') \<and>
       (if SymmetricMode options = NO then noncrossing (ncol A) (ix etree') else perm' = perm))"
proof (rule returns_bindI[OF sp_coletree_wp[OF column_at_matrix_ok[OF A p at] et]], elim conjE)
  fix et assume len: "ncol A \<le> alen et"
    and "\<forall>v\<in>{0..<ncol A}. is_parent (ata_edges cb ce (rowind (Store A)) (ncol A)) (ncol A) v (ix et v)"
  then have T: "etree_of (ata_edges cb ce (rowind (Store A)) (ncol A)) (ncol A) (ix et)" by (simp add: etree_of_def)
  with apply_postorder_wp[OF m A p len at T] p at
  show "returns (if SymmetricMode options = NO then apply_postorder malloc (ncol A) perm et cb ce
          else Some (perm, et, cb, ce))
    (\<lambda>(perm', etree', cb', ce'). perm_ok (ncol A) perm' \<and> column_at A perm' cb' ce' \<and>
       etree_of (ata_edges cb' ce' (rowind (Store A)) (ncol A)) (ncol A) (ix etree') \<and>
       (if SymmetricMode options = NO then noncrossing (ncol A) (ix etree') else perm' = perm))"
    by (cases "SymmetricMode options = NO") auto
qed

lemma sp_preorder_wp:
  assumes m: "malloc_ok malloc" and A: "nc_ok A" and p: "perm_ok (ncol A) perm" and et: "ncol A \<le> alen etree"
  shows "returns (sp_preorder malloc options A perm etree) (preordered options A perm etree)"
proof -
  let ?n = "ncol A"
  have n: "0 \<le> ?n" using A by (simp add: nc_ok_def)
  show ?thesis
    unfolding sp_preorder_def Let_def
    apply (rule returns_bindI[OF malloc_okD[OF m n]])
    apply (rule returns_bindI[OF malloc_okD[OF m n]])
    apply (rule returns_bindI[OF permute_columns_at[OF A p]], assumption, assumption)
    apply (split prod.splits, intro allI impI)
    apply (rule returns_bindI[where P = "\<lambda>(perm', etree', cb', ce'). preordered options A perm etree
      (perm', etree', \<lparr>Stype = SLU_NCP, Dtype = Dtype A, Mtype = Mtype A, nrow = nrow A, ncol = ncol A,
        Store = \<lparr>nnzP = nnz (Store A), nzvalP = nzval (Store A), rowindP = rowind (Store A),
                 colbeg = cb', colend = ce'\<rparr>\<rparr>)"])
    subgoal for b c s cb ce
      using preorder_dofact[OF m A p et, of cb ce options] p
      by (cases "Fact options = DOFACT")
        (auto simp: preordered_def Let_def elim!: returns_mono)
    apply (auto simp: wp)
    done
qed

section \<open>\<open>check_perm\<close>\<close>

lemma check_perm_from_wp:
  assumes "i + int k = n" and "0 \<le> i" and "n \<le> alen perm" and len: "alen marker = n"
    and vals: "\<forall>j\<in>{0..<n}. 0 \<le> ix perm j \<and> ix perm j < n"
    and mk: "\<forall>q\<in>{0..<n}. ix marker q = (if q \<in> ix perm ` {0..<i} then 1 else 0)"
    and inj: "inj_on (ix perm) {0..<i}"
  shows "returns (check_perm_from k i n perm marker) (\<lambda>r. case r of
      Inl j \<Rightarrow> i \<le> j \<and> j < n \<and> inj_on (ix perm) {0..<j} \<and> \<not> inj_on (ix perm) {0..<j + 1}
    | Inr c \<Rightarrow> c = 0 \<and> inj_on (ix perm) {0..<n})"
  using assms
proof (induction k arbitrary: i marker)
  case (Suc k)
  then have i: "0 \<le> i" "i < n" by auto
  with Suc.prems have v: "0 \<le> ix perm i" "ix perm i < n" by auto
  have ins: "{0..<i + 1} = insert i {0..<i}" using i by auto
  have dup: "inj_on (ix perm) {0..<i + 1} \<longleftrightarrow> ix perm i \<notin> ix perm ` {0..<i}"
    using Suc.prems(7) unfolding ins by (simp add: inj_on_insert)
  show ?case
  proof (cases "ix perm i \<in> ix perm ` {0..<i}")
    case True
    with Suc.prems i v dup show ?thesis by (auto simp: wp inb_def)
  next
    case False
    have "returns (check_perm_from k (i + 1) n perm (up marker (ix perm i) 1)) (\<lambda>r. case r of
        Inl j \<Rightarrow> i + 1 \<le> j \<and> j < n \<and> inj_on (ix perm) {0..<j} \<and> \<not> inj_on (ix perm) {0..<j + 1}
      | Inr c \<Rightarrow> c = 0 \<and> inj_on (ix perm) {0..<n})"
    proof (rule Suc.IH)
      show "\<forall>q\<in>{0..<n}. ix (up marker (ix perm i) 1) q = (if q \<in> ix perm ` {0..<i + 1} then 1 else 0)"
        using Suc.prems v unfolding ins by (simp add: ix_up inb_def)
    qed (use Suc.prems i False dup in auto)
    moreover have "ix marker (ix perm i) = 0" using Suc.prems(6) v False by simp
    ultimately show ?thesis using Suc.prems(3,4) i v
      by (auto simp: wp inb_def elim!: returns_mono split: sum.splits)
  qed
qed (use assms in \<open>auto\<close>)

lemma check_perm_wp:
  assumes "0 \<le> n" and "n \<le> alen perm" and "\<forall>j\<in>{0..<n}. 0 \<le> ix perm j \<and> ix perm j < n"
  shows "returns (check_perm n perm) (\<lambda>r. case r of
      Inl j \<Rightarrow> 0 \<le> j \<and> j < n \<and> inj_on (ix perm) {0..<j} \<and> \<not> inj_on (ix perm) {0..<j + 1}
    | Inr c \<Rightarrow> c = 0 \<and> inj_on (ix perm) {0..<n})"
  unfolding check_perm_def by (rule check_perm_from_wp) (use assms in auto)

section \<open>Properties\<close>

text \<open>
  C31: \<open>sp_preorder\<close> returns the columns of \<open>A\<close> in the order of the final permutation, which is a
  permutation; for a first factorization the tree is the column elimination tree of the permuted
  matrix, and unless the symmetric mode is on it is numbered in postorder, so that every subtree is
  an interval of columns. Otherwise tree and permutation are as they were.
\<close>

theorem sp_preorder_correct:
  assumes "malloc_ok malloc" and "nc_ok A" and "perm_ok (ncol A) perm" and "ncol A \<le> alen etree"
  shows "returns (sp_preorder malloc options A perm etree) (preordered options A perm etree)"
  by (rule sp_preorder_wp[OF assms])

definition demo_matrix :: "int NCformat SuperMatrix" where
  "demo_matrix = \<lparr>Stype = SLU_NC, Dtype = SLU_D, Mtype = SLU_GE, nrow = 1, ncol = 2,
     Store = \<lparr>nnz = 2, nzval = [5, 7], rowind = [0, 0], colptr = [0, 1, 2]\<rparr>\<rparr>"

lemma demo_nc: "nc_ok demo_matrix" "perm_ok (ncol demo_matrix) [1, 0]"
proof -
  have r: "{0..<2} = {0, 1 :: int}" "{0..<1} = {0 :: int}" "{1..<2} = {1 :: int}" by auto
  then show "nc_ok demo_matrix" by (simp add: nc_ok_def demo_matrix_def alen_def inb_def ix_def)
  show "perm_ok (ncol demo_matrix) [1, 0]"
    by (auto simp: perm_ok_def demo_matrix_def alen_def bij_betw_def inj_on_def ix_def r)
qed

theorem sp_preorder_correct_witness:
  "returns (sp_preorder (\<lambda>n. Some (fill n 0)) \<lparr>Fact = DOFACT, SymmetricMode = NO\<rparr> demo_matrix [1, 0] [0, 0])
     (\<lambda>(perm', etree', AC). perm_ok 2 perm')"
  by (rule returns_mono[OF sp_preorder_correct[OF malloc_ok_fill demo_nc]])
    (auto simp: preordered_def Let_def demo_matrix_def alen_def)

text \<open>
  For values in range, \<open>check_perm\<close> returns normally exactly if the array is injective, and
  otherwise stops at the first repeated value.
\<close>

theorem check_perm_correct:
  assumes "0 \<le> n" and "n \<le> alen perm" and "\<forall>j\<in>{0..<n}. 0 \<le> ix perm j \<and> ix perm j < n"
  shows "returns (check_perm n perm) (\<lambda>r. case r of
      Inl j \<Rightarrow> 0 \<le> j \<and> j < n \<and> inj_on (ix perm) {0..<j} \<and> \<not> inj_on (ix perm) {0..<j + 1}
    | Inr c \<Rightarrow> c = 0 \<and> inj_on (ix perm) {0..<n})"
  by (rule check_perm_wp[OF assms])

theorem check_perm_correct_witness: "returns (check_perm 2 [1, 1]) (\<lambda>r. \<exists>j. r = Inl j)"
proof -
  have r: "{0..<2} = {0, 1 :: int}" by auto
  have "\<not> inj_on (ix [1, 1 :: int]) {0..<2}" unfolding r by (auto simp: inj_on_def ix_def)
  then show ?thesis using check_perm_correct[of 2 "[1, 1]"]
    by (auto simp: alen_def r ix_def elim!: returns_mono split: sum.splits)
qed

text \<open>
  A value that is too large is never reported: the test reads \<open>marker\<close> at that value before it
  compares the value with \<open>n\<close>.
\<close>

theorem check_perm_reads_past_end:
  assumes "0 < n" and "0 < alen perm" and "n \<le> ix perm 0"
  shows "check_perm n perm = None"
proof -
  obtain k where k: "nat n = Suc k" using assms(1) by (cases "nat n") auto
  have "rd perm 0 = Some (ix perm 0)" "rd (fill n (0 :: int)) (ix perm 0) = None"
    using assms by (auto simp: inb_def rd_def)
  then show ?thesis unfolding check_perm_def k by simp
qed

theorem check_perm_reads_past_end_witness: "check_perm 2 [2, 0] = None"
  by (rule check_perm_reads_past_end) (simp_all add: alen_def ix_def)

end
