(* ===== verification/Spec2Isabelle.thy ===== *)
theory Spec2Isabelle
  imports Prelude MSICache MESICache MOESICache BIPMOESICache EventQueue TestMemory CacheSystem SnoopyBus MemNetwork
    Directory DirectoryProps BIPDirectory BIPDirectoryProps OriginClaims TimeQueueProps SyncBarrier SyncFlag NewTest Coletree Postorder EliminationTree RelaxSnode Preorder
begin

text \<open>
  A verification library for the SESC multiprocessor simulator.

  \<^bold>\<open>The program.\<close> The repository holds a simulator and what runs on it. \<^verbatim>\<open>src/src/MemSys\<close> is an
  event-driven memory hierarchy: caches and directories exchange messages through an event
  manager. \<^verbatim>\<open>src/src/libapp\<close> is the library that simulated programs link (threads, locks,
  barriers, flags) with small workloads. \<^verbatim>\<open>src/src/libsuperlu\<close> is the sparse solver of the thermal
  model; its symbolic phase permutes columns, builds elimination trees and finds supernodes.

  \<^bold>\<open>Parts of the development.\<close>
  \<^item> \<^verbatim>\<open>Prelude\<close>: arrays of C with checked access (\<open>rd\<close>, \<open>wr\<close>), counted and conditional
    loops, and \<open>returns m P\<close>: the computation \<open>m\<close> ends normally, with a result that satisfies
    \<open>P\<close>. A failed assertion, an access outside an array and a loop that does not end are all
    \<open>None\<close>, so every theorem about \<open>returns\<close> is one of total correctness.
  \<^item> \<^verbatim>\<open>MemMessages\<close>: the messages, the event manager and the calls a device defers; the locale
    \<open>device\<close> turns an invariant of the handlers into facts about all reachable states.
  \<^item> \<^verbatim>\<open>Cache\<close>, \<^verbatim>\<open>CacheInv\<close>, \<^verbatim>\<open>CacheSafe\<close>, \<^verbatim>\<open>CacheProps\<close>: the caches of \<^verbatim>\<open>MemSys/Devices\<close> handler
    by handler. The four classes share their text up to the states of a block; a record \<open>protocol\<close>
    collects what differs. The locale \<open>coherence\<close> states the laws of a protocol under which every
    handler keeps the invariant \<open>cache_ok\<close> and never fails, and what the handlers answer.
  \<^item> \<^verbatim>\<open>MSICache\<close>, \<^verbatim>\<open>MESICache\<close>, \<^verbatim>\<open>MOESICache\<close>, \<^verbatim>\<open>BIPMOESICache\<close>: the four classes, each an
    interpretation of \<open>coherence\<close>, with their properties; \<^verbatim>\<open>MSICache\<close> also shows three defects by
    runs of the code, and \<^verbatim>\<open>BIPMOESICache\<close> compares the last two classes message by message.
  \<^item> \<^verbatim>\<open>EventQueue\<close>: the queue of \<^verbatim>\<open>EventManager.cpp\<close>, with an agenda of timed events as its
    specification. The locale \<open>event_loop\<close> says what the devices must promise (an invariant, and that a
    tick ends); under it \<open>ProcessTick\<close> never fails, ends, and does what the agenda does.
  \<^item> \<^verbatim>\<open>TestMemory\<close>: the main memory. \<^verbatim>\<open>CacheSystem\<close>: a cache, the memory and the queue together: what
    a device sends becomes a delivery after its delay and the latency of the connection. It interprets
    \<open>event_loop\<close> for every protocol of \<open>coherence\<close>.
  \<^item> \<^verbatim>\<open>SnoopyBus\<close>: the bus between the caches of a processor and the next level (arbitration, broadcast,
    collection of responses). \<^verbatim>\<open>MemNetwork\<close>: the network between nodes and the interface of the memory
    to it (\<^verbatim>\<open>RandomLoadNetwork.cpp\<close>, \<^verbatim>\<open>NetworkMemoryInterface.cpp\<close>). Both interpret \<open>device\<close>; their
    properties count requests and packets as multisets.
  \<^item> \<^verbatim>\<open>Directory\<close>: the handlers of \<^verbatim>\<open>Directory.cpp\<close>. \<^verbatim>\<open>DirectoryProps\<close>: its invariant under any messages
    in any order, the grants of exclusive ownership, the answers to readers, and what happens to writes.
    The order in which a hash container enumerates its elements is a parameter of the model (\<open>order_ok\<close>:
    it is a permutation). A run of the code shows how two nodes come to own a block at once.
  \<^item> \<^verbatim>\<open>BIPDirectory\<close>: the handlers of \<^verbatim>\<open>BIPDirectory.cpp\<close>, which counts the answers of the sharers
    it invalidates and sends naks. \<^verbatim>\<open>BIPDirectoryProps\<close>: the last of those answers, in any order, grants the
    block; readers are answered once, and given ownership only if there is one; a refused read is fetched again.
  \<^item> \<^verbatim>\<open>OriginMessages\<close>, \<^verbatim>\<open>OriginState\<close>, \<^verbatim>\<open>OriginCache\<close>, \<^verbatim>\<open>OriginWaiting\<close>, \<^verbatim>\<open>OriginDirectory\<close>: the protocol of
    the SGI Origin, \<^verbatim>\<open>OriginDirectory.cpp\<close>: its messages, the state of a device, the cache side of a node
    in its stable and in its waiting states, and the home of a block. \<^verbatim>\<open>OriginProps\<close> runs single steps of
    the cache side, \<^verbatim>\<open>OriginInv\<close> shows that every handler keeps the entries of the home consistent, and
    \<^verbatim>\<open>OriginClaims\<close> holds the properties: the entries in all reachable states, what becomes of a read,
    how many invalidations an ownership takes, and the orders in which answers may come. The objects that
    the message pools hand out are a parameter (\<open>pool\<close>): fields that nothing sets are left over from it.
  \<^item> \<^verbatim>\<open>TimeQueue\<close>: the queue of timed jobs \<^verbatim>\<open>libsuc/TQueue.h\<close> on which the whole simulator runs, and the
    clock of \<^verbatim>\<open>libsuc/callback.h\<close>. \<^verbatim>\<open>TimeQueueProps\<close>: the invariant of its lists and heap, the locale
    \<open>job_queue\<close> (what a queue must promise to the clock), that every job runs at its tick, and where rescheduling fails.
  \<^item> \<^verbatim>\<open>Interleaving\<close>: threads as programs of atomic actions on a shared store, and the locale
    \<open>lock_protocol\<close>. \<^verbatim>\<open>SyncLock\<close>, \<^verbatim>\<open>SyncBarrier\<close>, \<^verbatim>\<open>SyncFlag\<close>: the spin lock, the barrier, the
    semaphore and the flag of \<^verbatim>\<open>libapp/sesc_locks.c\<close>, for any number of threads on 32-bit words.
    \<^verbatim>\<open>NewTest\<close>: the workload \<^verbatim>\<open>libapp/newtest.c\<close> on top of the lock.
  \<^item> \<^verbatim>\<open>Coletree\<close> (union-find and Liu's algorithm), \<^verbatim>\<open>Postorder\<close>, \<^verbatim>\<open>EliminationTree\<close> (theory
    of elimination trees: how a topological renumbering changes the tree), \<^verbatim>\<open>RelaxSnode\<close>,
    \<^verbatim>\<open>Preorder\<close>: \<^verbatim>\<open>sp_coletree.c\<close>, \<^verbatim>\<open>relax_snode.c\<close> and \<^verbatim>\<open>sp_preorder.c\<close>.

  \<^bold>\<open>Bounds.\<close> Ticks, message numbers and addresses of the memory system are natural numbers: the code
  keeps them in 32 or 64 bits and a simulation ends long before they wrap. Node numbers are integers.
  Words of the thread library are 32 bits wide and wrap. No fuel is used: a loop that may not end is a
  \<^verbatim>\<open>partial_function\<close> into an option, and the theorems about it show that it returns.

  \<^bold>\<open>Not modelled.\<close> The numerical kernels, the processor core, the emulator and the power models
  (floating point, or tables of opcodes and parameters); the processor interface; configuration parsing,
  statistics and printing.
\<close>

section \<open>All caches\<close>



end
